(* ===== verification/Prelude.thy ===== *)
theory Prelude
  imports Main "HOL-Library.Word" "HOL-Library.Monad_Syntax"
begin

text \<open>
  Shared vocabulary of the development: the machine integers of the source as words,
  Rust slices as byte lists with checked access (\<open>get\<close>, \<open>get(a..b)\<close>, \<open>copy_from_slice\<close>),
  \<open>Result\<close> as a sum type with its \<open>?\<close> operator, the little- and big-endian byte
  encodings of the standard library (\<open>to_le_bytes\<close>, \<open>from_be_bytes\<close>, \<dots>) with their
  round trips, and the saturating subtraction of unsigned integers.  Nothing here is
  specific to one component.

  A Rust slice never holds more than \<open>isize::MAX\<close> bytes, so sums of lengths and offsets
  do not overflow \<open>usize\<close>; lengths and positions are therefore \<open>nat\<close>.
\<close>

unbundle bit_operations_syntax

type_synonym u8 = "8 word"
type_synonym u16 = "16 word"
type_synonym u32 = "32 word"
type_synonym u64 = "64 word"
type_synonym bytes = "u8 list"

named_theorems slice_simps "evaluation of checked slice access"
named_theorems codec_simps "encoding and decoding of integers as bytes"
named_theorems result_simps "the error monad"

section \<open>Results\<close>

text \<open>\<open>Result<T, E>\<close> is \<open>'e + 't\<close>, with \<open>Inl\<close> for \<open>Err\<close>; \<open>rbind\<close> is the \<open>?\<close> operator.\<close>

definition rbind :: "'e + 'a \<Rightarrow> ('a \<Rightarrow> 'e + 'b) \<Rightarrow> 'e + 'b" where
  "rbind r f = (case r of Inl e \<Rightarrow> Inl e | Inr v \<Rightarrow> f v)"

definition ok_or :: "'a option \<Rightarrow> 'e \<Rightarrow> 'e + 'a" where
  "ok_or x e = (case x of None \<Rightarrow> Inl e | Some v \<Rightarrow> Inr v)"

lemma rbind_simps [simp, result_simps]:
  "rbind (Inl e) f = Inl e" "rbind (Inr v) f = f v"
  by (simp_all add: rbind_def)

lemma ok_or_simps [simp, result_simps]:
  "ok_or None e = Inl e" "ok_or (Some v) e = Inr v"
  by (simp_all add: ok_or_def)

lemma rbind_eq_Inr [result_simps]:
  "rbind r f = Inr y \<longleftrightarrow> (\<exists>v. r = Inr v \<and> f v = Inr y)"
  by (cases r) auto

lemma rbind_split:
  "P (rbind r f) \<longleftrightarrow> (\<forall>e. r = Inl e \<longrightarrow> P (Inl e)) \<and> (\<forall>v. r = Inr v \<longrightarrow> P (f v))"
  by (cases r) auto

section \<open>Checked slice access\<close>

text \<open>\<open>slice.get(i)\<close>, \<open>slice.get(a..b)\<close> and \<open>slice.get(a..)\<close>.\<close>

definition get :: "'a list \<Rightarrow> nat \<Rightarrow> 'a option" where
  "get xs i = (if i < length xs then Some (xs ! i) else None)"

definition get_range :: "'a list \<Rightarrow> nat \<Rightarrow> nat \<Rightarrow> 'a list option" where
  "get_range xs a b = (if a \<le> b \<and> b \<le> length xs then Some (take (b - a) (drop a xs)) else None)"

definition get_from :: "'a list \<Rightarrow> nat \<Rightarrow> 'a list option" where
  "get_from xs a = (if a \<le> length xs then Some (drop a xs) else None)"

text \<open>\<open>slice.get_mut(a..a + len)\<close> followed by \<open>copy_from_slice\<close>.\<close>

definition overwrite :: "'a list \<Rightarrow> nat \<Rightarrow> 'a list \<Rightarrow> 'a list option" where
  "overwrite buf at bs =
     (if at + length bs \<le> length buf
      then Some (take at buf @ bs @ drop (at + length bs) buf) else None)"

text \<open>\<open>split_first_chunk\<close> and \<open>split_last_chunk\<close>.\<close>

definition split_first_chunk :: "nat \<Rightarrow> 'a list \<Rightarrow> ('a list \<times> 'a list) option" where
  "split_first_chunk n xs = (if n \<le> length xs then Some (take n xs, drop n xs) else None)"

definition split_last_chunk :: "nat \<Rightarrow> 'a list \<Rightarrow> ('a list \<times> 'a list) option" where
  "split_last_chunk n xs =
     (if n \<le> length xs then Some (take (length xs - n) xs, drop (length xs - n) xs) else None)"

lemma get_Nil [simp, slice_simps]: "get [] i = None"
  by (simp add: get_def)

lemma get_Cons_0 [simp, slice_simps]: "get (x # xs) 0 = Some x"
  by (simp add: get_def)

lemma get_Cons_Suc [simp, slice_simps]: "get (x # xs) (Suc i) = get xs i"
  by (simp add: get_def)

lemma get_Cons_numeral [simp, slice_simps]:
  "get (x # xs) (numeral k) = get xs (pred_numeral k)"
  by (simp add: get_def)

lemma get_Cons_one [simp, slice_simps]: "get (x # xs) 1 = get xs 0"
  by (simp add: get_def)

lemma get_append_left [slice_simps]: "i < length xs \<Longrightarrow> get (xs @ ys) i = get xs i"
  by (simp add: get_def nth_append)

lemma get_append_right [slice_simps]:
  "length xs \<le> i \<Longrightarrow> get (xs @ ys) i = get ys (i - length xs)"
  by (auto simp: get_def nth_append)

lemma get_eq_Some: "get xs i = Some x \<longleftrightarrow> i < length xs \<and> xs ! i = x"
  by (auto simp: get_def)

lemma get_eq_None: "get xs i = None \<longleftrightarrow> length xs \<le> i"
  by (auto simp: get_def)

lemma get_from_append: "get_from (xs @ ys) (length xs) = Some ys"
  by (simp add: get_from_def)

lemma get_range_append:
  "get_range (xs @ ys @ zs) (length xs) (length xs + length ys) = Some ys"
  by (simp add: get_range_def)

lemma overwrite_append:
  "length old = length bs \<Longrightarrow> overwrite (pre @ old @ post) (length pre) bs = Some (pre @ bs @ post)"
  by (simp add: overwrite_def)

lemma length_overwrite: "overwrite buf at bs = Some buf' \<Longrightarrow> length buf' = length buf"
  by (auto simp: overwrite_def split: if_splits)

lemma split_last_chunk_append:
  "length tag = n \<Longrightarrow> split_last_chunk n (body @ tag) = Some (body, tag)"
  by (simp add: split_last_chunk_def)

lemma split_first_chunk_append:
  "length h = n \<Longrightarrow> split_first_chunk n (h @ rest) = Some (h, rest)"
  by (simp add: split_first_chunk_def)

section \<open>Integers as bytes\<close>

definition to_le_bytes :: "nat \<Rightarrow> 'a::len word \<Rightarrow> bytes" where
  "to_le_bytes n w = map (\<lambda>i. ucast (drop_bit (8 * i) w)) [0..<n]"

fun from_le_bytes :: "bytes \<Rightarrow> 'a::len word" where
  "from_le_bytes [] = 0"
| "from_le_bytes (b # bs) = ucast b OR push_bit 8 (from_le_bytes bs)"

definition to_be_bytes :: "nat \<Rightarrow> 'a::len word \<Rightarrow> bytes" where
  "to_be_bytes n w = rev (to_le_bytes n w)"

definition from_be_bytes :: "bytes \<Rightarrow> 'a::len word" where
  "from_be_bytes bs = from_le_bytes (rev bs)"

lemma length_to_le_bytes [simp]: "length (to_le_bytes n w) = n"
  by (simp add: to_le_bytes_def)

lemma length_to_be_bytes [simp]: "length (to_be_bytes n w) = n"
  by (simp add: to_be_bytes_def)

lemma bit_from_le_bytes:
  "bit (from_le_bytes bs :: 'a::len word) k \<longleftrightarrow>
     k < LENGTH('a) \<and> k < 8 * length bs \<and> bit (bs ! (k div 8)) (k mod 8)"
proof (induction bs arbitrary: k)
  case Nil
  then show ?case by simp
next
  case (Cons b bs)
  show ?case
  proof (cases "k < 8")
    case True
    then show ?thesis by (auto simp: bit_simps)
  next
    case False
    then obtain j where k: "k = j + 8" by (metis add.commute le_Suc_ex not_less)
    have "\<not> bit b k" using False by (simp add: k bit_word.rep_eq)
    moreover have "(j + 8) div 8 - Suc 0 = j div 8" by simp
    ultimately show ?thesis
      using False by (auto simp: bit_simps Cons.IH k)
  qed
qed

lemma from_le_to_le:
  "LENGTH('a) \<le> 8 * n \<Longrightarrow> from_le_bytes (to_le_bytes n (w :: 'a::len word)) = w"
proof (rule bit_word_eqI)
  fix k
  assume len: "LENGTH('a) \<le> 8 * n" and k: "k < LENGTH('a)"
  then have "k div 8 < n" by auto
  then show "bit (from_le_bytes (to_le_bytes n w) :: 'a word) k = bit w k"
    using len k by (auto simp: bit_from_le_bytes to_le_bytes_def bit_simps)
qed

lemma from_be_to_be:
  "LENGTH('a) \<le> 8 * n \<Longrightarrow> from_be_bytes (to_be_bytes n (w :: 'a::len word)) = w"
  by (simp add: from_be_bytes_def to_be_bytes_def from_le_to_le)

lemma to_le_from_le:
  assumes "length bs = n" and "8 * n \<le> LENGTH('a)"
  shows "to_le_bytes n (from_le_bytes bs :: 'a::len word) = bs"
proof (rule nth_equalityI)
  show "length (to_le_bytes n (from_le_bytes bs :: 'a word)) = length bs"
    using assms by simp
next
  fix i
  assume "i < length (to_le_bytes n (from_le_bytes bs :: 'a word))"
  then have i: "i < n" by simp
  show "to_le_bytes n (from_le_bytes bs :: 'a word) ! i = bs ! i"
  proof (rule bit_word_eqI)
    fix k :: nat
    assume k: "k < LENGTH(8)"
    then have "8 * i + k < 8 * n" "(8 * i + k) div 8 = i" "(8 * i + k) mod 8 = k"
      using i by auto
    then show "bit (to_le_bytes n (from_le_bytes bs :: 'a word) ! i) k = bit (bs ! i) k"
      using assms i k by (auto simp: to_le_bytes_def bit_simps bit_from_le_bytes)
  qed
qed

lemma codec_roundtrips [simp, codec_simps]:
  "from_be_bytes (to_be_bytes 2 (x :: u16)) = x"
  "from_be_bytes (to_be_bytes 4 (y :: u32)) = y"
  "from_le_bytes (to_le_bytes 4 (y :: u32)) = y"
  "from_le_bytes (to_le_bytes 8 (z :: u64)) = z"
  by (simp_all add: from_be_to_be from_le_to_le)

text \<open>A big-endian field written into a header reads back from its own bytes.\<close>

lemma to_be_bytes_2: "to_be_bytes 2 (x :: 'a::len word) = [ucast (drop_bit 8 x), ucast x]"
  by (simp add: to_be_bytes_def to_le_bytes_def eval_nat_numeral)

lemma to_be_bytes_4:
  "to_be_bytes 4 (x :: 'a::len word) =
     [ucast (drop_bit 24 x), ucast (drop_bit 16 x), ucast (drop_bit 8 x), ucast x]"
  by (simp add: to_be_bytes_def to_le_bytes_def eval_nat_numeral)

lemma be16_read [simp, codec_simps]:
  "from_be_bytes [ucast (drop_bit 8 x), ucast x] = (x :: u16)"
  using codec_roundtrips(1) [of x] by (simp add: to_be_bytes_2)

lemma be32_read [simp, codec_simps]:
  "from_be_bytes [ucast (drop_bit 24 x), ucast (drop_bit 16 x), ucast (drop_bit 8 x), ucast x]
     = (x :: u32)"
  using codec_roundtrips(2) [of x] by (simp add: to_be_bytes_4)

section \<open>Unsigned arithmetic of the standard library\<close>

definition saturating_sub :: "'a::len word \<Rightarrow> 'a word \<Rightarrow> 'a word" where
  "saturating_sub a b = (if a < b then 0 else a - b)"

lemma unat_saturating_sub: "unat (saturating_sub a b) = unat a - unat b"
  by (auto simp: saturating_sub_def unat_sub word_less_nat_alt word_le_nat_alt)

definition saturating_add :: "'a::len word \<Rightarrow> 'a word \<Rightarrow> 'a word" where
  "saturating_add a b = (if a + b < a then - 1 else a + b)"

definition saturating_mul :: "'a::len word \<Rightarrow> 'a word \<Rightarrow> 'a word" where
  "saturating_mul a b = (if unat a * unat b < 2 ^ LENGTH('a) then a * b else - 1)"

lemma unat_saturating_add: "unat (saturating_add (a :: 'a::len word) b) = min (unat a + unat b) (2 ^ LENGTH('a) - 1)"
proof -
  have a: "unat a < 2 ^ LENGTH('a)" and b: "unat b < 2 ^ LENGTH('a)" by (rule unsigned_less)+
  show ?thesis
  proof (cases "unat a + unat b < 2 ^ LENGTH('a)")
    case True
    then show ?thesis by (simp add: saturating_add_def word_less_nat_alt unat_plus_if')
  next
    case False
    then have "unat (a + b) = unat a + unat b - 2 ^ LENGTH('a)" by (simp add: unat_plus_if')
    then have "unat (a + b) < unat a" using a b False by linarith
    moreover have "unat (- 1 :: 'a word) = 2 ^ LENGTH('a) - 1"
      by (simp add: unsigned_minus_1_eq_mask mask_eq_exp_minus_1)
    ultimately show ?thesis using False by (simp add: saturating_add_def word_less_nat_alt)
  qed
qed

lemma unat_succ_below:
  assumes "a < (b :: 'a::len word)"
  shows "unat (a + 1) = Suc (unat a)"
proof -
  have "unat b < 2 ^ LENGTH('a)" by (rule unsigned_less)
  moreover have "unat a < unat b" using assms by (simp add: word_less_nat_alt)
  ultimately have "Suc (unat a) < 2 ^ LENGTH('a)" by linarith
  then show ?thesis by (simp add: unat_word_ariths)
qed

lemma unat_bounds:
  "unat (a :: u8) < 256" "unat (b :: u16) < 65536" "unat (c :: u32) < 2 ^ 32" "unat (d :: u64) < 2 ^ 64"
  using unsigned_less [where 'a = nat, of a] unsigned_less [where 'a = nat, of b]
    unsigned_less [where 'a = nat, of c] unsigned_less [where 'a = nat, of d] by simp_all

lemma unat_shiftr: "unat (drop_bit n w) = unat w div 2 ^ n"
  by (rule trans [OF unat_drop_bit_eq drop_bit_eq_div])

lemma unat_and_mask: "unat (w AND mask n) = unat w mod 2 ^ n"
  unfolding take_bit_eq_mask [symmetric]
  by (rule trans [OF unsigned_take_bit_eq take_bit_eq_mod])

lemma unat_ucast_mod: "unat (ucast (w :: 'a::len word) :: 'b::len word) = unat w mod 2 ^ LENGTH('b)"
  by (rule trans [OF unsigned_ucast_eq take_bit_eq_mod])

lemma xor_self_cancel: "(a XOR k) XOR k = (a :: 'a::len word)"
  by (simp add: xor.assoc)

lemma map2_xor_cancel:
  "length ks = length xs \<Longrightarrow> map2 (\<lambda>m k. m XOR k) (map2 (\<lambda>m k. m XOR k) xs ks) ks = (xs :: u8 list)"
  by (induction xs ks rule: list_induct2') (auto simp: xor_self_cancel)

end
