(* ===== verification/Framing.thy ===== *)
theory Framing
  imports Prelude
begin

text \<open>
  Transport-packet framing (\<open>paqetz-core/src/framing.rs\<close>) and the errors of the core crate
  (\<open>paqetz-core/src/lib.rs\<close>).  A packet is a masked 12-byte header, ciphertext and a
  16-byte tag; the header is \<open>counter || index\<close> XORed with a keystream derived from the
  tag.

  BLAKE2s and ChaCha8 come from other crates.  They are the fields of \<open>crypto\<close>, a
  parameter of every definition that uses them; \<open>crypto_ok\<close> states the output lengths
  their types promise.
\<close>

section \<open>The cryptographic primitives, as parameters\<close>

record crypto =
  blake2s256 :: "bytes \<Rightarrow> bytes"
  blake2s_mac16 :: "bytes \<Rightarrow> bytes \<Rightarrow> bytes"
  chacha8 :: "bytes \<Rightarrow> bytes \<Rightarrow> nat \<Rightarrow> bytes"

definition crypto_ok :: "crypto \<Rightarrow> bool" where
  "crypto_ok C \<longleftrightarrow> (\<forall>x. length (blake2s256 C x) = 32) \<and>
     (\<forall>k x. length (blake2s_mac16 C k x) = 16) \<and> (\<forall>k n m. length (chacha8 C k n m) = m)"

section \<open>Errors of the core crate\<close>

type_synonym Millis = u64

datatype core_error =
    Short nat nat
  | Rejected
  | Replayed
  | Expired
  | Unauthorized
  | MalformedKey string
  | Noise

section \<open>Keys\<close>

text \<open>A key is an array of 32 bytes; \<open>key_ok\<close> is what its type says.\<close>

definition KEY_LEN :: nat where
  "KEY_LEN = 32"

type_synonym public_key = bytes
type_synonym private_key = bytes

definition key_ok :: "bytes \<Rightarrow> bool" where
  "key_ok k \<longleftrightarrow> length k = KEY_LEN"

text \<open>
  \<open>PublicKey::from_base64\<close> and \<open>PrivateKey::from_base64\<close>; \<open>decode\<close> is the base64 engine's
  decoder and \<open>trim\<close> the standard library's, both given.
\<close>

definition from_base64 ::
  "(string \<Rightarrow> bytes option) \<Rightarrow> (string \<Rightarrow> string) \<Rightarrow> string \<Rightarrow> core_error + bytes" where
  "from_base64 decode trim s =
     rbind (ok_or (decode (trim s)) (MalformedKey ''not valid base64''))
       (\<lambda>raw. if length raw = KEY_LEN then Inr raw
              else Inl (MalformedKey ''wrong length for an X25519 key''))"

definition to_base64 :: "(bytes \<Rightarrow> string) \<Rightarrow> bytes \<Rightarrow> string" where
  "to_base64 encode k = encode k"

section \<open>The header mask\<close>

definition HEADER_LEN :: nat where
  "HEADER_LEN = 12"

definition TAG_LEN :: nat where
  "TAG_LEN = 16"

definition OVERHEAD :: nat where
  "OVERHEAD = HEADER_LEN + TAG_LEN"

definition ascii :: "string \<Rightarrow> bytes" where
  "ascii s = map of_char s"

definition HEADER_MASK_LABEL :: bytes where
  "HEADER_MASK_LABEL = ascii ''paqetz-idx-v1''"

definition NONCE_LEN :: nat where
  "NONCE_LEN = 12"

record header =
  h_counter :: u64
  h_index :: u32

record header_mask =
  mask_key :: bytes

definition derive :: "crypto \<Rightarrow> public_key \<Rightarrow> header_mask" where
  "derive C responder_static_public =
     \<lparr>mask_key = blake2s256 C (HEADER_MASK_LABEL @ responder_static_public)\<rparr>"

definition keystream :: "crypto \<Rightarrow> header_mask \<Rightarrow> bytes \<Rightarrow> bytes" where
  "keystream C m tag =
     (let nonce = (case split_first_chunk NONCE_LEN tag of
                     None \<Rightarrow> replicate NONCE_LEN 0 | Some (n, _) \<Rightarrow> n)
      in chacha8 C (mask_key m) nonce HEADER_LEN)"

definition header_bytes :: "header \<Rightarrow> bytes" where
  "header_bytes h = to_le_bytes 8 (h_counter h) @ to_le_bytes 4 (h_index h)"

definition mask_header :: "crypto \<Rightarrow> header_mask \<Rightarrow> bytes \<Rightarrow> header \<Rightarrow> bytes" where
  "mask_header C m tag h =
     map2 (\<lambda>b k. b XOR k) (header_bytes h) (keystream C m tag)"

definition unmask_header :: "crypto \<Rightarrow> header_mask \<Rightarrow> bytes \<Rightarrow> bytes \<Rightarrow> header" where
  "unmask_header C m tag masked =
     (let plain = map2 (\<lambda>b k. b XOR k) masked (keystream C m tag)
      in \<lparr>h_counter = from_le_bytes (take 8 plain), h_index = from_le_bytes (drop 8 plain)\<rparr>)"

text \<open>\<open>split\<close>: the masked header, the body with its trailing tag, and a copy of the tag.\<close>

definition split_packet :: "bytes \<Rightarrow> core_error + (bytes \<times> bytes \<times> bytes)" where
  "split_packet packet =
     rbind (ok_or (split_first_chunk HEADER_LEN packet) (Short OVERHEAD (length packet)))
       (\<lambda>(hdr, body).
          rbind (ok_or (split_last_chunk TAG_LEN body) (Short OVERHEAD (length packet)))
            (\<lambda>(_, tag). Inr (hdr, body, tag)))"

section \<open>Lemmas\<close>

lemmas framing_consts = HEADER_LEN_def TAG_LEN_def OVERHEAD_def NONCE_LEN_def

lemma length_header_bytes [simp]: "length (header_bytes h) = HEADER_LEN"
  by (simp add: header_bytes_def framing_consts)

lemma length_keystream: "crypto_ok C \<Longrightarrow> length (keystream C m tag) = HEADER_LEN"
  by (simp add: keystream_def crypto_ok_def Let_def)

lemma length_mask_header: "crypto_ok C \<Longrightarrow> length (mask_header C m tag h) = HEADER_LEN"
  by (simp add: mask_header_def length_keystream)

lemma header_bytes_decode:
  "from_le_bytes (take 8 (header_bytes h)) = h_counter h"
  "from_le_bytes (drop 8 (header_bytes h)) = h_index h"
  by (simp_all add: header_bytes_def)

lemma unmask_mask: "crypto_ok C \<Longrightarrow> unmask_header C m tag (mask_header C m tag h) = h"
  using map2_xor_cancel [of "keystream C m tag" "header_bytes h"]
  by (simp add: unmask_header_def mask_header_def length_keystream header_bytes_decode Let_def)

lemma header_bytes_eq_iff: "header_bytes h = header_bytes h' \<longleftrightarrow> h = h'"
  by (metis header.equality header_bytes_decode old.unit.exhaust)

lemma mask_unmask:
  assumes "crypto_ok C" and "length masked = HEADER_LEN"
  shows "mask_header C m tag (unmask_header C m tag masked) = masked"
proof -
  let ?ks = "keystream C m tag"
  let ?plain = "map2 (\<lambda>b k. b XOR k) masked ?ks"
  have len: "length ?ks = HEADER_LEN" using assms(1) by (rule length_keystream)
  have "header_bytes (unmask_header C m tag masked) = take 8 ?plain @ drop 8 ?plain"
    using assms(2) len
    by (simp add: header_bytes_def unmask_header_def Let_def to_le_from_le framing_consts)
  then have "header_bytes (unmask_header C m tag masked) = ?plain" by simp
  then show ?thesis
    using map2_xor_cancel [of ?ks masked] assms(2) len by (simp add: mask_header_def)
qed

lemma split_packet_parts:
  assumes "length hdr = HEADER_LEN" and "length tag = TAG_LEN"
  shows "split_packet (hdr @ body @ tag) = Inr (hdr, body @ tag, tag)"
  using assms
  by (simp add: split_packet_def split_first_chunk_append split_last_chunk_append)

lemma split_packet_Inr:
  "split_packet p = Inr (hdr, body, tag) \<Longrightarrow>
     p = hdr @ body \<and> length hdr = HEADER_LEN \<and> length tag = TAG_LEN \<and>
     tag = drop (length body - TAG_LEN) body \<and> TAG_LEN \<le> length body"
  by (auto simp: split_packet_def split_first_chunk_def split_last_chunk_def rbind_def ok_or_def
      split: if_splits)

lemma split_packet_short:
  "length p < OVERHEAD \<longleftrightarrow> split_packet p = Inl (Short OVERHEAD (length p))"
  by (auto simp: split_packet_def split_first_chunk_def split_last_chunk_def rbind_def ok_or_def
      framing_consts split: if_splits)

section \<open>Properties\<close>

text \<open>A toy instance of the primitives, for witnesses only.\<close>

definition toy_crypto :: crypto where
  "toy_crypto = \<lparr>blake2s256 = (\<lambda>x. take 32 (x @ replicate 32 7)),
     blake2s_mac16 = (\<lambda>k x. take 16 (rev x @ k @ replicate 16 9)),
     chacha8 = (\<lambda>k n m. take m (rev n @ k @ replicate m 5))\<rparr>"

lemma toy_crypto_ok [simp]: "crypto_ok toy_crypto"
  by (simp add: crypto_ok_def toy_crypto_def min_def)

text \<open>The mask is a bijection between headers and 12-byte strings, for every tag: unmasking
  what was masked gives the header back, and every 12 bytes are the mask of exactly the header
  they unmask to.\<close>

theorem header_mask_bijective:
  assumes "crypto_ok C"
  shows "unmask_header C m tag (mask_header C m tag h) = h \<and>
    (length masked = HEADER_LEN \<longrightarrow>
       mask_header C m tag (unmask_header C m tag masked) = masked)"
  using assms by (simp add: unmask_mask mask_unmask)

theorem header_mask_bijective_witness:
  "unmask_header toy_crypto (derive toy_crypto (replicate 32 3)) (replicate 16 165)
     (mask_header toy_crypto (derive toy_crypto (replicate 32 3)) (replicate 16 165)
        \<lparr>h_counter = 81985529216486895, h_index = 3735928559\<rparr>)
   = \<lparr>h_counter = 81985529216486895, h_index = 3735928559\<rparr> \<and>
   mask_header toy_crypto (derive toy_crypto (replicate 32 3)) (replicate 16 165)
     (unmask_header toy_crypto (derive toy_crypto (replicate 32 3)) (replicate 16 165)
        (replicate 12 1)) = replicate 12 1"
  using header_mask_bijective [OF toy_crypto_ok, of "derive toy_crypto (replicate 32 3)"
      "replicate 16 165" "\<lparr>h_counter = 81985529216486895, h_index = 3735928559\<rparr>" "replicate 12 1"]
  by (simp add: HEADER_LEN_def)

text \<open>Splitting a received packet fails exactly when it cannot hold a header and a tag, with
  the error naming the required and the actual length; otherwise header and body partition the
  packet and the tag is the last 16 bytes of the body.\<close>

theorem split_packet_total:
  "(length p < OVERHEAD \<and> split_packet p = Inl (Short OVERHEAD (length p))) \<or>
   (\<exists>hdr rest tag. split_packet p = Inr (hdr, rest @ tag, tag) \<and> p = hdr @ rest @ tag \<and>
      length hdr = HEADER_LEN \<and> length tag = TAG_LEN)"
proof (cases "length p < OVERHEAD")
  case True
  then show ?thesis by (simp add: split_packet_short)
next
  case False
  let ?hdr = "take HEADER_LEN p" and ?b = "drop HEADER_LEN p"
  let ?rest = "take (length ?b - TAG_LEN) ?b" and ?tag = "drop (length ?b - TAG_LEN) ?b"
  from False have "length ?hdr = HEADER_LEN" "length ?tag = TAG_LEN"
    by (simp_all add: framing_consts)
  moreover have "p = ?hdr @ ?rest @ ?tag" by (metis append_take_drop_id)
  ultimately have "split_packet p = Inr (?hdr, ?rest @ ?tag, ?tag)"
    using split_packet_parts by metis
  with \<open>length ?hdr = HEADER_LEN\<close> \<open>length ?tag = TAG_LEN\<close> \<open>p = ?hdr @ ?rest @ ?tag\<close>
  show ?thesis by blast
qed

end
