(* ===== verification/Repeat.thy ===== *)
theory Repeat
  imports Framing "HOL-Library.Multiset"
begin

text \<open>
  Selective repeat (\<open>paqetz/src/repeat.rs\<close>): control messages inside the tunnel, the ring of recently
  sent packets (\<open>outbox\<close>), and the table of counters that have not arrived (\<open>inbox\<close>).  The
  \<open>BTreeMap\<close> of the source is an association list kept in key order; \<open>inbox_ok\<close> is the invariant of
  the table, \<open>inbox_run\<close> the events of one session and \<open>inbox_mixed\<close> those of sessions that take turns.
\<close>

section \<open>Constants and data\<close>

definition MARKER :: u8 where "MARKER = 0x00"
definition KIND_NACK :: u8 where "KIND_NACK = 1"
definition KIND_REPEAT :: u8 where "KIND_REPEAT = 2"
definition KIND_BYE :: u8 where "KIND_BYE = 3"
definition DEFAULT_REORDER :: u64 where "DEFAULT_REORDER = 3"
definition DEFAULT_DEADLINE :: Millis where "DEFAULT_DEADLINE = 400"
definition DEFAULT_ASKS :: u8 where "DEFAULT_ASKS = 2"
definition MAX_OUTSTANDING :: nat where "MAX_OUTSTANDING = 512"
definition REPEAT_OVERHEAD :: nat where "REPEAT_OVERHEAD = 10"
definition ASK_SCAN :: nat where "ASK_SCAN = 8"
definition BYE :: bytes where "BYE = [MARKER, KIND_BYE]"

lemmas repeat_consts = MARKER_def KIND_NACK_def KIND_REPEAT_def KIND_BYE_def MAX_OUTSTANDING_def
  REPEAT_OVERHEAD_def ASK_SCAN_def BYE_def

record limits =
  l_capacity :: nat
  l_deadline :: Millis
  l_asks :: u8
  l_reorder :: u64

definition limits_off :: limits where
  "limits_off = \<lparr>l_capacity = 0, l_deadline = DEFAULT_DEADLINE, l_asks = DEFAULT_ASKS,
     l_reorder = DEFAULT_REORDER\<rparr>"

datatype control = Nack "u64 list" | Repeat u64 bytes | Bye

section \<open>Control messages\<close>

text \<open>The loop that reads \<open>count\<close> counters.\<close>

fun read_counters :: "nat \<Rightarrow> bytes \<Rightarrow> u64 list option" where
  "read_counters 0 rest = Some []"
| "read_counters (Suc n) rest = do {
     (bs, tail) \<leftarrow> split_first_chunk 8 rest;
     cs \<leftarrow> read_counters n tail;
     Some (from_le_bytes bs # cs)
   }"

definition control_parse :: "bytes \<Rightarrow> control option" where
  "control_parse payload =
     (case payload of
        first # knd # rest \<Rightarrow>
          if first \<noteq> MARKER then None
          else if knd = KIND_NACK then
            (case rest of
               n # rest' \<Rightarrow> map_option Nack (read_counters (unat n) rest')
             | [] \<Rightarrow> None)
          else if knd = KIND_REPEAT then
            (case split_first_chunk 8 rest of
               Some (bs, packet) \<Rightarrow> Some (Repeat (from_le_bytes bs) packet)
             | None \<Rightarrow> None)
          else if knd = KIND_BYE then Some Bye
          else None
      | _ \<Rightarrow> None)"

definition write_nack :: "u64 list \<Rightarrow> bytes \<Rightarrow> (nat \<times> bytes) option" where
  "write_nack counters out =
     (if length counters \<ge> 256 then None
      else let need = 3 + length counters * 8 in
        if need > length out then None
        else Some (need, [MARKER, KIND_NACK, of_nat (length counters)]
               @ concat (map (to_le_bytes 8) counters) @ drop need out))"

definition write_repeat :: "u64 \<Rightarrow> bytes \<Rightarrow> bytes \<Rightarrow> (nat \<times> bytes) option" where
  "write_repeat original packet out =
     (let need = 10 + length packet in
      if need > length out then None
      else Some (need, [MARKER, KIND_REPEAT] @ to_le_bytes 8 original @ packet @ drop need out))"

section \<open>The sending side\<close>

record slot =
  sl_counter :: "u64 option"
  sl_at :: Millis
  sl_buf :: bytes

record outbox =
  ob_slots :: "slot list"
  ob_deadline :: Millis

definition outbox_new :: "limits \<Rightarrow> outbox" where
  "outbox_new l = \<lparr>ob_slots = replicate (l_capacity l) \<lparr>sl_counter = None, sl_at = 0, sl_buf = []\<rparr>,
     ob_deadline = l_deadline l\<rparr>"

text \<open>\<open>counter % capacity\<close>; a \<open>usize\<close> capacity fits in a \<open>u64\<close>.\<close>

definition outbox_slot :: "outbox \<Rightarrow> u64 \<Rightarrow> nat option" where
  "outbox_slot ob counter =
     (let capacity = length (ob_slots ob) in
      if capacity = 0 then None else Some (unat counter mod capacity))"

definition outbox_clear :: "outbox \<Rightarrow> outbox" where
  "outbox_clear ob = ob\<lparr>ob_slots := map (\<lambda>s. s\<lparr>sl_counter := None\<rparr>) (ob_slots ob)\<rparr>"

definition outbox_record :: "outbox \<Rightarrow> u64 \<Rightarrow> bytes \<Rightarrow> Millis \<Rightarrow> outbox" where
  "outbox_record ob counter packet now =
     (case outbox_slot ob counter of
        None \<Rightarrow> ob
      | Some index \<Rightarrow>
          (case get (ob_slots ob) index of
             None \<Rightarrow> ob
           | Some s \<Rightarrow> ob\<lparr>ob_slots := (ob_slots ob)[index :=
               s\<lparr>sl_buf := packet, sl_counter := Some counter, sl_at := now\<rparr>]\<rparr>))"

definition outbox_get :: "outbox \<Rightarrow> u64 \<Rightarrow> Millis \<Rightarrow> bytes option" where
  "outbox_get ob counter now = do {
     index \<leftarrow> outbox_slot ob counter;
     s \<leftarrow> get (ob_slots ob) index;
     if sl_counter s = Some counter \<and> saturating_sub now (sl_at s) \<le> ob_deadline ob
     then Some (sl_buf s) else None
   }"

section \<open>The receiving side\<close>

record gap =
  g_seen :: Millis
  g_asked_at :: "u64 option"
  g_asks :: u8

type_synonym gap_map = "(u64 \<times> gap) list"

record inbox =
  ib_index :: "u32 option"
  ib_highest :: "u64 option"
  ib_gaps :: gap_map
  ib_deadline :: Millis
  ib_asks :: u8
  ib_reorder :: u64

definition inbox_new :: "limits \<Rightarrow> inbox" where
  "inbox_new l = \<lparr>ib_index = None, ib_highest = None, ib_gaps = [], ib_deadline = l_deadline l,
     ib_asks = l_asks l, ib_reorder = l_reorder l\<rparr>"

text \<open>\<open>BTreeMap::remove\<close> and \<open>entry(k).or_insert(v)\<close>.\<close>

definition bt_remove :: "'k \<Rightarrow> ('k \<times> 'v) list \<Rightarrow> ('k \<times> 'v) list" where
  "bt_remove k m = filter (\<lambda>e. fst e \<noteq> k) m"

fun or_insert :: "'k::linorder \<Rightarrow> 'v \<Rightarrow> ('k \<times> 'v) list \<Rightarrow> ('k \<times> 'v) list" where
  "or_insert k v [] = [(k, v)]"
| "or_insert k v ((k', v') # m) =
     (if k < k' then (k, v) # (k', v') # m
      else if k = k' then (k', v') # m
      else (k', v') # or_insert k v m)"

text \<open>The loop over \<open>(highest + 1)..counter\<close>, cut off at \<open>MAX_OUTSTANDING\<close> entries.\<close>

function note_missing :: "u64 \<Rightarrow> u64 \<Rightarrow> Millis \<Rightarrow> gap_map \<Rightarrow> gap_map" where
  "note_missing missing counter now gaps =
     (if missing < counter
      then if length gaps \<ge> MAX_OUTSTANDING then gaps
           else note_missing (missing + 1) counter now
                  (or_insert missing \<lparr>g_seen = now, g_asked_at = None, g_asks = 0\<rparr> gaps)
      else gaps)"
  by auto
termination
proof (relation "measure (\<lambda>(missing, counter, _, _). unat counter - unat missing)")
  fix missing counter :: u64
  assume "missing < counter"
  then show "((missing + 1, counter, x, y), missing, counter, x, z)
      \<in> measure (\<lambda>(missing, counter, _, _). unat counter - unat missing)" for x y z
    using unat_succ_below [of missing counter] by (simp add: word_less_nat_alt)
qed simp

declare note_missing.simps [simp del]

text \<open>Giving up on the oldest, from the front, while they are past the deadline.\<close>

fun give_up :: "Millis \<Rightarrow> Millis \<Rightarrow> gap_map \<Rightarrow> gap_map" where
  "give_up now deadline [] = []"
| "give_up now deadline ((at, g) # gaps) =
     (if saturating_sub now (g_seen g) > deadline then give_up now deadline gaps else (at, g) # gaps)"

text \<open>The scan of the first gaps: the gaps as updated, the counters to ask for, the counters spent.\<close>

definition gap_moved :: "u64 \<Rightarrow> u64 \<Rightarrow> gap \<Rightarrow> u64" where
  "gap_moved hi at g =
     (case g_asked_at g of None \<Rightarrow> saturating_sub hi at | Some asked \<Rightarrow> saturating_sub hi asked)"

definition ask_again :: "u64 \<Rightarrow> gap \<Rightarrow> gap" where
  "ask_again hi g =
     g\<lparr>g_asks := (if g_asks g = 255 then 255 else g_asks g + 1), g_asked_at := Some hi\<rparr>"

fun ask_scan :: "nat \<Rightarrow> u64 \<Rightarrow> u64 \<Rightarrow> u8 \<Rightarrow> gap_map \<Rightarrow> gap_map \<times> u64 list \<times> u64 list" where
  "ask_scan 0 hi reorder asks gaps = (gaps, [], [])"
| "ask_scan (Suc n) hi reorder asks [] = ([], [], [])"
| "ask_scan (Suc n) hi reorder asks ((at, g) # gaps) =
     (let (gaps', ask, spent) = ask_scan n hi reorder asks gaps in
      if gap_moved hi at g < reorder then ((at, g) # gaps', ask, spent)
      else let g' = ask_again hi g in
        ((at, g') # gaps', at # ask, if g_asks g' \<ge> asks then at # spent else spent))"

definition enter_session :: "inbox \<Rightarrow> u32 \<Rightarrow> inbox" where
  "enter_session ib index =
     (if ib_index ib \<noteq> Some index
      then ib\<lparr>ib_index := Some index, ib_highest := None, ib_gaps := []\<rparr> else ib)"

definition advance_highest :: "inbox \<Rightarrow> u64 \<Rightarrow> Millis \<Rightarrow> inbox" where
  "advance_highest ib counter now =
     (case ib_highest ib of
        None \<Rightarrow> ib\<lparr>ib_highest := Some counter\<rparr>
      | Some hi \<Rightarrow>
          if counter > hi
          then ib\<lparr>ib_gaps := note_missing (hi + 1) counter now (ib_gaps ib), ib_highest := Some counter\<rparr>
          else ib)"

definition arrived :: "inbox \<Rightarrow> u32 \<Rightarrow> u64 \<Rightarrow> Millis \<Rightarrow> u64 list \<times> inbox" where
  "arrived ib index counter now =
     (let ib1 = enter_session ib index;
          ib2 = ib1\<lparr>ib_gaps := bt_remove counter (ib_gaps ib1)\<rparr>;
          ib3 = advance_highest ib2 counter now
      in case ib_highest ib3 of
           None \<Rightarrow> ([], ib3)
         | Some hi \<Rightarrow>
             (let gaps = give_up now (ib_deadline ib3) (ib_gaps ib3);
                  (gaps', ask, spent) = ask_scan ASK_SCAN hi (ib_reorder ib3) (ib_asks ib3) gaps
              in (ask, ib3\<lparr>ib_gaps := fold bt_remove spent gaps'\<rparr>)))"

definition satisfied :: "inbox \<Rightarrow> u64 \<Rightarrow> bool \<times> inbox" where
  "satisfied ib counter =
     (map_of (ib_gaps ib) counter \<noteq> None, ib\<lparr>ib_gaps := bt_remove counter (ib_gaps ib)\<rparr>)"

section \<open>Requests and answers as the tunnel sends them\<close>

text \<open>The bodies \<open>ask_for\<close> and \<open>repeat\<close> of \<open>tunnel.rs\<close> seal, and what \<open>handle_transport\<close> collects
  from the outbox for a request.\<close>

definition request_body :: "u64 list \<Rightarrow> bytes option" where
  "request_body counters = do {
     (n, buf) \<leftarrow> write_nack counters (replicate (3 + length counters * 8) 0);
     get_range buf 0 n
   }"

definition repeat_body :: "u64 \<Rightarrow> bytes \<Rightarrow> bytes option" where
  "repeat_body original packet = do {
     (n, buf) \<leftarrow> write_repeat original packet (replicate (REPEAT_OVERHEAD + length packet) 0);
     get_range buf 0 n
   }"

fun answers :: "outbox \<Rightarrow> Millis \<Rightarrow> u64 list \<Rightarrow> (u64 \<times> bytes) list" where
  "answers ob now [] = []"
| "answers ob now (w # wanted) =
     (case outbox_get ob w now of
        Some held \<Rightarrow> (w, held) # answers ob now wanted
      | None \<Rightarrow> answers ob now wanted)"

section \<open>Control messages: round trips\<close>

lemma read_counters_written:
  "read_counters (length cs) (concat (map (to_le_bytes 8) cs) @ rest) = Some cs"
  by (induction cs) (simp_all add: split_first_chunk_def)

lemma length_written_counters: "length (concat (map (to_le_bytes 8) cs)) = 8 * length (cs :: u64 list)"
  by (induction cs) simp_all

lemma nack_written:
  assumes "length cs < 256" and "3 + 8 * length cs \<le> length out"
  shows "write_nack cs out = Some (3 + length cs * 8,
           [MARKER, KIND_NACK, of_nat (length cs)] @ concat (map (to_le_bytes 8) cs) @ drop (3 + length cs * 8) out)"
    and "control_parse ([MARKER, KIND_NACK, of_nat (length cs)] @ concat (map (to_le_bytes 8) cs)) = Some (Nack cs)"
  using assms read_counters_written [of cs "[]"]
  by (simp_all add: write_nack_def control_parse_def Let_def unat_of_nat)

lemma repeat_written:
  assumes "REPEAT_OVERHEAD + length packet \<le> length out"
  shows "write_repeat c packet out = Some (10 + length packet,
           [MARKER, KIND_REPEAT] @ to_le_bytes 8 c @ packet @ drop (10 + length packet) out)"
    and "control_parse ([MARKER, KIND_REPEAT] @ to_le_bytes 8 c @ packet) = Some (Repeat c packet)"
  using assms by (simp_all add: write_repeat_def control_parse_def Let_def repeat_consts split_first_chunk_def)

text \<open>Every control message reads back as it was written: a request for up to 255 counters, a repeat
  with its packet, a goodbye with or without trailing bytes.  A write fails only when the buffer is too
  small (or, for a request, when the count does not fit its byte), and no inner packet is ever taken for
  a control message: an IPv4 or IPv6 header never starts with a zero byte.\<close>

theorem control_roundtrip:
  "(case write_nack cs out of
      Some (n, buf) \<Rightarrow> length cs < 256 \<and> n \<le> length out \<and> length buf = length out \<and>
        control_parse (take n buf) = Some (Nack cs) \<and> drop n buf = drop n out
    | None \<Rightarrow> 256 \<le> length cs \<or> length out < 3 + 8 * length cs) \<and>
   (case write_repeat c packet out of
      Some (n, buf) \<Rightarrow> n = REPEAT_OVERHEAD + length packet \<and> length buf = length out \<and>
        control_parse (take n buf) = Some (Repeat c packet) \<and> drop n buf = drop n out
    | None \<Rightarrow> length out < REPEAT_OVERHEAD + length packet) \<and>
   control_parse (BYE @ tail) = Some Bye \<and>
   (if drop_bit 4 b = (4 :: u8) \<or> drop_bit 4 b = 6 then control_parse (b # inner) = None else True)"
proof -
  have nack: "case write_nack cs out of
      Some (n, buf) \<Rightarrow> length cs < 256 \<and> n \<le> length out \<and> length buf = length out \<and>
        control_parse (take n buf) = Some (Nack cs) \<and> drop n buf = drop n out
    | None \<Rightarrow> 256 \<le> length cs \<or> length out < 3 + 8 * length cs"
  proof (cases "length cs < 256 \<and> 3 + 8 * length cs \<le> length out")
    case True
    define w where "w = [MARKER, KIND_NACK, of_nat (length cs)] @ concat (map (to_le_bytes 8) cs)"
    have "length w = 3 + length cs * 8" by (simp add: w_def length_written_counters)
    moreover have "write_nack cs out = Some (3 + length cs * 8, w @ drop (3 + length cs * 8) out)"
      "control_parse w = Some (Nack cs)"
      using True nack_written [of cs out] by (simp_all add: w_def)
    ultimately show ?thesis using True by simp
  qed (auto simp: write_nack_def Let_def)
  have rep: "case write_repeat c packet out of
      Some (n, buf) \<Rightarrow> n = REPEAT_OVERHEAD + length packet \<and> length buf = length out \<and>
        control_parse (take n buf) = Some (Repeat c packet) \<and> drop n buf = drop n out
    | None \<Rightarrow> length out < REPEAT_OVERHEAD + length packet"
  proof (cases "REPEAT_OVERHEAD + length packet \<le> length out")
    case True
    define w where "w = [MARKER, KIND_REPEAT] @ to_le_bytes 8 c @ packet"
    have "length w = 10 + length packet" by (simp add: w_def)
    moreover have "write_repeat c packet out = Some (10 + length packet, w @ drop (10 + length packet) out)"
      "control_parse w = Some (Repeat c packet)"
      using True repeat_written [of packet out c] by (simp_all add: w_def)
    ultimately show ?thesis using True by (simp add: REPEAT_OVERHEAD_def)
  qed (auto simp: write_repeat_def Let_def REPEAT_OVERHEAD_def)
  have "control_parse (b # inner) = None" if "drop_bit 4 b = 4 \<or> drop_bit 4 b = 6"
  proof -
    have "b \<noteq> MARKER" using that by (auto simp: MARKER_def)
    then show ?thesis by (simp add: control_parse_def split: list.split)
  qed
  then show ?thesis using nack rep by (simp add: control_parse_def repeat_consts)
qed

section \<open>The outbox as a store\<close>

text \<open>What the answering side relies on: recording a packet displaces exactly those whose counters clash
  with it, and a lookup yields what was recorded last in that place, if it is the packet asked for and
  still young enough.\<close>

locale repeat_store =
  fixes record_packet :: "'s \<Rightarrow> u64 \<Rightarrow> bytes \<Rightarrow> Millis \<Rightarrow> 's"
    and lookup :: "'s \<Rightarrow> u64 \<Rightarrow> Millis \<Rightarrow> bytes option"
    and forget :: "'s \<Rightarrow> 's"
    and holds_any :: "'s \<Rightarrow> bool"
    and clash :: "'s \<Rightarrow> u64 \<Rightarrow> u64 \<Rightarrow> bool"
    and young :: "'s \<Rightarrow> Millis \<Rightarrow> Millis \<Rightarrow> bool"
  assumes lookup_record: "holds_any s \<Longrightarrow>
      lookup (record_packet s k p t) c now =
        (if clash s k c then (if k = c \<and> young s t now then Some p else None) else lookup s c now)"
    and lookup_idle: "\<not> holds_any s \<Longrightarrow> lookup s c now = None"
    and clash_refl: "clash s c c"
    and record_frame: "holds_any (record_packet s k p t) = holds_any s"
      "clash (record_packet s k p t) = clash s" "young (record_packet s k p t) = young s"
    and lookup_forget: "lookup (forget s) c now = None"

fun record_all :: "('s \<Rightarrow> u64 \<Rightarrow> bytes \<Rightarrow> Millis \<Rightarrow> 's) \<Rightarrow> 's \<Rightarrow> (u64 \<times> bytes \<times> Millis) list \<Rightarrow> 's" where
  "record_all record_packet s [] = s"
| "record_all record_packet s ((k, p, t) # rs) = record_all record_packet (record_packet s k p t) rs"

lemma record_all_snoc:
  "record_all r s (rs @ [(k, p, t)]) = r (record_all r s rs) k p t"
  by (induction r s rs rule: record_all.induct) simp_all

context repeat_store
begin

lemma record_all_frame:
  "holds_any (record_all record_packet s rs) = holds_any s"
  "clash (record_all record_packet s rs) = clash s" "young (record_all record_packet s rs) = young s"
  by (induction rs arbitrary: s rule: list.induct) (auto simp: record_frame)

lemma lookup_recorded:
  assumes "sorted_wrt (<) (map fst rs)" and "lookup (forget s) = lookup s"
  shows "lookup (record_all record_packet s rs) c now = Some p \<longleftrightarrow>
    holds_any s \<and> (\<exists>t. (c, p, t) \<in> set rs \<and> young s t now) \<and> (\<forall>r\<in>set rs. c < fst r \<longrightarrow> \<not> clash s (fst r) c)"
  using assms(1)
proof (induction rs rule: rev_induct)
  case Nil
  have "lookup s c now = None" using assms(2) lookup_forget [of s c now] by simp
  then show ?case by simp
next
  case (snoc r rs)
  obtain k q t where r: "r = (k, q, t)" by (cases r)
  have below: "\<forall>x\<in>set rs. fst x < k" and sorted: "sorted_wrt (<) (map fst rs)"
    using snoc.prems by (auto simp: r sorted_wrt_append)
  show ?case
  proof (cases "holds_any s")
    case False
    then show ?thesis using record_all_frame(1) [of s "rs @ [r]"] lookup_idle by simp
  next
    case True
    then have any: "holds_any (record_all record_packet s rs)" by (simp add: record_all_frame)
    show ?thesis
    proof (cases "clash s k c")
      case clash: True
      show ?thesis
      proof (cases "k = c")
        case True
        then show ?thesis using below clash \<open>holds_any s\<close>
          by (force simp: r record_all_snoc lookup_record [OF any] record_all_frame)
      next
        case False
        have "c < k" if "(c, p, u) \<in> set rs" for u using below that by force
        then show ?thesis using False clash
          by (auto simp: r record_all_snoc lookup_record [OF any] record_all_frame)
      qed
    next
      case False
      then have "k \<noteq> c" using clash_refl by blast
      then show ?thesis using False snoc.IH [OF sorted]
        by (auto simp: r record_all_snoc lookup_record [OF any] record_all_frame)
    qed
  qed
qed

end

lemma outbox_slot_eq: "ob_slots ob \<noteq> [] \<Longrightarrow> outbox_slot ob c = Some (unat c mod length (ob_slots ob))"
  by (simp add: outbox_slot_def)

lemma outbox_record_frame [simp]:
  "length (ob_slots (outbox_record ob k p t)) = length (ob_slots ob)"
  "ob_deadline (outbox_record ob k p t) = ob_deadline ob"
  "ob_slots (outbox_record ob k p t) = [] \<longleftrightarrow> ob_slots ob = []"
  by (auto simp: outbox_record_def split: option.split)

interpretation ob: repeat_store outbox_record outbox_get outbox_clear "\<lambda>ob. ob_slots ob \<noteq> []"
  "\<lambda>ob k c. unat k mod length (ob_slots ob) = unat c mod length (ob_slots ob)"
  "\<lambda>ob t now. saturating_sub now t \<le> ob_deadline ob"
proof unfold_locales
  fix ob :: outbox and k p t c now
  assume ne: "ob_slots ob \<noteq> []"
  then show "outbox_get (outbox_record ob k p t) c now =
      (if unat k mod length (ob_slots ob) = unat c mod length (ob_slots ob)
       then if k = c \<and> saturating_sub now t \<le> ob_deadline ob then Some p else None
       else outbox_get ob c now)"
    by (auto simp: outbox_get_def outbox_record_def outbox_slot_eq get_def)
next
  fix ob :: outbox and c now
  show "outbox_get (outbox_clear ob) c now = None"
    by (cases "ob_slots ob = []") (auto simp: outbox_get_def outbox_clear_def outbox_slot_def get_def)
qed (auto simp: outbox_get_def outbox_slot_def)

text \<open>C20. What the sender can repeat.  After recording packets under strictly increasing counters, a
  request for counter \<open>c\<close> is answered with exactly the packet sent under \<open>c\<close>, and it is answered if and
  only if repeating is on, the packet is no older than the deadline, and no later packet has taken its
  place in the ring.  Clearing the ring, at a rekey, answers nothing.\<close>

theorem outbox_answers:
  assumes "sorted_wrt (<) (map fst rs)"
  shows "(outbox_get (record_all outbox_record (outbox_new l) rs) c now = Some p \<longleftrightarrow>
      0 < l_capacity l \<and>
      (\<exists>t. (c, p, t) \<in> set rs \<and> saturating_sub now t \<le> l_deadline l) \<and>
      (\<forall>r\<in>set rs. c < fst r \<longrightarrow> unat (fst r) mod l_capacity l \<noteq> unat c mod l_capacity l)) \<and>
    outbox_get (outbox_clear ob) c now = None"
proof -
  have "outbox_get (outbox_clear (outbox_new l)) = outbox_get (outbox_new l)"
    by (intro ext) (simp add: outbox_clear_def outbox_new_def)
  from ob.lookup_recorded [OF assms this, of c now p] show ?thesis
    using ob.lookup_forget [of ob c now] by (simp add: outbox_new_def)
qed

theorem outbox_answers_witness:
  "outbox_get (record_all outbox_record (outbox_new (limits_off\<lparr>l_capacity := 4\<rparr>))
     [(0, [1], 0), (1, [2], 5), (4, [3], 10)]) 1 20 = Some [2]"
proof -
  have "sorted_wrt (<) (map fst [(0 :: u64, [1 :: u8], 0 :: u64), (1, [2], 5), (4, [3], 10)])" by simp
  from outbox_answers [OF this, of "limits_off\<lparr>l_capacity := 4\<rparr>" 1 20 "[2]"] show ?thesis
    by (simp add: limits_off_def DEFAULT_DEADLINE_def saturating_sub_def)
qed

section \<open>The table of gaps\<close>

abbreviation keys :: "('k \<times> 'v) list \<Rightarrow> 'k list" where
  "keys m \<equiv> map fst m"

lemma keys_bt_remove: "keys (bt_remove k m) = filter (\<lambda>x. x \<noteq> k) (keys m)"
  by (induction m) (auto simp: bt_remove_def)

lemma bt_remove_set: "e \<in> set (bt_remove k m) \<longleftrightarrow> e \<in> set m \<and> fst e \<noteq> k"
  by (auto simp: bt_remove_def)

lemma sorted_bt_remove: "sorted_wrt (<) (keys m) \<Longrightarrow> sorted_wrt (<) (keys (bt_remove k m))"
  by (simp add: keys_bt_remove sorted_wrt_filter)

lemma length_bt_remove: "length (bt_remove k m) \<le> length m"
  by (simp add: bt_remove_def)

lemma fold_bt_remove: "fold bt_remove ks m = filter (\<lambda>e. fst e \<notin> set ks) m"
  by (induction ks arbitrary: m) (auto simp: bt_remove_def intro: filter_cong)

lemma or_insert_last: "\<forall>k'\<in>set (keys m). k' < k \<Longrightarrow> or_insert k v m = m @ [(k, v)]"
  by (induction m) auto

lemma give_up_suffix: "\<exists>pre. gaps = pre @ give_up now dl gaps"
proof (induction gaps)
  case (Cons e gaps)
  then obtain pre where "gaps = pre @ give_up now dl gaps" by blast
  then have "e # gaps = (e # pre) @ give_up now dl gaps" by simp
  moreover have "e # gaps = [] @ e # gaps" by simp
  ultimately show ?case by (cases e) (metis give_up.simps(2))
qed simp

abbreviation new_gap :: "Millis \<Rightarrow> gap" where
  "new_gap now \<equiv> \<lparr>g_seen = now, g_asked_at = None, g_asks = 0\<rparr>"

text \<open>The counters a jump adds: all those skipped, oldest first, as far as the table has room.\<close>

lemma note_missing_eq:
  assumes "\<forall>k\<in>set (keys gaps). k < missing" and "missing \<le> counter"
  shows "note_missing missing counter now gaps =
    gaps @ map (\<lambda>n. (of_nat n, new_gap now))
      [unat missing..<min (unat counter) (unat missing + (MAX_OUTSTANDING - length gaps))]"
  using assms
proof (induction missing counter now gaps rule: note_missing.induct)
  case (1 missing counter now gaps)
  show ?case
  proof (cases "missing < counter \<and> length gaps < MAX_OUTSTANDING")
    case False
    then show ?thesis using "1.prems"(2)
      by (auto simp: note_missing.simps [of missing] word_less_nat_alt word_le_nat_alt not_less)
  next
    case True
    then have u: "unat (missing + 1) = Suc (unat missing)" using unat_succ_below by blast
    then have le: "missing + 1 \<le> counter" using True by (simp add: word_le_nat_alt word_less_nat_alt)
    have below: "\<forall>k\<in>set (keys (gaps @ [(missing, new_gap now)])). k < missing + 1"
      using "1.prems"(1) u by (auto simp: word_less_nat_alt)
    have ins: "or_insert missing (new_gap now) gaps = gaps @ [(missing, new_gap now)]"
      using "1.prems"(1) by (rule or_insert_last)
    have split: "[unat missing..<min (unat counter) (unat missing + (MAX_OUTSTANDING - length gaps))]
        = unat missing # [unat (missing + 1)..<min (unat counter) (unat (missing + 1) + (MAX_OUTSTANDING - length (gaps @ [(missing, new_gap now)])))]"
      using True u by (subst upt_conv_Cons) (auto simp: word_less_nat_alt Suc_diff_Suc)
    have step: "note_missing missing counter now gaps =
        note_missing (missing + 1) counter now (gaps @ [(missing, new_gap now)])"
      using True by (subst note_missing.simps) (simp add: ins)
    show ?thesis
      unfolding split step using True "1.IH" [unfolded ins, OF _ _ below le] by simp
  qed
qed

text \<open>The scan in closed form.\<close>

definition due :: "u64 \<Rightarrow> u64 \<Rightarrow> u64 \<times> gap \<Rightarrow> bool" where
  "due hi reorder e \<longleftrightarrow> \<not> gap_moved hi (fst e) (snd e) < reorder"

definition asked_entry :: "u64 \<Rightarrow> u64 \<Rightarrow> u64 \<times> gap \<Rightarrow> u64 \<times> gap" where
  "asked_entry hi reorder e = (if due hi reorder e then (fst e, ask_again hi (snd e)) else e)"

lemma fst_asked_entry [simp]: "fst (asked_entry hi r e) = fst e"
  by (simp add: asked_entry_def)

lemma ask_scan_eq:
  "ask_scan n hi r a gaps =
     (map (asked_entry hi r) (take n gaps) @ drop n gaps,
      keys (filter (due hi r) (take n gaps)),
      keys (filter (\<lambda>e. due hi r e \<and> a \<le> g_asks (ask_again hi (snd e))) (take n gaps)))"
  by (induction n hi r a gaps rule: ask_scan.induct)
     (auto simp: asked_entry_def due_def Let_def)

section \<open>What a session may ask for\<close>

text \<open>What the receiving side does in one session, newest first: the counters that came, the counters
  asked for, the repeats delivered.\<close>

datatype inbox_effect = Came u64 | Asked u64 | Repaired u64

fun effect_counter :: "inbox_effect \<Rightarrow> u64" where
  "effect_counter (Came c) = c"
| "effect_counter (Asked c) = c"
| "effect_counter (Repaired c) = c"

text \<open>One authenticated packet of the session, as \<open>handle_transport\<close> treats it: its counter is noted,
  and when it carries a repeat the repeat is delivered if it is still wanted.\<close>

fun inbox_packet :: "u32 \<Rightarrow> inbox \<Rightarrow> u64 \<times> Millis \<times> u64 option \<Rightarrow> inbox_effect list \<times> inbox" where
  "inbox_packet index ib (counter, now, original) =
     (let (ask, ib1) = arrived ib index counter now;
          past = rev (map Asked ask) @ [Came counter]
      in case original of
           None \<Rightarrow> (past, ib1)
         | Some c \<Rightarrow> (let (wanted, ib2) = satisfied ib1 c
                     in (if wanted then Repaired c # past else past, ib2)))"

fun inbox_run :: "u32 \<Rightarrow> inbox \<Rightarrow> (u64 \<times> Millis \<times> u64 option) list \<Rightarrow> inbox_effect list \<times> inbox" where
  "inbox_run index ib [] = ([], ib)"
| "inbox_run index ib (p # ps) =
     (let (es, ib1) = inbox_packet index ib p; (es', ib2) = inbox_run index ib1 ps in (es' @ es, ib2))"

text \<open>Packets of any sessions in any order, each with the index of its session.  The table belongs to one session
  at a time and starts afresh whenever the next packet is of another, so the history that is collected begins
  at the last change of session.\<close>

fun inbox_feed ::
  "inbox_effect list \<times> inbox \<Rightarrow> u32 \<times> u64 \<times> Millis \<times> u64 option \<Rightarrow> inbox_effect list \<times> inbox" where
  "inbox_feed (past, ib) (index, p) =
     (let (es, ib') = inbox_packet index ib p in (es @ (if ib_index ib = Some index then past else []), ib'))"

definition inbox_mixed :: "inbox \<Rightarrow> (u32 \<times> u64 \<times> Millis \<times> u64 option) list \<Rightarrow> inbox_effect list \<times> inbox" where
  "inbox_mixed ib ps = foldl inbox_feed ([], ib) ps"

text \<open>A history in which nothing is asked for, or repaired, that has come or been repaired already, and
  nothing is asked for more often than allowed.\<close>

fun lawful :: "u8 \<Rightarrow> inbox_effect list \<Rightarrow> bool" where
  "lawful asks [] \<longleftrightarrow> True"
| "lawful asks (Came c # past) \<longleftrightarrow> lawful asks past"
| "lawful asks (Asked c # past) \<longleftrightarrow> lawful asks past \<and> Came c \<notin> set past \<and> Repaired c \<notin> set past \<and>
     count_list past (Asked c) < max 1 (unat asks)"
| "lawful asks (Repaired c # past) \<longleftrightarrow> lawful asks past \<and> Came c \<notin> set past \<and> Repaired c \<notin> set past"

text \<open>A gap agrees with a history: its counter has not come, and it was asked for as often as it says.\<close>

definition gap_agrees :: "u8 \<Rightarrow> inbox_effect list \<Rightarrow> u64 \<times> gap \<Rightarrow> bool" where
  "gap_agrees asks past e \<longleftrightarrow> Came (fst e) \<notin> set past \<and> Repaired (fst e) \<notin> set past \<and>
     count_list past (Asked (fst e)) = unat (g_asks (snd e)) \<and> (g_asks (snd e) < asks \<or> g_asks (snd e) = 0)"

definition gaps_agree :: "u8 \<Rightarrow> u64 \<Rightarrow> inbox_effect list \<Rightarrow> gap_map \<Rightarrow> bool" where
  "gaps_agree asks hi past gaps \<longleftrightarrow> sorted_wrt (<) (keys gaps) \<and> length gaps \<le> MAX_OUTSTANDING \<and>
     list_all (\<lambda>k. k < hi) (keys gaps) \<and> list_all (gap_agrees asks past) gaps \<and>
     list_all (\<lambda>e. effect_counter e \<le> hi) past"

lemma gaps_agree_filter:
  "gaps_agree a hi past gaps \<Longrightarrow> gaps_agree a hi past (filter P gaps)"
  unfolding gaps_agree_def
  by (auto simp: list_all_iff intro: order_trans [OF length_filter_le])
     (metis (no_types, lifting) sorted_wrt_map sorted_wrt_filter)

lemma gaps_agree_drop: "gaps_agree a hi past (pre @ gaps) \<Longrightarrow> gaps_agree a hi past gaps"
  by (auto simp: gaps_agree_def sorted_wrt_append)

lemma gaps_agree_came:
  assumes "gaps_agree a hi past gaps" and "c \<le> hi"
  shows "gaps_agree a hi (Came c # past) (bt_remove c gaps)"
  using gaps_agree_filter [OF assms(1), of "\<lambda>e. fst e \<noteq> c"] assms(2)
  by (auto simp: gaps_agree_def bt_remove_def list_all_iff gap_agrees_def)

lemma gaps_agree_jump:
  assumes "gaps_agree a hi past gaps" and "hi < c"
  shows "gaps_agree a c (Came c # past) (note_missing (hi + 1) c now (bt_remove c gaps))"
proof -
  let ?g = "bt_remove c gaps"
  have g: "gaps_agree a hi past ?g"
    using gaps_agree_filter [OF assms(1), of "\<lambda>e. fst e \<noteq> c"] by (simp add: bt_remove_def)
  have u: "unat (hi + 1) = Suc (unat hi)" using unat_succ_below [OF assms(2)] .
  have "\<forall>k\<in>set (keys ?g). k < hi + 1"
    using g u by (force simp: gaps_agree_def list_all_iff word_less_nat_alt)
  moreover have "hi + 1 \<le> c" using u assms(2) by (simp add: word_le_nat_alt word_less_nat_alt)
  ultimately have eq: "note_missing (hi + 1) c now ?g = ?g @ map (\<lambda>n. (of_nat n, new_gap now))
      [Suc (unat hi)..<min (unat c) (Suc (unat hi) + (MAX_OUTSTANDING - length ?g))]"
    using note_missing_eq [of ?g "hi + 1" c now] u by simp
  define ns where "ns = [Suc (unat hi)..<min (unat c) (Suc (unat hi) + (MAX_OUTSTANDING - length ?g))]"
  have bound: "unat hi < n \<and> n < unat c \<and> unat (of_nat n :: u64) = n" if "n \<in> set ns" for n
  proof -
    have "n < unat c" using that by (simp add: ns_def)
    then have "n < 2 ^ 64" using unat_bounds(4) [of c] by linarith
    then show ?thesis using that by (simp add: ns_def unat_of_nat)
  qed
  have between: "hi < of_nat n \<and> (of_nat n :: u64) < c" if "n \<in> set ns" for n
    using bound [OF that] by (simp add: word_less_nat_alt)
  have sorted: "sorted_wrt (<) (map (of_nat :: nat \<Rightarrow> u64) ns)"
    unfolding sorted_wrt_map
  proof (rule sorted_wrt_mono_rel [where P = "(<)"])
    show "sorted_wrt (<) ns" by (simp add: ns_def)
    show "(of_nat x :: u64) < of_nat y" if "x \<in> set ns" "y \<in> set ns" "x < y" for x y
      using bound [OF that(1)] bound [OF that(2)] that(3) by (simp add: word_less_nat_alt)
  qed
  have fresh: "Came k \<notin> set past \<and> Repaired k \<notin> set past \<and> Asked k \<notin> set past" if "hi < k" for k
    using g that by (auto simp: gaps_agree_def list_all_iff)
  have len: "length ?g + length ns \<le> MAX_OUTSTANDING"
    using g unfolding gaps_agree_def ns_def length_upt by linarith
  have old: "k < hi" if "k \<in> set (keys ?g)" for k using g that by (auto simp: gaps_agree_def list_all_iff)
  have "gap_agrees a (Came c # past) (of_nat n, new_gap now)" if "n \<in> set ns" for n
    using fresh between [OF that] by (auto simp: gap_agrees_def count_list_0_iff)
  moreover have "gap_agrees a (Came c # past) e" if "e \<in> set ?g" for e
    using g that assms(2) old [of "fst e"] by (auto simp: gaps_agree_def list_all_iff gap_agrees_def)
  moreover have "effect_counter e \<le> c" if "e \<in> set past" for e
    using g that assms(2) by (force simp: gaps_agree_def list_all_iff)
  moreover have "sorted_wrt (<) (keys ?g @ map of_nat ns)"
    using g sorted old between by (fastforce simp: gaps_agree_def sorted_wrt_append)
  ultimately show ?thesis
    unfolding eq ns_def [symmetric] gaps_agree_def using len old between assms(2)
    by (auto simp: list_all_iff comp_def) (metis order_less_trans fst_conv image_eqI)
qed

lemma count_asked:
  "distinct ks \<Longrightarrow> count_list (rev (map Asked ks) @ past) (Asked k) =
     count_list past (Asked k) + (if k \<in> set ks then 1 else 0)"
  by (induction ks) auto

lemma lawful_asks:
  assumes "lawful a past" and "distinct ks"
    and "\<forall>k\<in>set ks. Came k \<notin> set past \<and> Repaired k \<notin> set past \<and> count_list past (Asked k) < max 1 (unat a)"
  shows "lawful a (rev (map Asked ks) @ past)"
  using assms(2,3)
proof (induction ks rule: rev_induct)
  case Nil
  then show ?case using assms(1) by simp
next
  case (snoc k ks)
  then show ?case using count_asked [of ks past k] by auto
qed

lemma ask_again_asks:
  assumes "g_asks g < a \<or> g_asks g = 0"
  shows "unat (g_asks (ask_again hi g)) = Suc (unat (g_asks g))"
proof -
  have "unat (g_asks g) < 255"
    using assms unat_bounds(1) [of a] by (auto simp: word_less_nat_alt)
  then have "g_asks g < 255" by (simp add: word_less_nat_alt)
  then show ?thesis using unat_succ_below [of "g_asks g" 255] by (simp add: ask_again_def)
qed

lemma keys_asked: "keys (map (asked_entry hi r) gaps) = keys gaps"
  by (induction gaps) simp_all

lemma scan_keys: "keys (map (asked_entry hi r) (take n gaps) @ drop n gaps) = keys gaps"
  unfolding map_append keys_asked by (metis append_take_drop_id map_append)

lemma same_key: "distinct (keys m) \<Longrightarrow> e \<in> set m \<Longrightarrow> e' \<in> set m \<Longrightarrow> fst e = fst e' \<Longrightarrow> e = e'"
  by (metis eq_key_imp_eq_value prod.collapse)

lemma asked_keys:
  assumes "distinct (keys gaps)"
  shows "distinct (keys (filter P (take n gaps)))"
    and "e \<in> set (take n gaps) \<Longrightarrow> fst e \<in> set (keys (filter P (take n gaps))) \<longleftrightarrow> P e"
    and "e \<in> set (drop n gaps) \<Longrightarrow> fst e \<notin> set (keys (filter P (take n gaps)))"
proof -
  have parts: "distinct (keys (take n gaps) @ keys (drop n gaps))"
    using assms by (metis append_take_drop_id map_append)
  then show "distinct (keys (filter P (take n gaps)))" by (simp add: distinct_map_filter)
  show "fst e \<in> set (keys (filter P (take n gaps))) \<longleftrightarrow> P e" if e: "e \<in> set (take n gaps)"
  proof
    assume "fst e \<in> set (keys (filter P (take n gaps)))"
    then obtain e' where "e' \<in> set (take n gaps)" "P e'" "fst e' = fst e" by force
    then show "P e" using same_key [of "take n gaps" e e'] parts e by simp
  next
    assume "P e"
    then show "fst e \<in> set (keys (filter P (take n gaps)))" using e by simp
  qed
  show "fst e \<notin> set (keys (filter P (take n gaps)))" if "e \<in> set (drop n gaps)"
    using parts that by (force simp: image_iff)
qed

lemma scan_kept:
  assumes agree: "gaps_agree a hi past gaps"
    and kept: "e \<in> set (map (asked_entry hi r) (take n gaps) @ drop n gaps)"
      "fst e \<notin> set (keys (filter (\<lambda>e. due hi r e \<and> a \<le> g_asks (ask_again hi (snd e))) (take n gaps)))"
  shows "gap_agrees a (rev (map Asked (keys (filter (due hi r) (take n gaps)))) @ past) e"
proof -
  have dist: "distinct (keys gaps)" using agree by (simp add: gaps_agree_def strict_sorted_iff)
  note ask = asked_keys [OF dist]
  note count = count_asked [OF ask(1) [of "due hi r" n], of past]
  have agrees: "gap_agrees a past e" if "e \<in> set gaps" for e
    using agree that by (simp add: gaps_agree_def list_all_iff)
  from kept(1) consider (front) e0 where "e0 \<in> set (take n gaps)" "e = asked_entry hi r e0"
    | (rest) "e \<in> set (drop n gaps)" by auto
  then show ?thesis
  proof cases
    case front
    note ag = agrees [OF in_set_takeD [OF front(1)]]
    show ?thesis
    proof (cases "due hi r e0")
      case True
      have "\<not> a \<le> g_asks (ask_again hi (snd e0))"
        using kept(2) True front(2) ask(2) [OF front(1), of "\<lambda>e. due hi r e \<and> a \<le> g_asks (ask_again hi (snd e))"]
        by (simp only: fst_asked_entry) blast
      then show ?thesis
        using ag True front(2) count [of "fst e0"] ask(2) [OF front(1), of "due hi r"] ask_again_asks [of "snd e0" a hi]
        by (auto simp: gap_agrees_def asked_entry_def)
    next
      case False
      then show ?thesis using ag front(2) count [of "fst e0"] ask(2) [OF front(1), of "due hi r"]
        by (auto simp: gap_agrees_def asked_entry_def)
    qed
  next
    case rest
    then show ?thesis using agrees [OF in_set_dropD [OF rest]] count [of "fst e"] ask(3) [OF rest, of "due hi r"]
      by (auto simp: gap_agrees_def)
  qed
qed

lemma gaps_agree_ask:
  assumes agree: "gaps_agree a hi past gaps" and law: "lawful a past"
    and scan: "ask_scan n hi r a gaps = (gaps', ask, spent)"
  shows "gaps_agree a hi (rev (map Asked ask) @ past) (fold bt_remove spent gaps')"
    and "lawful a (rev (map Asked ask) @ past)"
proof -
  have eqs: "gaps' = map (asked_entry hi r) (take n gaps) @ drop n gaps"
    "ask = keys (filter (due hi r) (take n gaps))"
    "spent = keys (filter (\<lambda>e. due hi r e \<and> a \<le> g_asks (ask_again hi (snd e))) (take n gaps))"
    using scan by (simp_all add: ask_scan_eq)
  have keys': "keys gaps' = keys gaps" unfolding eqs(1) by (rule scan_keys)
  have sorted: "sorted_wrt (<) (keys gaps)" using agree by (simp add: gaps_agree_def)
  then have dist_ask: "distinct ask" unfolding eqs(2) by (intro asked_keys(1)) (simp add: strict_sorted_iff)
  have from_gap: "\<exists>e\<in>set gaps. fst e = k" if "k \<in> set ask" for k
    using that by (auto simp: eqs(2) dest: in_set_takeD)
  show "lawful a (rev (map Asked ask) @ past)"
  proof (rule lawful_asks [OF law dist_ask], rule ballI)
    fix k
    assume "k \<in> set ask"
    with from_gap obtain e where e: "e \<in> set gaps" "fst e = k" by blast
    then have "gap_agrees a past e" using agree by (simp add: gaps_agree_def list_all_iff)
    with e(2) show "Came k \<notin> set past \<and> Repaired k \<notin> set past \<and> count_list past (Asked k) < max 1 (unat a)"
      by (auto simp: gap_agrees_def word_less_nat_alt)
  qed
  have "gap_agrees a (rev (map Asked ask) @ past) e" if "e \<in> set gaps'" "fst e \<notin> set spent" for e
    using scan_kept [OF agree, of e r n] that unfolding eqs .
  moreover have "length gaps' \<le> MAX_OUTSTANDING"
    using agree arg_cong [OF keys', of length] by (simp add: gaps_agree_def)
  moreover have "sorted_wrt (<) (keys (filter (\<lambda>e. fst e \<notin> set spent) gaps'))"
    using sorted unfolding keys' [symmetric] sorted_wrt_map by (rule sorted_wrt_filter)
  moreover have "fst e < hi" if "e \<in> set gaps'" for e
    using agree that keys' unfolding gaps_agree_def list_all_iff by (metis image_eqI list.set_map)
  moreover have "effect_counter x \<le> hi" if "x \<in> set (rev (map Asked ask) @ past)" for x
    using that agree from_gap by (force simp: gaps_agree_def list_all_iff)
  ultimately show "gaps_agree a hi (rev (map Asked ask) @ past) (fold bt_remove spent gaps')"
    unfolding fold_bt_remove gaps_agree_def list_all_iff
    by (simp add: order_trans [OF length_filter_le])
qed

text \<open>The table in step with the history of its session.\<close>

definition in_session :: "u32 \<Rightarrow> u8 \<Rightarrow> inbox \<Rightarrow> inbox_effect list \<Rightarrow> bool" where
  "in_session index asks ib past \<longleftrightarrow> ib_index ib = Some index \<and> ib_asks ib = asks \<and> lawful asks past \<and>
     (case ib_highest ib of None \<Rightarrow> False | Some hi \<Rightarrow> gaps_agree asks hi past (ib_gaps ib))"

lemma advanced:
  assumes "ib_index ib \<noteq> Some index \<and> past = [] \<or> in_session index (ib_asks ib) ib past"
    and "ib1 = enter_session ib index"
    and "ib3 = advance_highest (ib1\<lparr>ib_gaps := bt_remove c (ib_gaps ib1)\<rparr>) c now"
  shows "in_session index (ib_asks ib) ib3 (Came c # past)"
proof (cases "ib_index ib = Some index")
  case False
  then have "past = []" using assms(1) by (auto simp: in_session_def)
  then show ?thesis using False assms(2,3)
    by (simp add: in_session_def enter_session_def advance_highest_def bt_remove_def gaps_agree_def)
next
  case True
  then obtain hi where hi: "ib_highest ib = Some hi" "gaps_agree (ib_asks ib) hi past (ib_gaps ib)"
    "lawful (ib_asks ib) past"
    using assms(1) by (auto simp: in_session_def split: option.splits)
  have "ib1 = ib" using True assms(2) by (simp add: enter_session_def)
  then show ?thesis
    using True hi assms(3) gaps_agree_came [OF hi(2), of c] gaps_agree_jump [OF hi(2), of c now]
    by (simp add: in_session_def advance_highest_def not_less)
qed

lemma arrived_in_session:
  assumes "ib_index ib \<noteq> Some index \<and> past = [] \<or> in_session index (ib_asks ib) ib past"
    and "arrived ib index c now = (ask, ib')"
  shows "in_session index (ib_asks ib) ib' (rev (map Asked ask) @ Came c # past)"
proof -
  define ib1 where "ib1 = enter_session ib index"
  define ib3 where "ib3 = advance_highest (ib1\<lparr>ib_gaps := bt_remove c (ib_gaps ib1)\<rparr>) c now"
  have s3: "in_session index (ib_asks ib) ib3 (Came c # past)"
    using advanced [OF assms(1) ib1_def ib3_def] .
  then obtain hi where hi: "ib_highest ib3 = Some hi" "ib_asks ib3 = ib_asks ib" "ib_index ib3 = Some index"
    "gaps_agree (ib_asks ib) hi (Came c # past) (ib_gaps ib3)" "lawful (ib_asks ib) (Came c # past)"
    by (auto simp: in_session_def split: option.splits)
  let ?g = "give_up now (ib_deadline ib3) (ib_gaps ib3)"
  obtain pre where "ib_gaps ib3 = pre @ ?g" using give_up_suffix by blast
  then have g: "gaps_agree (ib_asks ib) hi (Came c # past) ?g" using hi(4) gaps_agree_drop by metis
  obtain gaps' spent where scan: "ask_scan ASK_SCAN hi (ib_reorder ib3) (ib_asks ib) ?g = (gaps', ask, spent)"
    and ib': "ib' = ib3\<lparr>ib_gaps := fold bt_remove spent gaps'\<rparr>"
    using assms(2) hi(1,2)
    by (auto simp: arrived_def Let_def ib1_def [symmetric] ib3_def [symmetric] split: prod.splits)
  show ?thesis using gaps_agree_ask [OF g hi(5) scan] hi by (simp add: in_session_def ib')
qed

lemma satisfied_in_session:
  assumes "in_session index a ib past" and "satisfied ib c = (wanted, ib')"
  shows "in_session index a ib' (if wanted then Repaired c # past else past)"
proof -
  obtain hi where hi: "ib_highest ib = Some hi" "gaps_agree a hi past (ib_gaps ib)"
    using assms(1) by (auto simp: in_session_def split: option.splits)
  have g: "gaps_agree a hi past (bt_remove c (ib_gaps ib))"
    using gaps_agree_filter [OF hi(2)] by (simp add: bt_remove_def)
  show ?thesis
  proof (cases "map_of (ib_gaps ib) c")
    case None
    then show ?thesis using assms g hi(1) by (auto simp: in_session_def satisfied_def)
  next
    case (Some gp)
    then have "(c, gp) \<in> set (ib_gaps ib)" by (rule map_of_SomeD)
    then have c: "c < hi" "gap_agrees a past (c, gp)"
      using hi(2) by (auto simp: gaps_agree_def list_all_iff)
    have "gaps_agree a hi (Repaired c # past) (bt_remove c (ib_gaps ib))"
      using g c(1) by (auto simp: gaps_agree_def list_all_iff gap_agrees_def bt_remove_def)
    then show ?thesis using assms Some hi(1) c(2) by (auto simp: in_session_def satisfied_def gap_agrees_def)
  qed
qed

lemma inbox_packet_in_session:
  assumes "ib_index ib \<noteq> Some index \<and> past = [] \<or> in_session index (ib_asks ib) ib past"
    and "inbox_packet index ib p = (es, ib')"
  shows "in_session index (ib_asks ib) ib' (es @ past)"
proof -
  obtain c now orig where p: "p = (c, now, orig)" by (cases p)
  obtain ask ib1 where a: "arrived ib index c now = (ask, ib1)" by fastforce
  note s1 = arrived_in_session [OF assms(1) a]
  show ?thesis
  proof (cases orig)
    case None
    then show ?thesis using assms(2) s1 a by (auto simp: p)
  next
    case (Some o')
    obtain w ib2 where "satisfied ib1 o' = (w, ib2)" by fastforce
    with satisfied_in_session [OF s1 this] show ?thesis
      using assms(2) a Some by (cases w) (auto simp: p)
  qed
qed

lemma inbox_run_in_session:
  assumes "in_session index a ib past" and "inbox_run index ib ps = (es, ib')"
  shows "in_session index a ib' (es @ past)"
  using assms
proof (induction ps arbitrary: ib past es ib')
  case (Cons p ps)
  obtain es1 ib1 where 1: "inbox_packet index ib p = (es1, ib1)" by fastforce
  obtain es2 ib2 where 2: "inbox_run index ib1 ps = (es2, ib2)" by fastforce
  have a: "ib_asks ib = a" using Cons.prems(1) by (simp add: in_session_def)
  then have "in_session index a ib1 (es1 @ past)"
    using inbox_packet_in_session [OF _ 1, of past] Cons.prems(1) by simp
  from Cons.IH [OF this 2] show ?case using Cons.prems(2) 1 2 by auto
qed simp

lemma session_from_start:
  assumes "ib_index ib \<noteq> Some index" and "inbox_run index ib (p # ps) = (es, ib')"
  shows "in_session index (ib_asks ib) ib' es"
proof -
  obtain es1 ib1 where 1: "inbox_packet index ib p = (es1, ib1)" by fastforce
  obtain es2 ib2 where 2: "inbox_run index ib1 ps = (es2, ib2)" by fastforce
  have "in_session index (ib_asks ib) ib1 es1"
    using inbox_packet_in_session [OF _ 1, of "[]"] assms(1) by simp
  from inbox_run_in_session [OF this 2] show ?thesis using assms(2) 1 2 by simp
qed

definition fed :: "u8 \<Rightarrow> inbox_effect list \<times> inbox \<Rightarrow> bool" where
  "fed asks r \<longleftrightarrow> (case r of (past, ib) \<Rightarrow>
     ib_asks ib = asks \<and>
     (case ib_index ib of None \<Rightarrow> past = [] \<and> ib_gaps ib = [] | Some index \<Rightarrow> in_session index asks ib past))"

lemma fed_step: "fed asks r \<Longrightarrow> fed asks (inbox_feed r q)"
proof -
  assume fed: "fed asks r"
  obtain past ib where r: "r = (past, ib)" by fastforce
  obtain index p where q: "q = (index, p)" by (cases q)
  obtain es ib' where step: "inbox_packet index ib p = (es, ib')" by fastforce
  have asks: "ib_asks ib = asks"
    using fed by (simp add: fed_def r)
  have "ib_index ib \<noteq> Some index \<and> (if ib_index ib = Some index then past else []) = [] \<or>
      in_session index (ib_asks ib) ib (if ib_index ib = Some index then past else [])"
    using fed by (auto simp: fed_def r split: option.splits)
  from inbox_packet_in_session [OF this step] have "in_session index asks ib' (es @ (if ib_index ib = Some index then past else []))"
    by (simp add: asks)
  then show ?thesis
    unfolding r q inbox_feed.simps step by (simp add: fed_def in_session_def)
qed

lemma fed_mixed:
  assumes "ib_index ib = None" "ib_gaps ib = []"
  shows "fed (ib_asks ib) (inbox_mixed ib ps)"
proof -
  have "fed (ib_asks ib) r \<Longrightarrow> fed (ib_asks ib) (foldl inbox_feed r ps)" for r
    by (induction ps arbitrary: r) (simp_all add: fed_step del: inbox_feed.simps)
  then show ?thesis
    using assms by (simp add: inbox_mixed_def fed_def)
qed

text \<open>C17. Asking is bounded and honest between changes of session.  Whatever packets arrive, of whatever sessions and
  in whatever order, with whatever counters, times and repeats: since the session last changed, the receiver has
  asked for no counter that had arrived or been repaired since, for none more often than the limit allows, and
  has delivered no repeat of something that had arrived or been repaired since; and it holds at most
  \<open>MAX_OUTSTANDING\<close> gaps, in order, all below the highest counter seen.  What arrived before a change is
  forgotten, also when the session comes back (\<open>asked_after_return\<close>).\<close>

theorem asking_is_lawful:
  "case inbox_mixed (inbox_new limits) packets of (history, ib) \<Rightarrow>
    lawful (l_asks limits) history \<and> length (ib_gaps ib) \<le> MAX_OUTSTANDING \<and>
    sorted_wrt (<) (keys (ib_gaps ib)) \<and>
    list_all (\<lambda>k. ib_highest ib \<noteq> None \<and> k < the (ib_highest ib) \<and> Came k \<notin> set history) (keys (ib_gaps ib))"
proof -
  obtain history ib where run: "inbox_mixed (inbox_new limits) packets = (history, ib)" by fastforce
  have "fed (l_asks limits) (history, ib)"
    using fed_mixed [of "inbox_new limits" packets] run by (simp add: inbox_new_def)
  then consider "history = []" "ib_gaps ib = []" | index hi where "lawful (l_asks limits) history" "ib_highest ib = Some hi"
      "gaps_agree (l_asks limits) hi history (ib_gaps ib)"
    by (auto simp: fed_def in_session_def split: option.splits)
  then show ?thesis
    by cases (auto simp: run gaps_agree_def list_all_iff gap_agrees_def)
qed

text \<open>A packet of another session in between makes the receiver forget: counter 4 of session 2 arrives, one packet
  of session 1 follows, and the packets of session 2 after it make the receiver ask for 4.\<close>

theorem asked_after_return:
  "let packets = [(2, 1, 0, None), (2, 4, 0, None), (1, 77, 0, None), (2, 3, 0, None), (2, 5, 0, None), (2, 6, 0, None), (2, 7, 0, None)];
       (history, ib) = inbox_mixed (inbox_new limits_off) packets
   in (2, 4, 0, None) \<in> set packets \<and> Asked 4 \<in> set history"
  by code_simp

text \<open>C38. The answer to the last request is thrown away.  Once a counter has been asked for as often as the
  limit allows, its gap is gone and a repeat of it is refused as a duplicate, although it never arrived;
  with a limit of one, no repeat that was asked for is ever delivered.\<close>

theorem last_answer_refused:
  assumes "ib_index ib \<noteq> Some index" and "inbox_run index ib (p # ps) = (history, ib')"
    and "count_list history (Asked k) = max 1 (unat (ib_asks ib))"
  shows "fst (satisfied ib' k) = False"
proof -
  have s: "in_session index (ib_asks ib) ib' history" by (rule session_from_start [OF assms(1,2)])
  have "map_of (ib_gaps ib') k = None"
  proof (rule ccontr)
    assume "map_of (ib_gaps ib') k \<noteq> None"
    then obtain g where "(k, g) \<in> set (ib_gaps ib')" by (auto dest: map_of_SomeD)
    then have "gap_agrees (ib_asks ib) history (k, g)"
      using s by (auto simp: in_session_def gaps_agree_def list_all_iff split: option.splits)
    then show False using assms(3) by (auto simp: gap_agrees_def word_less_nat_alt)
  qed
  then show ?thesis by (simp add: satisfied_def)
qed

theorem last_answer_refused_witness:
  "case inbox_run 7 (inbox_new (limits_off\<lparr>l_asks := 1\<rparr>)) [(1, 0, None), (3, 0, None), (4, 0, None), (5, 0, None)] of
     (history, ib') \<Rightarrow> Asked 2 \<in> set history \<and> Came 2 \<notin> set history \<and> fst (satisfied ib' 2) = False"
proof -
  let ?ib = "inbox_new (limits_off\<lparr>l_asks := 1\<rparr>)"
  let ?run = "inbox_run 7 ?ib [(1, 0, None), (3, 0, None), (4, 0, None), (5, 0, None)]"
  have "ib_index ?ib \<noteq> Some 7" "ib_asks ?ib = 1" by (simp_all add: inbox_new_def)
  moreover have "case ?run of (history, ib') \<Rightarrow> count_list history (Asked 2) = 1 \<and> Asked 2 \<in> set history \<and> Came 2 \<notin> set history"
    by code_simp
  ultimately show ?thesis
    using last_answer_refused [of ?ib 7 "(1, 0, None)" "[(3, 0, None), (4, 0, None), (5, 0, None)]" "fst ?run" "snd ?run" 2]
    by (auto simp del: inbox_run.simps split: prod.splits)
qed

section \<open>A loss and its repair\<close>

text \<open>A table with one gap, when the next counter in order arrives.\<close>

lemma arrived_next:
  assumes "ib_index ib = Some index" and "ib_highest ib = Some hi" and "ib_gaps ib = [(k, g)]"
    and "hi < hi + 1" and "k < hi" and "saturating_sub now (g_seen g) \<le> ib_deadline ib"
  shows "arrived ib index (hi + 1) now =
    (if gap_moved (hi + 1) k g < ib_reorder ib then ([], ib\<lparr>ib_highest := Some (hi + 1)\<rparr>)
     else ([k], ib\<lparr>ib_highest := Some (hi + 1),
       ib_gaps := (if ib_asks ib \<le> g_asks (ask_again (hi + 1) g) then [] else [(k, ask_again (hi + 1) g)])\<rparr>))"
proof -
  have k: "k \<noteq> hi + 1" using assms(4,5) by auto
  have nm: "note_missing (hi + 1) (hi + 1) now [(k, g)] = [(k, g)]" by (simp add: note_missing.simps)
  show ?thesis using assms k
    by (auto simp: ask_scan_eq ASK_SCAN_def asked_entry_def due_def arrived_def enter_session_def advance_highest_def bt_remove_def nm Let_def)
qed

lemma arrived_skip:
  assumes "ib_index ib = Some index" and "ib_highest ib = Some hi" and "ib_gaps ib = []"
    and "hi < hi + 1" and "hi + 1 < hi + 2"
  shows "arrived ib index (hi + 2) now =
    (if gap_moved (hi + 2) (hi + 1) (new_gap now) < ib_reorder ib
     then ([], ib\<lparr>ib_highest := Some (hi + 2), ib_gaps := [(hi + 1, new_gap now)]\<rparr>)
     else ([hi + 1], ib\<lparr>ib_highest := Some (hi + 2),
       ib_gaps := (if ib_asks ib \<le> 1 then [] else [(hi + 1, ask_again (hi + 2) (new_gap now))])\<rparr>))"
proof -
  have eq: "hi + 1 + 1 = hi + 2" by simp
  have nm: "note_missing (hi + 1) (hi + 2) now [] = [(hi + 1, new_gap now)]"
    using assms(5) note_missing.simps [of "hi + 1" "hi + 2" now "[]"]
      note_missing.simps [of "hi + 2" "hi + 2" now "[(hi + 1, new_gap now)]"]
    by (simp add: eq MAX_OUTSTANDING_def)
  have "hi < hi + 2" using assms(4,5) by (rule order_less_trans)
  then show ?thesis using assms
    by (auto simp: ask_scan_eq ASK_SCAN_def asked_entry_def due_def arrived_def enter_session_def advance_highest_def bt_remove_def nm Let_def
        saturating_sub_def ask_again_def)
qed

lemma request_body_parses:
  "length cs < 256 \<Longrightarrow> \<exists>body. request_body cs = Some body \<and> control_parse body = Some (Nack cs)"
  using nack_written [of cs "replicate (3 + length cs * 8) 0"] length_written_counters [of cs]
  by (simp add: request_body_def get_range_def)

lemma repeat_body_parses:
  "\<exists>body. repeat_body c packet = Some body \<and> control_parse body = Some (Repeat c packet)"
  using repeat_written [of packet "replicate (REPEAT_OVERHEAD + length packet) 0" c]
  by (simp add: repeat_body_def get_range_def REPEAT_OVERHEAD_def)

lemma inbox_run_snoc:
  "inbox_run index ib (ps @ [p]) =
     (let (es, ib1) = inbox_run index ib ps; (e, ib2) = inbox_packet index ib1 p in (e @ es, ib2))"
  by (induction ps arbitrary: ib) (auto simp: Let_def split: prod.splits)

lemma unat_ahead: "unat (h :: u64) + 1 + n < 2 ^ 64 \<Longrightarrow> unat (h + 1 + of_nat n) = unat h + 1 + n"
  by (simp add: unat_word_ariths unat_of_nat take_bit_eq_mod mod_simps)

text \<open>While the stream has not moved far enough past the gap, nothing is asked for.\<close>

lemma waits_for_reorder:
  assumes ib: "ib_index ib = Some index" "ib_highest ib = Some h" "ib_gaps ib = []"
    and n: "1 \<le> n" and "n < unat (ib_reorder ib)" and "unat h + 1 + n < 2 ^ 64"
    and "\<forall>j\<in>{1..n}. saturating_sub (t j) (t 1) \<le> ib_deadline ib"
  shows "inbox_run index ib (map (\<lambda>j. (h + 1 + of_nat j, t j, None)) [1..<Suc n]) =
    (rev (map (\<lambda>j. Came (h + 1 + of_nat j)) [1..<Suc n]),
     ib\<lparr>ib_highest := Some (h + 1 + of_nat n), ib_gaps := [(h + 1, new_gap (t 1))]\<rparr>)"
  using n assms(5-)
proof (induction n rule: nat_induct_at_least)
  case base
  have u: "unat (h + 1) = unat h + 1" "unat (h + 2) = unat h + 2"
    using base(2) unat_ahead [of h 0] unat_ahead [of h 1] by (simp_all add: add.assoc)
  then have "h < h + 1" "h + 1 < h + 2" "gap_moved (h + 2) (h + 1) (new_gap (t 1)) < ib_reorder ib"
    using base(1) by (simp_all add: word_less_nat_alt gap_moved_def unat_saturating_sub)
  then show ?case using arrived_skip [OF ib, of "t 1"] by (simp add: add.assoc)
next
  case (Suc n)
  let ?hi = "h + 1 + of_nat n"
  let ?ib = "ib\<lparr>ib_highest := Some ?hi, ib_gaps := [(h + 1, new_gap (t 1))]\<rparr>"
  have u: "unat (h + 1) = unat h + 1" "unat ?hi = unat h + 1 + n" "unat (?hi + 1) = unat h + 2 + n"
    using Suc.prems(2) unat_ahead [of h 0] unat_ahead [of h n] unat_ahead [of h "Suc n"]
    by (simp_all add: ac_simps)
  then have "?hi < ?hi + 1" "h + 1 < ?hi" "gap_moved (?hi + 1) (h + 1) (new_gap (t 1)) < ib_reorder ib"
    using Suc.hyps Suc.prems(1) by (simp_all add: word_less_nat_alt gap_moved_def unat_saturating_sub)
  then have step: "arrived ?ib index (?hi + 1) (t (Suc n)) = ([], ?ib\<lparr>ib_highest := Some (?hi + 1)\<rparr>)"
    using arrived_next [of ?ib index ?hi "h + 1" "new_gap (t 1)" "t (Suc n)"] ib(1) Suc.prems(3) by simp
  have IH: "inbox_run index ib (map (\<lambda>j. (h + 1 + of_nat j, t j, None)) [1..<Suc n]) =
      (rev (map (\<lambda>j. Came (h + 1 + of_nat j)) [1..<Suc n]), ?ib)"
    using Suc.IH Suc.prems by simp
  have up: "[1..<Suc (Suc n)] = [1..<Suc n] @ [Suc n]" by simp
  have next_hi: "h + 1 + of_nat (Suc n) = ?hi + 1" by (simp add: ac_simps)
  have "inbox_packet index ?ib (?hi + 1, t (Suc n), None) = ([Came (?hi + 1)], ?ib\<lparr>ib_highest := Some (?hi + 1)\<rparr>)"
    unfolding inbox_packet.simps step by simp
  then show ?case
    unfolding up map_append inbox_run_snoc list.map next_hi IH Let_def prod.case by simp
qed

text \<open>C16. A lost packet comes back, when the reordering tolerance and the limit on requests are both at least two, as
  by default.  When one packet is lost and later ones of its session follow in order, the receiver
  stays silent until the stream has moved past the gap by exactly the reordering tolerance, then asks
  for that counter and nothing else; the request reads back at the sender, which answers with the packet
  it holds; and the repeat, arriving within the deadline in the packet after the request, is delivered.  With a
  limit of one the gap is gone by then, and with a tolerance of one the second request
  spends the default limit.\<close>

theorem loss_is_repaired:
  assumes ib: "ib_index ib = Some index" "ib_highest ib = Some h" "ib_gaps ib = []"
    and r: "2 \<le> unat (ib_reorder ib)" and asks: "2 \<le> ib_asks ib"
    and room: "unat h + 2 + unat (ib_reorder ib) < 2 ^ 64"
    and young: "\<forall>j\<in>{1..Suc (unat (ib_reorder ib))}. saturating_sub (t j) (t 1) \<le> ib_deadline ib"
    and held: "outbox_get ob (h + 1) t' = Some packet"
  shows "\<exists>ib1 ib2 request body.
    inbox_run index ib (map (\<lambda>j. (h + 1 + of_nat j, t j, None)) [1..<Suc (unat (ib_reorder ib))]) =
      (Asked (h + 1) # rev (map (\<lambda>j. Came (h + 1 + of_nat j)) [1..<Suc (unat (ib_reorder ib))]), ib1) \<and>
    request_body [h + 1] = Some request \<and> control_parse request = Some (Nack [h + 1]) \<and>
    answers ob t' [h + 1] = [(h + 1, packet)] \<and>
    repeat_body (h + 1) packet = Some body \<and> control_parse body = Some (Repeat (h + 1) packet) \<and>
    inbox_packet index ib1 (h + 2 + ib_reorder ib, t (Suc (unat (ib_reorder ib))), Some (h + 1)) =
      ([Repaired (h + 1), Came (h + 2 + ib_reorder ib)], ib2) \<and> ib_gaps ib2 = []"
proof -
  obtain n where n: "unat (ib_reorder ib) = Suc n" "1 \<le> n" using r by (cases "unat (ib_reorder ib)") auto
  let ?hi = "h + 1 + of_nat n"
  let ?ib = "ib\<lparr>ib_highest := Some ?hi, ib_gaps := [(h + 1, new_gap (t 1))]\<rparr>"
  let ?g = "ask_again (?hi + 1) (new_gap (t 1))"
  let ?ib1 = "?ib\<lparr>ib_highest := Some (?hi + 1), ib_gaps := [(h + 1, ?g)]\<rparr>"
  have run: "inbox_run index ib (map (\<lambda>j. (h + 1 + of_nat j, t j, None)) [1..<Suc n]) =
      (rev (map (\<lambda>j. Came (h + 1 + of_nat j)) [1..<Suc n]), ?ib)"
    using waits_for_reorder [OF ib n(2), of t] n room young by simp
  have u: "unat (h + 1) = unat h + 1" "unat ?hi = unat h + 1 + n" "unat (?hi + 1) = unat h + 2 + n"
    "unat (?hi + 2) = unat h + 3 + n"
    using room n unat_ahead [of h 0] unat_ahead [of h n] unat_ahead [of h "Suc n"] unat_ahead [of h "Suc (Suc n)"]
    by (simp_all add: ac_simps)
  have lt: "?hi < ?hi + 1" "?hi + 1 < ?hi + 2" "h + 1 < ?hi" "h + 1 < ?hi + 1"
    using u n(2) by (simp_all add: word_less_nat_alt)
  have not_spent: "\<not> ib_asks ib \<le> g_asks ?g" using asks by (simp add: ask_again_def word_le_nat_alt)
  have moved: "\<not> gap_moved (?hi + 1) (h + 1) (new_gap (t 1)) < ib_reorder ib"
    "gap_moved (?hi + 2) (h + 1) ?g < ib_reorder ib"
    using u n by (simp_all add: word_less_nat_alt gap_moved_def unat_saturating_sub ask_again_def)
  have ask: "arrived ?ib index (?hi + 1) (t (Suc n)) = ([h + 1], ?ib1)"
    using arrived_next [of ?ib index ?hi "h + 1" "new_gap (t 1)" "t (Suc n)"] ib(1) young lt moved(1) not_spent n
    by simp
  have later: "arrived ?ib1 index (?hi + 1 + 1) (t (Suc (Suc n))) = ([], ?ib1\<lparr>ib_highest := Some (?hi + 2)\<rparr>)"
    using arrived_next [of ?ib1 index "?hi + 1" "h + 1" ?g "t (Suc (Suc n))"] ib(1) young lt moved(2) n
    by (simp add: add.assoc ask_again_def)
  have "ib_reorder ib = of_nat (unat (ib_reorder ib))" by simp
  then have rw: "ib_reorder ib = 1 + of_nat n" unfolding n(1) by simp
  have asked: "inbox_packet index ?ib (?hi + 1, t (Suc n), None) = ([Asked (h + 1), Came (?hi + 1)], ?ib1)"
    unfolding inbox_packet.simps ask by simp
  have up: "[1..<Suc (unat (ib_reorder ib))] = [1..<Suc n] @ [Suc n]" unfolding n(1) by simp
  have next_hi: "h + 1 + of_nat (Suc n) = ?hi + 1" "h + 2 + (1 + of_nat n) = ?hi + 1 + 1" by simp_all
  have repaired: "inbox_packet index ?ib1 (?hi + 1 + 1, t (Suc (Suc n)), Some (h + 1)) =
      ([Repaired (h + 1), Came (?hi + 1 + 1)], ?ib1\<lparr>ib_highest := Some (?hi + 2), ib_gaps := []\<rparr>)"
    unfolding inbox_packet.simps later by (simp add: satisfied_def bt_remove_def)
  have "inbox_run index ib (map (\<lambda>j. (h + 1 + of_nat j, t j, None)) [1..<Suc (unat (ib_reorder ib))]) =
      (Asked (h + 1) # rev (map (\<lambda>j. Came (h + 1 + of_nat j)) [1..<Suc (unat (ib_reorder ib))]), ?ib1)"
    unfolding up map_append inbox_run_snoc list.map next_hi(1) run Let_def prod.case asked by simp
  moreover obtain request where "request_body [h + 1] = Some request" "control_parse request = Some (Nack [h + 1])"
    using request_body_parses [of "[h + 1]"] by auto
  moreover obtain body where "repeat_body (h + 1) packet = Some body" "control_parse body = Some (Repeat (h + 1) packet)"
    using repeat_body_parses by blast
  moreover have "answers ob t' [h + 1] = [(h + 1, packet)]" using held by simp
  moreover have "inbox_packet index ?ib1 (h + 2 + ib_reorder ib, t (Suc (unat (ib_reorder ib))), Some (h + 1)) =
      ([Repaired (h + 1), Came (h + 2 + ib_reorder ib)], ?ib1\<lparr>ib_highest := Some (?hi + 2), ib_gaps := []\<rparr>)"
    using repaired unfolding rw [symmetric] next_hi(2) n(1) [symmetric] by (simp only: rw next_hi(2) n(1))
  moreover have "ib_gaps (?ib1\<lparr>ib_highest := Some (?hi + 2), ib_gaps := []\<rparr>) = []" by simp
  ultimately show ?thesis by blast
qed

theorem loss_is_repaired_witness:
  "\<exists>ib1 ib2.
    inbox_run 7 (inbox_new limits_off\<lparr>ib_index := Some 7, ib_highest := Some 1\<rparr>)
      [(3, 0, None), (4, 0, None), (5, 0, None)] = ([Asked 2, Came 5, Came 4, Came 3], ib1) \<and>
    inbox_packet 7 ib1 (6, 0, Some 2) = ([Repaired 2, Came 6], ib2)"
proof -
  let ?ib = "inbox_new limits_off\<lparr>ib_index := Some 7, ib_highest := Some 1\<rparr>"
  let ?ob = "outbox_record (outbox_new (limits_off\<lparr>l_capacity := 4\<rparr>)) 2 [69] 0"
  have ib: "ib_index ?ib = Some 7" "ib_highest ?ib = Some 1" "ib_gaps ?ib = []" "ib_reorder ?ib = 3" "ib_asks ?ib = 2"
    by (simp_all add: inbox_new_def limits_off_def DEFAULT_REORDER_def DEFAULT_ASKS_def)
  have held: "outbox_get ?ob (1 + 1) 0 = Some [69]" by code_simp
  have three: "[1..<Suc (unat (ib_reorder ?ib))] = [1, 2, 3]" unfolding ib by (simp add: upt_rec)
  have room: "unat (1 :: u64) + 2 + unat (ib_reorder ?ib) < 2 ^ 64" and r: "2 \<le> unat (ib_reorder ?ib)"
    unfolding ib by simp_all
  have asks: "2 \<le> ib_asks ?ib" unfolding ib by simp
  have young: "\<forall>j\<in>{1..Suc (unat (ib_reorder ?ib))}. saturating_sub ((\<lambda>_ :: nat. 0) j) ((\<lambda>_. 0) (1 :: nat)) \<le> ib_deadline ?ib"
    by (simp add: saturating_sub_def)
  obtain ib1 ib2 where
    "inbox_run 7 ?ib (map (\<lambda>j. (1 + 1 + of_nat j, 0, None)) [1, 2, 3]) =
      (Asked (1 + 1) # rev (map (\<lambda>j. Came (1 + 1 + of_nat j)) [1, 2, 3]), ib1)"
    "inbox_packet 7 ib1 (1 + 2 + ib_reorder ?ib, 0, Some (1 + 1)) = ([Repaired (1 + 1), Came (1 + 2 + ib_reorder ?ib)], ib2)"
    using loss_is_repaired [OF ib(1-3) r asks room young held] unfolding three by blast
  then show ?thesis unfolding ib(4) by (intro exI conjI) (simp_all del: inbox_run.simps inbox_packet.simps)
qed

end
