(* ===== verification/Checksum.thy ===== *)
theory Checksum
  imports Prelude
begin

text \<open>
  The internet checksum (\<open>paqetz-tcpwire/src/checksum.rs\<close>) on 64-bit accumulators, and the
  lemma every emitter rests on: a checksum computed with its own field zero, once written
  into that field, makes the data sum to zero.
\<close>

datatype ipv4 = Ipv4 u8 u8 u8 u8

fun octets :: "ipv4 \<Rightarrow> bytes" where
  "octets (Ipv4 a b c d) = [a, b, c, d]"

section \<open>The model\<close>

fun cksum_sum :: "bytes \<Rightarrow> u64 \<Rightarrow> u64" where
  "cksum_sum [] acc = acc"
| "cksum_sum [lst] acc = acc + push_bit 8 (ucast lst)"
| "cksum_sum (hi # lo # rest) acc = cksum_sum rest (acc + (push_bit 8 (ucast hi) OR ucast lo))"

text \<open>The folding loop; each turn makes the accumulator smaller.\<close>

lemma fold_step_unat:
  "unat (((acc :: u64) AND 0xFFFF) + drop_bit 16 acc) = unat acc mod 65536 + unat acc div 65536"
proof -
  have low: "unat (acc AND 0xFFFF) = unat acc mod 65536"
    using unat_and_mask [of acc 16] by (simp add: mask_eq_exp_minus_1)
  have high: "unat (drop_bit 16 acc) = unat acc div 65536"
    by (simp only: unat_shiftr) simp
  have "unat acc div 65536 < 2 ^ 48"
    using unat_bounds(4) [of acc] by (simp add: div_less_iff_less_mult)
  moreover have "unat acc mod 65536 < 65536" by simp
  ultimately show ?thesis
    by (simp add: unat_word_ariths low high del: mod_less_divisor)
qed

lemma high_bits_iff: "drop_bit 16 (acc :: u64) \<noteq> 0 \<longleftrightarrow> 65536 \<le> unat acc"
proof -
  have "drop_bit 16 acc \<noteq> 0 \<longleftrightarrow> unat (drop_bit 16 acc) \<noteq> 0"
    by (simp add: unat_eq_zero)
  also have "\<dots> \<longleftrightarrow> 65536 \<le> unat acc"
    by (simp only: unat_shiftr) (simp add: div_eq_0_iff not_less)
  finally show ?thesis .
qed

lemma fold_step_less: "65536 \<le> n \<Longrightarrow> n mod 65536 + n div 65536 < (n :: nat)"
  using div_mult_mod_eq [of n 65536] div_greater_zero_iff [of n 65536] by linarith

function fold_loop :: "u64 \<Rightarrow> u64" where
  "fold_loop acc =
     (if drop_bit 16 acc \<noteq> 0 then fold_loop ((acc AND 0xFFFF) + drop_bit 16 acc) else acc)"
  by pat_completeness auto
termination
  by (relation "measure unat")
    (simp_all add: fold_step_unat high_bits_iff fold_step_less)

declare fold_loop.simps [simp del]

definition cksum_fold :: "u64 \<Rightarrow> u16" where
  "cksum_fold acc = NOT (ucast (fold_loop acc))"

definition cksum_of :: "bytes \<Rightarrow> u16" where
  "cksum_of d = cksum_fold (cksum_sum d 0)"

definition pseudo_header_v4 :: "ipv4 \<Rightarrow> ipv4 \<Rightarrow> u8 \<Rightarrow> u16 \<Rightarrow> u64" where
  "pseudo_header_v4 src dst protocol tcp_len =
     0 + cksum_sum (octets src) 0 + cksum_sum (octets dst) 0 + ucast protocol + ucast tcp_len"

section \<open>Folding is reduction modulo 65535\<close>

lemma fold_loop_spec:
  "unat (fold_loop acc) < 65536 \<and> unat (fold_loop acc) mod 65535 = unat acc mod 65535 \<and>
   (unat (fold_loop acc) = 0 \<longleftrightarrow> unat acc = 0)"
proof (induction acc rule: fold_loop.induct)
  case (1 acc)
  show ?case
  proof (cases "drop_bit 16 acc \<noteq> 0")
    case True
    let ?n = "unat acc"
    have "?n = (?n div 65536) * 65535 + (?n mod 65536 + ?n div 65536)"
      using div_mult_mod_eq [of ?n 65536] by simp
    then have "?n mod 65535 = (?n mod 65536 + ?n div 65536) mod 65535"
      by (metis mod_mult_self3)
    moreover have "?n mod 65536 + ?n div 65536 = 0 \<longleftrightarrow> ?n = 0"
      using True high_bits_iff [of acc] div_greater_zero_iff [of ?n 65536] by auto
    ultimately show ?thesis
      using 1 [OF True] True
      by (simp add: fold_loop.simps [of acc] fold_step_unat)
  next
    case False
    then show ?thesis by (simp add: fold_loop.simps [of acc] high_bits_iff)
  qed
qed

lemma unat_cksum_fold: "unat (cksum_fold acc) = 65535 - unat (fold_loop acc)"
proof -
  have "unat (ucast (fold_loop acc) :: u16) = unat (fold_loop acc)"
    using fold_loop_spec [of acc] by (simp add: unsigned_ucast_eq take_bit_eq_mod)
  moreover have "unat (NOT w) = 65535 - unat w" for w :: u16
  proof -
    have "NOT w = 65535 - w" by (simp add: not_eq_complement)
    moreover have "w \<le> 65535" by (simp add: word_le_nat_alt) (use unat_bounds(2) [of w] in simp)
    ultimately show ?thesis by (simp add: unat_sub)
  qed
  ultimately show ?thesis by (simp add: cksum_fold_def)
qed

text \<open>The sum as a natural number, and when the accumulator holds it exactly.\<close>

fun nsum :: "bytes \<Rightarrow> nat" where
  "nsum [] = 0"
| "nsum [lst] = 256 * unat lst"
| "nsum (hi # lo # rest) = 256 * unat hi + unat lo + nsum rest"

lemma pair_word: "unat (push_bit 8 (ucast hi) OR ucast lo :: u64) = 256 * unat hi + unat (lo :: u8)"
  for hi :: u8
proof -
  have "push_bit 8 (ucast hi) AND (ucast lo :: u64) = 0"
    by (rule bit_word_eqI) (auto simp: bit_simps dest: bit_imp_le_length)
  then have "push_bit 8 (ucast hi) OR ucast lo = (push_bit 8 (ucast hi) + ucast lo :: u64)"
    by (rule disjunctive_add_eq_or [symmetric])
  moreover have "unat (push_bit 8 (ucast hi) :: u64) = 256 * unat hi"
    using unat_bounds(1) [of hi]
    by (simp add: push_bit_eq_mult unat_word_ariths unsigned_ucast_eq take_bit_eq_mod)
  ultimately show ?thesis
    using unat_bounds(1) [of hi] unat_bounds(1) [of lo]
    by (simp add: unat_word_ariths unsigned_ucast_eq take_bit_eq_mod)
qed

lemma single_word: "unat (push_bit 8 (ucast hi) :: u64) = 256 * unat (hi :: u8)"
  using pair_word [of hi 0] by simp

lemma nsum_le: "nsum d \<le> 65535 * length d"
proof (induction d rule: nsum.induct)
  case (2 b)
  then show ?case using unat_bounds(1) [of b] by simp
next
  case (3 hi lo rest)
  then show ?case using unat_bounds(1) [of hi] unat_bounds(1) [of lo] by simp
qed simp

lemma unat_cksum_sum: "unat acc + nsum d < 2 ^ 64 \<Longrightarrow> unat (cksum_sum d acc) = unat acc + nsum d"
proof (induction d acc rule: cksum_sum.induct)
  case (2 b acc)
  then show ?case by (simp add: unat_word_ariths single_word)
next
  case (3 hi lo rest acc)
  then have "unat (acc + (push_bit 8 (ucast hi) OR ucast lo)) = unat acc + 256 * unat hi + unat lo"
    by (simp add: unat_word_ariths pair_word)
  with 3 show ?case by simp
qed simp

lemma nsum_append: "even (length a) \<Longrightarrow> nsum (a @ b) = nsum a + nsum b"
  by (induction a rule: nsum.induct) auto

lemma nsum_be16: "nsum (to_be_bytes 2 (ck :: u16)) = unat ck"
proof -
  have "unat (ucast (drop_bit 8 ck) :: u8) = unat ck div 256"
    using unat_bounds(2) [of ck]
    by (simp only: unat_ucast_mod unat_shiftr) (simp add: div_less_iff_less_mult)
  moreover have "unat (ucast ck :: u8) = unat ck mod 256"
    by (simp add: unsigned_ucast_eq take_bit_eq_mod)
  ultimately show ?thesis by (simp add: to_be_bytes_2)
qed

section \<open>A written checksum verifies\<close>

lemma cksum_fold_zero:
  assumes "unat acc mod 65535 = 0" and "0 < unat acc"
  shows "cksum_fold acc = 0"
proof -
  have "unat (fold_loop acc) < 65536" "unat (fold_loop acc) mod 65535 = 0" "unat (fold_loop acc) \<noteq> 0"
    using fold_loop_spec [of acc] assms by auto
  then have "\<not> unat (fold_loop acc) < 65535" by auto
  with \<open>unat (fold_loop acc) < 65536\<close> have "unat (fold_loop acc) = 65535" by linarith
  then show ?thesis by (simp add: unat_cksum_fold unat_eq_zero [symmetric])
qed

text \<open>
  The bytes before the field have even length; the accumulator starts from the sum of a
  pseudo header, or from zero.
\<close>

lemma checksum_verifies:
  assumes even: "even (length pre)" and small: "unat acc + nsum (pre @ [0, 0] @ post) < 2 ^ 63"
  shows "cksum_fold (cksum_sum
    (pre @ to_be_bytes 2 (cksum_fold (cksum_sum (pre @ [0, 0] @ post) acc)) @ post) acc) = 0"
proof -
  let ?s = "cksum_sum (pre @ [0, 0] @ post) acc"
  let ?n = "unat acc + nsum (pre @ [0, 0] @ post)"
  have n: "unat ?s = ?n" using small by (intro unat_cksum_sum) simp
  have field: "nsum (pre @ to_be_bytes 2 ck @ post) = nsum (pre @ [0, 0] @ post) + unat ck" for ck :: u16
    using even by (simp add: nsum_append nsum_be16 nsum_append [of "to_be_bytes 2 ck"]
        nsum_append [of "[0, 0 :: u8]", simplified])
  let ?f = "unat (fold_loop ?s)"
  have f: "?f < 65536" "?f mod 65535 = ?n mod 65535" "?f = 0 \<longleftrightarrow> ?n = 0"
    using fold_loop_spec [of ?s] unfolding n by auto
  let ?t = "cksum_sum (pre @ to_be_bytes 2 (cksum_fold ?s) @ post) acc"
  have sum_t: "nsum (pre @ to_be_bytes 2 (cksum_fold ?s) @ post)
      = nsum (pre @ [0, 0] @ post) + (65535 - ?f)"
    by (simp only: field unat_cksum_fold)
  have "unat acc + nsum (pre @ to_be_bytes 2 (cksum_fold ?s) @ post) < 2 ^ 64"
    using small unfolding sum_t by simp
  then have t: "unat ?t = ?n + (65535 - ?f)"
    using unat_cksum_sum [of acc "pre @ to_be_bytes 2 (cksum_fold ?s) @ post"] sum_t by linarith
  have "(?n + (65535 - ?f)) mod 65535 = (?f + (65535 - ?f)) mod 65535"
    by (rule mod_add_cong [OF f(2) [symmetric] refl])
  also have "\<dots> = 0" using f(1) by simp
  finally have "unat ?t mod 65535 = 0" using t by simp
  moreover have "0 < unat ?t" using t f by (cases "?n = 0") auto
  ultimately show ?thesis by (rule cksum_fold_zero)
qed

end
