(* ===== verification/Profile.thy ===== *)
theory Profile
  imports Checksum
begin

text \<open>
  Operating-system fingerprint profiles (\<open>paqetz-tcpwire/src/profile.rs\<close>) and the errors of
  the wire crate (\<open>paqetz-tcpwire/src/lib.rs\<close>).
\<close>

datatype wire_error =
    WShort nat nat
  | TooLong nat
  | Options nat
  | NotEstablished

datatype syn_option = Mss | SackPermitted | Timestamps | Nop | EndOfList | WindowScale

fun option_bytes :: "syn_option \<Rightarrow> nat" where
  "option_bytes Mss = 4"
| "option_bytes SackPermitted = 2"
| "option_bytes Timestamps = 10"
| "option_bytes Nop = 1"
| "option_bytes EndOfList = 1"
| "option_bytes WindowScale = 3"

datatype ip_id_rule = PerConnection | Random

record os_profile =
  p_name :: string
  p_ttl :: u8
  p_mss :: u16
  p_window_scale :: "u8 option"
  p_syn_window :: u16
  p_window :: u32
  p_sack_permitted :: bool
  p_timestamps :: bool
  p_ts_hz :: u32
  p_ip_id :: ip_id_rule
  p_dont_fragment :: bool
  p_syn_options :: "syn_option list"

definition LINUX_OPTS :: "syn_option list" where
  "LINUX_OPTS = [Mss, SackPermitted, Timestamps, Nop, WindowScale]"

definition LINUX_6 :: os_profile where
  "LINUX_6 = \<lparr>p_name = ''linux-6'', p_ttl = 64, p_mss = 1460, p_window_scale = Some 7,
     p_syn_window = 64240, p_window = 64240, p_sack_permitted = True, p_timestamps = True,
     p_ts_hz = 1000, p_ip_id = PerConnection, p_dont_fragment = True,
     p_syn_options = LINUX_OPTS\<rparr>"

definition WINDOWS_11 :: os_profile where
  "WINDOWS_11 = \<lparr>p_name = ''windows-11'', p_ttl = 128, p_mss = 1460, p_window_scale = Some 8,
     p_syn_window = 64240, p_window = 65535, p_sack_permitted = True, p_timestamps = False,
     p_ts_hz = 1000, p_ip_id = PerConnection, p_dont_fragment = True,
     p_syn_options = [Mss, Nop, WindowScale, Nop, Nop, SackPermitted]\<rparr>"

definition ANDROID_14 :: os_profile where
  "ANDROID_14 = \<lparr>p_name = ''android-14'', p_ttl = 64, p_mss = 1460, p_window_scale = Some 8,
     p_syn_window = 65535, p_window = 65535, p_sack_permitted = True, p_timestamps = True,
     p_ts_hz = 1000, p_ip_id = PerConnection, p_dont_fragment = True,
     p_syn_options = LINUX_OPTS\<rparr>"

definition ROUTEROS_6 :: os_profile where
  "ROUTEROS_6 = \<lparr>p_name = ''routeros-6'', p_ttl = 64, p_mss = 1460, p_window_scale = Some 4,
     p_syn_window = 14600, p_window = 64240, p_sack_permitted = True, p_timestamps = True,
     p_ts_hz = 100, p_ip_id = PerConnection, p_dont_fragment = True,
     p_syn_options = LINUX_OPTS\<rparr>"

definition IOS_15 :: os_profile where
  "IOS_15 = \<lparr>p_name = ''ios-15'', p_ttl = 255, p_mss = 1460, p_window_scale = None,
     p_syn_window = 4128, p_window = 65535, p_sack_permitted = True, p_timestamps = True,
     p_ts_hz = 1000, p_ip_id = Random, p_dont_fragment = False,
     p_syn_options = [Mss, SackPermitted, Nop, Nop, Timestamps, EndOfList, EndOfList]\<rparr>"

definition ALL_profiles :: "os_profile list" where
  "ALL_profiles = [LINUX_6, WINDOWS_11, ANDROID_14, ROUTEROS_6, IOS_15]"

definition by_name :: "string \<Rightarrow> os_profile option" where
  "by_name name = find (\<lambda>p. p_name p = name) ALL_profiles"

lemmas profile_defs = LINUX_6_def WINDOWS_11_def ANDROID_14_def ROUTEROS_6_def IOS_15_def
  LINUX_OPTS_def ALL_profiles_def

text \<open>The names are distinct, so no profile is shadowed by an earlier entry.\<close>

lemma by_name_finds_every_profile: "p \<in> set ALL_profiles \<Longrightarrow> by_name (p_name p) = Some p"
proof -
  have "list_all (\<lambda>p. by_name (p_name p) = Some p) ALL_profiles" by code_simp
  then show "p \<in> set ALL_profiles \<Longrightarrow> by_name (p_name p) = Some p" by (simp add: list_all_iff)
qed

end
