(* ===== verification/Segment.thy ===== *)
theory Segment
  imports Profile
begin

text \<open>
  Segment construction and parsing (\<open>paqetz-tcpwire/src/segment.rs\<close>).  Emission writes an
  IPv4 header, a TCP header with the options of a profile and the payload into a caller's
  buffer through a bounds-checked cursor, then fills in the two checksums; parsing reads the
  same layout back from a captured frame.

  \<open>wire_packet\<close> states what an emitted packet is, byte for byte; \<open>emit_parts_eq\<close> proves that
  the cursor writes exactly that in front of what the buffer held.
\<close>

section \<open>Constants, kinds and fields\<close>

definition ETH_LEN :: nat where
  "ETH_LEN = 14"

definition IPV4_LEN :: nat where
  "IPV4_LEN = 20"

definition TCP_LEN :: nat where
  "TCP_LEN = 20"

definition ETHERTYPE_IPV4 :: u16 where
  "ETHERTYPE_IPV4 = 0x0800"

definition PROTO_TCP :: u8 where
  "PROTO_TCP = 6"

definition MAX_TCP_HEADER :: nat where
  "MAX_TCP_HEADER = 60"

definition SYN_OPTS_MAX :: nat where
  "SYN_OPTS_MAX = 20"

definition DATA_OPTS_TS :: nat where
  "DATA_OPTS_TS = 12"

definition FIN :: u8 where "FIN = 0x01"
definition SYN :: u8 where "SYN = 0x02"
definition RST :: u8 where "RST = 0x04"
definition PSH :: u8 where "PSH = 0x08"
definition ACK :: u8 where "ACK = 0x10"

lemmas flag_defs = FIN_def SYN_def RST_def PSH_def ACK_def
lemmas segment_consts = ETH_LEN_def IPV4_LEN_def TCP_LEN_def ETHERTYPE_IPV4_def PROTO_TCP_def
  MAX_TCP_HEADER_def SYN_OPTS_MAX_def DATA_OPTS_TS_def

datatype kind = Syn | SynAck | Ack | Data | Fin | Rst

fun kind_flags :: "kind \<Rightarrow> u8" where
  "kind_flags Syn = SYN"
| "kind_flags SynAck = SYN OR ACK"
| "kind_flags Ack = ACK"
| "kind_flags Data = ACK"
| "kind_flags Fin = FIN OR ACK"
| "kind_flags Rst = RST"

definition is_syn :: "kind \<Rightarrow> bool" where
  "is_syn k \<longleftrightarrow> k \<in> {Syn, SynAck}"

definition consumes_sequence :: "kind \<Rightarrow> bool" where
  "consumes_sequence k \<longleftrightarrow> k \<in> {Syn, SynAck, Fin}"

type_synonym sock = "ipv4 \<times> u16"

record fields =
  f_src :: sock
  f_dst :: sock
  f_seq :: u32
  f_ack :: u32
  f_window :: u16
  f_ip_id :: u16
  f_ts_val :: u32
  f_ts_ecr :: u32
  f_push :: bool
  f_mss :: u16
  f_dont_fragment :: bool

definition option_len :: "kind \<Rightarrow> os_profile \<Rightarrow> nat" where
  "option_len k p =
     (if is_syn k then sum_list (map option_bytes (p_syn_options p))
      else if p_timestamps p then DATA_OPTS_TS else 0)"

definition packet_len :: "kind \<Rightarrow> os_profile \<Rightarrow> nat \<Rightarrow> nat" where
  "packet_len k p payload_len = IPV4_LEN + TCP_LEN + option_len k p + payload_len"

definition MAX_OVERHEAD :: nat where
  "MAX_OVERHEAD = IPV4_LEN + TCP_LEN + SYN_OPTS_MAX"

section \<open>The cursor\<close>

record cursor =
  c_buf :: bytes
  c_pos :: nat

definition cursor_new :: "bytes \<Rightarrow> cursor" where
  "cursor_new buf = \<lparr>c_buf = buf, c_pos = 0\<rparr>"

definition put :: "cursor \<Rightarrow> bytes \<Rightarrow> wire_error + cursor" where
  "put c bs =
     (let stop = c_pos c + length bs in
      rbind (ok_or (overwrite (c_buf c) (c_pos c) bs) (WShort stop (length (c_buf c))))
        (\<lambda>buf. Inr \<lparr>c_buf = buf, c_pos = stop\<rparr>))"

text \<open>A run of writes, each with \<open>?\<close>: \<open>c.u8(..)?; c.u16(..)?; \<dots>\<close>.\<close>

fun puts :: "cursor \<Rightarrow> bytes list \<Rightarrow> wire_error + cursor" where
  "puts c [] = Inr c"
| "puts c (bs # bss) = rbind (put c bs) (\<lambda>c'. puts c' bss)"

definition w8 :: "u8 \<Rightarrow> bytes" where "w8 v = [v]"
definition w16 :: "u16 \<Rightarrow> bytes" where "w16 v = to_be_bytes 2 v"
definition w32 :: "u32 \<Rightarrow> bytes" where "w32 v = to_be_bytes 4 v"

definition write_at :: "bytes \<Rightarrow> nat \<Rightarrow> bytes \<Rightarrow> wire_error + bytes" where
  "write_at buf offset bs =
     ok_or (overwrite buf offset bs) (WShort (offset + length bs) (length buf))"

section \<open>Emission\<close>

text \<open>The writes of the IPv4 header, of the TCP header, and of one SYN option.\<close>

definition ipv4_writes :: "u16 \<Rightarrow> u16 \<Rightarrow> bool \<Rightarrow> u8 \<Rightarrow> u8 \<Rightarrow> u16 \<Rightarrow> ipv4 \<Rightarrow> ipv4 \<Rightarrow> bytes list" where
  "ipv4_writes ip_total ip_id df ttl proto ck src dst =
     [w8 0x45, w8 0, w16 ip_total, w16 ip_id, w16 (if df then 0x4000 else 0), w8 ttl, w8 proto,
      w16 ck, octets src, octets dst]"

definition segment_flags :: "kind \<Rightarrow> fields \<Rightarrow> u8" where
  "segment_flags k f = kind_flags k OR (if f_push f \<and> k = Data then PSH else 0)"

definition data_offset_words :: "nat \<Rightarrow> u8" where
  "data_offset_words tcp_total = (if tcp_total div 4 < 256 then of_nat (tcp_total div 4) else 5)"

definition tcp_writes :: "kind \<Rightarrow> fields \<Rightarrow> nat \<Rightarrow> u16 \<Rightarrow> bytes list" where
  "tcp_writes k f tcp_total ck =
     [w16 (snd (f_src f)), w16 (snd (f_dst f)), w32 (f_seq f), w32 (f_ack f),
      w8 (push_bit 4 (data_offset_words tcp_total)), w8 (segment_flags k f), w16 (f_window f),
      w16 ck, w16 0]"

fun syn_option_writes :: "kind \<Rightarrow> os_profile \<Rightarrow> fields \<Rightarrow> syn_option \<Rightarrow> bytes list" where
  "syn_option_writes k p f Mss = [w8 2, w8 4, w16 (f_mss f)]"
| "syn_option_writes k p f SackPermitted = [w8 4, w8 2]"
| "syn_option_writes k p f Timestamps =
     [w8 8, w8 10, w32 (f_ts_val f), w32 (if k = SynAck then f_ts_ecr f else 0)]"
| "syn_option_writes k p f Nop = [w8 1]"
| "syn_option_writes k p f EndOfList = [w8 0]"
| "syn_option_writes k p f WindowScale =
     [w8 3, w8 3, w8 (case p_window_scale p of None \<Rightarrow> 0 | Some s \<Rightarrow> s)]"

definition option_writes :: "kind \<Rightarrow> os_profile \<Rightarrow> fields \<Rightarrow> bytes list" where
  "option_writes k p f =
     (if is_syn k then concat (map (syn_option_writes k p f) (p_syn_options p))
      else if p_timestamps p
      then [w8 1, w8 1, w8 8, w8 10, w32 (f_ts_val f), w32 (f_ts_ecr f)]
      else [])"

definition write_options :: "cursor \<Rightarrow> kind \<Rightarrow> os_profile \<Rightarrow> fields \<Rightarrow> wire_error + cursor" where
  "write_options c k p f = puts c (option_writes k p f)"

definition emit_parts ::
  "kind \<Rightarrow> os_profile \<Rightarrow> fields \<Rightarrow> bytes list \<Rightarrow> bytes \<Rightarrow> wire_error + nat \<times> bytes" where
  "emit_parts k p f parts out =
     (let payload_len = sum_list (map length parts);
          opts = option_len k p;
          tcp_total = TCP_LEN + opts
      in if opts mod 4 \<noteq> 0 \<or> tcp_total > MAX_TCP_HEADER then Inl (Options opts)
      else let total = IPV4_LEN + tcp_total + payload_len
      in if length out < total then Inl (WShort total (length out))
      else if total \<ge> 65536 then Inl (TooLong total)
      else
        rbind (puts (cursor_new out)
          (ipv4_writes (of_nat total) (f_ip_id f) (f_dont_fragment f) (p_ttl p) PROTO_TCP 0
             (fst (f_src f)) (fst (f_dst f)))) (\<lambda>c1.
        rbind (ok_or (get_from (c_buf c1) IPV4_LEN) (WShort IPV4_LEN (length (c_buf c1)))) (\<lambda>tcp.
        rbind (puts (cursor_new tcp) (tcp_writes k f tcp_total 0)) (\<lambda>c2.
        rbind (write_options c2 k p f) (\<lambda>c3.
        if c_pos c3 \<noteq> tcp_total then Inl (Options opts)
        else
        rbind (puts c3 parts) (\<lambda>c4.
        let out1 = take IPV4_LEN (c_buf c1) @ c_buf c4 in
        rbind (ok_or (get_range out1 0 IPV4_LEN) (WShort IPV4_LEN (length out1))) (\<lambda>hdr.
        rbind (write_at out1 10 (to_be_bytes 2 (cksum_of hdr))) (\<lambda>out2.
        rbind (ok_or (get_range out2 IPV4_LEN total) (WShort total (length out2))) (\<lambda>seg.
        if length seg \<ge> 65536 then Inl (TooLong total)
        else
        let pseudo = pseudo_header_v4 (fst (f_src f)) (fst (f_dst f)) PROTO_TCP (of_nat (length seg));
            tcp_ck = cksum_fold (cksum_sum seg pseudo)
        in rbind (write_at out2 (IPV4_LEN + 16) (to_be_bytes 2 tcp_ck)) (\<lambda>out3.
           Inr (total, out3)))))))))))"

definition emit ::
  "kind \<Rightarrow> os_profile \<Rightarrow> fields \<Rightarrow> bytes \<Rightarrow> bytes \<Rightarrow> wire_error + nat \<times> bytes" where
  "emit k p f payload out = emit_parts k p f [payload] out"

section \<open>IPv4 identification\<close>

definition unpredictable_ip_id :: "u32 \<Rightarrow> u16" where
  "unpredictable_ip_id entropy =
     max (ucast (drop_bit 16 ((entropy + 0x9E3779B9) * 0x9E3779B9))) 1"

definition ip_id :: "os_profile \<Rightarrow> u32 \<Rightarrow> u32 \<Rightarrow> u16" where
  "ip_id p base counter =
     (case p_ip_id p of
        PerConnection \<Rightarrow>
          (ucast (drop_bit 16 (base * 0x9E3779B9)) :: u16) + ucast (counter AND 0xFFFF)
      | Random \<Rightarrow> unpredictable_ip_id counter)"

definition unconnected_ip_id :: "os_profile \<Rightarrow> bool \<Rightarrow> u32 \<Rightarrow> u16" where
  "unconnected_ip_id p dont_fragment entropy =
     (if p_ip_id p = PerConnection \<and> dont_fragment then 0 else unpredictable_ip_id entropy)"

section \<open>Parsing\<close>

record segment =
  g_src :: sock
  g_dst :: sock
  g_seq :: u32
  g_ack :: u32
  g_flags :: u8
  g_window :: u16
  g_ts_val :: "u32 option"
  g_payload :: bytes

definition has :: "segment \<Rightarrow> u8 \<Rightarrow> bool" where
  "has s flag \<longleftrightarrow> g_flags s AND flag \<noteq> 0"

definition be16_at :: "bytes \<Rightarrow> nat \<Rightarrow> u16 option" where
  "be16_at bs i = do { a \<leftarrow> get bs i; b \<leftarrow> get bs (i + 1); Some (from_be_bytes [a, b]) }"

definition be32_at :: "bytes \<Rightarrow> nat \<Rightarrow> u32 option" where
  "be32_at bs i =
     do { a \<leftarrow> get bs i; b \<leftarrow> get bs (i + 1); c \<leftarrow> get bs (i + 2); d \<leftarrow> get bs (i + 3);
          Some (from_be_bytes [a, b, c, d]) }"

definition addr_at :: "bytes \<Rightarrow> nat \<Rightarrow> ipv4 option" where
  "addr_at bs i =
     do { a \<leftarrow> get bs i; b \<leftarrow> get bs (i + 1); c \<leftarrow> get bs (i + 2); d \<leftarrow> get bs (i + 3);
          Some (Ipv4 a b c d) }"

text \<open>The walk over the option block from index \<open>i\<close>: it ends because the index grows.\<close>

function find_timestamp_from :: "bytes \<Rightarrow> nat \<Rightarrow> u32 option" where
  "find_timestamp_from options i =
     (if i < length options then
        let knd = options ! i in
        if knd = 0 then None
        else if knd = 1 then find_timestamp_from options (i + 1)
        else case get options (i + 1) of
          None \<Rightarrow> None
        | Some l \<Rightarrow>
            let len = unat l in
            if len < 2 \<or> i + len > length options then None
            else if knd = 8 \<and> len = 10 then be32_at options (i + 2)
            else find_timestamp_from options (i + len)
      else None)"
  by pat_completeness auto
termination
  by (relation "measure (\<lambda>(options, i). length options - i)") auto

declare find_timestamp_from.simps [simp del]

definition find_timestamp :: "bytes \<Rightarrow> u32 option" where
  "find_timestamp options = find_timestamp_from options 0"

definition parse_tcp :: "bytes \<Rightarrow> ipv4 \<Rightarrow> ipv4 \<Rightarrow> segment option" where
  "parse_tcp tcp src dst =
     (if length tcp < TCP_LEN then None
      else do {
        src_port \<leftarrow> be16_at tcp 0;
        dst_port \<leftarrow> be16_at tcp 2;
        sq \<leftarrow> be32_at tcp 4;
        ak \<leftarrow> be32_at tcp 8;
        off \<leftarrow> get tcp 12;
        let words = unat (drop_bit 4 off);
        if words < 5 then None
        else do {
          let tcp_header_len = words * 4;
          if tcp_header_len > length tcp then None
          else do {
            flags \<leftarrow> get tcp 13;
            window \<leftarrow> be16_at tcp 14;
            options \<leftarrow> get_range tcp TCP_LEN tcp_header_len;
            payload \<leftarrow> get_from tcp tcp_header_len;
            Some \<lparr>g_src = (src, src_port), g_dst = (dst, dst_port), g_seq = sq, g_ack = ak,
                  g_flags = flags, g_window = window, g_ts_val = find_timestamp options,
                  g_payload = payload\<rparr>
          }
        }
      })"

definition segment_parse_ipv4 :: "bytes \<Rightarrow> segment option" where
  "segment_parse_ipv4 packet = do {
     ver_ihl \<leftarrow> get packet 0;
     if drop_bit 4 ver_ihl \<noteq> 4 then None
     else do {
       let ihl_words = unat (ver_ihl AND 0x0F);
       if ihl_words < 5 then None
       else do {
         let ip_header_len = ihl_words * 4;
         proto \<leftarrow> get packet 9;
         if proto \<noteq> PROTO_TCP then None
         else do {
           frag \<leftarrow> be16_at packet 6;
           if frag AND 0xBFFF \<noteq> 0 then None
           else do {
             tl16 \<leftarrow> be16_at packet 2;
             let total_len = unat tl16;
             if total_len < ip_header_len \<or> total_len > length packet then None
             else do {
               src \<leftarrow> addr_at packet 12;
               dst \<leftarrow> addr_at packet 16;
               tcp \<leftarrow> get_range packet ip_header_len total_len;
               parse_tcp tcp src dst
             }
           }
         }
       }
     }
   }"

definition segment_parse_ethernet :: "bytes \<Rightarrow> segment option" where
  "segment_parse_ethernet frame = do {
     rest \<leftarrow> get_from frame ETH_LEN;
     ethertype \<leftarrow> be16_at frame 12;
     if ethertype \<noteq> ETHERTYPE_IPV4 then None else segment_parse_ipv4 rest
   }"

section \<open>What the cursor writes\<close>

lemma length_w [simp]: "length (w8 a) = 1" "length (w16 b) = 2" "length (w32 c) = 4"
  by (simp_all add: w8_def w16_def w32_def)

lemma length_octets [simp]: "length (octets a) = 4"
  by (cases a) simp

lemma put_ok:
  "length bs \<le> length rest \<Longrightarrow>
     put \<lparr>c_buf = pre @ rest, c_pos = length pre\<rparr> bs =
     Inr \<lparr>c_buf = (pre @ bs) @ drop (length bs) rest, c_pos = length (pre @ bs)\<rparr>"
  by (simp add: put_def overwrite_def Let_def)

lemma puts_ok:
  "length (concat bss) \<le> length rest \<Longrightarrow>
     puts \<lparr>c_buf = pre @ rest, c_pos = length pre\<rparr> bss =
     Inr \<lparr>c_buf = (pre @ concat bss) @ drop (length (concat bss)) rest,
         c_pos = length (pre @ concat bss)\<rparr>"
proof (induction bss arbitrary: pre rest)
  case Nil
  then show ?case by simp
next
  case (Cons bs bss)
  have "puts \<lparr>c_buf = pre @ rest, c_pos = length pre\<rparr> (bs # bss)
      = puts \<lparr>c_buf = (pre @ bs) @ drop (length bs) rest, c_pos = length (pre @ bs)\<rparr> bss"
    using Cons.prems by (simp only: puts.simps put_ok concat.simps length_append rbind_simps)
  also have "\<dots> = Inr \<lparr>c_buf = ((pre @ bs) @ concat bss) @
        drop (length (concat bss)) (drop (length bs) rest),
      c_pos = length ((pre @ bs) @ concat bss)\<rparr>"
    using Cons.prems by (intro Cons.IH) simp
  finally show ?case by (simp add: add.commute)
qed

lemma puts_new:
  "length (concat bss) \<le> length buf \<Longrightarrow>
     puts (cursor_new buf) bss =
     Inr \<lparr>c_buf = concat bss @ drop (length (concat bss)) buf, c_pos = length (concat bss)\<rparr>"
  using puts_ok [of bss buf "[]"] by (simp add: cursor_new_def)

section \<open>The packet, byte for byte\<close>

definition ip_header :: "u16 \<Rightarrow> u16 \<Rightarrow> bool \<Rightarrow> u8 \<Rightarrow> u8 \<Rightarrow> u16 \<Rightarrow> ipv4 \<Rightarrow> ipv4 \<Rightarrow> bytes" where
  "ip_header ip_total ipid df ttl proto ck src dst =
     concat (ipv4_writes ip_total ipid df ttl proto ck src dst)"

text \<open>An IPv4 header with its checksum filled in.\<close>

definition ip_header_ck :: "u16 \<Rightarrow> u16 \<Rightarrow> bool \<Rightarrow> u8 \<Rightarrow> u8 \<Rightarrow> ipv4 \<Rightarrow> ipv4 \<Rightarrow> bytes" where
  "ip_header_ck ip_total ipid df ttl proto src dst =
     ip_header ip_total ipid df ttl proto
       (cksum_of (ip_header ip_total ipid df ttl proto 0 src dst)) src dst"

definition tcp_segment :: "kind \<Rightarrow> os_profile \<Rightarrow> fields \<Rightarrow> bytes \<Rightarrow> u16 \<Rightarrow> bytes" where
  "tcp_segment k p f payload ck =
     concat (tcp_writes k f (TCP_LEN + option_len k p) ck) @ concat (option_writes k p f) @ payload"

definition tcp_checksum :: "kind \<Rightarrow> os_profile \<Rightarrow> fields \<Rightarrow> bytes \<Rightarrow> u16" where
  "tcp_checksum k p f payload =
     cksum_fold (cksum_sum (tcp_segment k p f payload 0)
       (pseudo_header_v4 (fst (f_src f)) (fst (f_dst f)) PROTO_TCP
         (of_nat (length (tcp_segment k p f payload 0)))))"

definition wire_packet :: "kind \<Rightarrow> os_profile \<Rightarrow> fields \<Rightarrow> bytes \<Rightarrow> bytes" where
  "wire_packet k p f payload =
     ip_header_ck (of_nat (packet_len k p (length payload))) (f_ip_id f) (f_dont_fragment f)
       (p_ttl p) PROTO_TCP (fst (f_src f)) (fst (f_dst f)) @
     tcp_segment k p f payload (tcp_checksum k p f payload)"

lemma length_ip_header [simp]: "length (ip_header t i d l pr ck s e) = 20"
  by (simp add: ip_header_def ipv4_writes_def)

lemma length_ip_header_ck [simp]: "length (ip_header_ck t i d l pr s e) = 20"
  by (simp add: ip_header_ck_def)

lemma length_tcp_writes [simp]: "length (concat (tcp_writes k f t ck)) = 20"
  by (simp add: tcp_writes_def)

lemma length_syn_option_writes: "length (concat (syn_option_writes k p f opt)) = option_bytes opt"
  by (cases opt) simp_all

lemma length_option_writes [simp]: "length (concat (option_writes k p f)) = option_len k p"
proof -
  have "length (concat (concat (map (syn_option_writes k p f) opts)))
      = sum_list (map option_bytes opts)" for opts
    by (induction opts) (simp_all add: length_syn_option_writes)
  then show ?thesis
    by (simp add: option_writes_def option_len_def DATA_OPTS_TS_def)
qed

lemma length_tcp_segment [simp]:
  "length (tcp_segment k p f payload ck) = 20 + option_len k p + length payload"
  by (simp add: tcp_segment_def)

lemma length_wire_packet [simp]:
  "length (wire_packet k p f payload) = packet_len k p (length payload)"
  by (simp add: wire_packet_def packet_len_def segment_consts)

text \<open>Both checksum fields sit at even offsets behind a fixed prefix.\<close>

lemma ip_header_split:
  "\<exists>A B. length A = 10 \<and> (\<forall>ck. ip_header t i d l pr ck s e = A @ to_be_bytes 2 ck @ B)"
proof -
  let ?A = "concat [w8 0x45, w8 0, w16 t, w16 i, w16 (if d then 0x4000 else 0), w8 l, w8 pr]"
  have "length ?A = 10" by simp
  moreover have "ip_header t i d l pr ck s e = ?A @ to_be_bytes 2 ck @ (octets s @ octets e)" for ck
    by (simp add: ip_header_def ipv4_writes_def w16_def)
  ultimately show ?thesis by blast
qed

lemma tcp_segment_split:
  "\<exists>A B. length A = 16 \<and> (\<forall>ck. tcp_segment k p f payload ck = A @ to_be_bytes 2 ck @ B)"
proof -
  let ?A = "concat [w16 (snd (f_src f)), w16 (snd (f_dst f)), w32 (f_seq f), w32 (f_ack f),
      w8 (push_bit 4 (data_offset_words (TCP_LEN + option_len k p))), w8 (segment_flags k f),
      w16 (f_window f)]"
  have "length ?A = 16" by simp
  moreover have "tcp_segment k p f payload ck =
      ?A @ to_be_bytes 2 ck @ (w16 0 @ concat (option_writes k p f) @ payload)" for ck
    by (simp add: tcp_segment_def tcp_writes_def w16_def)
  ultimately show ?thesis by blast
qed

lemma zero_field: "to_be_bytes 2 (0 :: u16) = [0, 0]"
  by (simp add: to_be_bytes_2)

lemma write_at_append:
  "length pre = n \<Longrightarrow> length old = length bs \<Longrightarrow>
     write_at (pre @ old @ post) n bs = Inr (pre @ bs @ post)"
  using overwrite_append [of old bs pre post] by (auto simp: write_at_def)

lemma fill_ip_checksum:
  "write_at (ip_header t i d l pr 0 s e @ rest) 10
     (to_be_bytes 2 (cksum_of (ip_header t i d l pr 0 s e))) =
   Inr (ip_header_ck t i d l pr s e @ rest)"
proof -
  obtain A B where AB: "length A = 10" "\<And>ck. ip_header t i d l pr ck s e = A @ to_be_bytes 2 ck @ B"
    using ip_header_split [of t i d l pr s e] by blast
  show ?thesis
    using write_at_append [OF AB(1), of "to_be_bytes 2 (0 :: u16)"] by (simp add: AB(2) ip_header_ck_def)
qed

lemma fill_tcp_checksum:
  assumes "length H = 20"
  shows "write_at (H @ tcp_segment k p f payload 0 @ rest) 36
     (to_be_bytes 2 ck) = Inr (H @ tcp_segment k p f payload ck @ rest)"
proof -
  obtain A B where AB: "length A = 16" "\<And>ck. tcp_segment k p f payload ck = A @ to_be_bytes 2 ck @ B"
    using tcp_segment_split [of k p f payload] by blast
  show ?thesis
    using write_at_append [of "H @ A" 36 "to_be_bytes 2 (0 :: u16)"] assms AB(1)
    by (simp add: AB(2))
qed

text \<open>
  Once the guards have passed, the writes go through and the buffer starts with the packet;
  what it held beyond the packet stays.
\<close>

lemma emit_parts_eq:
  assumes opts: "option_len k p mod 4 = 0" "TCP_LEN + option_len k p \<le> MAX_TCP_HEADER"
    and room: "packet_len k p (length (concat parts)) \<le> length out"
    and small: "packet_len k p (length (concat parts)) < 65536"
  shows "emit_parts k p f parts out =
    Inr (packet_len k p (length (concat parts)),
         wire_packet k p f (concat parts) @ drop (packet_len k p (length (concat parts))) out)"
proof -
  let ?P = "concat parts" and ?O = "concat (option_writes k p f)"
  let ?n = "packet_len k p (length ?P)" and ?tt = "TCP_LEN + option_len k p"
  let ?H = "ip_header (of_nat ?n) (f_ip_id f) (f_dont_fragment f) (p_ttl p) PROTO_TCP 0
    (fst (f_src f)) (fst (f_dst f))"
  let ?T = "concat (tcp_writes k f ?tt 0)"
  have len: "sum_list (map length parts) = length ?P" by (simp add: length_concat)
  have n: "?n = 40 + option_len k p + length ?P" by (simp add: packet_len_def segment_consts)
  have total: "IPV4_LEN + ?tt + length ?P = ?n" by (simp add: packet_len_def)
  have c1: "puts (cursor_new out) (ipv4_writes (of_nat ?n) (f_ip_id f) (f_dont_fragment f) (p_ttl p)
      PROTO_TCP 0 (fst (f_src f)) (fst (f_dst f))) = Inr \<lparr>c_buf = ?H @ drop 20 out, c_pos = 20\<rparr>"
    using room n by (subst puts_new) (simp_all flip: ip_header_def)
  let ?tcp = "drop 20 out"
  have c2: "puts (cursor_new ?tcp) (tcp_writes k f ?tt 0) =
      Inr \<lparr>c_buf = ?T @ drop 20 ?tcp, c_pos = length ?T\<rparr>"
    using room n by (subst puts_new) simp_all
  have tt: "length (?T @ ?O) = ?tt" by (simp add: TCP_LEN_def)
  let ?r3 = "drop (option_len k p) (drop 20 ?tcp)"
  have c3: "write_options \<lparr>c_buf = ?T @ drop 20 ?tcp, c_pos = length ?T\<rparr> k p f =
      Inr \<lparr>c_buf = (?T @ ?O) @ ?r3, c_pos = ?tt\<rparr>"
    using room n puts_ok [of "option_writes k p f" "drop 20 ?tcp" ?T]
    unfolding tt write_options_def by simp
  have rest: "drop (length ?P) ?r3 = drop ?n out"
    by (simp add: n add.commute add.left_commute)
  let ?S = "tcp_segment k p f ?P 0"
  have "puts \<lparr>c_buf = (?T @ ?O) @ ?r3, c_pos = ?tt\<rparr> parts =
      Inr \<lparr>c_buf = ((?T @ ?O) @ ?P) @ drop (length ?P) ?r3, c_pos = length ((?T @ ?O) @ ?P)\<rparr>"
    using puts_ok [of parts ?r3 "?T @ ?O"] room n unfolding tt by simp
  then have c4: "puts \<lparr>c_buf = (?T @ ?O) @ ?r3, c_pos = ?tt\<rparr> parts =
      Inr \<lparr>c_buf = ?S @ drop ?n out, c_pos = length ((?T @ ?O) @ ?P)\<rparr>"
    unfolding rest by (simp only: tcp_segment_def append_assoc)
  have lenS: "20 + length ?S = ?n" by (simp add: n)
  have hdr: "get_range (?H @ ?S @ drop ?n out) 0 IPV4_LEN = Some ?H"
    using get_range_append [of "[]" ?H "?S @ drop ?n out"] by (simp add: IPV4_LEN_def)
  let ?H' = "ip_header_ck (of_nat ?n) (f_ip_id f) (f_dont_fragment f) (p_ttl p) PROTO_TCP
    (fst (f_src f)) (fst (f_dst f))"
  have seg: "get_range (?H' @ ?S @ drop ?n out) IPV4_LEN ?n = Some ?S"
    using get_range_append [of ?H' ?S "drop ?n out"] lenS by (simp add: IPV4_LEN_def)
  have from20: "get_from (?H @ ?tcp) IPV4_LEN = Some ?tcp" "take IPV4_LEN (?H @ ?tcp) = ?H"
    by (simp_all add: get_from_def IPV4_LEN_def)
  have small_seg: "\<not> 65536 \<le> length ?S" using small lenS by linarith
  have guards: "(option_len k p mod 4 \<noteq> 0 \<or> MAX_TCP_HEADER < ?tt) = False" "(length out < ?n) = False"
    "(65536 \<le> ?n) = False"
    using opts room small by auto
  have ck36: "write_at (?H' @ ?S @ drop ?n out) (IPV4_LEN + 16) (to_be_bytes 2 (tcp_checksum k p f ?P))
      = Inr (wire_packet k p f ?P @ drop ?n out)"
    using fill_tcp_checksum [of ?H' k p f ?P "drop ?n out"] by (simp add: IPV4_LEN_def wire_packet_def)
  show ?thesis
    unfolding emit_parts_def Let_def len total guards if_False c1 rbind_simps cursor.simps from20
      ok_or_simps c2 c3 c4 hdr fill_ip_checksum seg
    using small_seg ck36 by (simp add: tcp_checksum_def del: length_tcp_segment)
qed

section \<open>Reading an emitted packet back\<close>

lemma ip_header_reads:
  "get (ip_header t i d l pr ck s e @ r) 0 = Some 0x45"
  "get (ip_header t i d l pr ck s e @ r) 9 = Some pr"
  "be16_at (ip_header t i d l pr ck s e @ r) 2 = Some t"
  "be16_at (ip_header t i d l pr ck s e @ r) 6 = Some (if d then 0x4000 else 0)"
  "addr_at (ip_header t i d l pr ck s e @ r) 12 = Some s"
  "addr_at (ip_header t i d l pr ck s e @ r) 16 = Some e"
  by (cases s; cases e; simp add: ip_header_def ipv4_writes_def w8_def w16_def to_be_bytes_2
      be16_at_def addr_at_def)+

lemma tcp_reads:
  "be16_at (concat (tcp_writes k f t ck) @ r) 0 = Some (snd (f_src f))"
  "be16_at (concat (tcp_writes k f t ck) @ r) 2 = Some (snd (f_dst f))"
  "be32_at (concat (tcp_writes k f t ck) @ r) 4 = Some (f_seq f)"
  "be32_at (concat (tcp_writes k f t ck) @ r) 8 = Some (f_ack f)"
  "get (concat (tcp_writes k f t ck) @ r) 12 = Some (push_bit 4 (data_offset_words t))"
  "get (concat (tcp_writes k f t ck) @ r) 13 = Some (segment_flags k f)"
  "be16_at (concat (tcp_writes k f t ck) @ r) 14 = Some (f_window f)"
  by (simp_all add: tcp_writes_def w8_def w16_def w32_def to_be_bytes_2 to_be_bytes_4
      be16_at_def be32_at_def)

lemma data_offset_read:
  assumes "option_len k p mod 4 = 0" "TCP_LEN + option_len k p \<le> MAX_TCP_HEADER"
  shows "unat (drop_bit 4 (push_bit 4 (data_offset_words (TCP_LEN + option_len k p)))) * 4
    = TCP_LEN + option_len k p"
proof -
  obtain w where w: "option_len k p = 4 * w" using assms(1) by auto
  then have le: "5 + w \<le> 15" using assms(2) by (simp add: segment_consts)
  have "data_offset_words (TCP_LEN + option_len k p) = of_nat (5 + w)"
    using le by (simp add: data_offset_words_def w TCP_LEN_def)
  moreover have "unat (drop_bit 4 (push_bit 4 (of_nat (5 + w) :: u8))) = 5 + w"
  proof -
    have "unat (push_bit 4 (of_nat (5 + w) :: u8)) = 16 * (5 + w)"
      using le by (simp add: push_bit_eq_mult unat_word_ariths unat_of_nat)
    then show ?thesis by (simp only: unat_shiftr) simp
  qed
  ultimately show ?thesis by (simp add: w TCP_LEN_def)
qed

text \<open>Which layouts carry a timestamp the walk can reach.\<close>

fun carries_ts :: "syn_option list \<Rightarrow> bool" where
  "carries_ts [] = False"
| "carries_ts (opt # opts) =
     (case opt of Timestamps \<Rightarrow> True | EndOfList \<Rightarrow> False | _ \<Rightarrow> carries_ts opts)"

lemma find_timestamp_syn:
  "find_timestamp_from (pre @ concat (concat (map (syn_option_writes k p f) opts))) (length pre)
     = (if carries_ts opts then Some (f_ts_val f) else None)"
proof (induction opts arbitrary: pre)
  case Nil
  then show ?case by (simp add: find_timestamp_from.simps [of pre])
next
  case (Cons opt opts)
  let ?w = "concat (syn_option_writes k p f opt)"
  let ?bs = "pre @ ?w @ concat (concat (map (syn_option_writes k p f) opts))"
  have IH: "find_timestamp_from ?bs (length pre + option_bytes opt)
      = (if carries_ts opts then Some (f_ts_val f) else None)"
    using Cons.IH [of "pre @ ?w"] unfolding length_append length_syn_option_writes by simp
  show ?case
    using IH
    by (cases opt) (simp_all add: find_timestamp_from.simps [of ?bs "length pre", simplified]
        find_timestamp_from.simps [of _ "length pre"] w8_def w16_def w32_def to_be_bytes_2
        to_be_bytes_4 nth_append get_append_right be32_at_def)
qed

lemma find_timestamp_data:
  "find_timestamp (concat [w8 1, w8 1, w8 8, w8 10, w32 a, w32 b]) = Some a"
  by (simp add: find_timestamp_def find_timestamp_from.simps w8_def w32_def to_be_bytes_4
      be32_at_def)

definition timestamp_carried :: "kind \<Rightarrow> os_profile \<Rightarrow> bool" where
  "timestamp_carried k p \<longleftrightarrow> (if is_syn k then carries_ts (p_syn_options p) else p_timestamps p)"

lemma find_timestamp_options:
  "find_timestamp (concat (option_writes k p f)) =
     (if timestamp_carried k p then Some (f_ts_val f) else None)"
  using find_timestamp_syn [of "[]" k p f "p_syn_options p"]
    find_timestamp_data [of "f_ts_val f" "f_ts_ecr f"]
  by (auto simp: option_writes_def timestamp_carried_def find_timestamp_def
      find_timestamp_from.simps [of "[]"])

definition read_back :: "kind \<Rightarrow> os_profile \<Rightarrow> fields \<Rightarrow> bytes \<Rightarrow> segment" where
  "read_back k p f payload =
     \<lparr>g_src = f_src f, g_dst = f_dst f, g_seq = f_seq f, g_ack = f_ack f,
      g_flags = segment_flags k f, g_window = f_window f,
      g_ts_val = (if timestamp_carried k p then Some (f_ts_val f) else None),
      g_payload = payload\<rparr>"

lemma parse_tcp_segment:
  assumes "option_len k p mod 4 = 0" "TCP_LEN + option_len k p \<le> MAX_TCP_HEADER"
  shows "parse_tcp (tcp_segment k p f payload ck) (fst (f_src f)) (fst (f_dst f))
    = Some (read_back k p f payload)"
proof -
  let ?T = "concat (tcp_writes k f (TCP_LEN + option_len k p) ck)"
  let ?O = "concat (option_writes k p f)"
  let ?off = "unat (drop_bit 4 (push_bit 4 (data_offset_words (TCP_LEN + option_len k p))))"
  note off = data_offset_read [OF assms]
  have "\<not> ?off < 5" using off by (simp add: TCP_LEN_def)
  moreover have "get_range (?T @ ?O @ payload) TCP_LEN (TCP_LEN + option_len k p) = Some ?O"
    using get_range_append [of ?T ?O payload] by (simp add: TCP_LEN_def)
  moreover have "get_from (?T @ ?O @ payload) (TCP_LEN + option_len k p) = Some payload"
    using get_from_append [of "?T @ ?O" payload] by (simp add: TCP_LEN_def)
  ultimately show ?thesis
    using off
    by (simp add: parse_tcp_def tcp_segment_def tcp_reads find_timestamp_options read_back_def Let_def
        TCP_LEN_def)
qed

lemma parse_wire_packet:
  assumes opts: "option_len k p mod 4 = 0" "TCP_LEN + option_len k p \<le> MAX_TCP_HEADER"
    and small: "packet_len k p (length payload) < 65536"
  shows "segment_parse_ipv4 (wire_packet k p f payload @ trailer) = Some (read_back k p f payload)"
proof -
  let ?n = "packet_len k p (length payload)"
  let ?S = "tcp_segment k p f payload (tcp_checksum k p f payload)"
  let ?H = "ip_header_ck (of_nat ?n) (f_ip_id f) (f_dont_fragment f) (p_ttl p) PROTO_TCP
    (fst (f_src f)) (fst (f_dst f))"
  have n: "unat (of_nat ?n :: u16) = ?n" using small by (simp add: unat_of_nat)
  have seg: "get_range (?H @ ?S @ trailer) 20 ?n = Some ?S"
  proof -
    have "?n = length ?H + length ?S" by (simp add: packet_len_def segment_consts)
    then show ?thesis using get_range_append [of ?H ?S trailer] by simp
  qed
  have ihl: "unat ((0x45 :: u8) AND 0x0F) = 5" "drop_bit 4 (0x45 :: u8) = 4" by simp_all
  have frag: "(if f_dont_fragment f then 0x4000 else 0 :: u16) AND 0xBFFF = 0" by simp
  have len: "20 \<le> ?n" "?n \<le> length (?H @ ?S @ trailer)"
    by (simp_all add: packet_len_def segment_consts)
  show ?thesis
    using len seg
    by (simp add: segment_parse_ipv4_def wire_packet_def ip_header_reads
        ip_header_ck_def Let_def n parse_tcp_segment [OF opts] del: length_tcp_segment)
qed

section \<open>Outcomes of emission\<close>

lemma emit_parts_cases:
  "emit_parts k p f parts out =
     (let opts = option_len k p; n = packet_len k p (length (concat parts)) in
      if opts mod 4 \<noteq> 0 \<or> TCP_LEN + opts > MAX_TCP_HEADER then Inl (Options opts)
      else if length out < n then Inl (WShort n (length out))
      else if n \<ge> 65536 then Inl (TooLong n)
      else Inr (n, wire_packet k p f (concat parts) @ drop n out))"
proof -
  have len: "sum_list (map length parts) = length (concat parts)" by (simp add: length_concat)
  have total: "IPV4_LEN + (TCP_LEN + option_len k p) + length (concat parts)
      = packet_len k p (length (concat parts))" by (simp add: packet_len_def)
  consider "option_len k p mod 4 \<noteq> 0 \<or> TCP_LEN + option_len k p > MAX_TCP_HEADER"
    | "option_len k p mod 4 = 0" "TCP_LEN + option_len k p \<le> MAX_TCP_HEADER"
      "length out < packet_len k p (length (concat parts)) \<or>
       packet_len k p (length (concat parts)) \<ge> 65536"
    | "option_len k p mod 4 = 0" "TCP_LEN + option_len k p \<le> MAX_TCP_HEADER"
      "packet_len k p (length (concat parts)) \<le> length out"
      "packet_len k p (length (concat parts)) < 65536"
    by linarith
  then show ?thesis
  proof cases
    case 1
    then show ?thesis by (auto simp: emit_parts_def Let_def)
  next
    case 2
    then show ?thesis by (auto simp: emit_parts_def Let_def len total)
  next
    case 3
    then show ?thesis by (simp add: emit_parts_eq Let_def not_less not_le)
  qed
qed

lemma emit_parts_Inr:
  assumes "emit_parts k p f parts out = Inr (n, buf)"
  shows "option_len k p mod 4 = 0" "TCP_LEN + option_len k p \<le> MAX_TCP_HEADER"
    "n = packet_len k p (length (concat parts))" "n \<le> length out" "n < 65536"
    "take n buf = wire_packet k p f (concat parts)" "drop n buf = drop n out"
  using assms by (auto simp: emit_parts_cases Let_def split: if_splits)

lemma wire_ip_checksum:
  "cksum_of (ip_header_ck t i d l pr s e) = 0"
proof -
  obtain A B where AB: "length A = 10" "\<And>ck. ip_header t i d l pr ck s e = A @ to_be_bytes 2 ck @ B"
    using ip_header_split [of t i d l pr s e] by blast
  have "nsum (ip_header t i d l pr 0 s e) < 2 ^ 63"
    using nsum_le [of "ip_header t i d l pr 0 s e"] by simp
  then show ?thesis
    using checksum_verifies [of A 0 B] AB(1)
    by (simp add: ip_header_ck_def AB(2) cksum_of_def zero_field)
qed

lemma pseudo_small: "unat (pseudo_header_v4 a b pr n) < 2 ^ 20"
proof -
  have "unat (cksum_sum (octets x) 0) \<le> 4 * 65535" for x
    using nsum_le [of "octets x"] unat_cksum_sum [of 0 "octets x"] by simp
  then have x: "unat (cksum_sum (octets a) 0) \<le> 262140" "unat (cksum_sum (octets b) 0) \<le> 262140"
    by simp_all
  have y: "unat (ucast pr :: u64) < 256" "unat (ucast n :: u64) < 65536"
    using unat_bounds(1) [of pr] unat_bounds(2) [of n] by (simp_all add: unat_ucast_mod)
  show ?thesis
    using x y by (simp add: pseudo_header_v4_def unat_word_ariths)
qed

lemma wire_tcp_checksum:
  assumes "packet_len k p (length payload) < 65536"
  shows "cksum_fold (cksum_sum (tcp_segment k p f payload (tcp_checksum k p f payload))
    (pseudo_header_v4 (fst (f_src f)) (fst (f_dst f)) PROTO_TCP
      (of_nat (length (tcp_segment k p f payload 0))))) = 0"
proof -
  obtain A B where AB: "length A = 16"
    "\<And>ck. tcp_segment k p f payload ck = A @ to_be_bytes 2 ck @ B"
    using tcp_segment_split [of k p f payload] by blast
  let ?ps = "pseudo_header_v4 (fst (f_src f)) (fst (f_dst f)) PROTO_TCP
      (of_nat (length (tcp_segment k p f payload 0)))"
  have "length (tcp_segment k p f payload 0) < 65536"
    using assms by (simp add: packet_len_def segment_consts)
  then have "nsum (tcp_segment k p f payload 0) \<le> 65535 * 65535"
    using nsum_le [of "tcp_segment k p f payload 0"] by linarith
  moreover have "unat ?ps < 2 ^ 20" by (rule pseudo_small)
  ultimately have "unat ?ps + nsum (tcp_segment k p f payload 0) < 2 ^ 63"
    by (simp del: length_tcp_segment)
  then show ?thesis
    using checksum_verifies [of A ?ps B] AB(1)
    unfolding tcp_checksum_def by (simp add: AB(2) zero_field)
qed

lemma profile_options_fit:
  assumes "p \<in> set ALL_profiles"
  shows "option_len k p mod 4 = 0" "TCP_LEN + option_len k p \<le> MAX_TCP_HEADER"
    "option_len k p \<le> SYN_OPTS_MAX"
  using assms by (cases k; auto simp: profile_defs option_len_def is_syn_def segment_consts)+

section \<open>Properties\<close>

text \<open>What \<open>emit_parts\<close> does is settled by three checks made before anything is written: an
  option block that is not whole words or does not fit the header, a buffer too short, a packet
  IPv4 cannot describe.  Otherwise it succeeds, the buffer starts with exactly the packet the
  fields describe, whatever it held before, and the rest of the buffer is untouched.\<close>

theorem emit_outcome:
  "emit_parts k p f parts out =
     (let opts = option_len k p; n = packet_len k p (length (concat parts)) in
      if opts mod 4 = 0 \<and> TCP_LEN + opts \<le> MAX_TCP_HEADER
      then if length out < n then Inl (WShort n (length out))
        else if n \<ge> 65536 then Inl (TooLong n)
        else Inr (n, wire_packet k p f (concat parts) @ drop n out)
      else Inl (Options opts))"
  by (auto simp: emit_parts_cases Let_def)

text \<open>C21. A packet that was emitted parses, behind any Ethernet addresses and in front of any
  padding, to the segment it was built from: both endpoints, sequence and acknowledgement numbers,
  flags, window, payload, and the timestamp wherever the layout carries one.\<close>

theorem parse_emit_roundtrip:
  assumes "emit_parts k p f parts out = Inr (n, buf)" and "length macs = 12"
  shows "segment_parse_ethernet (macs @ to_be_bytes 2 ETHERTYPE_IPV4 @ take n buf @ padding)
    = Some (read_back k p f (concat parts))"
proof -
  note e = emit_parts_Inr [OF assms(1)]
  have "segment_parse_ipv4 (take n buf @ padding) = Some (read_back k p f (concat parts))"
    using parse_wire_packet [OF e(1,2)] e(3,5,6) by simp
  then show ?thesis
    using assms(2) codec_roundtrips(1) [of ETHERTYPE_IPV4]
    by (simp add: segment_parse_ethernet_def get_from_def ETH_LEN_def be16_at_def get_append_right
        to_be_bytes_2 ETHERTYPE_IPV4_def)
qed

definition sample_fields :: fields where
  "sample_fields = \<lparr>f_src = (Ipv4 10 0 0 1, 4000), f_dst = (Ipv4 10 0 0 2, 443), f_seq = 1000,
     f_ack = 2000, f_window = 501, f_ip_id = 77, f_ts_val = 5, f_ts_ecr = 6, f_push = True,
     f_mss = 1400, f_dont_fragment = True\<rparr>"

lemma sample_emits:
  "emit_parts Data LINUX_6 sample_fields [[1, 2], [3]] (replicate 60 0) =
     Inr (55, wire_packet Data LINUX_6 sample_fields [1, 2, 3] @ replicate 5 0)"
  by (simp add: emit_parts_cases Let_def option_len_def is_syn_def LINUX_6_def segment_consts
      packet_len_def drop_replicate)

theorem parse_emit_roundtrip_witness:
  "segment_parse_ethernet (replicate 12 0 @ to_be_bytes 2 ETHERTYPE_IPV4 @
     take 55 (wire_packet Data LINUX_6 sample_fields [1, 2, 3] @ replicate 5 0) @ [9, 9])
   = Some (read_back Data LINUX_6 sample_fields (concat [[1, 2], [3]]))"
  by (rule parse_emit_roundtrip [OF sample_emits]) simp

text \<open>C22. Both checksums of an emitted packet verify: summed with its own checksum field in place,
  the IPv4 header folds to zero, and so does the TCP segment together with its pseudo header.\<close>

theorem emitted_checksums_verify:
  assumes "emit_parts k p f parts out = Inr (n, buf)"
  shows "cksum_of (take IPV4_LEN buf) = 0 \<and>
    cksum_fold (cksum_sum (drop IPV4_LEN (take n buf))
      (pseudo_header_v4 (fst (f_src f)) (fst (f_dst f)) PROTO_TCP (of_nat (n - IPV4_LEN)))) = 0"
proof -
  note e = emit_parts_Inr [OF assms]
  have ip: "take IPV4_LEN (take n buf) = ip_header_ck (of_nat n) (f_ip_id f) (f_dont_fragment f)
      (p_ttl p) PROTO_TCP (fst (f_src f)) (fst (f_dst f))"
    and tcp: "drop IPV4_LEN (take n buf) =
      tcp_segment k p f (concat parts) (tcp_checksum k p f (concat parts))"
    unfolding e(6) by (simp_all add: wire_packet_def IPV4_LEN_def e(3))
  have "IPV4_LEN \<le> n" using e(3) by (simp add: packet_len_def)
  then have "cksum_of (take IPV4_LEN buf) = 0"
    using ip wire_ip_checksum by (simp add: min_def)
  moreover have seg: "n - IPV4_LEN = length (tcp_segment k p f (concat parts) 0)"
    by (simp add: e(3) packet_len_def segment_consts)
  moreover have "packet_len k p (length (concat parts)) < 65536" using e(3,5) by simp
  ultimately show ?thesis
    unfolding tcp seg using wire_tcp_checksum by blast
qed

theorem emitted_checksums_verify_witness:
  "cksum_of (take IPV4_LEN (wire_packet Data LINUX_6 sample_fields [1, 2, 3] @ replicate 5 0)) = 0"
  using emitted_checksums_verify [OF sample_emits] by blast

text \<open>Every profile there is can be emitted: for each kind of segment its option block is whole
  words and fits both the header and the space reserved for it, so with a payload of up to 65475
  bytes and room for the largest header, emission cannot fail.\<close>

theorem every_profile_emits:
  assumes "p \<in> set ALL_profiles" and "length payload \<le> 65475"
    and "MAX_OVERHEAD + length payload \<le> length out"
  shows "\<exists>buf. emit k p f payload out = Inr (packet_len k p (length payload), buf) \<and>
    packet_len k p (length payload) \<le> MAX_OVERHEAD + length payload"
proof -
  note fit = profile_options_fit [OF assms(1), of k]
  then have "packet_len k p (length payload) \<le> MAX_OVERHEAD + length payload"
    by (simp add: packet_len_def MAX_OVERHEAD_def)
  with fit assms(2,3) show ?thesis
    by (auto simp: emit_def emit_parts_cases Let_def MAX_OVERHEAD_def segment_consts)
qed

theorem every_profile_emits_witness:
  "\<exists>buf. emit SynAck IOS_15 sample_fields [] (replicate 60 0) =
     Inr (packet_len SynAck IOS_15 (length ([] :: bytes)), buf) \<and>
   packet_len SynAck IOS_15 (length ([] :: bytes)) \<le> MAX_OVERHEAD + length ([] :: bytes)"
  by (rule every_profile_emits) (simp_all add: ALL_profiles_def MAX_OVERHEAD_def segment_consts)

text \<open>The layouts do not all come to twenty bytes: the Windows profile's SYN carries twelve.\<close>

theorem windows_syn_options_are_twelve:
  "option_len Syn WINDOWS_11 = 12 \<and> option_len Syn LINUX_6 = SYN_OPTS_MAX"
  by (simp add: option_len_def is_syn_def profile_defs SYN_OPTS_MAX_def)

text \<open>The parser never reads outside the datagram: a parsed payload is a contiguous part of the
  captured packet, behind at least two minimal headers and inside the total length the header
  declares.\<close>

theorem parsed_payload_in_bounds:
  assumes "segment_parse_ipv4 packet = Some g"
  shows "\<exists>a tl16. be16_at packet 2 = Some tl16 \<and> 40 \<le> a \<and> a \<le> unat tl16 \<and>
    unat tl16 \<le> length packet \<and> g_payload g = take (unat tl16 - a) (drop a packet)"
proof -
  obtain v tl16 src dst where
    v: "5 \<le> unat ((v :: u8) AND 0x0F)" and tl: "be16_at packet 2 = Some tl16"
      "unat (v AND 0x0F) * 4 \<le> unat tl16" "unat tl16 \<le> length packet"
    and tcp: "parse_tcp (take (unat tl16 - unat (v AND 0x0F) * 4) (drop (unat (v AND 0x0F) * 4) packet))
      src dst = Some g"
    using assms
    by (auto simp: segment_parse_ipv4_def get_range_def Let_def not_less split: if_splits bind_splits)
  let ?h = "unat (v AND 0x0F) * 4"
  obtain off where off: "5 \<le> off" "off * 4 \<le> unat tl16 - ?h"
    "g_payload g = drop (off * 4) (take (unat tl16 - ?h) (drop ?h packet))"
    using tcp tl
    by (auto simp: parse_tcp_def get_from_def Let_def not_less split: if_splits bind_splits)
  show ?thesis
    using v tl off
    by (intro exI [of _ "?h + off * 4"] exI [of _ tl16])
      (auto simp: drop_take add.commute)
qed

theorem parsed_payload_in_bounds_witness:
  "\<exists>a tl16. be16_at (wire_packet Data LINUX_6 sample_fields [1, 2, 3]) 2 = Some tl16 \<and> 40 \<le> a \<and>
     a \<le> unat tl16 \<and> unat tl16 \<le> length (wire_packet Data LINUX_6 sample_fields [1, 2, 3]) \<and>
     g_payload (read_back Data LINUX_6 sample_fields [1, 2, 3]) =
       take (unat tl16 - a) (drop a (wire_packet Data LINUX_6 sample_fields [1, 2, 3]))"
proof (rule parsed_payload_in_bounds)
  show "segment_parse_ipv4 (wire_packet Data LINUX_6 sample_fields [1, 2, 3])
      = Some (read_back Data LINUX_6 sample_fields [1, 2, 3])"
    using parse_wire_packet [of Data LINUX_6 "[1, 2, 3]" sample_fields "[]"]
    by (simp add: option_len_def is_syn_def LINUX_6_def segment_consts packet_len_def)
qed

text \<open>The identification field: one that is meant to be unpredictable is never zero, a counting
  profile numbers consecutive packets of a connection consecutively, wrapping at sixteen bits, and a
  packet no connection owns carries zero exactly when the profile counts and fragmentation is off.\<close>

theorem ip_identification:
  "unpredictable_ip_id entropy \<noteq> 0 \<and>
   (p_ip_id p = PerConnection \<longrightarrow> ip_id p base (c + 1) = ip_id p base c + 1) \<and>
   (unconnected_ip_id p df entropy = 0 \<longleftrightarrow> p_ip_id p = PerConnection \<and> df)"
proof -
  have nz: "unpredictable_ip_id e \<noteq> 0" for e
    by (auto simp: unpredictable_ip_id_def max_def split: if_splits)
  have low: "(ucast (x AND 0xFFFF) :: u16) = ucast (x :: u32)" for x
    using unat_and_mask [of x 16]
    by (simp add: word_unat_eq_iff unat_ucast_mod mask_eq_exp_minus_1)
  have "(ucast (c + 1) :: u16) = ucast c + 1"
    by (simp add: word_unat_eq_iff unat_ucast_mod unat_word_ariths mod_Suc_eq mod_mod_cancel)
  then show ?thesis
    using nz by (auto simp: ip_id_def low unconnected_ip_id_def)
qed

theorem ip_identification_witness:
  "p_ip_id LINUX_6 = PerConnection \<and> ip_id LINUX_6 9 (65535 + 1) = ip_id LINUX_6 9 65535 + 1"
  using ip_identification [of 0 LINUX_6 9 65535 True] by (simp add: LINUX_6_def)

end
