(* ===== verification/Cover.thy ===== *)
theory Cover
  imports Profile "HOL-Library.Multiset"
begin

text \<open>
  The decoy TLS handshake and the record headers data segments wear after it
  (\<open>paqetz-tcpwire/src/cover.rs\<close>).  The hellos are built as byte strings with the length fields
  filled in last, as the code does; the recognisers (\<open>is_cover\<close>, \<open>owed_after_opening\<close>,
  \<open>session_id\<close>, \<open>unwrap_record\<close>) read captured bytes with checked access.

  Fixed-size arrays of the source are byte lists here; \<open>secrets_ok\<close> states their lengths.
\<close>

section \<open>Constants and secrets\<close>

definition HANDSHAKE :: u8 where "HANDSHAKE = 0x16"
definition APPLICATION_DATA :: u8 where "APPLICATION_DATA = 0x17"
definition RECORD_HEADER :: nat where "RECORD_HEADER = 5"
definition MAX_RECORD :: nat where "MAX_RECORD = 16384"
definition CHANGE_CIPHER_SPEC :: u8 where "CHANGE_CIPHER_SPEC = 0x14"
definition CLIENT_HELLO :: u8 where "CLIENT_HELLO = 0x01"
definition SERVER_HELLO :: u8 where "SERVER_HELLO = 0x02"
definition MAX_NAME :: nat where "MAX_NAME = 253"
definition HELLO_MIN :: nat where "HELLO_MIN = 1024"
definition HELLO_MAX :: nat where "HELLO_MAX = 2560"
definition X25519_MLKEM768 :: u16 where "X25519_MLKEM768 = 0x11EC"
definition MLKEM_COEFFS :: nat where "MLKEM_COEFFS = 768"
definition MLKEM_EK :: nat where "MLKEM_EK = MLKEM_COEFFS * 3 div 2 + 32"
definition MLKEM_SEED :: nat where "MLKEM_SEED = MLKEM_COEFFS * 2 + 32"
definition PQ_CLIENT_SHARE :: nat where "PQ_CLIENT_SHARE = MLKEM_EK + 32"
definition PQ_SERVER_SHARE :: nat where "PQ_SERVER_SHARE = 1088 + 32"
definition TICKET_LEN :: nat where "TICKET_LEN = 224"
definition FINISHED_LEN :: nat where "FINISHED_LEN = 58"
definition MAX_SPAN :: nat where "MAX_SPAN = MAX_RECORD + 1 + 16"

lemmas cover_types = HANDSHAKE_def APPLICATION_DATA_def CHANGE_CIPHER_SPEC_def CLIENT_HELLO_def
  SERVER_HELLO_def
lemmas cover_sizes = RECORD_HEADER_def MAX_RECORD_def MAX_NAME_def HELLO_MIN_def HELLO_MAX_def
  MLKEM_COEFFS_def MLKEM_EK_def MLKEM_SEED_def PQ_CLIENT_SHARE_def PQ_SERVER_SHARE_def
  TICKET_LEN_def FINISHED_LEN_def MAX_SPAN_def

record secrets =
  s_random :: bytes
  s_session_id :: bytes
  s_key_share :: bytes
  s_hybrid_x25519 :: bytes
  s_mlkem :: bytes
  s_server_share :: bytes
  s_ticket :: bytes
  s_binder :: bytes
  s_finished :: bytes
  s_grease :: u8

definition secrets_ok :: "secrets \<Rightarrow> bool" where
  "secrets_ok s \<longleftrightarrow>
     length (s_random s) = 32 \<and> length (s_session_id s) = 32 \<and> length (s_key_share s) = 32 \<and>
     length (s_hybrid_x25519 s) = 32 \<and> length (s_mlkem s) = MLKEM_SEED \<and>
     length (s_server_share s) = PQ_SERVER_SHARE \<and> length (s_ticket s) = TICKET_LEN \<and>
     length (s_binder s) = 32 \<and> length (s_finished s) = FINISHED_LEN"

definition secrets_default :: secrets where
  "secrets_default =
     \<lparr>s_random = replicate 32 0, s_session_id = replicate 32 0, s_key_share = replicate 32 0,
      s_hybrid_x25519 = replicate 32 0, s_mlkem = replicate MLKEM_SEED 0,
      s_server_share = replicate PQ_SERVER_SHARE 0, s_ticket = replicate TICKET_LEN 0,
      s_binder = replicate 32 0, s_finished = replicate FINISHED_LEN 0, s_grease = 0\<rparr>"

section \<open>Building the flights\<close>

definition grease :: "u8 \<Rightarrow> u16" where
  "grease seed =
     (let b = push_bit 4 (seed AND 0x0F) OR 0x0A
      in push_bit 8 (ucast b) OR ucast b)"

text \<open>\<open>u16::try_from(n).unwrap_or(0)\<close> and \<open>u32::try_from(n).unwrap_or(0)\<close>.\<close>

definition u16_or_0 :: "nat \<Rightarrow> u16" where
  "u16_or_0 n = (if n < 2 ^ 16 then of_nat n else 0)"

definition u32_or_0 :: "nat \<Rightarrow> u32" where
  "u32_or_0 n = (if n < 2 ^ 32 then of_nat n else 0)"

definition fill_len :: "bytes \<Rightarrow> nat \<Rightarrow> nat \<Rightarrow> bytes" where
  "fill_len out at after =
     (case overwrite out at (to_be_bytes 2 (u16_or_0 (length out - after))) of
        Some out' \<Rightarrow> out'
      | None \<Rightarrow> out)"

definition u16_be :: "u16 \<Rightarrow> bytes" where
  "u16_be v = to_be_bytes 2 v"

definition extension :: "u16 \<Rightarrow> bytes \<Rightarrow> bytes" where
  "extension ty body = u16_be ty @ u16_be (u16_or_0 (length body)) @ body"

definition fill_handshake_len :: "bytes \<Rightarrow> bytes" where
  "fill_handshake_len out =
     (let out1 = fill_len out 3 5 in
      case overwrite out1 6 (tl (to_be_bytes 4 (u32_or_0 (length out1 - 9)))) of
        Some out' \<Rightarrow> out'
      | None \<Rightarrow> out1)"

definition mlkem_q :: u16 where
  "mlkem_q = 3329"

definition byte_or_0 :: "bytes \<Rightarrow> nat \<Rightarrow> u8" where
  "byte_or_0 bs i = (case get bs i of Some b \<Rightarrow> b | None \<Rightarrow> 0)"

definition coefficient :: "bytes \<Rightarrow> nat \<Rightarrow> u16" where
  "coefficient seed i = from_le_bytes [byte_or_0 seed (2 * i), byte_or_0 seed (2 * i + 1)] mod mlkem_q"

text \<open>\<open>u8::try_from(v).unwrap_or(0)\<close> of a 16-bit value.\<close>

definition u8_or_0 :: "u16 \<Rightarrow> u8" where
  "u8_or_0 v = (if unat v < 256 then ucast v else 0)"

definition pack_pair :: "u16 \<Rightarrow> u16 \<Rightarrow> bytes" where
  "pack_pair a b =
     [u8_or_0 (a AND 0xFF),
      u8_or_0 ((drop_bit 8 a AND 0x0F) OR push_bit 4 (b AND 0x0F)),
      u8_or_0 (drop_bit 4 b)]"

definition encapsulation_key :: "bytes \<Rightarrow> bytes" where
  "encapsulation_key seed =
     concat (map (\<lambda>pair. pack_pair (coefficient seed (2 * pair)) (coefficient seed (2 * pair + 1)))
       [0..<MLKEM_COEFFS div 2])
     @ (case get_from seed (MLKEM_COEFFS * 2) of Some r \<Rightarrow> r | None \<Rightarrow> [])"

definition offered_psk :: "secrets \<Rightarrow> bytes" where
  "offered_psk secrets =
     (let identities =
        u16_be (u16_or_0 TICKET_LEN) @ s_ticket secrets @
        to_be_bytes 4 (from_be_bytes [s_random secrets ! 0, s_random secrets ! 1,
                         s_random secrets ! 2, s_random secrets ! 3] :: u32)
      in u16_be (u16_or_0 (length identities)) @ identities @ u16_be 33 @ [32] @ s_binder secrets)"

text \<open>\<open>items.swap(i, j)\<close> and the shuffle loop, counting \<open>i\<close> down to 1.\<close>

definition swap_items :: "'a list \<Rightarrow> nat \<Rightarrow> nat \<Rightarrow> 'a list" where
  "swap_items xs i j = xs[i := xs ! j, j := xs ! i]"

fun shuffle_from :: "nat \<Rightarrow> 'a list \<Rightarrow> bytes \<Rightarrow> 'a list" where
  "shuffle_from 0 items seed = items"
| "shuffle_from (Suc i) items seed =
     (let byte = byte_or_0 seed (Suc i mod length seed);
          j = unat byte mod (Suc i + 1)
      in shuffle_from i (swap_items items (Suc i) j) seed)"

definition shuffle_items :: "'a list \<Rightarrow> bytes \<Rightarrow> 'a list" where
  "shuffle_items items seed =
     (if length items < 2 then items else shuffle_from (length items - 1) items seed)"

definition sni_body :: "bytes \<Rightarrow> bytes" where
  "sni_body name =
     u16_be (u16_or_0 (length name + 3)) @ [0] @ u16_be (u16_or_0 (length name)) @ name"

definition groups_body :: "u16 \<Rightarrow> bytes" where
  "groups_body g =
     [0x00, 0x0A] @ u16_be g @ u16_be X25519_MLKEM768 @ [0x00, 0x1D, 0x00, 0x17, 0x00, 0x18]"

definition shares_body :: "u16 \<Rightarrow> secrets \<Rightarrow> bytes" where
  "shares_body g secrets =
     u16_be (u16_or_0 (5 + 4 + PQ_CLIENT_SHARE + 4 + 32)) @
     u16_be g @ [0x00, 0x01, 0x00] @
     u16_be X25519_MLKEM768 @ u16_be (u16_or_0 PQ_CLIENT_SHARE) @
     encapsulation_key (s_mlkem secrets) @ s_hybrid_x25519 secrets @
     [0x00, 0x1D, 0x00, 0x20] @ s_key_share secrets"

text \<open>The extensions between the two GREASE values, before they are shuffled.\<close>

definition hello_middle :: "bytes \<Rightarrow> u16 \<Rightarrow> secrets \<Rightarrow> bytes list" where
  "hello_middle name g secrets =
     [extension 0x0000 (sni_body name),
      extension 0x0017 [],
      extension 0xFF01 [0],
      extension 0x000A (groups_body g),
      extension 0x000B [0x01, 0x00],
      extension 0x0023 [],
      extension 0x0010
        [0x00, 0x0C, 0x02, 0x68, 0x32, 0x08, 0x68, 0x74, 0x74, 0x70, 0x2F, 0x31, 0x2E, 0x31],
      extension 0x0005 [0x01, 0x00, 0x00, 0x00, 0x00],
      extension 0x000D
        [0x00, 0x10, 0x04, 0x03, 0x08, 0x04, 0x04, 0x01, 0x05, 0x03, 0x08, 0x05, 0x05, 0x01,
         0x08, 0x06, 0x06, 0x01],
      extension 0x0012 [],
      extension 0x0033 (shares_body g secrets),
      extension 0x002D [0x01, 0x01],
      extension 0x002B ([6] @ u16_be g @ [0x03, 0x04, 0x03, 0x03]),
      extension 0x001B [0x02, 0x00, 0x02],
      extension 0x4469 [0x00, 0x03, 0x02, 0x68, 0x32],
      extension 0x002A []]"

definition hello_suites :: "u16 list" where
  "hello_suites =
     [0x1301, 0x1302, 0x1303, 0xC02B, 0xC02F, 0xC02C, 0xC030, 0xCCA9, 0xCCA8, 0xC013, 0xC014,
      0x009C, 0x009D, 0x002F, 0x0035]"

text \<open>The hello up to its extension length field, and the extensions.\<close>

definition hello_head :: "u16 \<Rightarrow> secrets \<Rightarrow> bytes" where
  "hello_head g secrets =
     [HANDSHAKE] @ [0x03, 0x01] @ [0, 0] @ [CLIENT_HELLO] @ [0, 0, 0] @ [0x03, 0x03] @
     s_random secrets @ [32] @ s_session_id secrets @
     u16_be (u16_or_0 ((length hello_suites + 1) * 2)) @ u16_be g @
     concat (map u16_be hello_suites) @ [0x01, 0x00]"

definition hello_extensions :: "bytes \<Rightarrow> u16 \<Rightarrow> secrets \<Rightarrow> bytes" where
  "hello_extensions name g secrets =
     extension g [] @
     concat (shuffle_items (hello_middle name g secrets) (s_random secrets)) @
     extension (grease (s_grease secrets + 1)) [0x00] @
     extension 0x0029 (offered_psk secrets)"

definition client_hello :: "bytes \<Rightarrow> secrets \<Rightarrow> bytes option" where
  "client_hello name secrets =
     (if name = [] \<or> length name > MAX_NAME then None
      else
        let g = grease (s_grease secrets);
            front = hello_head g secrets;
            ext_len_at = length front;
            out = front @ [0, 0];
            ext_start = length out;
            out = out @ hello_extensions name g secrets
        in Some (fill_handshake_len (fill_len out ext_len_at ext_start)))"

definition server_hello :: "bytes \<Rightarrow> secrets \<Rightarrow> bytes" where
  "server_hello session_id secrets =
     (let front = [HANDSHAKE] @ [0x03, 0x03] @ [0, 0] @ [SERVER_HELLO] @ [0, 0, 0] @ [0x03, 0x03] @
            s_random secrets @ [32] @ session_id @ u16_be 0x1301 @ [0];
          ext_len_at = length front;
          out = front @ [0, 0];
          ext_start = length out;
          share = u16_be X25519_MLKEM768 @ u16_be (u16_or_0 PQ_SERVER_SHARE) @ s_server_share secrets;
          out = out @ extension 0x002B [0x03, 0x04] @ extension 0x0033 share @
            extension 0x0029 [0x00, 0x00]
      in fill_handshake_len (fill_len out ext_len_at ext_start) @
         [CHANGE_CIPHER_SPEC, 0x03, 0x03, 0x00, 0x01, 0x01])"

definition client_finished :: "secrets \<Rightarrow> bytes" where
  "client_finished secrets =
     [CHANGE_CIPHER_SPEC, 0x03, 0x03, 0x00, 0x01, 0x01] @ [APPLICATION_DATA, 0x03, 0x03] @
     u16_be (u16_or_0 FINISHED_LEN) @ s_finished secrets"

section \<open>Records and recognisers\<close>

definition record_header :: "nat \<Rightarrow> bytes option" where
  "record_header n =
     (if n < 2 ^ 16
      then if n > MAX_SPAN then None
        else Some ([APPLICATION_DATA, 0x03, 0x03] @ to_be_bytes 2 (of_nat n :: u16))
      else None)"

definition unwrap_record :: "bytes \<Rightarrow> bytes option" where
  "unwrap_record payload =
     (case split_first_chunk RECORD_HEADER payload of
        None \<Rightarrow> None
      | Some (front, rest) \<Rightarrow>
          if get front 0 \<noteq> Some APPLICATION_DATA \<or> get front 1 \<noteq> Some 0x03
             \<or> get front 2 \<noteq> Some 0x03
          then None
          else do {
            hi \<leftarrow> get front 3;
            lo \<leftarrow> get front 4;
            let len = unat (from_be_bytes [hi, lo] :: u16);
            if len \<ge> length rest \<and> len \<le> MAX_SPAN then Some rest else None
          })"

text \<open>The loop over the records of a payload from position \<open>at\<close>: it ends because every
  record moves it on by at least five bytes.\<close>

function is_cover_from :: "bytes \<Rightarrow> nat \<Rightarrow> bool" where
  "is_cover_from payload at =
     (if at < length payload then
        case get_from payload at of
          None \<Rightarrow> False
        | Some rest \<Rightarrow>
            (case (get rest 0, get rest 1) of
               (Some knd, Some major) \<Rightarrow>
                 if (knd \<noteq> HANDSHAKE \<and> knd \<noteq> CHANGE_CIPHER_SPEC \<and> knd \<noteq> APPLICATION_DATA)
                    \<or> major \<noteq> 0x03
                 then False
                 else (case (get rest 3, get rest 4) of
                   (Some hi, Some lo) \<Rightarrow>
                     is_cover_from payload (at + 5 + unat (from_be_bytes [hi, lo] :: u16))
                 | _ \<Rightarrow> False)
             | _ \<Rightarrow> False)
      else at = length payload)"
  by pat_completeness auto
termination
  by (relation "measure (\<lambda>(payload, at). length payload - at)") auto

declare is_cover_from.simps [simp del]

definition is_cover :: "bytes \<Rightarrow> bool" where
  "is_cover payload =
     (case get payload 0 of
        None \<Rightarrow> False
      | Some fst_byte \<Rightarrow>
          if fst_byte \<noteq> HANDSHAKE \<and> fst_byte \<noteq> CHANGE_CIPHER_SPEC then False
          else is_cover_from payload 0)"

definition owed_after_opening :: "bytes \<Rightarrow> nat option" where
  "owed_after_opening payload =
     (if get payload 0 \<noteq> Some HANDSHAKE \<or> get payload 1 \<noteq> Some 0x03
         \<or> get payload 2 \<noteq> Some 0x01 \<or> get payload 5 \<noteq> Some CLIENT_HELLO
         \<or> get payload 9 \<noteq> Some 0x03 \<or> get payload 10 \<noteq> Some 0x03
         \<or> get payload 43 \<noteq> Some 32
      then None
      else do {
        p3 \<leftarrow> get payload 3;
        p4 \<leftarrow> get payload 4;
        let rec = unat (from_be_bytes [p3, p4] :: u16);
        p7 \<leftarrow> get payload 7;
        p8 \<leftarrow> get payload 8;
        p6 \<leftarrow> get payload 6;
        let handshake = unat (from_be_bytes [p7, p8] :: u16) + unat p6 * 2 ^ 16;
        if \<not> (HELLO_MIN \<le> rec \<and> rec \<le> HELLO_MAX) \<or> handshake + 4 \<noteq> rec then None
        else if length payload < rec + RECORD_HEADER
        then Some (rec + RECORD_HEADER - length payload)
        else None
      })"

definition session_id :: "bytes \<Rightarrow> bytes option" where
  "session_id payload =
     (if get payload 0 \<noteq> Some HANDSHAKE \<or> get payload 5 \<noteq> Some CLIENT_HELLO then None
      else if get payload 43 \<noteq> Some 32 then None
      else get_range payload 44 76)"

section \<open>Records as a grammar\<close>

text \<open>One TLS record, and a run of them: what the recognisers are meant to accept.\<close>

definition tls_record :: "u8 \<Rightarrow> u8 \<Rightarrow> bytes \<Rightarrow> bytes" where
  "tls_record knd minor body = [knd, 0x03, minor] @ to_be_bytes 2 (of_nat (length body) :: u16) @ body"

definition tls_records :: "(u8 \<times> u8 \<times> bytes) list \<Rightarrow> bytes" where
  "tls_records recs = concat (map (\<lambda>(knd, minor, body). tls_record knd minor body) recs)"

definition record_ok :: "u8 \<times> u8 \<times> bytes \<Rightarrow> bool" where
  "record_ok r \<longleftrightarrow>
     fst r \<in> {HANDSHAKE, CHANGE_CIPHER_SPEC, APPLICATION_DATA} \<and> length (snd (snd r)) < 2 ^ 16"

lemma tls_records_simps [simp]:
  "tls_records [] = []"
  "tls_records ((knd, minor, body) # recs) = tls_record knd minor body @ tls_records recs"
  by (simp_all add: tls_records_def)

lemma length_tls_record [simp]: "length (tls_record knd minor body) = 5 + length body"
  by (simp add: tls_record_def)

lemma unat_of_nat_16 [simp]: "n < 65536 \<Longrightarrow> unat (of_nat n :: u16) = n"
  by (simp add: unsigned_of_nat take_bit_eq_mod)

lemma tls_record_bytes:
  "\<exists>hi lo. tls_record knd minor body = [knd, 0x03, minor, hi, lo] @ body \<and>
     from_be_bytes [hi, lo] = (of_nat (length body) :: u16)"
  using be16_read [of "of_nat (length body)"] by (simp add: tls_record_def to_be_bytes_2)

lemma be16_bytes: "to_be_bytes 2 (from_be_bytes [hi, lo] :: u16) = [hi, lo]"
  using to_le_from_le [of "[lo, hi]" 2, where 'a = 16] by (simp add: to_be_bytes_def from_be_bytes_def)

lemma is_cover_from_step:
  assumes "length body < 2 ^ 16" and "knd \<in> {HANDSHAKE, CHANGE_CIPHER_SPEC, APPLICATION_DATA}"
  shows "is_cover_from (pre @ tls_record knd minor body @ rest) (length pre) =
    is_cover_from (pre @ tls_record knd minor body @ rest) (length pre + 5 + length body)"
proof -
  obtain hi lo where b: "tls_record knd minor body = [knd, 0x03, minor, hi, lo] @ body"
    "from_be_bytes [hi, lo] = (of_nat (length body) :: u16)"
    using tls_record_bytes by blast
  show ?thesis
    using assms by (subst is_cover_from.simps) (auto simp: get_from_def b)
qed

lemma records_are_walked:
  "list_all record_ok recs \<Longrightarrow> is_cover_from (pre @ tls_records recs) (length pre)"
proof (induction recs arbitrary: pre)
  case Nil
  then show ?case by (subst is_cover_from.simps) simp
next
  case (Cons r recs)
  obtain knd minor body where r: "r = (knd, minor, body)" by (cases r)
  have "is_cover_from ((pre @ tls_record knd minor body) @ tls_records recs)
      (length (pre @ tls_record knd minor body))"
    using Cons.prems by (intro Cons.IH) simp
  then show ?case
    using Cons.prems is_cover_from_step [of body knd pre minor "tls_records recs"]
    by (simp add: r record_ok_def add.assoc)
qed

lemma cover_walk_bound: "is_cover_from payload at \<Longrightarrow> at \<le> length payload"
  by (subst (asm) is_cover_from.simps) (auto split: if_splits)

lemma five_bytes: "get xs 4 = Some e \<Longrightarrow> \<exists>a b c d tail. xs = [a, b, c, d, e] @ tail"
  by (cases xs; cases "tl xs"; cases "tl (tl xs)"; cases "tl (tl (tl xs))";
      cases "tl (tl (tl (tl xs)))") auto

lemma cover_record_at:
  assumes "at < length payload" and "is_cover_from payload at"
  shows "\<exists>knd minor body. record_ok (knd, minor, body) \<and>
    drop at payload = tls_record knd minor body @ drop (at + 5 + length body) payload \<and>
    is_cover_from payload (at + 5 + length body)"
proof -
  let ?rest = "drop at payload"
  from assms obtain knd hi lo where k: "get ?rest 0 = Some knd" "get ?rest 1 = Some 0x03"
      "get ?rest 3 = Some hi" "get ?rest 4 = Some lo"
    and ok: "knd \<in> {HANDSHAKE, CHANGE_CIPHER_SPEC, APPLICATION_DATA}"
    and step: "is_cover_from payload (at + 5 + unat (from_be_bytes [hi, lo] :: u16))"
    by (subst (asm) is_cover_from.simps)
      (auto simp: get_from_def split: option.splits if_splits)
  let ?n = "unat (from_be_bytes [hi, lo] :: u16)"
  obtain minor tail where rest: "?rest = [knd, 0x03, minor, hi, lo] @ tail"
    using five_bytes [OF k(4)] k(1-3) by auto
  have n: "?n \<le> length tail" 
    using cover_walk_bound [OF step] arg_cong [OF rest, of length] assms(1) by simp
  let ?body = "take ?n tail"
  have len: "length ?body = ?n" using n by simp
  have "drop (at + 5 + ?n) payload = drop ?n (drop 5 ?rest)"
    by (simp add: add.commute add.left_commute)
  also have "\<dots> = drop ?n tail" by (simp only: rest) simp
  finally have tail: "drop (at + 5 + ?n) payload = drop ?n tail" .
  then have "?rest = tls_record knd minor ?body @ drop (at + 5 + length ?body) payload"
    using n tail by (simp add: rest tls_record_def be16_bytes)
  moreover have "record_ok (knd, minor, ?body)"
    using ok n unat_bounds(2) [of "from_be_bytes [hi, lo]"] by (simp add: record_ok_def)
  ultimately show ?thesis using step len by metis
qed

lemma walked_are_records:
  "is_cover_from payload at \<Longrightarrow> \<exists>recs. list_all record_ok recs \<and> drop at payload = tls_records recs"
proof (induction "length payload - at" arbitrary: at rule: less_induct)
  case less
  show ?case
  proof (cases "at < length payload")
    case True
    then obtain knd minor body where r: "record_ok (knd, minor, body)"
      "drop at payload = tls_record knd minor body @ drop (at + 5 + length body) payload"
      "is_cover_from payload (at + 5 + length body)"
      using cover_record_at less.prems by blast
    moreover have "length payload - (at + 5 + length body) < length payload - at"
      using True by simp
    ultimately obtain recs where
      "list_all record_ok recs" "drop (at + 5 + length body) payload = tls_records recs"
      using less.hyps by blast
    with r have "list_all record_ok ((knd, minor, body) # recs)"
      "drop at payload = tls_records ((knd, minor, body) # recs)" by simp_all
    then show ?thesis by blast
  next
    case False
    then show ?thesis by (intro exI [of _ "[]"]) simp
  qed
qed

section \<open>The shuffle and the lengths\<close>

lemma mset_swap_items:
  "i < length xs \<Longrightarrow> j < length xs \<Longrightarrow> mset (swap_items xs i j) = mset xs"
  unfolding swap_items_def by (rule mset_swap)

lemma length_swap_items [simp]: "length (swap_items xs i j) = length xs"
  by (simp add: swap_items_def)

lemma mset_shuffle_from: "i < length items \<Longrightarrow> mset (shuffle_from i items seed) = mset items"
proof (induction i arbitrary: items)
  case 0
  then show ?case by simp
next
  case (Suc i)
  have "unat b mod (Suc i + 1) < length items" for b :: u8
    using Suc.prems mod_less_divisor [of "Suc i + 1" "unat b"] by linarith
  then show ?case
    using Suc by (simp add: Let_def mset_swap_items)
qed

lemma mset_shuffle_items: "mset (shuffle_items items seed) = mset items"
  by (simp add: shuffle_items_def mset_shuffle_from)

lemma length_concat_shuffle: "length (concat (shuffle_items xs seed)) = length (concat xs)"
proof -
  have "sum_mset (mset (map length (shuffle_items xs seed))) = sum_mset (mset (map length xs))"
    by (simp only: mset_map mset_shuffle_items)
  then show ?thesis by (simp only: sum_mset_sum_list length_concat)
qed

lemma length_u16_be [simp]: "length (u16_be v) = 2"
  by (simp add: u16_be_def)

lemma length_extension [simp]: "length (extension ty body) = 4 + length body"
  by (simp add: extension_def)

lemma length_pack_pair [simp]: "length (pack_pair a b) = 3"
  by (simp add: pack_pair_def)

lemma length_encapsulation_key:
  "length seed = MLKEM_SEED \<Longrightarrow> length (encapsulation_key seed) = MLKEM_EK"
  by (simp add: encapsulation_key_def length_concat comp_def sum_list_triv get_from_def cover_sizes)

lemma length_offered_psk: "secrets_ok s \<Longrightarrow> length (offered_psk s) = 267"
  by (simp add: offered_psk_def secrets_ok_def Let_def cover_sizes)

lemma length_hello_middle:
  "secrets_ok s \<Longrightarrow> length (concat (hello_middle name g s)) = 1401 + length name"
  by (simp add: hello_middle_def sni_body_def groups_body_def shares_body_def
      length_encapsulation_key secrets_ok_def cover_sizes)

lemma length_hello_extensions:
  "secrets_ok s \<Longrightarrow> length (hello_extensions name g s) = 1681 + length name"
  by (simp add: hello_extensions_def length_concat_shuffle length_hello_middle length_offered_psk
      del: length_concat)

lemma fill_len_tail:
  "fill_len (front @ [0, 0] @ rest) (length front) (length front + 2)
     = front @ u16_be (u16_or_0 (length rest)) @ rest"
  by (simp add: fill_len_def overwrite_def u16_be_def)

lemma fill_handshake_len_eq:
  "fill_handshake_len ([knd, a, b] @ [0, 0] @ [t] @ [0, 0, 0] @ rest) =
     [knd, a, b] @ u16_be (u16_or_0 (length rest + 4)) @ [t] @
     tl (to_be_bytes 4 (u32_or_0 (length rest))) @ rest"
  by (simp add: fill_handshake_len_def fill_len_def overwrite_def u16_be_def to_be_bytes_2
      to_be_bytes_4 Let_def eval_nat_numeral)

section \<open>What the flights are\<close>

text \<open>The handshake message inside a hello: type, three length bytes, version, random, session
  identifier, and what follows.\<close>

definition hello_body :: "u8 \<Rightarrow> bytes \<Rightarrow> bytes \<Rightarrow> bytes \<Rightarrow> bytes" where
  "hello_body ty random sid rest =
     [ty] @ tl (to_be_bytes 4 (of_nat (67 + length rest) :: u32)) @ [0x03, 0x03] @ random @ [32] @
     sid @ rest"

lemma length_hello_body:
  "length random = 32 \<Longrightarrow> length sid = 32 \<Longrightarrow> length (hello_body ty random sid rest) = 71 + length rest"
  by (simp add: hello_body_def)

lemma u16_or_0_small: "n < 65536 \<Longrightarrow> u16_or_0 n = of_nat n"
  by (simp add: u16_or_0_def)

lemma u32_or_0_small: "n < 65536 \<Longrightarrow> u32_or_0 n = of_nat n"
  by (simp add: u32_or_0_def)

lemma handshake_record:
  assumes "length random = 32" "length sid = 32" "length rest < 65465"
  shows "fill_handshake_len ([HANDSHAKE] @ [0x03, minor] @ [0, 0] @ [ty] @ [0, 0, 0] @ [0x03, 0x03] @
      random @ [32] @ sid @ rest) = tls_record HANDSHAKE minor (hello_body ty random sid rest)"
proof -
  have "fill_handshake_len ([HANDSHAKE, 0x03, minor] @ [0, 0] @ [ty] @ [0, 0, 0] @
      ([0x03, 0x03] @ random @ [32] @ sid @ rest))
    = [HANDSHAKE, 0x03, minor] @ u16_be (of_nat (length (hello_body ty random sid rest))) @
      hello_body ty random sid rest"
    using assms unfolding fill_handshake_len_eq
    by (simp add: hello_body_def u16_or_0_small u32_or_0_small add.commute)
  then show ?thesis by (simp add: tls_record_def u16_be_def)
qed

lemma client_hello_record:
  assumes "client_hello name s = Some hello" and "secrets_ok s"
  shows "\<exists>rest. length rest = 1719 + length name \<and>
    hello = tls_record HANDSHAKE 0x01 (hello_body CLIENT_HELLO (s_random s) (s_session_id s) rest)"
proof -
  let ?g = "grease (s_grease s)"
  let ?suites = "u16_be (u16_or_0 ((length hello_suites + 1) * 2)) @ u16_be ?g @
     concat (map u16_be hello_suites) @ [0x01, 0x00]"
  let ?ext = "hello_extensions name ?g s"
  let ?rest = "?suites @ u16_be (u16_or_0 (length ?ext)) @ ?ext"
  have n: "length name \<le> 253" using assms(1) by (auto simp: client_hello_def cover_sizes split: if_splits)
  have "hello = fill_handshake_len (hello_head ?g s @ u16_be (u16_or_0 (length ?ext)) @ ?ext)"
    using assms(1) fill_len_tail [of "hello_head ?g s" ?ext]
    by (auto simp: client_hello_def Let_def split: if_splits)
  moreover have "length ?rest = 1719 + length name"
    using assms(2) by (simp add: length_hello_extensions hello_suites_def)
  moreover have "hello_head ?g s @ u16_be (u16_or_0 (length ?ext)) @ ?ext =
      [HANDSHAKE] @ [0x03, 0x01] @ [0, 0] @ [CLIENT_HELLO] @ [0, 0, 0] @ [0x03, 0x03] @
      s_random s @ [32] @ s_session_id s @ ?rest"
    by (simp add: hello_head_def)
  ultimately show ?thesis
    using n assms(2) by (intro exI [of _ ?rest]) (simp only: handshake_record secrets_ok_def)
qed

lemma server_hello_records:
  assumes "length sid = 32" and "secrets_ok s"
  shows "\<exists>rest. length rest = 1145 \<and> server_hello sid s =
    tls_record HANDSHAKE 0x03 (hello_body SERVER_HELLO (s_random s) sid rest) @
    tls_record CHANGE_CIPHER_SPEC 0x03 [0x01]"
proof -
  let ?front = "[HANDSHAKE] @ [0x03, 0x03] @ [0, 0] @ [SERVER_HELLO] @ [0, 0, 0] @ [0x03, 0x03] @
      s_random s @ [32] @ sid @ u16_be 0x1301 @ [0]"
  let ?ext = "extension 0x002B [0x03, 0x04] @ extension 0x0033
      (u16_be X25519_MLKEM768 @ u16_be (u16_or_0 PQ_SERVER_SHARE) @ s_server_share s) @
      extension 0x0029 [0x00, 0x00]"
  let ?rest = "u16_be 0x1301 @ [0] @ u16_be (u16_or_0 (length ?ext)) @ ?ext"
  have len: "length ?rest = 1145" using assms(2) by (simp add: secrets_ok_def cover_sizes)
  have "server_hello sid s = fill_handshake_len (?front @ u16_be (u16_or_0 (length ?ext)) @ ?ext) @
      [CHANGE_CIPHER_SPEC, 0x03, 0x03, 0x00, 0x01, 0x01]"
    using fill_len_tail [of ?front ?ext] unfolding server_hello_def Let_def by simp
  moreover have "fill_handshake_len (?front @ u16_be (u16_or_0 (length ?ext)) @ ?ext) =
      tls_record HANDSHAKE 0x03 (hello_body SERVER_HELLO (s_random s) sid ?rest)"
    using handshake_record [of "s_random s" sid ?rest "0x03" SERVER_HELLO] len assms
    by (simp add: secrets_ok_def)
  ultimately show ?thesis
    using len by (intro exI [of _ ?rest]) (simp add: tls_record_def to_be_bytes_2)
qed

lemma client_finished_records:
  assumes "secrets_ok s"
  shows "client_finished s =
    tls_record CHANGE_CIPHER_SPEC 0x03 [0x01] @ tls_record APPLICATION_DATA 0x03 (s_finished s)"
  using assms by (simp add: client_finished_def tls_record_def to_be_bytes_2 u16_be_def
      secrets_ok_def u16_or_0_small cover_sizes)

text \<open>The bytes of a first fragment that the recognisers look at.\<close>

lemma be24_small:
  assumes "n < 65536"
  shows "tl (to_be_bytes 4 (of_nat n :: u32)) = 0 # to_be_bytes 2 (of_nat n :: u16)"
proof -
  have u: "unat (of_nat n :: u32) = n" "unat (of_nat n :: u16) = n"
    using assms by (simp_all add: unsigned_of_nat take_bit_eq_mod)
  have "ucast (drop_bit 16 (of_nat n :: u32)) = (0 :: u8)"
    "ucast (drop_bit 8 (of_nat n :: u32)) = (ucast (drop_bit 8 (of_nat n :: u16)) :: u8)"
    "ucast (of_nat n :: u32) = (ucast (of_nat n :: u16) :: u8)"
    using assms by (simp_all only: word_unat_eq_iff unat_ucast_mod unat_shiftr u) simp
  then show ?thesis by (simp only: to_be_bytes_2 to_be_bytes_4 list.sel)
qed

lemma hello_prefix:
  assumes "length random = 32" "length sid = 32" "length rest < 65465"
  shows "tls_record HANDSHAKE minor (hello_body ty random sid rest) =
    ([HANDSHAKE, 0x03, minor] @ to_be_bytes 2 (of_nat (71 + length rest) :: u16) @ [ty, 0] @
     to_be_bytes 2 (of_nat (67 + length rest) :: u16) @ [0x03, 0x03]) @ random @ [32] @ sid @ rest"
  using length_hello_body [OF assms(1,2), of ty rest] be24_small [of "67 + length rest"] assms
  by (simp add: tls_record_def hello_body_def)

lemma hello_fragment:
  assumes "length random = 32" "length sid = 32" "length rest \<le> 2489" "953 \<le> length rest"
    and hello: "hello = tls_record HANDSHAKE 0x01 (hello_body CLIENT_HELLO random sid rest)"
    and k: "76 \<le> k" "k \<le> length hello"
  shows "session_id (take k hello) = Some sid"
    and "owed_after_opening (take k hello) = (if k < length hello then Some (length hello - k) else None)"
proof -
  define lens where "lens = (71 + length rest, 67 + length rest)"
  have small: "fst lens < 65536" "snd lens < 65536" using assms(3) by (simp_all add: lens_def)
  define pre where "pre = ([HANDSHAKE, 0x03, 0x01] @ to_be_bytes 2 (of_nat (fst lens) :: u16) @
      [CLIENT_HELLO, 0] @ to_be_bytes 2 (of_nat (snd lens) :: u16) @ [0x03, 0x03]) @ random @ [32] @ sid"
  have pre: "hello = pre @ rest" "length pre = 76"
    using hello_prefix [OF assms(1,2), of rest "0x01" CLIENT_HELLO] assms(1-4)
    by (simp_all add: hello lens_def pre_def)
  have h: "take k hello = ([HANDSHAKE, 0x03, 0x01] @ to_be_bytes 2 (of_nat (fst lens) :: u16) @
      [CLIENT_HELLO, 0] @ to_be_bytes 2 (of_nat (snd lens) :: u16) @ [0x03, 0x03]) @ random @ [32] @
      sid @ take (k - 76) rest"
  proof -
    have "take k hello = pre @ take (k - 76) rest" using k pre by simp
    then show ?thesis by (simp add: pre_def)
  qed
  have len: "length hello = 76 + length rest" using pre by simp
  show "session_id (take k hello) = Some sid"
    using assms(1,2) unfolding h
    by (simp add: session_id_def to_be_bytes_2 get_append_right get_range_def cover_types)
  define t where "t = take k hello"
  have g43: "get t 43 = Some 32"
    using assms(1,2) unfolding h t_def by (simp add: to_be_bytes_2 get_append_right)
  have gets: "get t 0 = Some HANDSHAKE" "get t 1 = Some 0x03" "get t 2 = Some 0x01"
    "get t 3 = Some (ucast (drop_bit 8 (of_nat (fst lens) :: u16)))"
    "get t 4 = Some (ucast (of_nat (fst lens) :: u16))" "get t 5 = Some CLIENT_HELLO"
    "get t 6 = Some 0" "get t 7 = Some (ucast (drop_bit 8 (of_nat (snd lens) :: u16)))"
    "get t 8 = Some (ucast (of_nat (snd lens) :: u16))" "get t 9 = Some 0x03" "get t 10 = Some 0x03"
    unfolding h t_def by (simp_all add: to_be_bytes_2)
  have "length t = k" using k by (simp add: t_def)
  moreover have "1024 \<le> fst lens" "fst lens \<le> 2560" "snd lens + 4 = fst lens"
    using assms(3,4) by (simp_all add: lens_def)
  ultimately have "owed_after_opening t = (if k < fst lens + 5 then Some (fst lens + 5 - k) else None)"
    using small unfolding owed_after_opening_def gets g43
    by (simp add: Let_def be16_read cover_sizes)
  then show "owed_after_opening (take k hello) =
      (if k < length hello then Some (length hello - k) else None)"
    using len by (simp add: lens_def t_def)
qed

section \<open>Packed coefficients\<close>

lemma unat_coefficient: "unat (coefficient seed i) < 3329"
proof -
  have "unat (mlkem_q) = 3329" by (simp add: mlkem_q_def)
  then show ?thesis by (simp add: coefficient_def unat_mod)
qed

lemma unat_u8_or_0: "unat v < 256 \<Longrightarrow> unat (u8_or_0 v) = unat v"
  by (simp only: u8_or_0_def if_True unat_ucast_mod) simp

lemma unat_nibbles:
  "unat ((c AND 0x0F) OR push_bit 4 (d AND 0x0F) :: u16) = unat c mod 16 + 16 * (unat d mod 16)"
proof -
  have m: "(0x0F :: u16) = mask 4" by (simp add: mask_eq_exp_minus_1)
  have "(c AND mask 4) AND push_bit 4 (d AND mask 4) = (0 :: u16)"
    by (rule bit_word_eqI) (auto simp: bit_simps)
  then have "(c AND mask 4) OR push_bit 4 (d AND mask 4) = (c AND mask 4) + push_bit 4 (d AND mask 4)"
    by (simp only: disjunctive_add_eq_or)
  moreover have "unat (push_bit 4 (d AND mask 4) :: u16) = 16 * (unat d mod 16)"
    using unat_and_mask [of d 4] by (simp add: push_bit_eq_mult unat_word_ariths)
  ultimately show ?thesis
    using unat_and_mask [of c 4] by (simp only: m) (simp add: unat_word_ariths)
qed

lemma pack_pair_unpack:
  assumes "unat a < 4096" and "unat b < 4096" and "pack_pair a b = [x, y, z]"
  shows "unat x + 256 * (unat y mod 16) = unat a" "unat y div 16 + 16 * unat z = unat b"
proof -
  have xyz: "x = u8_or_0 (a AND 0xFF)" "y = u8_or_0 ((drop_bit 8 a AND 0x0F) OR push_bit 4 (b AND 0x0F))"
    "z = u8_or_0 (drop_bit 4 b)"
    using assms(3) by (simp_all add: pack_pair_def)
  have "unat (a AND 0xFF) = unat a mod 256"
    using unat_and_mask [of a 8] by (simp add: mask_eq_exp_minus_1)
  then have x: "unat x = unat a mod 256" by (simp add: xyz unat_u8_or_0)
  have "unat ((drop_bit 8 a AND 0x0F) OR push_bit 4 (b AND 0x0F)) =
      unat a div 256 mod 16 + 16 * (unat b mod 16)"
    by (simp only: unat_nibbles unat_shiftr) simp
  then have y: "unat y = unat a div 256 mod 16 + 16 * (unat b mod 16)"
    unfolding xyz by (subst unat_u8_or_0) simp_all
  have "unat (drop_bit 4 b) = unat b div 16" by (simp only: unat_shiftr) simp
  then have z: "unat z = unat b div 16"
    using assms(2) unfolding xyz by (subst unat_u8_or_0) simp_all
  show "unat x + 256 * (unat y mod 16) = unat a" using assms(1) by (simp add: x y)
  show "unat y div 16 + 16 * unat z = unat b" by (simp add: y z)
qed

lemma nth_concat_triples:
  assumes "\<And>i. i < n \<Longrightarrow> length (f i) = 3" and "i < n" and "j < 3"
  shows "(concat (map f [0..<n]) @ rest) ! (3 * i + j) = f i ! j"
  using assms
proof (induction n arbitrary: rest)
  case 0
  then show ?case by simp
next
  case (Suc n)
  have len: "length (concat (map f [0..<n])) = 3 * n"
    using Suc.prems(1) by (induction n) simp_all
  show ?case
  proof (cases "i < n")
    case True
    then show ?thesis using Suc.IH [of "f n @ rest"] Suc.prems by simp
  next
    case False
    then have "i = n" using Suc.prems(2) by simp
    then show ?thesis using len Suc.prems by (simp add: nth_append)
  qed
qed

section \<open>Properties\<close>

text \<open>C29. \<open>is_cover\<close> recognises a grammar: it accepts a payload exactly when the payload is a
  non-empty run of TLS records whose first is a handshake or change-cipher-spec record and whose
  others are of those kinds or application data.\<close>

theorem is_cover_grammar:
  "is_cover payload \<longleftrightarrow>
     (\<exists>recs. list_all record_ok recs \<and> recs \<noteq> [] \<and>
        fst (recs ! 0) \<in> {HANDSHAKE, CHANGE_CIPHER_SPEC} \<and> payload = tls_records recs)"
    (is "_ \<longleftrightarrow> (\<exists>recs. ?P recs)")
proof
  assume c: "is_cover payload"
  then have p: "payload \<noteq> []" "payload ! 0 \<in> {HANDSHAKE, CHANGE_CIPHER_SPEC}"
    and walk: "is_cover_from payload 0"
    by (auto simp: is_cover_def get_def split: option.splits if_splits)
  from walked_are_records [OF walk] obtain recs where
    r: "list_all record_ok recs" "payload = tls_records recs" by auto
  have "?P recs"
    using r p by (cases recs) (auto simp: tls_record_def)
  then show "\<exists>recs. ?P recs" ..
next
  assume "\<exists>recs. ?P recs"
  then obtain recs where r: "?P recs" ..
  then obtain knd minor body rest where recs: "recs = (knd, minor, body) # rest"
    by (cases recs) auto
  have "is_cover_from payload 0" using records_are_walked [of recs "[]"] r by simp
  then show "is_cover payload" using r by (auto simp: is_cover_def recs tls_record_def)
qed

text \<open>A data segment that opens a record unwraps to its payload, also when the record declares
  more than the segment carries; nothing but such a segment unwraps; and no such segment is taken
  for a decoy flight.\<close>

theorem unwrap_record_complete:
  "(unwrap_record wire = Some payload \<longleftrightarrow>
     (\<exists>n h. record_header n = Some h \<and> length payload \<le> n \<and> wire = h @ payload)) \<and>
   \<not> (unwrap_record wire = Some payload \<and> is_cover wire)"
proof -
  have header: "record_header n = Some h \<Longrightarrow> length payload \<le> n \<Longrightarrow>
      unwrap_record (h @ payload) = Some payload" for n h
    by (auto simp: record_header_def unwrap_record_def split_first_chunk_def RECORD_HEADER_def
        to_be_bytes_2 MAX_SPAN_def MAX_RECORD_def Let_def split: if_splits)
  have wire: "\<exists>n h. record_header n = Some h \<and> length payload \<le> n \<and> wire = h @ payload"
    if u: "unwrap_record wire = Some payload"
  proof -
    from u have l: "5 \<le> length wire" and p: "payload = drop 5 wire"
      by (auto simp: unwrap_record_def split_first_chunk_def RECORD_HEADER_def Let_def
          split: option.splits if_splits bind_splits)
    from l obtain a b c d e tail where w: "wire = [a, b, c, d, e] @ tail"
      using five_bytes [of wire "wire ! 4"] by (auto simp: get_def)
    let ?n = "unat (from_be_bytes [d, e] :: u16)"
    have "a = APPLICATION_DATA" "b = 0x03" "c = 0x03" "?n \<ge> length payload" "?n \<le> MAX_SPAN"
      using u by (auto simp: w p unwrap_record_def split_first_chunk_def RECORD_HEADER_def Let_def
          split: if_splits)
    then have "record_header ?n = Some [a, b, c, d, e]" "length payload \<le> ?n"
      using unat_bounds(2) [of "from_be_bytes [d, e]"] by (simp_all add: record_header_def be16_bytes)
    then show ?thesis using w p by auto
  qed
  have "\<not> is_cover (h @ payload)" if "record_header n = Some h" for n h
    using that by (auto simp: record_header_def is_cover_def cover_types split: if_splits)
  then show ?thesis using header wire by blast
qed

text \<open>The opening flight, for every admissible name and any secrets: it is cover as a whole; its
  length is 1795 bytes plus the name; every first fragment of at least 76 bytes yields the session
  identifier to echo and the exact number of bytes still owed; and the answers to it are cover.\<close>

theorem client_hello_recognised:
  assumes "client_hello name s = Some hello" and "secrets_ok s"
  shows "length hello = 1795 + length name \<and> is_cover hello \<and>
    (76 \<le> k \<and> k \<le> length hello \<longrightarrow>
       session_id (take k hello) = Some (s_session_id s) \<and>
       owed_after_opening (take k hello) =
         (if k < length hello then Some (length hello - k) else None)) \<and>
    is_cover (server_hello (s_session_id s) s) \<and> is_cover (client_finished s)"
proof -
  obtain rest where r: "length rest = 1719 + length name"
    "hello = tls_record HANDSHAKE 0x01 (hello_body CLIENT_HELLO (s_random s) (s_session_id s) rest)"
    using client_hello_record [OF assms] by blast
  obtain rest' where r': "length rest' = 1145" "server_hello (s_session_id s) s =
    tls_record HANDSHAKE 0x03 (hello_body SERVER_HELLO (s_random s) (s_session_id s) rest') @
    tls_record CHANGE_CIPHER_SPEC 0x03 [0x01]"
    using server_hello_records [of "s_session_id s" s] assms(2) by (auto simp: secrets_ok_def)
  have s: "length (s_random s) = 32" "length (s_session_id s) = 32" "length (s_finished s) = 58"
    using assms(2) by (simp_all add: secrets_ok_def cover_sizes)
  have n: "length name \<le> 253"
    using assms(1) by (auto simp: client_hello_def cover_sizes split: if_splits)
  have cover: "is_cover (tls_records ((knd, m, b) # recs))"
    if "list_all record_ok ((knd, m, b) # recs)" "knd \<in> {HANDSHAKE, CHANGE_CIPHER_SPEC}" for knd m b recs
    using that records_are_walked [of "(knd, m, b) # recs" "[]"]
    by (auto simp: is_cover_def tls_record_def)
  have "is_cover hello"
    using cover [of HANDSHAKE "0x01" "hello_body CLIENT_HELLO (s_random s) (s_session_id s) rest" "[]"]
      r s n by (simp add: record_ok_def length_hello_body)
  moreover have "is_cover (server_hello (s_session_id s) s)"
    using cover [of HANDSHAKE "0x03" "hello_body SERVER_HELLO (s_random s) (s_session_id s) rest'"
        "[(CHANGE_CIPHER_SPEC, 0x03, [0x01])]"] r' s by (simp add: record_ok_def length_hello_body)
  moreover have "is_cover (client_finished s)"
    using cover [of CHANGE_CIPHER_SPEC "0x03" "[0x01]" "[(APPLICATION_DATA, 0x03, s_finished s)]"] s
    by (simp add: record_ok_def client_finished_records [OF assms(2)])
  moreover have "length hello = 1795 + length name" using r s by (simp add: length_hello_body)
  ultimately show ?thesis
    using hello_fragment [OF s(1,2) _ _ r(2), of k] r(1) n by simp
qed

theorem client_hello_recognised_witness:
  "let hello = the (client_hello [0x78] secrets_default) in
     length hello = 1796 \<and> session_id (take 1400 hello) = Some (replicate 32 0) \<and>
     owed_after_opening (take 1400 hello) = Some 396"
proof -
  have "secrets_ok secrets_default" by (simp add: secrets_ok_def secrets_default_def)
  moreover have "client_hello [0x78] secrets_default = Some (the (client_hello [0x78] secrets_default))"
    by (simp add: client_hello_def MAX_NAME_def Let_def)
  ultimately show ?thesis
    using client_hello_recognised [of "[0x78]" secrets_default "the (client_hello [0x78] secrets_default)" 1400]
    unfolding Let_def by (simp add: secrets_default_def)
qed

text \<open>A spoofed opening can make the receiver discard only a bounded amount: what
  \<open>owed_after_opening\<close> answers is at least one byte and at most 2,521, and the payload it answers
  for is never a complete decoy.\<close>

theorem owed_is_bounded:
  assumes "owed_after_opening payload = Some n"
  shows "0 < n \<and> n \<le> HELLO_MAX + RECORD_HEADER - 44 \<and> \<not> is_cover payload"
proof -
  from assms obtain p3 p4 where g: "get payload 0 = Some HANDSHAKE" "get payload 1 = Some 0x03"
      "get payload 3 = Some p3" "get payload 4 = Some p4" "44 \<le> length payload"
    and n: "n = unat (from_be_bytes [p3, p4] :: u16) + 5 - length payload"
      "length payload < unat (from_be_bytes [p3, p4] :: u16) + 5"
      "unat (from_be_bytes [p3, p4] :: u16) \<le> 2560"
    by (auto simp: owed_after_opening_def Let_def cover_sizes get_eq_Some split: if_splits bind_splits)
  have "\<not> is_cover_from payload (0 + 5 + unat (from_be_bytes [p3, p4] :: u16))"
    using cover_walk_bound n(2) by fastforce
  then have "\<not> is_cover_from payload 0"
    using g by (subst is_cover_from.simps) (auto simp: get_from_def)
  then show ?thesis using n g by (auto simp: is_cover_def cover_sizes split: option.splits)
qed

theorem owed_is_bounded_witness:
  "let payload = [0x16, 0x03, 0x01, 0x04, 0x04, 0x01, 0, 0x04, 0x00, 0x03, 0x03] @ replicate 32 0 @ [32]
   in owed_after_opening payload = Some 989 \<and> \<not> is_cover payload"
proof -
  let ?p = "[0x16, 0x03, 0x01, 0x04, 0x04, 0x01, 0, 0x04, 0x00, 0x03, 0x03] @ replicate 32 0 @ [32]"
  have "owed_after_opening ?p = Some 989" by code_simp
  then show ?thesis using owed_is_bounded [of ?p 989] by simp
qed

text \<open>The decoy's ML-KEM share passes the range check a real key passes: it is 1,184 bytes, every
  twelve-bit coefficient it packs is below the modulus 3,329, and unpacking gives the two reduced
  draws from the seed.\<close>

theorem encapsulation_key_valid:
  assumes "length seed = MLKEM_SEED" and "i < 384"
  shows "let k = encapsulation_key seed; x = unat (k ! (3 * i)); y = unat (k ! (3 * i + 1));
             z = unat (k ! (3 * i + 2)); a = x + 256 * (y mod 16); b = y div 16 + 16 * z in
     length k = MLKEM_EK \<and> a < 3329 \<and> b < 3329 \<and>
     a = unat (coefficient seed (2 * i)) \<and> b = unat (coefficient seed (2 * i + 1))"
proof -
  define f where "f = (\<lambda>i. pack_pair (coefficient seed (2 * i)) (coefficient seed (2 * i + 1)))"
  have k: "encapsulation_key seed = concat (map f [0..<384]) @ drop 1536 seed"
    using assms(1) by (simp add: encapsulation_key_def f_def get_from_def cover_sizes)
  obtain x y z where xyz: "f i = [x, y, z]"
    by (simp add: f_def pack_pair_def)
  have nth: "encapsulation_key seed ! (3 * i + j) = f i ! j" if "j < 3" for j
    unfolding k using nth_concat_triples [of 384 f i j "drop 1536 seed"] assms(2) that
    by (simp add: f_def)
  have c: "unat (coefficient seed n) < 4096" for n using unat_coefficient [of seed n] by simp
  note u = pack_pair_unpack [OF c c xyz [unfolded f_def]]
  show ?thesis
    using nth [of 0] nth [of 1] nth [of 2] u unat_coefficient [of seed "2 * i"]
      unat_coefficient [of seed "2 * i + 1"] length_encapsulation_key [OF assms(1)]
    by (simp add: xyz Let_def)
qed

theorem encapsulation_key_valid_witness:
  "let k = encapsulation_key (replicate MLKEM_SEED 0xFF) in
     unat (k ! 0) + 256 * (unat (k ! 1) mod 16) = 2284 \<and> length k = 1184"
proof -
  have "unat (coefficient (replicate MLKEM_SEED 0xFF) 0) = 2284" by code_simp
  then show ?thesis
    using encapsulation_key_valid [of "replicate MLKEM_SEED 0xFF" 0]
    by (simp add: Let_def MLKEM_EK_def MLKEM_COEFFS_def)
qed

text \<open>Shuffling the extensions reorders them and loses or duplicates none, whatever the seed.\<close>

theorem shuffle_is_permutation: "mset (shuffle_items items seed) = mset items"
  by (rule mset_shuffle_items)

end
