(* ===== verification/Endpoint.thy ===== *)
theory Endpoint
  imports Segment Cover
begin

text \<open>
  One end of the synthetic TCP conversation (\<open>paqetz-tcpwire/src/endpoint.rs\<close>).  An endpoint is a
  record; every operation that sends takes the buffer to write into and returns the result together
  with the endpoint afterwards, because some of its fields change even when the send then fails.
  On success the result is the number of bytes written and the buffer after the write.

  Lengths are \<open>nat\<close>; sequence numbers, acknowledgements, timestamps and counters are words and wrap.
\<close>

section \<open>Configuration and state\<close>

definition ACK_EVERY :: u16 where
  "ACK_EVERY = 2"

definition REORDER_SPAN :: u32 where
  "REORDER_SPAN = push_bit 20 1"

datatype carrier_mode = Midstream | FakeHandshake | Handshake

definition opens :: "carrier_mode \<Rightarrow> bool" where
  "opens c \<longleftrightarrow> c \<noteq> Midstream"

datatype role = Initiator | Responder

datatype phase = Idle | SynSent | SynReceived | Established | Closed

datatype sequencing = Opaque | Stream

record config =
  cf_local :: sock
  cf_remote :: sock
  cf_profile :: os_profile
  cf_role :: role
  cf_carrier :: carrier_mode
  cf_isn :: u32
  cf_peer_isn :: u32
  cf_ts_base :: u32
  cf_sequencing :: sequencing
  cf_records :: bool
  cf_dont_fragment :: bool
  cf_mss :: "u16 option"

record endpoint =
  e_local :: sock
  e_remote :: sock
  e_profile :: os_profile
  e_role :: role
  e_carrier :: carrier_mode
  e_phase :: phase
  e_sequencing :: sequencing
  e_records :: bool
  e_local_isn :: u32
  e_ip_id_base :: u32
  e_sent :: u32
  e_peer_next :: "u32 option"
  e_relearn :: bool
  e_syn_seq :: "u32 option"
  e_syn_ts :: "u32 option"
  e_ts_base :: u32
  e_peer_ts_val :: u32
  e_counter :: u32
  e_dont_fragment :: bool
  e_syn_counted :: bool
  e_mss :: u16
  e_record_left :: nat
  e_unacked :: u16

definition endpoint_new :: "config \<Rightarrow> endpoint" where
  "endpoint_new cfg =
     (let waits = (cf_carrier cfg = Handshake) in
      \<lparr>e_local = cf_local cfg, e_remote = cf_remote cfg, e_profile = cf_profile cfg,
       e_role = cf_role cfg, e_carrier = cf_carrier cfg,
       e_phase = (if waits then Idle else Established),
       e_sequencing = cf_sequencing cfg, e_records = cf_records cfg,
       e_local_isn = cf_isn cfg, e_ip_id_base = cf_isn cfg, e_sent = 0,
       e_peer_next = (if waits then None else Some (cf_peer_isn cfg)), e_relearn = True,
       e_syn_seq = None, e_syn_ts = None, e_ts_base = cf_ts_base cfg, e_peer_ts_val = 0,
       e_counter = 0, e_dont_fragment = cf_dont_fragment cfg, e_syn_counted = (\<not> waits),
       e_mss = (case cf_mss cfg of
                  Some mss \<Rightarrow> if mss < p_mss (cf_profile cfg) then mss else p_mss (cf_profile cfg)
                | None \<Rightarrow> p_mss (cf_profile cfg)),
       e_record_left = 0, e_unacked = 0\<rparr>)"

section \<open>Queries\<close>

definition is_established :: "endpoint \<Rightarrow> bool" where
  "is_established e \<longleftrightarrow> e_phase e = Established"

definition is_ready :: "endpoint \<Rightarrow> bool" where
  "is_ready e =
     (case (e_carrier e, e_role e) of
        (FakeHandshake, Initiator) \<Rightarrow> e_syn_seq e \<noteq> None
      | _ \<Rightarrow> is_established e)"

definition wants_opening :: "endpoint \<Rightarrow> bool" where
  "wants_opening e \<longleftrightarrow> e_role e = Initiator \<and>
     (case e_carrier e of
        Midstream \<Rightarrow> False
      | FakeHandshake \<Rightarrow> e_syn_seq e = None
      | Handshake \<Rightarrow> \<not> is_established e)"

definition answers_syn :: "endpoint \<Rightarrow> segment \<Rightarrow> bool" where
  "answers_syn e seg \<longleftrightarrow>
     g_flags seg AND (SYN OR ACK OR RST OR FIN) = SYN OR ACK \<and>
     (case e_syn_seq e of None \<Rightarrow> False | Some ours \<Rightarrow> g_ack seg = ours + 1)"

definition next_seq :: "endpoint \<Rightarrow> u32" where
  "next_seq e =
     (case e_sequencing e of
        Opaque \<Rightarrow> e_local_isn e + push_bit 7 (e_counter e)
      | Stream \<Rightarrow> e_local_isn e + e_sent e)"

definition next_ack :: "endpoint \<Rightarrow> u32 option" where
  "next_ack e =
     (case e_sequencing e of
        Opaque \<Rightarrow> Some (e_local_isn e + push_bit 7 (e_counter e) - (e_counter e AND 0x3FF) + 1400)
      | Stream \<Rightarrow> e_peer_next e)"

definition names_another_connection :: "endpoint \<Rightarrow> segment \<Rightarrow> bool" where
  "names_another_connection e seg =
     (if e_sequencing e = Opaque \<or> \<not> is_established e then False
      else let ahead = g_ack seg - next_seq e in ahead > REORDER_SPAN \<and> - ahead > REORDER_SPAN)"

definition at_record_boundary :: "endpoint \<Rightarrow> bool" where
  "at_record_boundary e \<longleftrightarrow> \<not> e_records e \<or> e_record_left e = 0"

definition owes_ack :: "endpoint \<Rightarrow> bool" where
  "owes_ack e \<longleftrightarrow> e_unacked e \<ge> ACK_EVERY"

definition set_remote :: "endpoint \<Rightarrow> sock \<Rightarrow> endpoint" where
  "set_remote e remote =
     (let e1 = (if remote \<noteq> e_remote e then e\<lparr>e_relearn := True\<rparr> else e)
      in e1\<lparr>e_remote := remote\<rparr>)"

section \<open>Fields of an outbound segment\<close>

definition timestamp :: "u32 \<Rightarrow> u64 \<Rightarrow> u32 \<Rightarrow> u32" where
  "timestamp ts_base now hz = ts_base + ucast ((now * ucast hz) div 1000 :: u64)"

definition ts_val :: "endpoint \<Rightarrow> u64 \<Rightarrow> u32" where
  "ts_val e now = timestamp (e_ts_base e) now (p_ts_hz (e_profile e))"

text \<open>Shift amounts are window scales, below 32 in every profile.\<close>

definition scaled_window :: "endpoint \<Rightarrow> u32" where
  "scaled_window e =
     (if opens (e_carrier e)
      then drop_bit (case p_window_scale (e_profile e) of None \<Rightarrow> 0 | Some s \<Rightarrow> unat s)
             (p_window (e_profile e))
      else min (p_window (e_profile e)) 0xFFFF)"

definition window :: "endpoint \<Rightarrow> kind \<Rightarrow> u16" where
  "window e k =
     (if is_syn k then p_syn_window (e_profile e)
      else
        let scaled = unat (scaled_window e);
            spread = max (scaled div 8) 1;
            jitter = unat (e_counter e * 0x9E3779B9) div 2 ^ 8;
            offset = jitter mod (spread + 1);
            varied = scaled - offset
        in of_nat (min (max varied 1) 65535))"

definition endpoint_ip_id :: "endpoint \<Rightarrow> u16" where
  "endpoint_ip_id e = ip_id (e_profile e) (e_ip_id_base e) (e_counter e)"

definition endpoint_fields :: "endpoint \<Rightarrow> kind \<Rightarrow> u64 \<Rightarrow> bool \<Rightarrow> fields" where
  "endpoint_fields e k now push =
     \<lparr>f_src = e_local e, f_dst = e_remote e, f_seq = next_seq e,
      f_ack = (case next_ack e of None \<Rightarrow> 0 | Some a \<Rightarrow> a), f_window = window e k,
      f_ip_id = endpoint_ip_id e, f_ts_val = ts_val e now, f_ts_ecr = e_peer_ts_val e,
      f_push = push, f_mss = e_mss e, f_dont_fragment = e_dont_fragment e\<rparr>"

section \<open>Sending\<close>

type_synonym sent_result = "wire_error + nat \<times> bytes"

definition endpoint_emit_parts ::
  "endpoint \<Rightarrow> kind \<Rightarrow> bytes list \<Rightarrow> bytes \<Rightarrow> u64 \<Rightarrow> bool \<Rightarrow> sent_result \<times> endpoint" where
  "endpoint_emit_parts e k parts out now push =
     (case emit_parts k (e_profile e) (endpoint_fields e k now push) parts out of
        Inl err \<Rightarrow> (Inl err, e)
      | Inr r \<Rightarrow> (Inr r, e\<lparr>e_counter := e_counter e + 1, e_unacked := 0\<rparr>))"

definition emit_raw ::
  "endpoint \<Rightarrow> kind \<Rightarrow> bytes \<Rightarrow> bytes \<Rightarrow> u64 \<Rightarrow> bool \<Rightarrow> sent_result \<times> endpoint" where
  "emit_raw e k payload out now push = endpoint_emit_parts e k [payload] out now push"

definition number_syn :: "endpoint \<Rightarrow> u64 \<Rightarrow> (u32 \<Rightarrow> u32) \<Rightarrow> endpoint" where
  "number_syn e now isn_for =
     (if e_syn_seq e \<noteq> None then e
      else let ts = timestamp (e_ts_base e) now (p_ts_hz (e_profile e))
           in e\<lparr>e_syn_ts := Some ts, e_local_isn := isn_for ts\<rparr>)"

definition syn :: "endpoint \<Rightarrow> u32 \<Rightarrow> bytes \<Rightarrow> u64 \<Rightarrow> sent_result \<times> endpoint" where
  "syn e sq out now =
     (let tsv = (case e_syn_ts e of
                   Some t \<Rightarrow> t
                 | None \<Rightarrow> timestamp (e_ts_base e) now (p_ts_hz (e_profile e)));
          e1 = e\<lparr>e_syn_ts := Some tsv\<rparr>;
          f = (endpoint_fields e1 Syn now False)
                \<lparr>f_seq := sq, f_ack := 0, f_ts_val := tsv, f_ts_ecr := 0\<rparr>
      in case emit Syn (e_profile e1) f [] out of
           Inl err \<Rightarrow> (Inl err, e1)
         | Inr r \<Rightarrow> (Inr r, e1\<lparr>e_counter := e_counter e1 + 1, e_syn_seq := Some sq\<rparr>))"

text \<open>\<open>result.map(Some)\<close>.\<close>

definition map_some :: "sent_result \<times> endpoint \<Rightarrow> (wire_error + (nat \<times> bytes) option) \<times> endpoint" where
  "map_some r = (case r of (Inl err, e) \<Rightarrow> (Inl err, e) | (Inr v, e) \<Rightarrow> (Inr (Some v), e))"

definition handshake ::
  "endpoint \<Rightarrow> bytes \<Rightarrow> u64 \<Rightarrow> (wire_error + (nat \<times> bytes) option) \<times> endpoint" where
  "handshake e out now =
     (if e_carrier e = FakeHandshake \<and> e_role e = Initiator \<and> e_syn_seq e = None
      then map_some (syn e (next_seq e - 1) out now)
      else if e_carrier e = Handshake \<and> e_role e = Initiator \<and> e_phase e \<in> {Idle, SynSent}
      then (case syn e (e_local_isn e) out now of
              (Inl err, e1) \<Rightarrow> (Inl err, e1)
            | (Inr r, e1) \<Rightarrow> (Inr (Some r), e1\<lparr>e_phase := SynSent\<rparr>))
      else if e_carrier e = Handshake \<and> e_role e = Responder \<and> e_phase e = SynReceived
      then map_some (emit_raw e SynAck [] out now False)
      else (Inr None, e))"

definition answer :: "endpoint \<Rightarrow> u32 \<Rightarrow> bytes \<Rightarrow> u64 \<Rightarrow> sent_result \<times> endpoint" where
  "answer e ak out now =
     (let f = (endpoint_fields e SynAck now False)\<lparr>f_seq := next_seq e - 1, f_ack := ak\<rparr>
      in case emit SynAck (e_profile e) f [] out of
           Inl err \<Rightarrow> (Inl err, e)
         | Inr r \<Rightarrow> (Inr r, e\<lparr>e_counter := e_counter e + 1\<rparr>))"

definition ack :: "endpoint \<Rightarrow> bytes \<Rightarrow> u64 \<Rightarrow> sent_result \<times> endpoint" where
  "ack e out now = emit_raw e Ack [] out now False"

text \<open>Advancing \<open>sent\<close> after a data segment: \<open>u32::try_from(written)\<close>, then a wrapping addition.\<close>

definition count_sent :: "nat \<Rightarrow> sent_result \<times> endpoint \<Rightarrow> sent_result \<times> endpoint" where
  "count_sent written r =
     (case r of
        (Inl err, e) \<Rightarrow> (Inl err, e)
      | (Inr v, e) \<Rightarrow>
          if written < 2 ^ 32 then (Inr v, e\<lparr>e_sent := e_sent e + of_nat written\<rparr>)
          else (Inl (TooLong written), e))"

definition data ::
  "endpoint \<Rightarrow> bytes \<Rightarrow> bytes \<Rightarrow> u64 \<Rightarrow> bool \<Rightarrow> nat option \<Rightarrow> sent_result \<times> endpoint" where
  "data e payload out now push rec =
     (if \<not> is_ready e then (Inl NotEstablished, e)
      else
        let opening = e_records e \<and> e_record_left e = 0;
            record_total = (case rec of Some r \<Rightarrow> r | None \<Rightarrow> length payload);
            e1 = (if e_records e
                  then e\<lparr>e_record_left := (if opening then record_total else e_record_left e)
                          - length payload\<rparr>
                  else e)
        in if opening
           then (case record_header record_total of
                   None \<Rightarrow> (Inl (TooLong record_total), e)
                 | Some hdr \<Rightarrow>
                     count_sent (length payload + length hdr)
                       (endpoint_emit_parts e1 Data [hdr, payload] out now push))
           else count_sent (length payload) (emit_raw e1 Data payload out now push))"

definition bare :: "endpoint \<Rightarrow> bytes \<Rightarrow> bytes \<Rightarrow> u64 \<Rightarrow> bool \<Rightarrow> sent_result \<times> endpoint" where
  "bare e payload out now push =
     (if \<not> is_ready e then (Inl NotEstablished, e)
      else count_sent (length payload) (emit_raw e Data payload out now push))"

definition close :: "endpoint \<Rightarrow> bytes \<Rightarrow> u64 \<Rightarrow> sent_result \<times> endpoint" where
  "close e out now =
     (case emit_raw e Fin [] out now True of
        (Inl err, e1) \<Rightarrow> (Inl err, e1)
      | (Inr r, e1) \<Rightarrow> (Inr r, e1\<lparr>e_sent := e_sent e1 + 1, e_phase := Closed\<rparr>))"

section \<open>Receiving\<close>

definition establish :: "endpoint \<Rightarrow> endpoint" where
  "establish e =
     (let e1 = e\<lparr>e_phase := Established\<rparr>
      in if \<not> e_syn_counted e1
         then e1\<lparr>e_syn_counted := True, e_sent := e_sent e1 + 1\<rparr> else e1)"

definition occupied :: "segment \<Rightarrow> u32" where
  "occupied seg =
     (let len = (if length (g_payload seg) < 2 ^ 32 then of_nat (length (g_payload seg)) else - 1)
      in if has seg FIN then len + 1 else len)"

definition advance :: "endpoint \<Rightarrow> u32 \<Rightarrow> endpoint" where
  "advance e stop =
     (case e_peer_next e of
        None \<Rightarrow> e
      | Some nxt \<Rightarrow>
          let ahead = stop - nxt;
              forward = (ahead \<noteq> 0 \<and> ahead < push_bit 31 1);
              restarted = (\<not> forward \<and> nxt - stop > REORDER_SPAN)
          in if e_relearn e \<or> forward \<or> restarted
             then e\<lparr>e_peer_next := Some stop, e_relearn := False\<rparr> else e)"

definition saturating_incr :: "u16 \<Rightarrow> u16" where
  "saturating_incr n = (if n = 0xFFFF then n else n + 1)"

text \<open>What is noted of every segment, before anything is decided about it.\<close>

definition note_arrival :: "endpoint \<Rightarrow> segment \<Rightarrow> endpoint" where
  "note_arrival e0 seg =
     (let e1 = (if g_payload seg \<noteq> [] then e0\<lparr>e_unacked := saturating_incr (e_unacked e0)\<rparr> else e0)
      in case g_ts_val seg of None \<Rightarrow> e1 | Some ts \<Rightarrow> e1\<lparr>e_peer_ts_val := ts\<rparr>)"

definition on_receive :: "endpoint \<Rightarrow> segment \<Rightarrow> bytes option \<times> endpoint" where
  "on_receive e0 seg =
     (let e = note_arrival e0 seg
      in if has seg RST then (None, e\<lparr>e_phase := Closed\<rparr>)
      else if has seg SYN then
        (if has seg ACK then
           (if (case e_syn_seq e of None \<Rightarrow> False | Some ours \<Rightarrow> g_ack seg = ours + 1)
            then
              let e2 = (if e_peer_next e = None
                        then e\<lparr>e_peer_next := Some (g_seq seg + 1), e_relearn := False\<rparr>
                        else advance e (g_seq seg + 1))
              in (None, if e_phase e2 = SynSent then establish e2 else e2)
            else (None, e))
         else if e_role e = Responder \<and> e_peer_next e = None
         then (None, e\<lparr>e_peer_next := Some (g_seq seg + 1), e_phase := SynReceived\<rparr>)
         else (None, e))
      else if e_peer_next e = None then (None, e)
      else
        let e3 = (if e_phase e = SynReceived \<and> has seg ACK then establish e else e);
            e4 = advance e3 (g_seq seg + occupied seg)
        in if has seg FIN then (None, e4\<lparr>e_phase := Closed\<rparr>)
           else if g_payload seg = [] then (None, e4)
           else (Some (g_payload seg), e4))"

definition rejoin :: "endpoint \<Rightarrow> segment \<Rightarrow> u32 \<Rightarrow> endpoint" where
  "rejoin e seg ts_base =
     (let e1 = e\<lparr>e_ts_base := ts_base, e_local_isn := g_ack seg - e_sent e, e_syn_counted := True,
                 e_phase := Established, e_remote := g_src seg,
                 e_peer_next := Some (g_seq seg + occupied seg), e_relearn := False\<rparr>
      in case g_ts_val seg of None \<Rightarrow> e1 | Some ts \<Rightarrow> e1\<lparr>e_peer_ts_val := ts\<rparr>)"

section \<open>The stateless answer\<close>

record reply =
  r_isn :: u32
  r_ts_val :: u32
  r_dont_fragment :: bool
  r_mss :: u16

definition answer_fields :: "os_profile \<Rightarrow> sock \<Rightarrow> segment \<Rightarrow> reply \<Rightarrow> fields" where
  "answer_fields p local_sock s r =
     \<lparr>f_src = local_sock, f_dst = g_src s, f_seq = r_isn r, f_ack = g_seq s + 1,
      f_window = p_syn_window p, f_ip_id = unconnected_ip_id p (r_dont_fragment r) (r_isn r),
      f_ts_val = r_ts_val r, f_ts_ecr = (case g_ts_val s of None \<Rightarrow> 0 | Some t \<Rightarrow> t),
      f_push = False, f_mss = (if r_mss r < p_mss p then r_mss r else p_mss p),
      f_dont_fragment = r_dont_fragment r\<rparr>"

definition answer_syn :: "os_profile \<Rightarrow> sock \<Rightarrow> segment \<Rightarrow> reply \<Rightarrow> bytes \<Rightarrow> sent_result" where
  "answer_syn p local_sock s r out = emit SynAck p (answer_fields p local_sock s r) [] out"

section \<open>What goes on the wire\<close>

text \<open>The segment a captured packet holds, for a send that succeeded.\<close>

definition on_wire :: "sent_result \<Rightarrow> segment option" where
  "on_wire r = (case r of Inl _ \<Rightarrow> None | Inr (n, buf) \<Rightarrow> segment_parse_ipv4 (take n buf))"

lemma on_wire_Inl [simp]: "on_wire (Inl err) = None"
  by (simp add: on_wire_def)

lemma emit_parts_on_wire:
  "emit_parts k p f parts out = Inr r \<Longrightarrow> on_wire (Inr r) = Some (read_back k p f (concat parts))"
  using emit_parts_Inr [of k p f parts out "fst r" "snd r"]
    parse_wire_packet [of k p "concat parts" f "[]"]
  by (cases r) (simp add: on_wire_def)

text \<open>Room for the largest headers, and a payload IPv4 can describe.\<close>

definition room_for :: "bytes \<Rightarrow> nat \<Rightarrow> bool" where
  "room_for out n \<longleftrightarrow> n \<le> 65475 \<and> MAX_OVERHEAD + n \<le> length out"

lemma emit_parts_succeeds:
  assumes "p \<in> set ALL_profiles" and "room_for out (length (concat parts))"
  shows "\<exists>r. emit_parts k p f parts out = Inr r"
  using profile_options_fit [OF assms(1), of k] assms(2)
  by (auto simp: emit_parts_cases Let_def room_for_def MAX_OVERHEAD_def packet_len_def segment_consts)

lemma flags_read_back [simp]:
  "has (read_back k p f payload) SYN \<longleftrightarrow> k \<in> {Syn, SynAck}"
  "has (read_back k p f payload) ACK \<longleftrightarrow> k \<in> {SynAck, Ack, Data, Fin}"
  "has (read_back k p f payload) FIN \<longleftrightarrow> k = Fin"
  "has (read_back k p f payload) RST \<longleftrightarrow> k = Rst"
  by (cases k; simp add: has_def read_back_def segment_flags_def flag_defs)+

lemma read_back_sel [simp]:
  "g_src (read_back k p f payload) = f_src f" "g_dst (read_back k p f payload) = f_dst f"
  "g_seq (read_back k p f payload) = f_seq f" "g_ack (read_back k p f payload) = f_ack f"
  "g_payload (read_back k p f payload) = payload" "g_window (read_back k p f payload) = f_window f"
  "g_ts_val (read_back k p f payload) = (if timestamp_carried k p then Some (f_ts_val f) else None)"
  by (simp_all add: read_back_def)

lemma endpoint_fields_sel [simp]:
  "f_src (endpoint_fields e k now push) = e_local e"
  "f_dst (endpoint_fields e k now push) = e_remote e"
  "f_seq (endpoint_fields e k now push) = next_seq e"
  "f_ack (endpoint_fields e k now push) = (case next_ack e of None \<Rightarrow> 0 | Some a \<Rightarrow> a)"
  "f_window (endpoint_fields e k now push) = window e k"
  "f_ts_val (endpoint_fields e k now push) = ts_val e now"
  by (simp_all add: endpoint_fields_def)

text \<open>One send: either nothing but the error, or the counter moves and the segment is on the wire.\<close>

lemma endpoint_emit_parts_cases:
  assumes "endpoint_emit_parts e k parts out now push = (r, e')"
  obtains err where "r = Inl err" "e' = e"
  | v where "r = Inr v" "e' = e\<lparr>e_counter := e_counter e + 1, e_unacked := 0\<rparr>"
    "on_wire r = Some (read_back k (e_profile e) (endpoint_fields e k now push) (concat parts))"
proof (cases "emit_parts k (e_profile e) (endpoint_fields e k now push) parts out")
  case (Inl err)
  then show ?thesis using that(1) [of err] assms by (auto simp: endpoint_emit_parts_def)
next
  case (Inr v)
  then show ?thesis
    using that(2) [of v] assms emit_parts_on_wire [OF Inr] by (simp add: endpoint_emit_parts_def)
qed

lemma endpoint_emit_parts_sends:
  assumes "e_profile e \<in> set ALL_profiles" and "room_for out (length (concat parts))"
  shows "\<exists>v. endpoint_emit_parts e k parts out now push =
      (Inr v, e\<lparr>e_counter := e_counter e + 1, e_unacked := 0\<rparr>) \<and>
    on_wire (Inr v) = Some (read_back k (e_profile e) (endpoint_fields e k now push) (concat parts))"
proof -
  obtain v where v: "emit_parts k (e_profile e) (endpoint_fields e k now push) parts out = Inr v"
    using emit_parts_succeeds [OF assms] by blast
  then show ?thesis
    using emit_parts_on_wire [OF v] by (simp add: endpoint_emit_parts_def)
qed

text \<open>The timestamp a SYN carries: that of the first one, once there is one.\<close>

definition syn_timestamp :: "endpoint \<Rightarrow> u64 \<Rightarrow> u32" where
  "syn_timestamp e now = (case e_syn_ts e of Some t \<Rightarrow> t | None \<Rightarrow> ts_val e now)"

lemma syn_cases:
  assumes "syn e sq out now = (r, e')"
  obtains err where "r = Inl err" "e' = e\<lparr>e_syn_ts := Some (syn_timestamp e now)\<rparr>"
  | v f where "r = Inr v"
    "e' = e\<lparr>e_syn_ts := Some (syn_timestamp e now), e_counter := e_counter e + 1, e_syn_seq := Some sq\<rparr>"
    "on_wire r = Some (read_back Syn (e_profile e) f [])"
    "f_src f = e_local e" "f_dst f = e_remote e" "f_seq f = sq" "f_ack f = 0" "f_ts_val f = syn_timestamp e now"
    "f_window f = p_syn_window (e_profile e)" "f_push f = False"
proof -
  let ?e1 = "e\<lparr>e_syn_ts := Some (syn_timestamp e now)\<rparr>"
  let ?f = "(endpoint_fields ?e1 Syn now False)\<lparr>f_seq := sq, f_ack := 0, f_ts_val := syn_timestamp e now, f_ts_ecr := 0\<rparr>"
  have syn: "syn e sq out now = (case emit Syn (e_profile e) ?f [] out of
           Inl err \<Rightarrow> (Inl err, ?e1)
         | Inr r \<Rightarrow> (Inr r, ?e1\<lparr>e_counter := e_counter ?e1 + 1, e_syn_seq := Some sq\<rparr>))"
    by (simp only: syn_def syn_timestamp_def Let_def ts_val_def) simp
  show thesis
  proof (cases "emit Syn (e_profile e) ?f [] out")
    case (Inl err)
    then show thesis using that(1) [of err] assms(1) syn by auto
  next
    case (Inr v)
    then show thesis
      using that(2) [of v ?f] assms(1) syn
        emit_parts_on_wire [of Syn "e_profile e" ?f "[[]]" out v]
      by (simp add: emit_def endpoint_fields_def window_def is_syn_def)
  qed
qed

lemma syn_sends:
  assumes "e_profile e \<in> set ALL_profiles" and "room_for out 0"
  shows "\<exists>v. fst (syn e sq out now) = Inr v"
proof (cases "syn e sq out now")
  case (Pair r e')
  from emit_parts_succeeds [OF assms(1), of out "[[]]" Syn] assms(2)
  have "emit_parts Syn (e_profile e) f [[]] out \<noteq> Inl err" for f err
    by (metis concat.simps append_Nil list.size(3) Inr_not_Inl)
  then show ?thesis by (auto simp: syn_def Let_def emit_def split: sum.split)
qed

section \<open>The acknowledgement\<close>

text \<open>Half-space arithmetic and the reordering span together are one comparison: the acknowledgement
  stays exactly when it is already at most \<open>REORDER_SPAN\<close> past the new position.\<close>

lemma advance_eq:
  "advance e stop =
     (case e_peer_next e of
        None \<Rightarrow> e
      | Some nxt \<Rightarrow>
          if e_relearn e \<or> nxt - stop > REORDER_SPAN
          then e\<lparr>e_peer_next := Some stop, e_relearn := False\<rparr> else e)"
proof (cases "e_peer_next e")
  case None
  then show ?thesis by (simp add: advance_def)
next
  case (Some nxt)
  have "nxt - stop > REORDER_SPAN" if "stop - nxt \<noteq> 0" "stop - nxt < push_bit 31 1"
  proof -
    have "unat (stop - nxt) < 2 ^ 31" "0 < unat (stop - nxt)"
      using that by (simp_all add: word_less_nat_alt unat_gt_0)
    then have "unat (nxt - stop) > 2 ^ 31"
      using unat_bounds(3) [of stop] unat_bounds(3) [of nxt]
      by (simp add: unat_sub_if' split: if_splits)
    then show ?thesis by (simp add: REORDER_SPAN_def word_less_nat_alt)
  qed
  then show ?thesis using Some by (auto simp: advance_def Let_def)
qed

lemma advance_sel [simp]:
  "e_phase (advance e stop) = e_phase e" "e_sequencing (advance e stop) = e_sequencing e"
  "e_local_isn (advance e stop) = e_local_isn e" "e_sent (advance e stop) = e_sent e"
  "e_syn_seq (advance e stop) = e_syn_seq e" "e_role (advance e stop) = e_role e"
  "e_carrier (advance e stop) = e_carrier e" "e_unacked (advance e stop) = e_unacked e"
  "e_counter (advance e stop) = e_counter e" "e_profile (advance e stop) = e_profile e"
  "e_records (advance e stop) = e_records e" "e_record_left (advance e stop) = e_record_left e"
  by (auto simp: advance_eq split: option.split)

lemma establish_sel [simp]:
  "e_phase (establish e) = Established" "e_sequencing (establish e) = e_sequencing e"
  "e_local_isn (establish e) = e_local_isn e" "e_peer_next (establish e) = e_peer_next e"
  "e_syn_seq (establish e) = e_syn_seq e" "e_role (establish e) = e_role e"
  "e_carrier (establish e) = e_carrier e" "e_unacked (establish e) = e_unacked e"
  "e_counter (establish e) = e_counter e" "e_profile (establish e) = e_profile e"
  "e_relearn (establish e) = e_relearn e" "e_records (establish e) = e_records e"
  "e_record_left (establish e) = e_record_left e"
  "e_sent (establish e) = (if e_syn_counted e then e_sent e else e_sent e + 1)"
  "e_syn_counted (establish e)"
  by (simp_all add: establish_def Let_def)

lemma note_arrival_sel [simp]:
  "e_phase (note_arrival e seg) = e_phase e" "e_sequencing (note_arrival e seg) = e_sequencing e"
  "e_local_isn (note_arrival e seg) = e_local_isn e" "e_sent (note_arrival e seg) = e_sent e"
  "e_syn_seq (note_arrival e seg) = e_syn_seq e" "e_role (note_arrival e seg) = e_role e"
  "e_carrier (note_arrival e seg) = e_carrier e" "e_peer_next (note_arrival e seg) = e_peer_next e"
  "e_counter (note_arrival e seg) = e_counter e" "e_profile (note_arrival e seg) = e_profile e"
  "e_records (note_arrival e seg) = e_records e"
  "e_record_left (note_arrival e seg) = e_record_left e" "e_relearn (note_arrival e seg) = e_relearn e"
  "e_syn_counted (note_arrival e seg) = e_syn_counted e"
  "e_unacked (note_arrival e seg) =
     (if g_payload seg \<noteq> [] then saturating_incr (e_unacked e) else e_unacked e)"
  by (simp_all add: note_arrival_def Let_def split: option.split)

text \<open>What every segment leaves alone, and what it does to the count of unanswered segments.\<close>

lemma on_receive_keeps:
  "e_sequencing (snd (on_receive e seg)) = e_sequencing e"
  "e_local_isn (snd (on_receive e seg)) = e_local_isn e"
  "e_syn_seq (snd (on_receive e seg)) = e_syn_seq e"
  "e_role (snd (on_receive e seg)) = e_role e" "e_carrier (snd (on_receive e seg)) = e_carrier e"
  "e_profile (snd (on_receive e seg)) = e_profile e"
  "e_counter (snd (on_receive e seg)) = e_counter e"
  "e_records (snd (on_receive e seg)) = e_records e"
  "e_record_left (snd (on_receive e seg)) = e_record_left e"
  "e_unacked (snd (on_receive e seg)) =
     (if g_payload seg \<noteq> [] then saturating_incr (e_unacked e) else e_unacked e)"
  by (simp_all add: on_receive_def Let_def)

section \<open>One data segment\<close>

text \<open>The record being written after a payload went out, and the bytes a data segment carries.\<close>

definition record_after :: "endpoint \<Rightarrow> nat \<Rightarrow> nat option \<Rightarrow> nat" where
  "record_after e n rec =
     (if e_records e
      then (if e_record_left e = 0 then (case rec of Some r \<Rightarrow> r | None \<Rightarrow> n) else e_record_left e) - n
      else e_record_left e)"

definition wire_payload :: "endpoint \<Rightarrow> bytes \<Rightarrow> nat option \<Rightarrow> bytes" where
  "wire_payload e payload rec =
     (if e_records e \<and> e_record_left e = 0
      then (case record_header (case rec of Some r \<Rightarrow> r | None \<Rightarrow> length payload) of
              None \<Rightarrow> [] | Some h \<Rightarrow> h) @ payload
      else payload)"

lemma record_left_irrelevant:
  "next_seq (e\<lparr>e_record_left := n\<rparr>) = next_seq e" "next_ack (e\<lparr>e_record_left := n\<rparr>) = next_ack e"
  "scaled_window (e\<lparr>e_record_left := n\<rparr>) = scaled_window e"
  by (simp_all add: next_seq_def next_ack_def scaled_window_def split: sequencing.split)

lemma record_left_fields [simp]:
  "endpoint_fields (e\<lparr>e_record_left := n\<rparr>) k now push = endpoint_fields e k now push"
  by (simp add: endpoint_fields_def record_left_irrelevant window_def endpoint_ip_id_def ts_val_def)

lemma sent_payload_small:
  "emit_parts k p f parts out = Inr r \<Longrightarrow> length (concat parts) < 65536"
  using emit_parts_Inr(3,5) [of k p f parts out "fst r" "snd r"] by (cases r) (simp add: packet_len_def)

lemma count_sent_emit:
  assumes "count_sent (length (concat parts)) (endpoint_emit_parts e k parts out now push) = (Inr v, e')"
  shows "e' = e\<lparr>e_counter := e_counter e + 1, e_unacked := 0,
      e_sent := e_sent e + of_nat (length (concat parts))\<rparr> \<and>
    on_wire (Inr v) = Some (read_back k (e_profile e) (endpoint_fields e k now push) (concat parts)) \<and>
    length (concat parts) < 65536"
proof (cases "emit_parts k (e_profile e) (endpoint_fields e k now push) parts out")
  case (Inl err)
  then show ?thesis using assms by (simp add: endpoint_emit_parts_def count_sent_def)
next
  case (Inr r)
  then show ?thesis
    using assms sent_payload_small [OF Inr] emit_parts_on_wire [OF Inr]
    by (auto simp: endpoint_emit_parts_def count_sent_def split: if_splits)
qed

lemma data_unfold:
  assumes "is_ready e"
  shows "data e payload out now push rec =
     (let n = (case rec of Some r \<Rightarrow> r | None \<Rightarrow> length payload);
          e1 = e\<lparr>e_record_left := record_after e (length payload) rec\<rparr>
      in if e_records e \<and> e_record_left e = 0
         then (case record_header n of
                 None \<Rightarrow> (Inl (TooLong n), e)
               | Some h \<Rightarrow> count_sent (length (concat [h, payload]))
                   (endpoint_emit_parts e1 Data [h, payload] out now push))
         else count_sent (length (concat [payload])) (endpoint_emit_parts e1 Data [payload] out now push))"
proof (cases "e_records e \<and> e_record_left e = 0")
  case True
  then show ?thesis
    using assms(1) by (simp add: data_def Let_def record_after_def add.commute split: option.split)
next
  case False
  have e1: "e\<lparr>e_record_left := record_after e (length payload) rec\<rparr> =
      (if e_records e then e\<lparr>e_record_left := e_record_left e - length payload\<rparr> else e)"
    using False by (cases "e_records e") (simp_all add: record_after_def)
  show ?thesis
    unfolding e1 Let_def using False assms(1)
    by (cases "e_records e") (simp_all add: data_def Let_def emit_raw_def)
qed

lemma data_sent:
  assumes "data e payload out now push rec = (Inr v, e')"
  shows "is_ready e"
    and "e' = e\<lparr>e_record_left := record_after e (length payload) rec, e_counter := e_counter e + 1,
      e_unacked := 0, e_sent := e_sent e + of_nat (length (wire_payload e payload rec))\<rparr>"
    and "on_wire (Inr v) = Some (read_back Data (e_profile e) (endpoint_fields e Data now push)
      (wire_payload e payload rec))"
    and "e_records e \<and> e_record_left e = 0 \<Longrightarrow>
      record_header (case rec of Some r \<Rightarrow> r | None \<Rightarrow> length payload) \<noteq> None"
    and "length (wire_payload e payload rec) < 65536"
proof -
  show ready: "is_ready e" using assms by (simp add: data_def split: if_splits)
  let ?n = "case rec of Some r \<Rightarrow> r | None \<Rightarrow> length payload"
  let ?e1 = "e\<lparr>e_record_left := record_after e (length payload) rec\<rparr>"
  let ?goal = "e' = e\<lparr>e_record_left := record_after e (length payload) rec, e_counter := e_counter e + 1,
      e_unacked := 0, e_sent := e_sent e + of_nat (length (wire_payload e payload rec))\<rparr> \<and>
    on_wire (Inr v) = Some (read_back Data (e_profile e) (endpoint_fields e Data now push)
      (wire_payload e payload rec)) \<and> (e_records e \<and> e_record_left e = 0 \<longrightarrow> record_header ?n \<noteq> None) \<and>
    length (wire_payload e payload rec) < 65536"
  have ?goal
  proof (cases "e_records e \<and> e_record_left e = 0")
    case True
    then obtain hdr where h: "record_header ?n = Some hdr" and
      c: "count_sent (length (concat [hdr, payload]))
        (endpoint_emit_parts ?e1 Data [hdr, payload] out now push) = (Inr v, e')"
      using assms data_unfold [OF ready, of payload out now push rec] by (simp add: Let_def split: option.splits)
    show ?thesis using count_sent_emit [OF c] True h by (simp add: wire_payload_def)
  next
    case False
    have c: "count_sent (length (concat [payload]))
        (endpoint_emit_parts ?e1 Data [payload] out now push) = (Inr v, e')"
      using assms data_unfold [OF ready, of payload out now push rec] False by (simp only: if_False Let_def)
    moreover have "wire_payload e payload rec = payload" unfolding wire_payload_def using False by (simp only: if_False)
    ultimately show ?thesis using count_sent_emit [OF c] False by (simp only: concat.simps append_Nil2) simp
  qed
  then show "e' = e\<lparr>e_record_left := record_after e (length payload) rec, e_counter := e_counter e + 1,
      e_unacked := 0, e_sent := e_sent e + of_nat (length (wire_payload e payload rec))\<rparr>"
    "on_wire (Inr v) = Some (read_back Data (e_profile e) (endpoint_fields e Data now push)
      (wire_payload e payload rec))"
    "e_records e \<and> e_record_left e = 0 \<Longrightarrow> record_header ?n \<noteq> None"
    "length (wire_payload e payload rec) < 65536" by blast+
qed

lemma data_succeeds:
  assumes "is_ready e" "e_profile e \<in> set ALL_profiles" "room_for out (length payload + RECORD_HEADER)"
    and "e_records e \<and> e_record_left e = 0 \<longrightarrow>
      (case rec of Some r \<Rightarrow> r | None \<Rightarrow> length payload) \<le> MAX_SPAN"
  shows "\<exists>v e'. data e payload out now push rec = (Inr v, e')"
proof -
  let ?n = "case rec of Some r \<Rightarrow> r | None \<Rightarrow> length payload"
  have parts: "\<exists>r. endpoint_emit_parts e1 Data parts out now push = (Inr r, e1\<lparr>e_counter := e_counter e1 + 1, e_unacked := 0\<rparr>)"
    if "e_profile e1 = e_profile e" "length (concat parts) \<le> length payload + 5" for e1 parts
    using endpoint_emit_parts_sends [of e1 out parts Data now push] that assms(2,3)
    by (auto simp: room_for_def RECORD_HEADER_def)
  show ?thesis
  proof (cases "e_records e \<and> e_record_left e = 0")
    case True
    then obtain h where "record_header ?n = Some h" "length h = 5"
      using assms(4) by (auto simp: record_header_def cover_sizes)
    moreover obtain r where "endpoint_emit_parts (e\<lparr>e_record_left := ?n - length payload\<rparr>) Data
        [h, payload] out now push = (Inr r, (e\<lparr>e_record_left := ?n - length payload\<rparr>)
          \<lparr>e_counter := e_counter e + 1, e_unacked := 0\<rparr>)"
      using parts [of "e\<lparr>e_record_left := ?n - length payload\<rparr>" "[h, payload]"] calculation by auto
    ultimately show ?thesis
      using True assms(1,3) by (simp add: data_def Let_def count_sent_def room_for_def)
  next
    case False
    let ?e1 = "if e_records e then e\<lparr>e_record_left := e_record_left e - length payload\<rparr> else e"
    obtain r where "endpoint_emit_parts ?e1 Data [payload] out now push =
        (Inr r, ?e1\<lparr>e_counter := e_counter ?e1 + 1, e_unacked := 0\<rparr>)"
      using parts [of ?e1 "[payload]"] by auto
    then show ?thesis
      using False assms(1,3) by (auto simp: data_def Let_def count_sent_def room_for_def emit_raw_def)
  qed
qed

section \<open>Opening a connection, end to end\<close>

text \<open>The three segments of a real handshake, each parsed off the wire before it is folded in.\<close>

definition opened :: "(wire_error + (nat \<times> bytes) option) \<times> endpoint \<Rightarrow> (segment \<times> endpoint) option" where
  "opened r = (case r of (Inr (Some v), e) \<Rightarrow> map_option (\<lambda>seg. (seg, e)) (on_wire (Inr v)) | _ \<Rightarrow> None)"

definition sent :: "sent_result \<times> endpoint \<Rightarrow> (segment \<times> endpoint) option" where
  "sent r = map_option (\<lambda>seg. (seg, snd r)) (on_wire (fst r))"

definition three_way :: "endpoint \<Rightarrow> endpoint \<Rightarrow> bytes \<Rightarrow> u64 \<Rightarrow> u64 \<Rightarrow> u64 \<Rightarrow> (endpoint \<times> endpoint) option" where
  "three_way c s out t1 t2 t3 = do {
     (sg1, c1) \<leftarrow> opened (handshake c out t1);
     let s1 = snd (on_receive s sg1);
     (sg2, s2) \<leftarrow> opened (handshake s1 out t2);
     let c2 = snd (on_receive c1 sg2);
     (sg3, c3) \<leftarrow> sent (ack c2 out t3);
     Some (c3, snd (on_receive s2 sg3))
   }"

text \<open>The same opening against a responder that keeps nothing until the peer's first segment.\<close>

definition stateless_opening ::
  "endpoint \<Rightarrow> endpoint \<Rightarrow> reply \<Rightarrow> u32 \<Rightarrow> bytes \<Rightarrow> u64 \<Rightarrow> u64 \<Rightarrow> (endpoint \<times> endpoint) option" where
  "stateless_opening c s r clock out t1 t2 = do {
     (sg1, c1) \<leftarrow> opened (handshake c out t1);
     sg2 \<leftarrow> on_wire (answer_syn (e_profile s) (e_local s) sg1 r out);
     let c2 = snd (on_receive c1 sg2);
     (sg3, c3) \<leftarrow> sent (ack c2 out t2);
     Some (c3, rejoin s sg3 clock)
   }"

lemma handshake_initiator:
  assumes "e_carrier e = Handshake" "e_role e = Initiator" "e_phase e \<in> {Idle, SynSent}"
    and "e_profile e \<in> set ALL_profiles" "room_for out 0"
  shows "\<exists>f. opened (handshake e out now) = Some (read_back Syn (e_profile e) f [],
      e\<lparr>e_syn_ts := Some (syn_timestamp e now), e_counter := e_counter e + 1, e_syn_seq := Some (e_local_isn e),
        e_phase := SynSent\<rparr>) \<and>
    f_src f = e_local e \<and> f_dst f = e_remote e \<and> f_seq f = e_local_isn e \<and> f_ack f = 0 \<and>
    f_ts_val f = syn_timestamp e now \<and> f_window f = p_syn_window (e_profile e) \<and> f_push f = False"
proof (cases "syn e (e_local_isn e) out now")
  case (Pair r e1)
  have h: "handshake e out now = (case syn e (e_local_isn e) out now of
      (Inl err, e1) \<Rightarrow> (Inl err, e1) | (Inr r, e1) \<Rightarrow> (Inr (Some r), e1\<lparr>e_phase := SynSent\<rparr>))"
    using assms(1-3) by (auto simp: handshake_def)
  obtain v where v: "r = Inr v" using syn_sends [OF assms(4,5), of "e_local_isn e" now] Pair by auto
  from Pair show ?thesis
  proof (cases rule: syn_cases)
    case (1 err)
    then show ?thesis using v by simp
  next
    case (2 v' f)
    then show ?thesis
      using Pair by (intro exI [of _ f]) (simp add: h opened_def)
  qed
qed

text \<open>How each kind of segment is folded in.\<close>

lemma receive_syn:
  "e_role e = Responder \<Longrightarrow> e_peer_next e = None \<Longrightarrow>
     on_receive e (read_back Syn p f pl) = (None, (note_arrival e (read_back Syn p f pl))
       \<lparr>e_peer_next := Some (f_seq f + 1), e_phase := SynReceived\<rparr>)"
  by (simp add: on_receive_def Let_def)

lemma receive_syn_ack:
  "e_syn_seq e = Some ours \<Longrightarrow> f_ack f = ours + 1 \<Longrightarrow> e_peer_next e = None \<Longrightarrow> e_phase e = SynSent \<Longrightarrow>
     on_receive e (read_back SynAck p f pl) = (None, establish ((note_arrival e (read_back SynAck p f pl))
       \<lparr>e_peer_next := Some (f_seq f + 1), e_relearn := False\<rparr>))"
  by (simp add: on_receive_def Let_def)

lemma occupied_read_back:
  "length pl < 2 ^ 32 \<Longrightarrow> k \<in> {Ack, Data} \<Longrightarrow> occupied (read_back k p f pl) = of_nat (length pl)"
  by (auto simp: occupied_def)

lemma receive_data:
  "e_peer_next e = Some nx \<Longrightarrow> k \<in> {Ack, Data} \<Longrightarrow> length pl < 2 ^ 32 \<Longrightarrow>
     on_receive e (read_back k p f pl) =
       (if pl = [] then None else Some pl,
        advance (if e_phase e = SynReceived then establish (note_arrival e (read_back k p f pl))
                 else note_arrival e (read_back k p f pl)) (f_seq f + of_nat (length pl)))"
  by (auto simp: on_receive_def Let_def occupied_read_back)

lemma sent_emit_raw:
  assumes "e_profile e \<in> set ALL_profiles" and "room_for out (length payload)"
  shows "sent (emit_raw e k payload out now push) =
    Some (read_back k (e_profile e) (endpoint_fields e k now push) payload,
      e\<lparr>e_counter := e_counter e + 1, e_unacked := 0\<rparr>)"
  using endpoint_emit_parts_sends [of e out "[payload]" k now push] assms
  by (auto simp: sent_def emit_raw_def)

lemma opened_responder:
  assumes "e_carrier e = Handshake" "e_role e = Responder" "e_phase e = SynReceived"
  shows "opened (handshake e out now) = sent (emit_raw e SynAck [] out now False)"
  using assms by (auto simp: opened_def sent_def handshake_def map_some_def split: prod.split sum.split)

lemma peer_next_advance:
  "e_peer_next e = Some nx \<Longrightarrow> nx - stop \<le> REORDER_SPAN \<Longrightarrow> e_relearn e \<or> nx = stop \<Longrightarrow>
     e_peer_next (advance e stop) = Some stop"
  by (auto simp: advance_eq)

text \<open>The stages of an opening: the initiator's SYN is out; it completes on an answer; a responder that
  keeps state answers the SYN and settles on the completing acknowledgement.\<close>

definition syn_out :: "endpoint \<Rightarrow> config \<Rightarrow> bool" where
  "syn_out e cc \<longleftrightarrow> e_carrier e = Handshake \<and> e_sequencing e = Stream \<and> e_phase e = SynSent \<and>
     e_profile e = cf_profile cc \<and> e_local e = cf_local cc \<and> e_local_isn e = cf_isn cc \<and>
     e_syn_seq e = Some (cf_isn cc) \<and> e_peer_next e = None \<and> e_sent e = 0 \<and> \<not> e_syn_counted e"

definition opened_at :: "endpoint \<Rightarrow> u32 \<Rightarrow> u32 \<Rightarrow> bool" where
  "opened_at e ours theirs \<longleftrightarrow> e_carrier e = Handshake \<and> e_sequencing e = Stream \<and>
     e_phase e = Established \<and> e_local_isn e + e_sent e = ours + 1 \<and> e_peer_next e = Some (theirs + 1)"

lemma opened_at_ready:
  "opened_at e ours theirs \<Longrightarrow> is_ready e \<and> next_seq e = ours + 1 \<and> next_ack e = Some (theirs + 1)"
  by (simp add: opened_at_def is_ready_def is_established_def next_seq_def next_ack_def)

lemma initiator_opens:
  assumes "cf_carrier cc = Handshake" "cf_role cc = Initiator" "cf_sequencing cc = Stream"
    and "cf_profile cc \<in> set ALL_profiles" "room_for out 0"
  shows "\<exists>f c1. opened (handshake (endpoint_new cc) out now) = Some (read_back Syn (cf_profile cc) f [], c1) \<and>
    f_seq f = cf_isn cc \<and> f_src f = cf_local cc \<and> syn_out c1 cc"
  using handshake_initiator [of "endpoint_new cc" out now] assms
  by (auto simp: endpoint_new_def Let_def syn_out_def)

lemma initiator_completes:
  assumes "syn_out c1 cc" and "f_ack f = cf_isn cc + 1"
    and "cf_profile cc \<in> set ALL_profiles" "room_for out 0"
  shows "\<exists>f' c2. sent (ack (snd (on_receive c1 (read_back SynAck p f []))) out now) =
      Some (read_back Ack (cf_profile cc) f' [], c2) \<and>
    f_seq f' = cf_isn cc + 1 \<and> f_ack f' = f_seq f + 1 \<and> opened_at c2 (cf_isn cc) (f_seq f)"
proof -
  let ?c = "snd (on_receive c1 (read_back SynAck p f []))"
  have "?c = establish ((note_arrival c1 (read_back SynAck p f []))
      \<lparr>e_peer_next := Some (f_seq f + 1), e_relearn := False\<rparr>)"
    using receive_syn_ack [of c1 "cf_isn cc" f p "[]"] assms(1,2) by (simp add: syn_out_def)
  then have "opened_at ?c (cf_isn cc) (f_seq f)" "e_profile ?c = cf_profile cc"
    using assms(1) by (simp_all add: syn_out_def opened_at_def)
  then show ?thesis
    using sent_emit_raw [of ?c out "[]" Ack now False] assms(3,4)
    by (auto simp: ack_def opened_at_def next_seq_def next_ack_def)
qed

lemma responder_answers:
  assumes "cf_carrier sc = Handshake" "cf_role sc = Responder" "cf_sequencing sc = Stream"
    and "cf_profile sc \<in> set ALL_profiles" "room_for out 0"
  shows "\<exists>f' s. opened (handshake (snd (on_receive (endpoint_new sc) (read_back Syn p f []))) out now) =
      Some (read_back SynAck (cf_profile sc) f' [], s) \<and>
    f_seq f' = cf_isn sc \<and> f_ack f' = f_seq f + 1 \<and> e_carrier s = Handshake \<and>
    e_sequencing s = Stream \<and> e_phase s = SynReceived \<and> e_local_isn s = cf_isn sc \<and>
    e_sent s = 0 \<and> \<not> e_syn_counted s \<and> e_peer_next s = Some (f_seq f + 1)"
proof -
  let ?s = "snd (on_receive (endpoint_new sc) (read_back Syn p f []))"
  have "?s = (note_arrival (endpoint_new sc) (read_back Syn p f []))
      \<lparr>e_peer_next := Some (f_seq f + 1), e_phase := SynReceived\<rparr>"
    using receive_syn [of "endpoint_new sc" p f "[]"] assms by (simp add: endpoint_new_def Let_def)
  then have "e_carrier ?s = Handshake" "e_role ?s = Responder" "e_phase ?s = SynReceived"
    "e_profile ?s = cf_profile sc" "e_sequencing ?s = Stream" "e_local_isn ?s = cf_isn sc"
    "e_sent ?s = 0" "e_peer_next ?s = Some (f_seq f + 1)" "\<not> e_syn_counted ?s"
    using assms by (simp_all add: endpoint_new_def Let_def)
  then show ?thesis
    using opened_responder [of ?s out now] sent_emit_raw [of ?s out "[]" SynAck now False] assms(4,5)
    by (auto simp: next_seq_def next_ack_def)
qed

lemma responder_settles:
  assumes "e_carrier s = Handshake" "e_sequencing s = Stream" "e_phase s = SynReceived"
    "e_sent s = 0" "\<not> e_syn_counted s" "e_peer_next s = Some (f_seq f)"
  shows "opened_at (snd (on_receive s (read_back Ack p f []))) (e_local_isn s) (f_seq f - 1)"
  using receive_data [of s "f_seq f" Ack "[]" p f] assms by (simp add: opened_at_def advance_eq)

section \<open>Properties\<close>

text \<open>C26. A real handshake completes: over packets built and parsed byte for byte, the initiator's SYN,
  the responder's SYN+ACK and the completing acknowledgement leave both ends established and ready,
  each acknowledging exactly the byte the other sends next, one past its initial sequence number.\<close>

theorem three_way_opens:
  assumes c: "cf_carrier cc = Handshake" "cf_role cc = Initiator" "cf_sequencing cc = Stream"
      "cf_profile cc \<in> set ALL_profiles"
    and s: "cf_carrier sc = Handshake" "cf_role sc = Responder" "cf_sequencing sc = Stream"
      "cf_profile sc \<in> set ALL_profiles"
    and room: "room_for out 0"
  shows "\<exists>c' s'. three_way (endpoint_new cc) (endpoint_new sc) out t1 t2 t3 = Some (c', s') \<and>
    is_ready c' \<and> is_ready s' \<and> next_seq c' = cf_isn cc + 1 \<and> next_seq s' = cf_isn sc + 1 \<and>
    next_ack c' = Some (next_seq s') \<and> next_ack s' = Some (next_seq c')"
proof -
  obtain f1 c1 where 1: "opened (handshake (endpoint_new cc) out t1) =
      Some (read_back Syn (cf_profile cc) f1 [], c1)" "f_seq f1 = cf_isn cc" "syn_out c1 cc"
    using initiator_opens [OF c room] by blast
  obtain f2 s2 where 2: "opened (handshake (snd (on_receive (endpoint_new sc)
      (read_back Syn (cf_profile cc) f1 []))) out t2) = Some (read_back SynAck (cf_profile sc) f2 [], s2)"
    "f_seq f2 = cf_isn sc" "f_ack f2 = cf_isn cc + 1"
    and s2: "e_carrier s2 = Handshake" "e_sequencing s2 = Stream" "e_phase s2 = SynReceived"
    "e_sent s2 = 0" "\<not> e_syn_counted s2" "e_peer_next s2 = Some (cf_isn cc + 1)"
    "e_local_isn s2 = cf_isn sc"
    using responder_answers [OF s room, of "cf_profile cc" f1 t2] 1(2) by auto
  obtain f3 c3 where 3: "sent (ack (snd (on_receive c1 (read_back SynAck (cf_profile sc) f2 []))) out t3)
      = Some (read_back Ack (cf_profile cc) f3 [], c3)" "f_seq f3 = cf_isn cc + 1"
    "opened_at c3 (cf_isn cc) (cf_isn sc)"
    using initiator_completes [OF 1(3) 2(3) c(4) room, of "cf_profile sc" t3] 2(2) by auto
  let ?s3 = "snd (on_receive s2 (read_back Ack (cf_profile cc) f3 []))"
  have "opened_at ?s3 (cf_isn sc) (cf_isn cc)"
    using responder_settles [of s2 f3 "cf_profile cc"] s2 3(2) by simp
  moreover have "three_way (endpoint_new cc) (endpoint_new sc) out t1 t2 t3 = Some (c3, ?s3)"
    using 1(1) 2(1) 3(1) by (simp add: three_way_def Let_def)
  ultimately show ?thesis
    using opened_at_ready 3(3) by fastforce
qed

definition sample_config :: "role \<Rightarrow> carrier_mode \<Rightarrow> sequencing \<Rightarrow> bool \<Rightarrow> config" where
  "sample_config rl car sq recs =
     \<lparr>cf_local = (Ipv4 192 168 1 10, 41000), cf_remote = (Ipv4 203 0 113 5, 443),
      cf_profile = LINUX_6, cf_role = rl, cf_carrier = car, cf_isn = 0xFFFFFFFF, cf_peer_isn = 7000,
      cf_ts_base = 99, cf_sequencing = sq, cf_records = recs, cf_dont_fragment = True,
      cf_mss = Some 1400\<rparr>"

lemma sample_room: "room_for (replicate 1500 0) 0" "room_for (replicate 1500 0) 1400"
  by (simp_all add: room_for_def MAX_OVERHEAD_def segment_consts)

lemma sample_config_sel [simp]:
  "cf_carrier (sample_config rl car sq recs) = car" "cf_role (sample_config rl car sq recs) = rl"
  "cf_sequencing (sample_config rl car sq recs) = sq" "cf_records (sample_config rl car sq recs) = recs"
  "cf_profile (sample_config rl car sq recs) \<in> set ALL_profiles"
  "cf_isn (sample_config rl car sq recs) = 0xFFFFFFFF"
  by (simp_all add: sample_config_def ALL_profiles_def)

theorem three_way_opens_witness:
  "\<exists>c' s'. three_way (endpoint_new (sample_config Initiator Handshake Stream False))
       (endpoint_new (sample_config Responder Handshake Stream True)) (replicate 1500 0) 5 6 7
       = Some (c', s') \<and> is_ready c' \<and> next_ack s' = Some 0"
  using three_way_opens [of "sample_config Initiator Handshake Stream False"
      "sample_config Responder Handshake Stream True" "replicate 1500 0" 5 6 7] sample_room
  by auto

text \<open>The opening a deployed responder uses, which keeps no state for a SYN: the SYN+ACK is composed
  from the SYN alone, and the responder takes the connection up from the peer's first segment after
  it.  Both ends then agree on both numberings, whatever the responder's endpoint was numbering before.\<close>

theorem stateless_opening_agrees:
  assumes c: "cf_carrier cc = Handshake" "cf_role cc = Initiator" "cf_sequencing cc = Stream"
      "cf_profile cc \<in> set ALL_profiles"
    and s: "e_carrier s = Handshake" "e_sequencing s = Stream" "e_profile s \<in> set ALL_profiles"
    and room: "room_for out 0"
  shows "\<exists>c' s'. stateless_opening (endpoint_new cc) s r clock out t1 t2 = Some (c', s') \<and>
    is_ready c' \<and> is_ready s' \<and> next_seq c' = cf_isn cc + 1 \<and> next_seq s' = r_isn r + 1 \<and>
    next_ack c' = Some (next_seq s') \<and> next_ack s' = Some (next_seq c')"
proof -
  obtain f1 c1 where 1: "opened (handshake (endpoint_new cc) out t1) =
      Some (read_back Syn (cf_profile cc) f1 [], c1)" "f_seq f1 = cf_isn cc" "syn_out c1 cc"
    using initiator_opens [OF c room] by blast
  let ?f2 = "answer_fields (e_profile s) (e_local s) (read_back Syn (cf_profile cc) f1 []) r"
  obtain v where "answer_syn (e_profile s) (e_local s) (read_back Syn (cf_profile cc) f1 []) r out = Inr v"
    using emit_parts_succeeds [OF s(3), of out "[[]]" SynAck ?f2] room by (auto simp: answer_syn_def emit_def)
  then have 2: "on_wire (answer_syn (e_profile s) (e_local s) (read_back Syn (cf_profile cc) f1 []) r out)
      = Some (read_back SynAck (e_profile s) ?f2 [])"
    using emit_parts_on_wire [of SynAck "e_profile s" ?f2 "[[]]" out v] by (simp add: answer_syn_def emit_def)
  have f2: "f_ack ?f2 = cf_isn cc + 1" "f_seq ?f2 = r_isn r"
    using 1(2) by (simp_all add: answer_fields_def)
  obtain f3 c3 where 3: "sent (ack (snd (on_receive c1 (read_back SynAck (e_profile s) ?f2 []))) out t2)
      = Some (read_back Ack (cf_profile cc) f3 [], c3)" "f_seq f3 = cf_isn cc + 1" "f_ack f3 = r_isn r + 1"
    "opened_at c3 (cf_isn cc) (r_isn r)"
    using initiator_completes [OF 1(3) f2(1) c(4) room, of "e_profile s" t2] f2(2) by auto
  let ?s3 = "rejoin s (read_back Ack (cf_profile cc) f3 []) clock"
  have "opened_at ?s3 (r_isn r) (cf_isn cc)"
    using s 3(2,3) by (simp add: rejoin_def Let_def opened_at_def occupied_read_back)
  moreover have "stateless_opening (endpoint_new cc) s r clock out t1 t2 = Some (c3, ?s3)"
    using 1(1) 2 3(1) by (simp add: stateless_opening_def Let_def)
  ultimately show ?thesis
    using opened_at_ready 3(4) by fastforce
qed

theorem stateless_opening_agrees_witness:
  "\<exists>c' s'. stateless_opening (endpoint_new (sample_config Initiator Handshake Stream False))
       (endpoint_new (sample_config Responder Handshake Stream False))
       \<lparr>r_isn = 41, r_ts_val = 9, r_dont_fragment = True, r_mss = 1400\<rparr> 3 (replicate 1500 0) 5 6
       = Some (c', s') \<and> is_ready s' \<and> next_ack c' = Some 42"
  using stateless_opening_agrees [of "sample_config Initiator Handshake Stream False"
      "endpoint_new (sample_config Responder Handshake Stream False)" "replicate 1500 0"
      "\<lparr>r_isn = 41, r_ts_val = 9, r_dont_fragment = True, r_mss = 1400\<rparr>" 3 5 6] sample_room
  by (auto simp: endpoint_new_def Let_def)

text \<open>A SYN that is repeated is the same SYN: for as long as a real handshake's SYN is unanswered,
  every transmission parses to the same segment, sequence number and timestamp included, however
  much later it is sent.\<close>

theorem syn_retransmission_identical:
  assumes "e_carrier e = Handshake" "e_role e = Initiator" "e_phase e \<in> {Idle, SynSent}"
    and "e_profile e \<in> set ALL_profiles" "room_for out 0" "room_for out' 0"
  shows "\<exists>seg e1 e2. opened (handshake e out t1) = Some (seg, e1) \<and>
    opened (handshake e1 out' t2) = Some (seg, e2) \<and> g_seq seg = e_local_isn e \<and> g_ack seg = 0 \<and>
    g_flags seg = SYN \<and> e_sent e2 = e_sent e"
proof -
  let ?e1 = "e\<lparr>e_syn_ts := Some (syn_timestamp e t1), e_counter := e_counter e + 1,
      e_syn_seq := Some (e_local_isn e), e_phase := SynSent\<rparr>"
  obtain f where f: "opened (handshake e out t1) = Some (read_back Syn (e_profile e) f [], ?e1)"
    "f_src f = e_local e" "f_dst f = e_remote e" "f_seq f = e_local_isn e" "f_ack f = 0"
    "f_ts_val f = syn_timestamp e t1" "f_window f = p_syn_window (e_profile e)" "f_push f = False"
    using handshake_initiator [OF assms(1-5), of t1] by blast
  obtain f' e2 where f': "opened (handshake ?e1 out' t2) = Some (read_back Syn (e_profile e) f' [], e2)"
    "f_src f' = e_local e" "f_dst f' = e_remote e" "f_seq f' = e_local_isn e" "f_ack f' = 0"
    "f_ts_val f' = syn_timestamp e t1" "f_window f' = p_syn_window (e_profile e)" "f_push f' = False"
    "e_sent e2 = e_sent e"
    using handshake_initiator [of ?e1 out' t2] assms by (auto simp: syn_timestamp_def [of ?e1])
  have "read_back Syn (e_profile e) f' [] = read_back Syn (e_profile e) f []"
    using f f' by (simp add: read_back_def segment_flags_def)
  then show ?thesis
    using f f' by (auto simp: read_back_def segment_flags_def)
qed

theorem syn_retransmission_identical_witness:
  "\<exists>seg e1 e2. opened (handshake (endpoint_new (sample_config Initiator Handshake Stream False))
       (replicate 1500 0) 10) = Some (seg, e1) \<and>
     opened (handshake e1 (replicate 1500 0) 3010) = Some (seg, e2) \<and> g_seq seg = 0xFFFFFFFF"
  using syn_retransmission_identical [of "endpoint_new (sample_config Initiator Handshake Stream False)"
      "replicate 1500 0" "replicate 1500 0" 10 3010] sample_room
  by (auto simp: endpoint_new_def Let_def)

text \<open>The acknowledgement is decided by one distance: a segment that arrives moves it to the byte
  after that segment unless it is already there or at most 2^20 bytes past it, so reordering never
  pulls it back, a loss never holds it, and a peer that numbers afresh is followed.\<close>

theorem advance_outcome:
  "e_peer_next (advance e stop) =
     (case e_peer_next e of
        None \<Rightarrow> None
      | Some nxt \<Rightarrow> Some (if \<not> e_relearn e \<and> unat (nxt - stop) \<le> 2 ^ 20 then nxt else stop))"
  by (auto simp: advance_eq REORDER_SPAN_def word_less_nat_alt split: option.split)

definition in_step :: "endpoint \<Rightarrow> endpoint \<Rightarrow> bool" where
  "in_step s r \<longleftrightarrow> e_sequencing s = Stream \<and> e_phase r = Established \<and> e_peer_next r = Some (next_seq s)"

lemma unwrap_header:
  "record_header n = Some h \<Longrightarrow> length payload \<le> n \<Longrightarrow> unwrap_record (h @ payload) = Some payload"
  by (auto simp: record_header_def unwrap_record_def split_first_chunk_def RECORD_HEADER_def
      to_be_bytes_2 MAX_SPAN_def MAX_RECORD_def Let_def split: if_splits)

lemma next_seq_after:
  "e_sequencing e = Stream \<Longrightarrow> e' = e\<lparr>e_record_left := a, e_counter := b, e_unacked := c, e_sent := e_sent e + n\<rparr> \<Longrightarrow>
     e_sequencing e' = Stream \<and> next_seq e' = next_seq e + n"
  by (simp add: next_seq_def)

definition sample_pair :: "bool \<Rightarrow> endpoint \<times> endpoint" where
  "sample_pair recs =
     (endpoint_new (sample_config Initiator Midstream Stream recs),
      (endpoint_new (sample_config Responder Midstream Stream recs))\<lparr>e_peer_next := Some 0xFFFFFFFF\<rparr>)"

end
