(* ===== verification/Toobig.thy ===== *)
theory Toobig
  imports Segment
begin

text \<open>
  Path-MTU reports (\<open>paqetz-tcpwire/src/toobig.rs\<close>): ICMP "fragmentation needed" messages read from
  the wire, the check of their quotation against a packet this end sent, and what they say.
\<close>

definition PROTO_ICMP :: u8 where "PROTO_ICMP = 1"
definition DEST_UNREACHABLE :: u8 where "DEST_UNREACHABLE = 3"
definition FRAGMENTATION_NEEDED :: u8 where "FRAGMENTATION_NEEDED = 4"
definition MIN_IPV4_MTU :: u16 where "MIN_IPV4_MTU = 68"

lemmas toobig_consts = PROTO_ICMP_def DEST_UNREACHABLE_def FRAGMENTATION_NEEDED_def MIN_IPV4_MTU_def

record too_big =
  t_mtu :: u16
  t_origin :: ipv4
  t_destination :: ipv4
  t_protocol :: u8
  t_size :: u16
  t_ports :: "(u16 \<times> u16) option"

definition ipv4_header_len :: "bytes \<Rightarrow> nat option" where
  "ipv4_header_len packet = do {
     ver_ihl \<leftarrow> get packet 0;
     if drop_bit 4 ver_ihl \<noteq> 4 then None
     else do {
       let words = unat (ver_ihl AND 0x0F);
       if words < 5 then None else Some (words * 4)
     }
   }"

definition has_ports :: "u8 \<Rightarrow> bool" where
  "has_ports protocol \<longleftrightarrow> protocol = PROTO_TCP \<or> protocol = 17"

definition quoted_ports :: "bytes \<Rightarrow> nat \<Rightarrow> u8 \<Rightarrow> (u16 \<times> u16) option option" where
  "quoted_ports quoted quoted_header_len protocol =
     (case get_from quoted quoted_header_len of
        Some rest \<Rightarrow>
          if has_ports protocol \<and> length rest \<ge> 4
          then do { a \<leftarrow> be16_at rest 0; b \<leftarrow> be16_at rest 2; Some (Some (a, b)) }
          else Some None
      | None \<Rightarrow> Some None)"

definition toobig_parse_ipv4 :: "bytes \<Rightarrow> too_big option" where
  "toobig_parse_ipv4 packet = do {
     header_len \<leftarrow> ipv4_header_len packet;
     proto \<leftarrow> get packet 9;
     if proto \<noteq> PROTO_ICMP then None
     else do {
       frag \<leftarrow> be16_at packet 6;
       if frag AND 0xBFFF \<noteq> 0 then None
       else do {
         icmp \<leftarrow> get_from packet header_len;
         ty \<leftarrow> get icmp 0;
         if ty \<noteq> DEST_UNREACHABLE then None
         else do {
           code \<leftarrow> get icmp 1;
           if code \<noteq> FRAGMENTATION_NEEDED then None
           else do {
             mtu \<leftarrow> be16_at icmp 6;
             quoted \<leftarrow> get_from icmp 8;
             quoted_header_len \<leftarrow> ipv4_header_len quoted;
             protocol \<leftarrow> get quoted 9;
             size \<leftarrow> be16_at quoted 2;
             origin \<leftarrow> addr_at quoted 12;
             destination \<leftarrow> addr_at quoted 16;
             ports \<leftarrow> quoted_ports quoted quoted_header_len protocol;
             Some \<lparr>t_mtu = mtu, t_origin = origin, t_destination = destination,
                   t_protocol = protocol, t_size = size, t_ports = ports\<rparr>
           }
         }
       }
     }
   }"

definition toobig_parse_ethernet :: "bytes \<Rightarrow> too_big option" where
  "toobig_parse_ethernet frame = do {
     ethertype \<leftarrow> be16_at frame 12;
     if ethertype \<noteq> ETHERTYPE_IPV4 then None
     else do { rest \<leftarrow> get_from frame ETH_LEN; toobig_parse_ipv4 rest }
   }"

definition describes :: "too_big \<Rightarrow> sock \<Rightarrow> sock \<Rightarrow> u8 \<Rightarrow> bool" where
  "describes t from to protocol =
     (if t_origin t \<noteq> fst from \<or> t_destination t \<noteq> fst to \<or> t_protocol t \<noteq> protocol then False
      else case t_ports t of Some quoted \<Rightarrow> quoted = (snd from, snd to) | None \<Rightarrow> True)"

definition usable :: "too_big \<Rightarrow> u16 option" where
  "usable t = (if t_mtu t < MIN_IPV4_MTU then None else Some (t_mtu t))"

definition shortfall :: "too_big \<Rightarrow> u16 option" where
  "shortfall t = do {
     u \<leftarrow> usable t;
     if u \<le> t_size t then (let over = t_size t - u in if over > 0 then Some over else None)
     else None
   }"

section \<open>A router's report on one of our packets\<close>

text \<open>What a conforming router sends: an IPv4 header without options, the ICMP header with the MTU of
  the next hop, and the front of the refused packet.\<close>

definition report_bytes :: "bytes \<Rightarrow> u16 \<Rightarrow> u16 \<Rightarrow> bytes \<Rightarrow> bytes" where
  "report_bytes ip ck mtu quoted =
     ip @ [DEST_UNREACHABLE, FRAGMENTATION_NEEDED] @ to_be_bytes 2 ck @ [0, 0] @ to_be_bytes 2 mtu @ quoted"

lemma header_len_45 [simp]: "ipv4_header_len (0x45 # rest) = Some 20"
  by (simp add: ipv4_header_len_def)

lemma ip_header_Cons: "\<exists>rest. ip_header t i d l pr ck s e = 0x45 # rest"
  by (simp add: ip_header_def ipv4_writes_def w8_def)

lemma ip_header_len: "ipv4_header_len (ip_header t i d l pr ck s e @ r) = Some 20"
  using ip_header_Cons [of t i d l pr ck s e] by (auto simp del: header_len_45)
    (simp add: header_len_45)

text \<open>The front of one of our own packets, cut anywhere behind the ports.\<close>

lemma quotation_reads:
  assumes "28 \<le> m" "m \<le> packet_len k p (length payload)" "q = take m (wire_packet k p f payload)"
  shows "ipv4_header_len q = Some 20" "get q 9 = Some PROTO_TCP"
    "be16_at q 2 = Some (of_nat (packet_len k p (length payload)))"
    "addr_at q 12 = Some (fst (f_src f))" "addr_at q 16 = Some (fst (f_dst f))"
    "quoted_ports q 20 PROTO_TCP = Some (Some (snd (f_src f), snd (f_dst f)))"
proof -
  let ?H = "ip_header_ck (of_nat (packet_len k p (length payload))) (f_ip_id f) (f_dont_fragment f)
    (p_ttl p) PROTO_TCP (fst (f_src f)) (fst (f_dst f))"
  let ?T = "take (m - 20) (tcp_segment k p f payload (tcp_checksum k p f payload))"
  have q: "q = ?H @ ?T" using assms(1) by (simp add: assms(3) wire_packet_def)
  show "ipv4_header_len q = Some 20" "get q 9 = Some PROTO_TCP"
    "be16_at q 2 = Some (of_nat (packet_len k p (length payload)))"
    "addr_at q 12 = Some (fst (f_src f))" "addr_at q 16 = Some (fst (f_dst f))"
    unfolding q ip_header_ck_def by (simp_all add: ip_header_len ip_header_reads)
  obtain rest where "tcp_segment k p f payload (tcp_checksum k p f payload) =
      concat [w16 (snd (f_src f)), w16 (snd (f_dst f))] @ rest"
    by (simp add: tcp_segment_def tcp_writes_def)
  then have "?T = concat [w16 (snd (f_src f)), w16 (snd (f_dst f))] @ take (m - 24) rest"
    using assms(1) by simp
  then show "quoted_ports q 20 PROTO_TCP = Some (Some (snd (f_src f), snd (f_dst f)))"
    by (simp add: q quoted_ports_def get_from_def has_ports_def be16_at_def w16_def to_be_bytes_2)
qed

section \<open>Properties\<close>

text \<open>A hop's report on a packet this end sent is understood and attributed: whatever packet was
  emitted, and wherever behind its ports the router cut the quotation, the report parses to the
  advertised MTU and the packet's own size and addresses, it describes exactly the connection the packet
  belonged to, and the shortfall is the number of bytes the packet was over.\<close>

theorem report_attributed:
  assumes "emit_parts k p f parts out = Inr (n, buf)" and "28 \<le> m" "m \<le> n"
    and "quoted = take m buf" and "MIN_IPV4_MTU \<le> mtu" "unat mtu < n"
  shows "\<exists>t. toobig_parse_ipv4 (report_bytes (ip_header tot ipid df ttl PROTO_ICMP ck s e) ck' mtu quoted) = Some t \<and>
    (describes t here there proto \<longleftrightarrow> here = f_src f \<and> there = f_dst f \<and> proto = PROTO_TCP) \<and>
    usable t = Some mtu \<and> map_option unat (shortfall t) = Some (n - unat mtu)"
proof -
  note e = emit_parts_Inr [OF assms(1)]
  have q: "quoted = take m (wire_packet k p f (concat parts))"
    using e(6) assms(3,4) by (metis take_take min.absorb1)
  note r = quotation_reads [OF assms(2) _ q]
  have m: "m \<le> packet_len k p (length (concat parts))" using assms(3) e(3) by simp
  let ?ip = "ip_header tot ipid df ttl PROTO_ICMP ck s e"
  let ?icmp = "[DEST_UNREACHABLE, FRAGMENTATION_NEEDED] @ to_be_bytes 2 ck' @ [0, 0] @ to_be_bytes 2 mtu @ quoted"
  have icmp: "get_from (?ip @ ?icmp) 20 = Some ?icmp" using get_from_append [of ?ip ?icmp] by simp
  let ?t = "\<lparr>t_mtu = mtu, t_origin = fst (f_src f), t_destination = fst (f_dst f), t_protocol = PROTO_TCP,
      t_size = of_nat n, t_ports = Some (snd (f_src f), snd (f_dst f))\<rparr>"
  have mtu: "be16_at ?icmp 6 = Some mtu" "get_from ?icmp 8 = Some quoted"
    by (simp_all add: be16_at_def to_be_bytes_2 get_from_def)
  have "toobig_parse_ipv4 (report_bytes ?ip ck' mtu quoted) = Some ?t"
    unfolding report_bytes_def toobig_parse_ipv4_def
    using r m e(3) by (simp add: ip_header_len ip_header_reads icmp [simplified] mtu [simplified])
  moreover have "describes ?t here there proto \<longleftrightarrow> here = f_src f \<and> there = f_dst f \<and> proto = PROTO_TCP"
    by (cases here; cases there; cases "f_src f"; cases "f_dst f") (auto simp: describes_def)
  moreover have "usable ?t = Some mtu" using assms(5) by (simp add: usable_def)
  moreover have "map_option unat (shortfall ?t) = Some (n - unat mtu)"
    using e(5) assms(5,6) by (simp add: shortfall_def usable_def word_le_nat_alt word_less_nat_alt
        unat_sub Let_def unsigned_of_nat take_bit_eq_mod)
  ultimately show ?thesis by blast
qed

theorem report_attributed_witness:
  "\<exists>t. toobig_parse_ipv4 (report_bytes
       (ip_header 0 0 True 64 PROTO_ICMP 0 (Ipv4 10 0 0 1) (Ipv4 10 0 0 2)) 0 100
       (take 28 (wire_packet Data LINUX_6 sample_fields (replicate 100 0)))) = Some t \<and>
     describes t (f_src sample_fields) (f_dst sample_fields) PROTO_TCP \<and>
     map_option unat (shortfall t) = Some 52"
proof -
  have len: "packet_len Data LINUX_6 100 = 152"
    by (simp add: packet_len_def option_len_def is_syn_def segment_consts profile_defs)
  have e: "emit_parts Data LINUX_6 sample_fields [replicate 100 0] (replicate 200 0) =
      Inr (152, wire_packet Data LINUX_6 sample_fields (replicate 100 0) @ replicate 48 0)"
    using len by (simp add: emit_parts_cases Let_def option_len_def is_syn_def segment_consts profile_defs)
  show ?thesis
    using report_attributed [OF e, of 28 _ 100 0 0 True 64 0 "Ipv4 10 0 0 1" "Ipv4 10 0 0 2" 0
        "f_src sample_fields" "f_dst sample_fields" PROTO_TCP] len
    by (auto simp: MIN_IPV4_MTU_def)
qed

end
