(* ===== verification/Carrier.thy ===== *)
theory Carrier
  imports Segment
begin

text \<open>
  The seam between the tunnel and whatever shape its packets have on the wire: the enum \<open>Wire\<close> of
  \<open>paqetz/src/tunnel.rs\<close> puts a fake-TCP endpoint and a raw IPv4 carrier behind one interface.  The
  locale states what the tunnel relies on; the theories of the carriers interpret it.
\<close>

text \<open>A carrier writes one payload into a buffer and returns the bytes used; the parser of the other end
  gets the payload back from those bytes.  A carrier that is ready stays ready, and neither its
  overhead nor its limit moves.\<close>

locale carrier =
  fixes send :: "'s \<Rightarrow> bytes \<Rightarrow> bytes \<Rightarrow> (wire_error + nat \<times> bytes) \<times> 's"
    and recv :: "bytes \<Rightarrow> bytes option"
    and ready :: "'s \<Rightarrow> bool"
    and overhead :: "'s \<Rightarrow> nat"
    and limit :: "'s \<Rightarrow> nat"
  assumes send_recv:
    "ready s \<Longrightarrow> length payload \<le> limit s \<Longrightarrow> overhead s + length payload \<le> length out \<Longrightarrow>
       \<exists>n buf s'. send s payload out = (Inr (n, buf), s') \<and> n \<le> overhead s + length payload \<and>
         length buf = length out \<and> recv (take n buf) = Some payload \<and>
         ready s' \<and> overhead s' = overhead s \<and> limit s' = limit s"

text \<open>A burst of payloads through one buffer, each read back by the other end.\<close>

fun burst ::
  "('s \<Rightarrow> bytes \<Rightarrow> bytes \<Rightarrow> (wire_error + nat \<times> bytes) \<times> 's) \<Rightarrow> (bytes \<Rightarrow> bytes option) \<Rightarrow>
     's \<Rightarrow> bytes list \<Rightarrow> bytes \<Rightarrow> bytes option list \<times> 's" where
  "burst send recv s [] out = ([], s)"
| "burst send recv s (p # ps) out =
     (case send s p out of
        (Inl err, s') \<Rightarrow> (let (rs, s'') = burst send recv s' ps out in (None # rs, s''))
      | (Inr (n, buf), s') \<Rightarrow>
          (let (rs, s'') = burst send recv s' ps buf in (recv (take n buf) # rs, s'')))"

context carrier
begin

lemma burst_delivers:
  assumes "ready s" and "\<forall>p\<in>set ps. length p \<le> limit s \<and> overhead s + length p \<le> length out"
  shows "\<exists>s'. burst send recv s ps out = (map Some ps, s') \<and> ready s' \<and> overhead s' = overhead s"
  using assms
proof (induction ps arbitrary: s out)
  case Nil
  then show ?case by simp
next
  case (Cons p ps)
  obtain n buf s1 where 1: "send s p out = (Inr (n, buf), s1)" "recv (take n buf) = Some p"
    "ready s1" "overhead s1 = overhead s" "limit s1 = limit s" "length buf = length out"
    using send_recv [of s p out] Cons.prems by auto
  with Cons.IH [of s1 buf] Cons.prems obtain s2 where
    "burst send recv s1 ps buf = (map Some ps, s2)" "ready s2" "overhead s2 = overhead s" by auto
  then show ?case using 1 by simp
qed

end

end
