(* ===== verification/Rawip.thy ===== *)
theory Rawip
  imports Toobig Carrier
begin

text \<open>
  The carrier without a conversation (\<open>paqetz-tcpwire/src/rawip.rs\<close>): an IPv4 header, a GRE, ICMP
  echo or empty shell, and the payload.  \<open>raw_packet\<close> states a packet byte for byte; \<open>raw_data_eq\<close>
  proves that the cursor writes exactly that, and the parser reads it back.
\<close>

section \<open>Shells and state\<close>

definition PROTO_GRE :: u8 where "PROTO_GRE = 47"
definition GRE_LEN :: nat where "GRE_LEN = 4"
definition ICMP_LEN :: nat where "ICMP_LEN = 8"
definition ECHO_REQUEST :: u8 where "ECHO_REQUEST = 8"
definition ECHO_REPLY :: u8 where "ECHO_REPLY = 0"
definition GRE_PROTO_IPV4 :: u16 where "GRE_PROTO_IPV4 = ETHERTYPE_IPV4"
definition FLAG_CHECKSUM :: u16 where "FLAG_CHECKSUM = 0x8000"
definition FLAG_KEY :: u16 where "FLAG_KEY = 0x2000"
definition FLAG_SEQUENCE :: u16 where "FLAG_SEQUENCE = 0x1000"

lemmas raw_consts = PROTO_GRE_def GRE_LEN_def ICMP_LEN_def ECHO_REQUEST_def ECHO_REPLY_def
  GRE_PROTO_IPV4_def FLAG_CHECKSUM_def FLAG_KEY_def FLAG_SEQUENCE_def

datatype shell = Gre | Bare u8 | Icmp

fun shell_protocol :: "shell \<Rightarrow> u8" where
  "shell_protocol Gre = PROTO_GRE"
| "shell_protocol (Bare proto) = proto"
| "shell_protocol Icmp = PROTO_ICMP"

fun shell_len :: "shell \<Rightarrow> nat" where
  "shell_len Gre = GRE_LEN"
| "shell_len (Bare _) = 0"
| "shell_len Icmp = ICMP_LEN"

definition shell_is_empty :: "shell \<Rightarrow> bool" where
  "shell_is_empty sh \<longleftrightarrow> shell_len sh = 0"

definition shell_overhead :: "shell \<Rightarrow> nat" where
  "shell_overhead sh = IPV4_LEN + shell_len sh"

record echo =
  ec_reply :: bool
  ec_id :: u16
  ec_seq :: u16

record raw_config =
  rc_local :: ipv4
  rc_remote :: ipv4
  rc_profile :: os_profile
  rc_shell :: shell
  rc_dont_fragment :: bool
  rc_echo :: echo

record raw_carrier =
  rw_local :: ipv4
  rw_remote :: ipv4
  rw_profile :: os_profile
  rw_shell :: shell
  rw_dont_fragment :: bool
  rw_echo :: echo
  rw_counter :: u32

definition raw_new :: "raw_config \<Rightarrow> raw_carrier" where
  "raw_new cfg =
     \<lparr>rw_local = rc_local cfg, rw_remote = rc_remote cfg, rw_profile = rc_profile cfg,
      rw_shell = rc_shell cfg, rw_dont_fragment = rc_dont_fragment cfg, rw_echo = rc_echo cfg,
      rw_counter = 0\<rparr>"

definition raw_set_remote :: "raw_carrier \<Rightarrow> ipv4 \<Rightarrow> raw_carrier" where
  "raw_set_remote c remote = c\<lparr>rw_remote := remote\<rparr>"

definition raw_id :: "raw_carrier \<Rightarrow> u16" where
  "raw_id c = ec_id (rw_echo c)"

definition answer_as :: "raw_carrier \<Rightarrow> u16 \<Rightarrow> u16 \<Rightarrow> raw_carrier" where
  "answer_as c ident sq =
     (if ec_reply (rw_echo c) then c\<lparr>rw_echo := (rw_echo c)\<lparr>ec_id := ident, ec_seq := sq\<rparr>\<rparr> else c)"

section \<open>Sending\<close>

text \<open>The echo sequence number: quoted by the replying end, counted by the asking one.\<close>

definition echo_seq :: "raw_carrier \<Rightarrow> u16" where
  "echo_seq c = (if ec_reply (rw_echo c) then ec_seq (rw_echo c) else ucast (rw_counter c AND 0xFFFF))"

definition shell_writes :: "raw_carrier \<Rightarrow> u16 \<Rightarrow> bytes list" where
  "shell_writes c ck =
     (case rw_shell c of
        Gre \<Rightarrow> [w16 0, w16 GRE_PROTO_IPV4]
      | Icmp \<Rightarrow> [w8 (if ec_reply (rw_echo c) then ECHO_REPLY else ECHO_REQUEST), w8 0, w16 ck,
                 w16 (ec_id (rw_echo c)), w16 (echo_seq c)]
      | Bare _ \<Rightarrow> [])"

definition raw_write :: "raw_carrier \<Rightarrow> bytes \<Rightarrow> nat \<Rightarrow> bytes \<Rightarrow> wire_error + nat \<times> bytes" where
  "raw_write c payload total_len out =
     rbind (puts (cursor_new out)
       (ipv4_writes (of_nat total_len) (unpredictable_ip_id (rw_counter c)) (rw_dont_fragment c)
          (p_ttl (rw_profile c)) (shell_protocol (rw_shell c)) 0 (rw_local c) (rw_remote c)
        @ shell_writes c 0 @ [payload])) (\<lambda>cur.
     let out1 = c_buf cur in
     rbind (ok_or (get_range out1 0 IPV4_LEN) (WShort IPV4_LEN (length out1))) (\<lambda>hdr.
     rbind (write_at out1 10 (to_be_bytes 2 (cksum_of hdr))) (\<lambda>out2.
     if rw_shell c = Icmp
     then rbind (ok_or (get_range out2 IPV4_LEN total_len) (WShort total_len (length out2))) (\<lambda>body.
          rbind (write_at out2 (IPV4_LEN + 2) (to_be_bytes 2 (cksum_of body))) (\<lambda>out3.
          Inr (total_len, out3)))
     else Inr (total_len, out2))))"

definition raw_data :: "raw_carrier \<Rightarrow> bytes \<Rightarrow> bytes \<Rightarrow> (wire_error + nat \<times> bytes) \<times> raw_carrier" where
  "raw_data c payload out =
     (let total_len = shell_overhead (rw_shell c) + length payload in
      if length out < total_len then (Inl (WShort total_len (length out)), c)
      else if total_len \<ge> 65536 then (Inl (TooLong total_len), c)
      else let c1 = c\<lparr>rw_counter := rw_counter c + 1\<rparr> in (raw_write c1 payload total_len out, c1))"

section \<open>Receiving\<close>

record received =
  rx_src :: ipv4
  rx_dst :: ipv4
  rx_protocol :: u16
  rx_id :: u16
  rx_seq :: u16
  rx_payload :: bytes

definition payload_offset :: "u16 \<Rightarrow> nat option" where
  "payload_offset flags =
     (let len = GRE_LEN;
          len = (if flags AND FLAG_CHECKSUM \<noteq> 0 then len + 4 else len);
          len = (if flags AND FLAG_KEY \<noteq> 0 then len + 4 else len);
          len = (if flags AND FLAG_SEQUENCE \<noteq> 0 then len + 4 else len)
      in Some len)"

definition read_shell :: "shell \<Rightarrow> bytes \<Rightarrow> (u16 \<times> u16 \<times> u16 \<times> bytes) option" where
  "read_shell sh rest =
     (case sh of
        Gre \<Rightarrow> do {
          flags \<leftarrow> be16_at rest 0;
          protocol \<leftarrow> be16_at rest 2;
          off \<leftarrow> payload_offset flags;
          payload \<leftarrow> get_from rest off;
          Some (protocol, 0, 0, payload)
        }
      | Icmp \<Rightarrow> do {
          knd \<leftarrow> get rest 0;
          if knd \<noteq> ECHO_REQUEST \<and> knd \<noteq> ECHO_REPLY then None
          else do {
            code \<leftarrow> get rest 1;
            if code \<noteq> 0 then None
            else do {
              ident \<leftarrow> be16_at rest 4;
              sq \<leftarrow> be16_at rest 6;
              payload \<leftarrow> get_from rest ICMP_LEN;
              Some (GRE_PROTO_IPV4, ident, sq, payload)
            }
          }
        }
      | Bare _ \<Rightarrow> Some (GRE_PROTO_IPV4, 0, 0, rest))"

definition raw_parse_ipv4 :: "bytes \<Rightarrow> shell \<Rightarrow> received option" where
  "raw_parse_ipv4 packet sh = do {
     ver_ihl \<leftarrow> get packet 0;
     if drop_bit 4 ver_ihl \<noteq> 4 then None
     else do {
       let ihl_words = unat (ver_ihl AND 0x0F);
       if ihl_words < 5 then None
       else do {
         let ip_header_len = ihl_words * 4;
         proto \<leftarrow> get packet 9;
         if proto \<noteq> shell_protocol sh then None
         else do {
           frag \<leftarrow> be16_at packet 6;
           if frag AND 0xBFFF \<noteq> 0 then None
           else do {
             tl16 \<leftarrow> be16_at packet 2;
             let total_len = unat tl16;
             if total_len < ip_header_len \<or> total_len > length packet then None
             else do {
               src \<leftarrow> addr_at packet 12;
               dst \<leftarrow> addr_at packet 16;
               rest \<leftarrow> get_range packet ip_header_len total_len;
               (protocol, ident, sq, payload) \<leftarrow> read_shell sh rest;
               Some \<lparr>rx_src = src, rx_dst = dst, rx_protocol = protocol, rx_id = ident, rx_seq = sq,
                     rx_payload = payload\<rparr>
             }
           }
         }
       }
     }
   }"

definition raw_parse_ethernet :: "bytes \<Rightarrow> shell \<Rightarrow> received option" where
  "raw_parse_ethernet frame sh = do {
     ethertype \<leftarrow> be16_at frame 12;
     if ethertype \<noteq> ETHERTYPE_IPV4 then None
     else do { rest \<leftarrow> get_from frame ETH_LEN; raw_parse_ipv4 rest sh }
   }"

section \<open>The packet, byte for byte\<close>

definition shell_bytes :: "raw_carrier \<Rightarrow> bytes \<Rightarrow> bytes" where
  "shell_bytes c payload =
     concat (shell_writes c (if rw_shell c = Icmp then cksum_of (concat (shell_writes c 0) @ payload) else 0))
     @ payload"

definition raw_header :: "raw_carrier \<Rightarrow> nat \<Rightarrow> bytes" where
  "raw_header c n = ip_header_ck (of_nat n) (unpredictable_ip_id (rw_counter c)) (rw_dont_fragment c)
     (p_ttl (rw_profile c)) (shell_protocol (rw_shell c)) (rw_local c) (rw_remote c)"

definition raw_packet :: "raw_carrier \<Rightarrow> bytes \<Rightarrow> bytes" where
  "raw_packet c payload =
     raw_header c (shell_overhead (rw_shell c) + length payload) @ shell_bytes c payload"

lemma length_shell_writes [simp]: "length (concat (shell_writes c ck)) = shell_len (rw_shell c)"
  by (cases "rw_shell c") (simp_all add: shell_writes_def raw_consts)

lemma length_shell_bytes [simp]: "length (shell_bytes c payload) = shell_len (rw_shell c) + length payload"
  by (simp add: shell_bytes_def)

lemma length_raw_header [simp]: "length (raw_header c n) = 20"
  by (simp add: raw_header_def)

lemma length_raw_packet [simp]:
  "length (raw_packet c payload) = shell_overhead (rw_shell c) + length payload"
  by (simp add: raw_packet_def shell_overhead_def IPV4_LEN_def)

lemma icmp_split:
  "rw_shell c = Icmp \<Longrightarrow>
     \<exists>A B. length A = 2 \<and> (\<forall>ck. concat (shell_writes c ck) @ payload = A @ to_be_bytes 2 ck @ B)"
proof -
  assume i: "rw_shell c = Icmp"
  let ?A = "concat [w8 (if ec_reply (rw_echo c) then ECHO_REPLY else ECHO_REQUEST), w8 0]"
  have "length ?A = 2" by simp
  moreover have "concat (shell_writes c ck) @ payload =
      ?A @ to_be_bytes 2 ck @ (concat [w16 (ec_id (rw_echo c)), w16 (echo_seq c)] @ payload)" for ck
    using i by (simp add: shell_writes_def w16_def)
  ultimately show ?thesis by blast
qed

lemma raw_write_eq:
  assumes "shell_overhead (rw_shell c) + length payload = n" "n \<le> length out" "n < 65536"
  shows "raw_write c payload n out = Inr (n, raw_packet c payload @ drop n out)"
proof -
  let ?IP = "ip_header (of_nat n) (unpredictable_ip_id (rw_counter c)) (rw_dont_fragment c)
     (p_ttl (rw_profile c)) (shell_protocol (rw_shell c)) 0 (rw_local c) (rw_remote c)"
  let ?S = "concat (shell_writes c 0) @ payload"
  let ?ws = "ipv4_writes (of_nat n) (unpredictable_ip_id (rw_counter c)) (rw_dont_fragment c)
     (p_ttl (rw_profile c)) (shell_protocol (rw_shell c)) 0 (rw_local c) (rw_remote c)
     @ shell_writes c 0 @ [payload]"
  have ws: "concat ?ws = ?IP @ ?S" by (simp add: ip_header_def)
  have n: "length (?IP @ ?S) = n" using assms(1) by (simp add: shell_overhead_def IPV4_LEN_def)
  have "length (concat ?ws) \<le> length out" using n assms(2) by (simp only: ws)
  from puts_new [OF this] have p: "puts (cursor_new out) ?ws =
      Inr \<lparr>c_buf = (?IP @ ?S) @ drop n out, c_pos = n\<rparr>" by (simp only: ws n)
  have hdr: "get_range ((?IP @ ?S) @ drop n out) 0 IPV4_LEN = Some ?IP"
    using get_range_append [of "[]" ?IP "?S @ drop n out"] by (simp add: IPV4_LEN_def)
  have w1: "write_at ((?IP @ ?S) @ drop n out) 10 (to_be_bytes 2 (cksum_of ?IP)) =
      Inr (raw_header c n @ ?S @ drop n out)"
    using fill_ip_checksum by (simp add: raw_header_def)
  have base: "raw_write c payload n out =
     (if rw_shell c = Icmp
      then rbind (ok_or (get_range (raw_header c n @ ?S @ drop n out) IPV4_LEN n)
             (WShort n (length (raw_header c n @ ?S @ drop n out)))) (\<lambda>body.
           rbind (write_at (raw_header c n @ ?S @ drop n out) (IPV4_LEN + 2) (to_be_bytes 2 (cksum_of body)))
             (\<lambda>out3. Inr (n, out3)))
      else Inr (n, raw_header c n @ ?S @ drop n out))"
    unfolding raw_write_def p by (simp only: rbind_simps ok_or_simps hdr w1 Let_def cursor.simps)
  show ?thesis
  proof (cases "rw_shell c = Icmp")
    case False
    then have "shell_bytes c payload = ?S" by (simp add: shell_bytes_def)
    then show ?thesis using False base assms(1) by (simp add: raw_packet_def)
  next
    case True
    obtain A B where AB: "length A = 2" "\<And>ck. concat (shell_writes c ck) @ payload = A @ to_be_bytes 2 ck @ B"
      using icmp_split [OF True] by blast
    have "length ?S + 20 = n" using n by simp
    then have body: "get_range (raw_header c n @ ?S @ drop n out) IPV4_LEN n = Some ?S"
      using get_range_append [of "raw_header c n" ?S "drop n out"] by (simp add: IPV4_LEN_def add.commute)
    have "write_at ((raw_header c n @ A) @ to_be_bytes 2 0 @ (B @ drop n out)) 22 (to_be_bytes 2 (cksum_of ?S))
        = Inr ((raw_header c n @ A) @ to_be_bytes 2 (cksum_of ?S) @ (B @ drop n out))"
      using AB(1) by (intro write_at_append) simp_all
    then have "write_at (raw_header c n @ ?S @ drop n out) (IPV4_LEN + 2) (to_be_bytes 2 (cksum_of ?S))
        = Inr (raw_header c n @ shell_bytes c payload @ drop n out)"
      using True AB(2) [of 0] AB(2) [of "cksum_of ?S"] by (simp add: shell_bytes_def IPV4_LEN_def)
    then show ?thesis using True base body assms(1) by (simp add: raw_packet_def)
  qed
qed

lemma raw_data_eq:
  "raw_data c payload out =
     (let n = shell_overhead (rw_shell c) + length payload; c1 = c\<lparr>rw_counter := rw_counter c + 1\<rparr> in
      if length out < n then (Inl (WShort n (length out)), c)
      else if n \<ge> 65536 then (Inl (TooLong n), c)
      else (Inr (n, raw_packet c1 payload @ drop n out), c1))"
  by (simp add: raw_data_def raw_write_eq Let_def)

section \<open>Reading it back\<close>

definition raw_read_back :: "raw_carrier \<Rightarrow> bytes \<Rightarrow> received" where
  "raw_read_back c payload =
     \<lparr>rx_src = rw_local c, rx_dst = rw_remote c, rx_protocol = GRE_PROTO_IPV4,
      rx_id = (if rw_shell c = Icmp then ec_id (rw_echo c) else 0),
      rx_seq = (if rw_shell c = Icmp then echo_seq c else 0), rx_payload = payload\<rparr>"

lemma read_shell_bytes:
  "read_shell (rw_shell c) (shell_bytes c payload) =
     Some (GRE_PROTO_IPV4, rx_id (raw_read_back c payload), rx_seq (raw_read_back c payload), payload)"
proof (cases "rw_shell c")
  case Gre
  then show ?thesis
    by (simp add: read_shell_def shell_bytes_def shell_writes_def raw_read_back_def be16_at_def
        w16_def to_be_bytes_2 payload_offset_def get_from_def GRE_LEN_def)
      (simp add: from_be_bytes_def)
next
  case (Bare x)
  then show ?thesis by (simp add: read_shell_def shell_bytes_def shell_writes_def raw_read_back_def)
next
  case Icmp
  then show ?thesis
    by (simp add: read_shell_def shell_bytes_def shell_writes_def raw_read_back_def be16_at_def
        w16_def w8_def to_be_bytes_2 get_from_def ICMP_LEN_def ECHO_REQUEST_def ECHO_REPLY_def)
qed

lemma parse_raw_packet:
  assumes "shell_overhead (rw_shell c) + length payload < 65536"
  shows "raw_parse_ipv4 (raw_packet c payload @ trailer) (rw_shell c) = Some (raw_read_back c payload)"
proof -
  let ?n = "shell_overhead (rw_shell c) + length payload"
  have n: "unat (of_nat ?n :: u16) = ?n" using assms by (simp only: unsigned_of_nat take_bit_eq_mod) simp
  have "?n = length (raw_header c ?n) + length (shell_bytes c payload)"
    by (simp add: shell_overhead_def IPV4_LEN_def)
  then have rest: "get_range (raw_header c ?n @ shell_bytes c payload @ trailer) 20 ?n = Some (shell_bytes c payload)"
    using get_range_append [of "raw_header c ?n" "shell_bytes c payload" trailer] by (simp add: add.assoc)
  have len: "20 \<le> ?n" "?n \<le> length (raw_header c ?n @ shell_bytes c payload @ trailer)"
    by (simp_all add: shell_overhead_def IPV4_LEN_def)
  define h where "h = raw_header c ?n @ shell_bytes c payload @ trailer"
  have reads: "get h 0 = Some 0x45" "get h 9 = Some (shell_protocol (rw_shell c))" "be16_at h 2 = Some (of_nat ?n)"
    "be16_at h 6 = Some (if rw_dont_fragment c then 0x4000 else 0)" "addr_at h 12 = Some (rw_local c)"
    "addr_at h 16 = Some (rw_remote c)"
    unfolding h_def raw_header_def ip_header_ck_def by (simp_all only: ip_header_reads)
  have "raw_parse_ipv4 h (rw_shell c) = Some (raw_read_back c payload)"
    unfolding raw_parse_ipv4_def reads
    using n len [folded h_def] rest [folded h_def]
    by (simp add: Let_def read_shell_bytes del: of_nat_add) (simp add: raw_read_back_def)
  then show ?thesis by (simp add: h_def raw_packet_def)
qed

lemma icmp_checksum:
  assumes "rw_shell c = Icmp" and "length payload < 65536"
  shows "cksum_of (shell_bytes c payload) = 0"
proof -
  let ?S = "concat (shell_writes c 0) @ payload"
  obtain A B where AB: "length A = 2" "\<And>ck. concat (shell_writes c ck) @ payload = A @ to_be_bytes 2 ck @ B"
    using icmp_split [OF assms(1)] by blast
  have "length ?S < 65536 + 8" using assms by (simp add: ICMP_LEN_def)
  then have "nsum ?S < 2 ^ 63" using nsum_le [of ?S] by simp
  then show ?thesis
    using checksum_verifies [of A 0 B] AB(1) assms(1)
    by (simp add: shell_bytes_def AB(2) cksum_of_def zero_field)
qed

section \<open>As a carrier\<close>

text \<open>Whatever the shell, a raw carrier meets the contract the tunnel relies on.\<close>

interpretation raw: carrier raw_data "\<lambda>packet. map_option rx_payload (raw_parse_ipv4 packet sh)"
  "\<lambda>c. rw_shell c = sh" "\<lambda>c. shell_overhead sh" "\<lambda>c. 65535 - shell_overhead sh" for sh
proof
  fix c :: raw_carrier and payload out :: bytes
  assume sh: "rw_shell c = sh" and limit: "length payload \<le> 65535 - shell_overhead sh"
    and room: "shell_overhead sh + length payload \<le> length out"
  have "shell_overhead sh \<le> 28" by (cases sh) (simp_all add: shell_overhead_def raw_consts IPV4_LEN_def)
  then have n: "shell_overhead (rw_shell c) + length payload < 65536" using limit sh by simp
  let ?c1 = "c\<lparr>rw_counter := rw_counter c + 1\<rparr>"
  let ?n = "shell_overhead sh + length payload"
  have "raw_data c payload out = (Inr (?n, raw_packet ?c1 payload @ drop ?n out), ?c1)"
    using n room sh by (simp add: raw_data_eq Let_def)
  moreover have "raw_parse_ipv4 (raw_packet ?c1 payload) sh = Some (raw_read_back ?c1 payload)"
    using parse_raw_packet [of ?c1 payload "[]"] n sh by simp
  ultimately show "\<exists>n buf s'. raw_data c payload out = (Inr (n, buf), s') \<and> n \<le> shell_overhead sh + length payload \<and>
      length buf = length out \<and> map_option rx_payload (raw_parse_ipv4 (take n buf) sh) = Some payload \<and>
      rw_shell s' = sh \<and> shell_overhead sh = shell_overhead sh \<and> 65535 - shell_overhead sh = 65535 - shell_overhead sh"
    using sh room by (simp add: raw_read_back_def)
qed

section \<open>Properties\<close>

text \<open>A burst over a raw carrier arrives: every payload that fits the buffer and an IPv4 length is
  written, and the peer's parser for the same shell gives it back, in order; the only other outcomes
  of one send are the two length errors, which leave the carrier as it was.\<close>

theorem raw_burst_arrives:
  assumes "\<forall>p\<in>set ps. shell_overhead (rw_shell c) + length p \<le> min (length out) 65535"
  shows "fst (burst raw_data (\<lambda>packet. map_option rx_payload (raw_parse_ipv4 packet (rw_shell c))) c ps out)
    = map Some ps"
proof -
  have "\<forall>p\<in>set ps. length p \<le> 65535 - shell_overhead (rw_shell c) \<and>
      shell_overhead (rw_shell c) + length p \<le> length out" using assms by auto
  from raw.burst_delivers [OF refl this] show ?thesis by auto
qed

definition sample_raw :: "shell \<Rightarrow> bool \<Rightarrow> raw_carrier" where
  "sample_raw sh rep =
     raw_new \<lparr>rc_local = Ipv4 192 0 2 1, rc_remote = Ipv4 198 51 100 2, rc_profile = LINUX_6,
       rc_shell = sh, rc_dont_fragment = True, rc_echo = \<lparr>ec_reply = rep, ec_id = 40000, ec_seq = 7\<rparr>\<rparr>"

theorem raw_burst_arrives_witness:
  "fst (burst raw_data (\<lambda>packet. map_option rx_payload (raw_parse_ipv4 packet Icmp)) (sample_raw Icmp False)
     [[1, 2, 3], [], [4]] (replicate 40 0)) = [Some [1, 2, 3], Some [], Some [4]]"
proof -
  have "rw_shell (sample_raw Icmp False) = Icmp" by (simp add: sample_raw_def raw_new_def)
  then show ?thesis
    using raw_burst_arrives [of "[[1, 2, 3], [], [4]]" "sample_raw Icmp False" "replicate 40 0"]
    by (simp add: shell_overhead_def raw_consts IPV4_LEN_def)
qed

text \<open>One raw packet, in full: the length errors come first and leave the carrier unchanged;
  otherwise the packet parses to its source, destination, echo identifier and sequence number, its
  IPv4 checksum verifies, and for a ping the ICMP checksum verifies too.\<close>

theorem raw_packet_outcome:
  "case raw_data c payload out of
     (Inl err, c') \<Rightarrow> c' = c \<and>
       (let n = shell_overhead (rw_shell c) + length payload in
        err = (if length out < n then WShort n (length out) else TooLong n) \<and> min (length out) 65535 < n)
   | (Inr (n, buf), c') \<Rightarrow>
       raw_parse_ipv4 (take n buf) (rw_shell c) = Some (raw_read_back c' payload) \<and>
       cksum_of (take 20 buf) = 0 \<and> drop n buf = drop n out \<and>
       (if rw_shell c = Icmp then cksum_of (drop 20 (take n buf)) = 0 else True) \<and>
       c' = c\<lparr>rw_counter := rw_counter c + 1\<rparr>"
proof -
  let ?n = "shell_overhead (rw_shell c) + length payload"
  let ?c1 = "c\<lparr>rw_counter := rw_counter c + 1\<rparr>"
  show ?thesis
  proof (cases "length out < ?n \<or> ?n \<ge> 65536")
    case True
    then show ?thesis by (auto simp: raw_data_eq Let_def)
  next
    case False
    then have d: "raw_data c payload out = (Inr (?n, raw_packet ?c1 payload @ drop ?n out), ?c1)"
      by (simp add: raw_data_eq Let_def)
    have p: "raw_parse_ipv4 (raw_packet ?c1 payload) (rw_shell c) = Some (raw_read_back ?c1 payload)"
      using parse_raw_packet [of ?c1 payload "[]"] False by simp
    have ip: "take 20 (raw_packet ?c1 payload @ drop ?n out) = raw_header ?c1 ?n"
      "drop 20 (raw_packet ?c1 payload) = shell_bytes ?c1 payload"
      by (simp_all add: raw_packet_def)
    have "cksum_of (raw_header ?c1 ?n) = 0" unfolding raw_header_def by (rule wire_ip_checksum)
    moreover have "rw_shell c = Icmp \<Longrightarrow> cksum_of (shell_bytes ?c1 payload) = 0"
      using icmp_checksum [of ?c1 payload] False by simp
    ultimately show ?thesis using p ip by (simp add: d)
  qed
qed

text \<open>The two readers of protocol 1 never disagree about a packet: what parses as a path-MTU report
  is not taken for a ping's payload, and the other way round.\<close>

theorem report_is_not_a_ping:
  "toobig_parse_ipv4 packet = None \<or> raw_parse_ipv4 packet Icmp = None"
proof (rule ccontr)
  assume "\<not> ?thesis"
  then obtain t r where t: "toobig_parse_ipv4 packet = Some t" and r: "raw_parse_ipv4 packet Icmp = Some r" by auto
  from t obtain hl icmp where h: "ipv4_header_len packet = Some hl" "get_from packet hl = Some icmp"
    "get icmp 0 = Some DEST_UNREACHABLE"
    by (auto simp: toobig_parse_ipv4_def split: bind_splits if_splits)
  from r obtain v n rest where v: "get packet 0 = Some v" "drop_bit 4 v = 4"
    "get_range packet (unat (v AND 0x0F) * 4) n = Some rest" "get rest 0 = Some ECHO_REQUEST \<or> get rest 0 = Some ECHO_REPLY"
    by (auto simp: raw_parse_ipv4_def read_shell_def Let_def split: bind_splits if_splits)
  have hl: "hl = unat (v AND 0x0F) * 4"
    using h(1) v(1) by (auto simp: ipv4_header_len_def Let_def split: if_splits)
  have "get rest 0 = get icmp 0"
    using h(2,3) v(3,4) hl by (auto simp: get_from_def get_range_def get_def split: if_splits)
  then show False using h(3) v(4) by (auto simp: toobig_consts raw_consts)
qed

end
