(* ===== verification/Replay.thy ===== *)
theory Replay
  imports Prelude
begin

text \<open>
  Sliding-window anti-replay (\<open>paqetz-core/src/replay.rs\<close>): a ring of 64-bit words
  that records which transport counters were accepted.  The abstract specification is
  the plain set of all counters ever accepted; \<open>replay_abs\<close> relates a window to that
  set and is kept by every \<open>commit\<close> that follows a successful \<open>check\<close>.  The locale
  \<open>replay_filter\<close> is the contract the receive path of a session relies on.
\<close>

section \<open>The model\<close>

definition WORDS :: nat where
  "WORDS = 32"

definition BITS_PER_WORD :: u64 where
  "BITS_PER_WORD = 64"

definition WINDOW_BITS :: u64 where
  "WINDOW_BITS = of_nat WORDS * BITS_PER_WORD"

definition WINDOW_SIZE :: u64 where
  "WINDOW_SIZE = WINDOW_BITS - BITS_PER_WORD"

definition WORD_MASK :: u64 where
  "WORD_MASK = of_nat WORDS - 1"

record replay_window =
  bitmap :: "u64 list"
  highest :: u64
  started :: bool

definition replay_new :: replay_window where
  "replay_new = \<lparr>bitmap = replicate WORDS 0, highest = 0, started = False\<rparr>"

definition replay_highest :: "replay_window \<Rightarrow> u64 option" where
  "replay_highest w = (if started w then Some (highest w) else None)"

definition word_index :: "u64 \<Rightarrow> nat" where
  "word_index n = unat (n AND WORD_MASK)"

definition counter_bit :: "u64 \<Rightarrow> u64" where
  "counter_bit counter = push_bit (unat (counter mod BITS_PER_WORD)) 1"

definition is_set :: "replay_window \<Rightarrow> u64 \<Rightarrow> bool" where
  "is_set w counter =
     (case get (bitmap w) (word_index (counter div BITS_PER_WORD)) of
        None \<Rightarrow> False
      | Some x \<Rightarrow> x AND counter_bit counter \<noteq> 0)"

definition set_bit_of :: "replay_window \<Rightarrow> u64 \<Rightarrow> replay_window" where
  "set_bit_of w counter =
     (let idx = word_index (counter div BITS_PER_WORD) in
      case get (bitmap w) idx of
        None \<Rightarrow> w
      | Some x \<Rightarrow> w\<lparr>bitmap := (bitmap w)[idx := x OR counter_bit counter]\<rparr>)"

definition check :: "replay_window \<Rightarrow> u64 \<Rightarrow> bool" where
  "check w counter =
     (if \<not> started w \<or> counter > highest w then True
      else if highest w - counter > WINDOW_SIZE then False
      else \<not> is_set w counter)"

text \<open>The loop of \<open>commit\<close> that clears the words skipped over; \<open>n\<close> iterations are left.\<close>

fun clear_words :: "u64 \<Rightarrow> nat \<Rightarrow> nat \<Rightarrow> u64 list \<Rightarrow> u64 list" where
  "clear_words old_word i 0 bm = bm"
| "clear_words old_word i (Suc n) bm =
     (let idx = word_index (old_word + 1 + of_nat i) in
      clear_words old_word (Suc i) n (if idx < length bm then bm[idx := 0] else bm))"

definition commit :: "replay_window \<Rightarrow> u64 \<Rightarrow> replay_window" where
  "commit w counter =
     (if \<not> started w then set_bit_of (w\<lparr>started := True, highest := counter\<rparr>) counter
      else
        let w' =
          (if counter > highest w then
             let old_word = highest w div BITS_PER_WORD;
                 new_word = counter div BITS_PER_WORD;
                 skipped = min (new_word - old_word) (of_nat WORDS)
             in w\<lparr>bitmap := clear_words old_word 0 (unat skipped) (bitmap w), highest := counter\<rparr>
           else w)
        in set_bit_of w' counter)"

section \<open>The specification: the set of accepted counters\<close>

definition spec_check :: "u64 set \<Rightarrow> u64 \<Rightarrow> bool" where
  "spec_check S c \<longleftrightarrow>
     c \<notin> S \<and> (\<forall>h \<in> S. unat h \<le> unat c + unat WINDOW_SIZE)"

text \<open>Counters whose word lies on the ring that ends at the word of \<open>h\<close>.\<close>

definition on_ring :: "u64 \<Rightarrow> u64 \<Rightarrow> bool" where
  "on_ring h c \<longleftrightarrow> unat c div 64 \<le> unat h div 64 \<and> unat h div 64 < unat c div 64 + 32"

definition replay_abs :: "replay_window \<Rightarrow> u64 set \<Rightarrow> bool" where
  "replay_abs w S \<longleftrightarrow>
     length (bitmap w) = WORDS \<and> started w = (S \<noteq> {}) \<and>
     (if started w
      then highest w \<in> S \<and> (\<forall>c \<in> S. c \<le> highest w) \<and>
           (\<forall>c. on_ring (highest w) c \<longrightarrow> is_set w c = (c \<in> S))
      else bitmap w = replicate WORDS 0)"

section \<open>Lemmas on the ring\<close>

lemma window_consts:
  "unat WINDOW_SIZE = 1984" "WORDS = 32" "BITS_PER_WORD = 64" "WORD_MASK = mask 5"
  by (simp_all add: WINDOW_SIZE_def WINDOW_BITS_def WORDS_def BITS_PER_WORD_def WORD_MASK_def
      mask_eq_exp_minus_1)

lemma word_index_eq: "word_index n = unat n mod 32"
  by (simp add: word_index_def window_consts flip: take_bit_eq_mask)
    (simp add: take_bit_eq_mod unat_mod)

lemma word_index_less [simp]: "word_index n < 32"
  by (simp add: word_index_eq)

lemma unat_word_of: "unat (c div BITS_PER_WORD) = unat c div 64"
  by (simp add: window_consts unat_div)

lemma counter_bit_nz: "x AND counter_bit c \<noteq> 0 \<longleftrightarrow> bit x (unat c mod 64)"
  unfolding counter_bit_def bit_iff_and_push_bit_not_eq_0
  by (simp add: window_consts unat_mod)

lemma bit_counter_bit: "k < 64 \<Longrightarrow> bit (counter_bit c) k \<longleftrightarrow> k = unat c mod 64"
  by (auto simp: counter_bit_def window_consts unat_mod bit_simps)

lemma is_set_eq:
  "length (bitmap w) = WORDS \<Longrightarrow>
     is_set w c = bit (bitmap w ! (unat c div 64 mod 32)) (unat c mod 64)"
  by (simp add: is_set_def get_def window_consts(2) counter_bit_nz word_index_eq unat_word_of)

lemma set_bit_of_simps [simp]:
  "length (bitmap (set_bit_of w c)) = length (bitmap w)"
  "highest (set_bit_of w c) = highest w"
  "started (set_bit_of w c) = started w"
  by (auto simp: set_bit_of_def Let_def split: option.splits)

lemma ring_residue:
  fixes a b h :: nat
  assumes "a \<le> h" "h < a + 32" "b \<le> h" "h < b + 32" "a mod 32 = b mod 32"
  shows "a = b"
proof (rule ccontr)
  assume "a \<noteq> b"
  then consider "a < b" | "b < a" by linarith
  then show False
  proof cases
    case 1
    then have "32 dvd b - a" using assms(5) by (simp add: mod_eq_dvd_iff_nat [symmetric])
    then show False using 1 assms by (auto dest: dvd_imp_le)
  next
    case 2
    then have "32 dvd a - b" using assms(5) by (simp add: mod_eq_dvd_iff_nat [symmetric])
    then show False using 2 assms by (auto dest: dvd_imp_le)
  qed
qed

lemma same_place:
  assumes "on_ring h c" and "on_ring h d"
    and "unat c div 64 mod 32 = unat d div 64 mod 32" and "unat c mod 64 = unat d mod 64"
  shows "c = d"
proof -
  have "unat c div 64 = unat d div 64"
    using assms(1-3) ring_residue unfolding on_ring_def by blast
  then have "unat c = unat d"
    using assms(4) by (metis div_mult_mod_eq)
  then show ?thesis by (simp add: word_unat_eq_iff)
qed

lemma is_set_set_bit_of:
  assumes len: "length (bitmap w) = WORDS" and ring: "on_ring h c" "on_ring h d"
  shows "is_set (set_bit_of w c) d = (d = c \<or> is_set w d)"
proof -
  let ?i = "unat c div 64 mod 32" and ?j = "unat d div 64 mod 32"
  have bm: "bitmap (set_bit_of w c) = (bitmap w)[?i := bitmap w ! ?i OR counter_bit c]"
    using len by (simp add: set_bit_of_def get_def window_consts(2) word_index_eq unat_word_of Let_def)
  have "is_set (set_bit_of w c) d = bit (bitmap (set_bit_of w c) ! ?j) (unat d mod 64)"
    using len by (simp add: is_set_eq)
  also have "\<dots> = (if ?i = ?j \<and> unat d mod 64 = unat c mod 64 then True else is_set w d)"
    using len by (auto simp: bm is_set_eq nth_list_update window_consts(2) bit_simps bit_counter_bit)
  also have "\<dots> = (d = c \<or> is_set w d)"
    using same_place [OF ring] by auto
  finally show ?thesis .
qed

lemma length_clear_words [simp]: "length (clear_words old i n bm) = length bm"
  by (induction n arbitrary: i bm) (auto simp: Let_def)

lemma clear_words_nth:
  assumes "length bm = 32" and "j < 32" and "unat old + 1 + i + n < 2 ^ 64"
  shows "clear_words old i n bm ! j =
    (if \<exists>k. i \<le> k \<and> k < i + n \<and> (unat old + 1 + k) mod 32 = j then 0 else bm ! j)"
  using assms
proof (induction n arbitrary: i bm)
  case 0
  then show ?case by auto
next
  case (Suc n)
  let ?idx = "(unat old + 1 + i) mod 32"
  have "unat (old + 1 + of_nat i) = unat old + 1 + i"
    using Suc.prems(3) by (simp add: unat_word_ariths unat_of_nat)
  then have idx: "word_index (old + 1 + of_nat i) = ?idx"
    by (simp add: word_index_eq)
  have "clear_words old i (Suc n) bm ! j = clear_words old (Suc i) n (bm[?idx := 0]) ! j"
    using Suc.prems by (simp add: idx Let_def)
  also have "\<dots> = (if \<exists>k. Suc i \<le> k \<and> k < Suc i + n \<and> (unat old + 1 + k) mod 32 = j
      then 0 else bm[?idx := 0] ! j)"
    using Suc.prems by (subst Suc.IH) auto
  also have "\<dots> = (if \<exists>k. i \<le> k \<and> k < i + Suc n \<and> (unat old + 1 + k) mod 32 = j
      then 0 else bm ! j)"
  proof (cases "?idx = j")
    case True
    then have "\<exists>k. i \<le> k \<and> k < i + Suc n \<and> (unat old + 1 + k) mod 32 = j" by auto
    then show ?thesis using Suc.prems True by (auto simp: nth_list_update)
  next
    case False
    then have "(\<exists>k. Suc i \<le> k \<and> k < Suc i + n \<and> (unat old + 1 + k) mod 32 = j) =
        (\<exists>k. i \<le> k \<and> k < i + Suc n \<and> (unat old + 1 + k) mod 32 = j)"
      by (metis Suc_le_eq add_Suc_right add_Suc_shift le_eq_less_or_eq)
    then show ?thesis using False by auto
  qed
  finally show ?case .
qed

text \<open>Which ring words survive when the window moves from \<open>old\<close> to \<open>new\<close>.\<close>

lemma cleared_iff:
  fixes q old new :: nat
  assumes "old \<le> new" and "q \<le> new" and "new < q + 32"
  shows "(\<exists>k < min (new - old) 32. (old + 1 + k) mod 32 = q mod 32) \<longleftrightarrow> old < q"
proof
  assume "old < q"
  then have "q - old - 1 < min (new - old) 32 \<or> 32 \<le> q - old - 1" using assms by auto
  then show "\<exists>k < min (new - old) 32. (old + 1 + k) mod 32 = q mod 32"
  proof
    assume "q - old - 1 < min (new - old) 32"
    then show ?thesis using \<open>old < q\<close> by (intro exI [of _ "q - old - 1"]) auto
  next
    assume far: "32 \<le> q - old - 1"
    let ?k = "(q - old - 1) mod 32"
    have "(old + 1 + ?k) mod 32 = (old + 1 + (q - old - 1)) mod 32"
      by (rule mod_add_right_eq)
    also have "\<dots> = q mod 32" using \<open>old < q\<close> by simp
    finally show ?thesis using far assms by (intro exI [of _ ?k]) auto
  qed
next
  assume "\<exists>k < min (new - old) 32. (old + 1 + k) mod 32 = q mod 32"
  then obtain k where k: "k < new - old" "k < 32" "(old + 1 + k) mod 32 = q mod 32" by auto
  show "old < q"
  proof (rule ccontr)
    assume "\<not> old < q"
    then have "old + 1 + k \<le> new" "new < old + 1 + k + 32"
      using k(1) assms(3) by linarith+
    then have "old + 1 + k = q"
      by (rule ring_residue [OF _ _ assms(2,3) k(3)])
    with \<open>\<not> old < q\<close> show False by simp
  qed
qed

definition advanced :: "replay_window \<Rightarrow> u64 \<Rightarrow> replay_window" where
  "advanced w c =
     w\<lparr>bitmap := clear_words (highest w div BITS_PER_WORD) 0
         (unat (min (c div BITS_PER_WORD - highest w div BITS_PER_WORD) (of_nat WORDS)))
         (bitmap w), highest := c\<rparr>"

lemma skipped_eq:
  "h \<le> c \<Longrightarrow> unat (min (c div BITS_PER_WORD - h div BITS_PER_WORD) (of_nat WORDS))
     = min (unat c div 64 - unat h div 64) 32"
proof -
  assume "h \<le> c"
  then have "h div 64 \<le> c div (64 :: u64)"
    by (simp add: word_le_nat_alt unat_div div_le_mono)
  then have "unat (c div 64 - h div 64) = unat c div 64 - unat h div 64"
    by (simp add: unat_sub unat_div)
  then show ?thesis
    by (auto simp: window_consts(2,3) min_def word_le_nat_alt)
qed

lemma is_set_advanced:
  assumes len: "length (bitmap w) = WORDS" and up: "highest w \<le> c" and ring: "on_ring c d"
  shows "is_set (advanced w c) d = (unat d div 64 \<le> unat (highest w) div 64 \<and> is_set w d)"
proof -
  let ?old = "unat (highest w) div 64" and ?new = "unat c div 64" and ?q = "unat d div 64"
  have le: "?old \<le> ?new" using up by (simp add: word_le_nat_alt div_le_mono)
  have "?old < 2 ^ 58" using unat_bounds(4) [of "highest w"] by (simp add: div_less_iff_less_mult)
  then have "clear_words (highest w div BITS_PER_WORD) 0 (min (?new - ?old) 32) (bitmap w) ! (?q mod 32)
      = (if \<exists>k. 0 \<le> k \<and> k < 0 + min (?new - ?old) 32 \<and> (?old + 1 + k) mod 32 = ?q mod 32
         then 0 else bitmap w ! (?q mod 32))"
    using len by (subst clear_words_nth) (auto simp: window_consts(2) unat_word_of)
  also have "\<dots> = (if ?old < ?q then 0 else bitmap w ! (?q mod 32))"
    using cleared_iff [OF le, of ?q] ring by (simp add: on_ring_def)
  finally show ?thesis
    using len up by (auto simp: advanced_def is_set_eq skipped_eq)
qed

lemma commit_eq:
  "commit w c =
     (if \<not> started w then set_bit_of (w\<lparr>started := True, highest := c\<rparr>) c
      else set_bit_of (if c > highest w then advanced w c else w) c)"
  by (simp add: commit_def advanced_def Let_def)

lemma on_ring_refl [simp]: "on_ring c c"
  by (simp add: on_ring_def)

lemma on_ring_window:
  "c \<le> h \<Longrightarrow> \<not> h - c > WINDOW_SIZE \<Longrightarrow> on_ring h c"
proof -
  assume le: "c \<le> h" and "\<not> h - c > WINDOW_SIZE"
  then have "unat h - unat c \<le> 1984" "unat c \<le> unat h"
    by (simp_all add: word_less_nat_alt word_le_nat_alt unat_sub window_consts(1))
  then have "unat h \<le> unat c + 31 * 64" by simp
  then have "unat h div 64 \<le> (unat c + 31 * 64) div 64" by (rule div_le_mono)
  also have "\<dots> = unat c div 64 + 31" by simp
  finally show ?thesis
    using \<open>unat c \<le> unat h\<close> by (simp add: on_ring_def div_le_mono)
qed

section \<open>The window refines the set\<close>

lemma replay_abs_new: "replay_abs replay_new {}"
  by (simp add: replay_abs_def replay_new_def)

lemma check_refines: "replay_abs w S \<Longrightarrow> check w c = spec_check S c"
proof (cases "started w")
  case False
  assume "replay_abs w S"
  with False show ?thesis by (auto simp: replay_abs_def check_def spec_check_def)
next
  case True
  assume abs: "replay_abs w S"
  let ?h = "highest w"
  from abs True have h: "?h \<in> S" "\<forall>c \<in> S. c \<le> ?h"
    and bits: "\<And>c. on_ring ?h c \<Longrightarrow> is_set w c = (c \<in> S)"
    by (auto simp: replay_abs_def)
  have win: "(\<forall>g \<in> S. unat g \<le> unat c + unat WINDOW_SIZE) = (unat ?h \<le> unat c + unat WINDOW_SIZE)"
    using h by (fastforce simp: word_le_nat_alt)
  show ?thesis
  proof (cases "c > ?h")
    case True
    then show ?thesis
      using h win by (auto simp: check_def spec_check_def word_less_nat_alt word_le_nat_alt)
  next
    case le: False
    then have sub: "?h - c > WINDOW_SIZE \<longleftrightarrow> \<not> unat ?h \<le> unat c + unat WINDOW_SIZE"
      by (auto simp: word_less_nat_alt word_le_nat_alt unat_sub not_less)
    show ?thesis
    proof (cases "?h - c > WINDOW_SIZE")
      case True
      then show ?thesis using \<open>started w\<close> le sub win by (simp add: check_def spec_check_def)
    next
      case near: False
      then have "is_set w c = (c \<in> S)" using le by (intro bits on_ring_window) auto
      then show ?thesis
        using \<open>started w\<close> le near sub win by (simp add: check_def spec_check_def)
    qed
  qed
qed

lemma commit_abs:
  assumes abs: "replay_abs w S" and ok: "check w c"
  shows "replay_abs (commit w c) (insert c S)"
proof (cases "started w")
  case False
  let ?w = "w\<lparr>started := True, highest := c\<rparr>"
  from abs False have S: "S = {}" and bm: "bitmap w = replicate WORDS 0"
    by (auto simp: replay_abs_def)
  have "is_set (set_bit_of ?w c) d = (d = c)" if "on_ring c d" for d
    using is_set_set_bit_of [of ?w c c d] that bm
    by (auto simp: is_set_eq window_consts(2))
  with S bm False show ?thesis
    by (auto simp: replay_abs_def commit_eq)
next
  case True
  let ?h = "highest w" and ?w = "if c > highest w then advanced w c else w"
  let ?h' = "max c ?h"
  from abs True have h: "?h \<in> S" "\<forall>c \<in> S. c \<le> ?h" and len: "length (bitmap w) = WORDS"
    and bits: "\<And>c. on_ring ?h c \<Longrightarrow> is_set w c = (c \<in> S)"
    by (auto simp: replay_abs_def)
  have len': "length (bitmap ?w) = WORDS" using len by (simp add: advanced_def)
  have hi: "highest ?w = ?h'" and st: "started ?w"
    using True by (auto simp: advanced_def max_def)
  have ringc: "on_ring ?h' c"
    using ok True by (auto simp: max_def check_def not_le intro: on_ring_window split: if_splits)
  have old: "is_set ?w d = (d \<in> S)" if ring: "on_ring ?h' d" for d
  proof (cases "c > ?h")
    case up: True
    then have "is_set ?w d = (unat d div 64 \<le> unat ?h div 64 \<and> is_set w d)"
      using is_set_advanced [OF len, of c d] ring by (simp add: max_def not_le less_imp_le split: if_splits)
    moreover have "d \<in> S \<Longrightarrow> unat d div 64 \<le> unat ?h div 64"
      using h by (simp add: word_le_nat_alt div_le_mono)
    moreover have "unat d div 64 \<le> unat ?h div 64 \<Longrightarrow> on_ring ?h d"
    proof -
      have "unat ?h div 64 \<le> unat c div 64"
        using up by (simp add: word_less_nat_alt div_le_mono)
      then show "unat d div 64 \<le> unat ?h div 64 \<Longrightarrow> on_ring ?h d"
        using ring up by (auto simp: on_ring_def max_def not_le split: if_splits)
    qed
    ultimately show ?thesis using bits by blast
  next
    case False
    then show ?thesis using bits ring by (auto simp: max_def not_less)
  qed
  have "is_set (set_bit_of ?w c) d = (d \<in> insert c S)" if "on_ring ?h' d" for d
    using is_set_set_bit_of [OF len' ringc that] old [OF that] by simp
  then show ?thesis
    using True h len' hi st
    by (auto simp: replay_abs_def commit_eq max_def)
qed

section \<open>The contract of an anti-replay filter\<close>

text \<open>
  The receive path checks a counter, authenticates the packet, and commits the counter
  only when both succeeded; \<open>receive_all\<close> drives a filter through a sequence of packets
  \<open>(counter, authentic)\<close> in that order and collects the counters it accepted.
\<close>

fun receive_all ::
  "('s \<Rightarrow> 'c \<Rightarrow> bool) \<Rightarrow> ('s \<Rightarrow> 'c \<Rightarrow> 's) \<Rightarrow> 's \<Rightarrow> ('c \<times> bool) list \<Rightarrow> 'c list \<times> 's" where
  "receive_all chk cmt s [] = ([], s)"
| "receive_all chk cmt s ((c, authentic) # ps) =
     (if chk s c \<and> authentic
      then let (acc, s') = receive_all chk cmt (cmt s c) ps in (c # acc, s')
      else receive_all chk cmt s ps)"

locale replay_filter =
  fixes init :: 's
    and chk :: "'s \<Rightarrow> 'c \<Rightarrow> bool"
    and cmt :: "'s \<Rightarrow> 'c \<Rightarrow> 's"
    and abs :: "'s \<Rightarrow> 'c set \<Rightarrow> bool"
    and spec :: "'c set \<Rightarrow> 'c \<Rightarrow> bool"
  assumes abs_init: "abs init {}"
    and chk_spec: "abs s S \<Longrightarrow> chk s c = spec S c"
    and cmt_abs: "abs s S \<Longrightarrow> chk s c \<Longrightarrow> abs (cmt s c) (insert c S)"
    and spec_fresh: "spec S c \<Longrightarrow> c \<notin> S"
begin

lemma receive_all_abs:
  assumes "abs s S" and "receive_all chk cmt s ps = (acc, s')"
  shows "abs s' (S \<union> set acc) \<and> distinct acc \<and> set acc \<inter> S = {}"
  using assms
proof (induction ps arbitrary: s S acc)
  case Nil
  then show ?case by simp
next
  case (Cons p ps)
  obtain c a where p: "p = (c, a)" by (cases p)
  show ?case
  proof (cases "chk s c \<and> a")
    case True
    then obtain acc' where acc': "receive_all chk cmt (cmt s c) ps = (acc', s')" "acc = c # acc'"
      using Cons.prems(2) by (auto simp: p split: prod.splits)
    have "c \<notin> S" using True Cons.prems(1) by (simp add: chk_spec spec_fresh)
    moreover have "abs s' (insert c S \<union> set acc') \<and> distinct acc' \<and> set acc' \<inter> insert c S = {}"
      using Cons.prems(1) True acc'(1) by (intro Cons.IH) (auto intro: cmt_abs)
    ultimately show ?thesis by (auto simp: acc'(2))
  next
    case False
    then have "receive_all chk cmt s ps = (acc, s')"
      using Cons.prems(2) by (auto simp: p split: if_splits)
    then show ?thesis by (rule Cons.IH [OF Cons.prems(1)])
  qed
qed

lemma receive_all_forged: "receive_all chk cmt s ps = receive_all chk cmt s (filter snd ps)"
proof (induction ps arbitrary: s)
  case Nil
  then show ?case by simp
next
  case (Cons p ps)
  then show ?case by (cases p) (auto simp: Cons.IH [of "cmt s _"])
qed

lemma receive_all_spec:
  assumes "receive_all chk cmt init ps = (acc, s)"
  shows "distinct acc \<and> chk s c = spec (set acc) c"
  using receive_all_abs [OF abs_init assms] chk_spec by auto

end

interpretation rw: replay_filter replay_new check commit replay_abs spec_check
proof unfold_locales
  show "replay_abs replay_new {}" by (rule replay_abs_new)
  show "check w c = spec_check S c" if "replay_abs w S" for w S c
    using that by (rule check_refines)
  show "replay_abs (commit w c) (insert c S)" if "replay_abs w S" "check w c" for w S c
    using that by (rule commit_abs)
  show "c \<notin> S" if "spec_check S c" for S c
    using that by (simp add: spec_check_def)
qed

section \<open>Properties\<close>

text \<open>C3. Over any sequence of packets the window accepts no counter twice, and after it the
  window decides every counter exactly as the set of accepted counters does: fresh, and not
  more than the window size behind the highest one accepted.\<close>

theorem replay_window_refines_set:
  "receive_all check commit replay_new ps = (acc, w) \<Longrightarrow>
     distinct acc \<and> check w c = spec_check (set acc) c"
  by (rule rw.receive_all_spec)

theorem replay_window_refines_set_witness:
  "receive_all check commit replay_new [(5, True), (5, True), (3000, True), (7, True), (2999, True)]
     = ([5, 3000, 2999], snd (receive_all check commit replay_new
         [(5, True), (5, True), (3000, True), (7, True), (2999, True)])) \<and>
   distinct [5, 3000, 2999 :: u64] \<and>
   check (snd (receive_all check commit replay_new
         [(5, True), (5, True), (3000, True), (7, True), (2999, True)])) 2998
     = spec_check (set [5, 3000, 2999]) 2998"
proof -
  let ?ps = "[(5, True), (5, True), (3000, True), (7, True), (2999, True)]"
  have run: "receive_all check commit replay_new ?ps
      = ([5, 3000, 2999], snd (receive_all check commit replay_new ?ps))"
    by code_simp
  from replay_window_refines_set [OF run, of 2998] run show ?thesis by blast
qed

text \<open>A packet that does not authenticate leaves no trace: the accepted counters and the
  window are those of the run without the forged packets.\<close>

theorem forged_packets_leave_window:
  "receive_all check commit replay_new ps = receive_all check commit replay_new (filter snd ps)"
  by (rule rw.receive_all_forged)

text \<open>Recording a counter that would not pass the check does harm: after 3000 was accepted,
  the fresh counter 2148 passes, but once the stale counter 100 has been committed it does not,
  because the two share a bit of the ring.\<close>

theorem stale_commit_blocks_fresh:
  "check (commit replay_new 3000) 2148 \<and> \<not> check (commit replay_new 3000) 100 \<and>
   \<not> check (commit (commit replay_new 3000) 100) 2148"
  by code_simp

end
