(* ===== verification/Noise.thy ===== *)
theory Noise
  imports Replay Framing
begin

text \<open>
  Noise IK handshake and transport sessions (\<open>paqetz-core/src/noise.rs\<close>): the handshake
  payload, the numbers both ends derive from their keys, \<open>mac1\<close>, the initiator, the
  responder, and the session with its send counter and replay window.

  The Noise implementation is the crate \<open>snow\<close>.  Its handshake and transport states are
  the type variables \<open>'hs\<close> and \<open>'tr\<close>, and the operations the code calls are the fields
  of the record \<open>snow\<close>, a parameter of every definition below.  A result of \<open>None\<close> is
  an error of \<open>snow\<close>; a successful write returns the bytes it put into a buffer of the
  given capacity, a successful read the payload it recovered.
\<close>

section \<open>The Noise implementation, as a parameter\<close>

record ('hs, 'tr) snow =
  build_initiator :: "private_key \<Rightarrow> public_key \<Rightarrow> 'hs option"
  build_responder :: "private_key \<Rightarrow> 'hs option"
  hs_write :: "'hs \<Rightarrow> bytes \<Rightarrow> nat \<Rightarrow> (bytes \<times> 'hs) option"
  hs_read :: "'hs \<Rightarrow> bytes \<Rightarrow> nat \<Rightarrow> bytes option \<times> 'hs"
  hs_remote_static :: "'hs \<Rightarrow> bytes option"
  into_transport :: "'hs \<Rightarrow> 'tr option"
  tr_write :: "'tr \<Rightarrow> u64 \<Rightarrow> bytes \<Rightarrow> nat \<Rightarrow> bytes option"
  tr_read :: "'tr \<Rightarrow> u64 \<Rightarrow> bytes \<Rightarrow> nat \<Rightarrow> bytes option"

section \<open>Constants\<close>

definition REKEY_AFTER_TIME :: Millis where
  "REKEY_AFTER_TIME = 120000"

definition REJECT_AFTER_TIME :: Millis where
  "REJECT_AFTER_TIME = 180000"

definition REKEY_AFTER_MESSAGES :: u64 where
  "REKEY_AFTER_MESSAGES = push_bit 60 1"

definition REJECT_AFTER_MESSAGES :: u64 where
  "REJECT_AFTER_MESSAGES = - 1 - push_bit 13 1"

definition ISN_INITIATOR_LABEL :: bytes where
  "ISN_INITIATOR_LABEL = ascii ''paqetz-isn-initiator-v1''"

definition ISN_RESPONDER_LABEL :: bytes where
  "ISN_RESPONDER_LABEL = ascii ''paqetz-isn-responder-v1''"

definition TS_BASE_LABEL :: bytes where
  "TS_BASE_LABEL = ascii ''paqetz-tsbase-v1''"

definition SYN_TAG_LABEL :: bytes where
  "SYN_TAG_LABEL = ascii ''paqetz-syn-tag-v1''"

definition SYN_ACK_ISN_LABEL :: bytes where
  "SYN_ACK_ISN_LABEL = ascii ''paqetz-synack-isn-v1''"

definition RESPONDER_TS_LABEL :: bytes where
  "RESPONDER_TS_LABEL = ascii ''paqetz-responder-ts-v1''"

definition ICMP_ID_LABEL :: bytes where
  "ICMP_ID_LABEL = ascii ''paqetz-icmp-id-v1''"

definition ICMP_IDS :: u16 where
  "ICMP_IDS = 256"

definition MAC1_LEN :: nat where
  "MAC1_LEN = 16"

definition MAC1_LABEL :: bytes where
  "MAC1_LABEL = ascii ''paqetz-mac1-v1''"

definition PAYLOAD_LEN :: nat where
  "PAYLOAD_LEN = 8"

definition MAX_PAD :: nat where
  "MAX_PAD = 64"

definition MSG1_LEN :: nat where
  "MSG1_LEN = 32 + 48 + (PAYLOAD_LEN + 16) + MAC1_LEN"

definition MSG1_MAX :: nat where
  "MSG1_MAX = MSG1_LEN + MAX_PAD"

definition MSG2_LEN :: nat where
  "MSG2_LEN = 32 + (PAYLOAD_LEN + 16) + MAC1_LEN"

definition MSG2_MAX :: nat where
  "MSG2_MAX = MSG2_LEN + MAX_PAD"

lemmas noise_consts = MAC1_LEN_def PAYLOAD_LEN_def MAX_PAD_def MSG1_LEN_def MSG1_MAX_def
  MSG2_LEN_def MSG2_MAX_def

section \<open>The handshake payload\<close>

definition pack_payload :: "u32 \<Rightarrow> u32 \<Rightarrow> nat \<Rightarrow> bytes \<times> nat" where
  "pack_payload index epoch pad =
     (to_le_bytes 4 index @ to_le_bytes 4 epoch @ replicate MAX_PAD 0,
      PAYLOAD_LEN + min pad MAX_PAD)"

definition u32_or_zero :: "bytes \<Rightarrow> u32" where
  "u32_or_zero bs = (if length bs = 4 then from_le_bytes bs else 0)"

definition unpack_payload :: "bytes \<Rightarrow> u32 \<times> u32" where
  "unpack_payload raw =
     (let head = take (min PAYLOAD_LEN (length raw)) raw;
          i = take (min 4 (length head)) head;
          e = drop (min 4 (length head)) head
      in (u32_or_zero i, u32_or_zero e))"

section \<open>Numbers derived from the keys\<close>

definition hash32 :: "crypto \<Rightarrow> bytes list \<Rightarrow> u32" where
  "hash32 C parts =
     (case split_first_chunk 4 (blake2s256 C (concat parts)) of
        None \<Rightarrow> 0 | Some (first, _) \<Rightarrow> from_le_bytes first)"

definition carrier_numbers ::
  "crypto \<Rightarrow> u32 \<Rightarrow> public_key \<Rightarrow> public_key \<Rightarrow> u32 \<times> u32 \<times> u32" where
  "carrier_numbers C epoch initiator_static responder_static =
     (let derive = (\<lambda>label. hash32 C [label, initiator_static, responder_static, to_le_bytes 4 epoch])
      in (derive ISN_INITIATOR_LABEL, derive ISN_RESPONDER_LABEL, derive TS_BASE_LABEL))"

definition syn_tag :: "crypto \<Rightarrow> public_key \<Rightarrow> u64 \<Rightarrow> u32 \<Rightarrow> u32" where
  "syn_tag C responder_static period ts_val =
     hash32 C [SYN_TAG_LABEL, responder_static, to_le_bytes 8 period, to_le_bytes 4 ts_val]"

definition syn_tag_matches :: "crypto \<Rightarrow> public_key \<Rightarrow> u64 \<Rightarrow> u32 \<Rightarrow> u32 \<Rightarrow> bool" where
  "syn_tag_matches C responder_static period ts_val sq =
     list_ex (\<lambda>p. syn_tag C responder_static p ts_val = sq) [period - 1, period, period + 1]"

definition syn_ack_isn :: "crypto \<Rightarrow> private_key \<Rightarrow> u32 \<Rightarrow> bytes \<times> u16 \<Rightarrow> u32" where
  "syn_ack_isn C responder_private syn_seq from =
     hash32 C [SYN_ACK_ISN_LABEL, responder_private, to_le_bytes 4 syn_seq, fst from,
       to_le_bytes 2 (snd from)]"

definition responder_ts_base :: "crypto \<Rightarrow> private_key \<Rightarrow> u32 \<Rightarrow> bytes \<times> u16 \<Rightarrow> u32" where
  "responder_ts_base C responder_private process from =
     hash32 C [RESPONDER_TS_LABEL, responder_private, to_le_bytes 4 process, fst from,
       to_le_bytes 2 (snd from)]"

definition icmp_id_base :: "crypto \<Rightarrow> public_key \<Rightarrow> public_key \<Rightarrow> u16" where
  "icmp_id_base C responder_static initiator_static =
     (let h = hash32 C [ICMP_ID_LABEL, responder_static, initiator_static]
      in ucast (32768 + (h mod 109) * ucast ICMP_IDS))"

section \<open>\<open>mac1\<close>\<close>

definition mac1 :: "crypto \<Rightarrow> public_key \<Rightarrow> bytes \<Rightarrow> bytes" where
  "mac1 C recipient d = blake2s_mac16 C (blake2s256 C (MAC1_LABEL @ recipient)) d"

definition seal_mac1 :: "crypto \<Rightarrow> public_key \<Rightarrow> bytes \<Rightarrow> core_error + bytes" where
  "seal_mac1 C recipient message =
     (if length message < MAC1_LEN then Inl (Short MAC1_LEN (length message))
      else let body = take (length message - MAC1_LEN) message
           in Inr (body @ mac1 C recipient body))"

definition verify_mac1 :: "crypto \<Rightarrow> public_key \<Rightarrow> bytes \<Rightarrow> core_error + bytes" where
  "verify_mac1 C recipient message =
     rbind (ok_or (split_last_chunk MAC1_LEN message) Rejected)
       (\<lambda>(body, got). if mac1 C recipient body = got then Inr body else Inl Rejected)"

section \<open>Sessions\<close>

record 'tr session =
  s_transport :: 'tr
  s_mask :: header_mask
  s_local_index :: u32
  s_remote_index :: u32
  s_send_counter :: u64
  s_replay :: replay_window
  s_established :: Millis
  s_is_initiator :: bool
  s_epoch :: u32

definition is_expired :: "'tr session \<Rightarrow> Millis \<Rightarrow> bool" where
  "is_expired s now \<longleftrightarrow> saturating_sub now (s_established s) \<ge> REJECT_AFTER_TIME"

definition needs_rekey :: "'tr session \<Rightarrow> Millis \<Rightarrow> bool" where
  "needs_rekey s now \<longleftrightarrow>
     s_is_initiator s \<and>
     (saturating_sub now (s_established s) \<ge> REKEY_AFTER_TIME \<or>
      s_send_counter s \<ge> REKEY_AFTER_MESSAGES)"

text \<open>
  \<open>Session::seal\<close> writes into the front of \<open>out\<close> and returns how much it wrote; the
  result carries the buffer as it is afterwards.
\<close>

definition seal ::
  "crypto \<Rightarrow> ('hs, 'tr) snow \<Rightarrow> 'tr session \<Rightarrow> bytes \<Rightarrow> bytes \<Rightarrow> Millis
     \<Rightarrow> (core_error + nat \<times> bytes) \<times> 'tr session" where
  "seal C N s plaintext out now =
     (let need = length plaintext + OVERHEAD in
      if length out < need then (Inl (Short need (length out)), s)
      else if is_expired s now \<or> s_send_counter s \<ge> REJECT_AFTER_MESSAGES then (Inl Expired, s)
      else
        let counter = s_send_counter s in
        case tr_write N (s_transport s) counter plaintext (length out - HEADER_LEN) of
          None \<Rightarrow> (Inl Noise, s)
        | Some body \<Rightarrow>
            let out1 = take HEADER_LEN out @ body @ drop (HEADER_LEN + length body) out;
                total = HEADER_LEN + length body
            in case rbind (ok_or (get_range out1 0 total) (Short total (length out1)))
                 (\<lambda>written. ok_or (split_last_chunk TAG_LEN written) (Short OVERHEAD total)) of
                 Inl e \<Rightarrow> (Inl e, s)
               | Inr (_, tag) \<Rightarrow>
                   let hdr = mask_header C (s_mask s) tag
                         \<lparr>h_counter = counter, h_index = s_remote_index s\<rparr>
                   in case overwrite out1 0 hdr of
                        None \<Rightarrow> (Inl (Short HEADER_LEN (length out1)), s)
                      | Some out2 \<Rightarrow>
                          (Inr (total, out2), s\<lparr>s_send_counter := s_send_counter s + 1\<rparr>))"

definition open_packet ::
  "crypto \<Rightarrow> ('hs, 'tr) snow \<Rightarrow> 'tr session \<Rightarrow> bytes \<Rightarrow> nat \<Rightarrow> Millis
     \<Rightarrow> (core_error + bytes) \<times> 'tr session" where
  "open_packet C N s packet out_len now =
     (if is_expired s now then (Inl Expired, s)
      else case split_packet packet of
        Inl e \<Rightarrow> (Inl e, s)
      | Inr (masked, body, tag) \<Rightarrow>
          let hdr = unmask_header C (s_mask s) tag masked in
          if h_index hdr \<noteq> s_local_index s then (Inl Rejected, s)
          else if \<not> check (s_replay s) (h_counter hdr) then (Inl Replayed, s)
          else case tr_read N (s_transport s) (h_counter hdr) body out_len of
            None \<Rightarrow> (Inl Rejected, s)
          | Some plain \<Rightarrow> (Inr plain, s\<lparr>s_replay := commit (s_replay s) (h_counter hdr)\<rparr>))"

definition highest_received :: "'tr session \<Rightarrow> u64 option" where
  "highest_received s = replay_highest (s_replay s)"

definition peek_header :: "crypto \<Rightarrow> header_mask \<Rightarrow> bytes \<Rightarrow> core_error + header" where
  "peek_header C m packet =
     rbind (split_packet packet) (\<lambda>(masked, _, tag). Inr (unmask_header C m tag masked))"

section \<open>The handshake\<close>

record 'hs initiator =
  i_state :: "'hs option"
  i_responder_static :: public_key
  i_local_static :: public_key
  i_local_index :: u32
  i_epoch :: u32

text \<open>
  The buffer both \<open>start\<close> and \<open>accept\<close> fill: the Noise message in front, zeros up to the
  reserved \<open>mac1\<close> slot, then the slot itself.
\<close>

definition message_buffer :: "bytes \<Rightarrow> nat \<Rightarrow> bytes" where
  "message_buffer body len = take len (body @ replicate (len - length body) 0)"

definition initiator_start ::
  "crypto \<Rightarrow> ('hs, 'tr) snow \<Rightarrow> private_key \<Rightarrow> public_key \<Rightarrow> public_key \<Rightarrow> u32 \<Rightarrow> u32 \<Rightarrow> nat
     \<Rightarrow> core_error + 'hs initiator \<times> bytes" where
  "initiator_start C N local local_public responder_static local_index epoch pad =
     rbind (ok_or (build_initiator N local responder_static) Noise) (\<lambda>st.
       let (payload, len) = pack_payload local_index epoch pad;
           total = MSG1_LEN + (len - PAYLOAD_LEN)
       in rbind (ok_or (get_range payload 0 len) Rejected) (\<lambda>payload'.
          rbind (ok_or (hs_write N st payload' (total - MAC1_LEN)) Noise) (\<lambda>(body, st').
          rbind (seal_mac1 C responder_static (message_buffer body total)) (\<lambda>msg1.
            Inr (\<lparr>i_state = Some st', i_responder_static = responder_static,
                  i_local_static = local_public, i_local_index = local_index,
                  i_epoch = epoch\<rparr>, msg1)))))"

definition initiator_finish ::
  "crypto \<Rightarrow> ('hs, 'tr) snow \<Rightarrow> 'hs initiator \<Rightarrow> bytes \<Rightarrow> Millis
     \<Rightarrow> (core_error + 'tr session) \<times> 'hs initiator" where
  "initiator_finish C N ini msg2 now =
     (if \<not> (MSG2_LEN \<le> length msg2 \<and> length msg2 \<le> MSG2_MAX) then (Inl Rejected, ini)
      else case verify_mac1 C (i_local_static ini) msg2 of
        Inl e \<Rightarrow> (Inl e, ini)
      | Inr body \<Rightarrow>
        (case i_state ini of
           None \<Rightarrow> (Inl Rejected, ini)
         | Some st \<Rightarrow>
           (case hs_read N st body (PAYLOAD_LEN + MAX_PAD) of
              (None, st') \<Rightarrow> (Inl Rejected, ini\<lparr>i_state := Some st'\<rparr>)
            | (Some payload, st') \<Rightarrow>
                if length payload < PAYLOAD_LEN then (Inl Rejected, ini\<lparr>i_state := Some st'\<rparr>)
                else
                  let (remote_index, echoed_epoch) = unpack_payload payload in
                  if echoed_epoch \<noteq> i_epoch ini then (Inl Rejected, ini\<lparr>i_state := Some st'\<rparr>)
                  else case into_transport N st' of
                    None \<Rightarrow> (Inl Noise, ini\<lparr>i_state := None\<rparr>)
                  | Some t \<Rightarrow>
                      (Inr \<lparr>s_transport = t, s_mask = derive C (i_responder_static ini),
                            s_local_index = i_local_index ini, s_remote_index = remote_index,
                            s_send_counter = 0, s_replay = replay_new, s_established = now,
                            s_is_initiator = True, s_epoch = i_epoch ini\<rparr>,
                       ini\<lparr>i_state := None\<rparr>))))"

record 'hs pending_responder =
  p_state :: 'hs
  p_responder_static :: public_key
  p_initiator_static :: public_key
  p_remote_index :: u32
  p_epoch :: u32

definition responder_read ::
  "crypto \<Rightarrow> ('hs, 'tr) snow \<Rightarrow> private_key \<Rightarrow> public_key \<Rightarrow> bytes
     \<Rightarrow> core_error + 'hs pending_responder" where
  "responder_read C N local local_public msg1 =
     (if \<not> (MSG1_LEN \<le> length msg1 \<and> length msg1 \<le> MSG1_MAX) then Inl Rejected
      else
        rbind (verify_mac1 C local_public msg1) (\<lambda>body.
        rbind (ok_or (build_responder N local) Noise) (\<lambda>st.
          let (res, st') = hs_read N st body (PAYLOAD_LEN + MAX_PAD) in
          rbind (ok_or res Rejected) (\<lambda>payload.
            if length payload < PAYLOAD_LEN then Inl Rejected
            else
              let (remote_index, epoch) = unpack_payload payload in
              rbind (ok_or (hs_remote_static N st') Rejected) (\<lambda>raw.
                if length raw \<noteq> KEY_LEN then Inl Rejected
                else Inr \<lparr>p_state = st', p_responder_static = local_public,
                         p_initiator_static = raw, p_remote_index = remote_index,
                         p_epoch = epoch\<rparr>)))))"

definition responder_accept ::
  "crypto \<Rightarrow> ('hs, 'tr) snow \<Rightarrow> 'hs pending_responder \<Rightarrow> u32 \<Rightarrow> Millis \<Rightarrow> nat
     \<Rightarrow> core_error + 'tr session \<times> bytes" where
  "responder_accept C N p local_index now pad =
     (let (payload, len) = pack_payload local_index (p_epoch p) pad;
          total = MSG2_LEN + (len - PAYLOAD_LEN)
      in rbind (ok_or (get_range payload 0 len) Rejected) (\<lambda>payload'.
         rbind (ok_or (hs_write N (p_state p) payload' (total - MAC1_LEN)) Noise) (\<lambda>(body, st').
         rbind (seal_mac1 C (p_initiator_static p) (message_buffer body total)) (\<lambda>msg2.
         rbind (ok_or (into_transport N st') Noise) (\<lambda>t.
           Inr (\<lparr>s_transport = t, s_mask = derive C (p_responder_static p),
                 s_local_index = local_index, s_remote_index = p_remote_index p,
                 s_send_counter = 0, s_replay = replay_new, s_established = now,
                 s_is_initiator = False, s_epoch = p_epoch p\<rparr>, msg2))))))"

section \<open>Lemmas: payload, \<open>mac1\<close>, derived numbers\<close>

lemma length_pack_payload [simp]: "length (fst (pack_payload i e pad)) = PAYLOAD_LEN + MAX_PAD"
  by (simp add: pack_payload_def noise_consts)

lemma unpack_pack:
  "unpack_payload (take (snd (pack_payload i e pad)) (fst (pack_payload i e pad))) = (i, e)"
  by (simp add: unpack_payload_def pack_payload_def u32_or_zero_def noise_consts Let_def)

lemma length_mac1: "crypto_ok C \<Longrightarrow> length (mac1 C k d) = MAC1_LEN"
  by (simp add: mac1_def crypto_ok_def noise_consts)

lemma seal_mac1_eq:
  "length slot = MAC1_LEN \<Longrightarrow> seal_mac1 C k (body @ slot) = Inr (body @ mac1 C k body)"
  by (simp add: seal_mac1_def)

lemma verify_seal_mac1:
  "crypto_ok C \<Longrightarrow> verify_mac1 C k (body @ mac1 C k body) = Inr body"
  by (simp add: verify_mac1_def split_last_chunk_append length_mac1)

lemma verify_mac1_Inr:
  "crypto_ok C \<Longrightarrow> verify_mac1 C k m = Inr body \<longleftrightarrow> m = body @ mac1 C k body"
  by (auto simp: verify_mac1_def split_last_chunk_def rbind_def ok_or_def length_mac1
      split: if_splits)

lemma message_buffer_exact:
  "length body + MAC1_LEN = n \<Longrightarrow> message_buffer body n = body @ replicate MAC1_LEN 0"
  by (auto simp: message_buffer_def)

section \<open>Lemmas: sessions\<close>

text \<open>
  What a pair of \<open>snow\<close> transport states promises in one direction: a message that fits
  the buffer and the Noise limit of 65535 bytes is written with 16 bytes added, and the
  other side reads it back under the same nonce.
\<close>

definition transports_paired :: "('hs, 'tr) snow \<Rightarrow> 'tr \<Rightarrow> 'tr \<Rightarrow> bool" where
  "transports_paired N a b \<longleftrightarrow>
     (\<forall>n p cap. length p + 16 \<le> cap \<and> length p + 16 \<le> 65535 \<longrightarrow>
        (\<exists>c. tr_write N a n p cap = Some c \<and> length c = length p + 16 \<and>
             (\<forall>cap'. length p \<le> cap' \<longrightarrow> tr_read N b n c cap' = Some p)))"

lemma transports_pairedE:
  assumes "transports_paired N a b" "length p + 16 \<le> cap" "length p + 16 \<le> 65535"
  obtains c where "tr_write N a n p cap = Some c" "length c = length p + 16"
    "\<And>cap'. length p \<le> cap' \<Longrightarrow> tr_read N b n c cap' = Some p"
  using assms unfolding transports_paired_def by blast

definition packet_of :: "crypto \<Rightarrow> 'tr session \<Rightarrow> bytes \<Rightarrow> bytes" where
  "packet_of C s body =
     mask_header C (s_mask s) (drop (length body - TAG_LEN) body)
       \<lparr>h_counter = s_send_counter s, h_index = s_remote_index s\<rparr> @ body"

lemma length_packet_of: "crypto_ok C \<Longrightarrow> length (packet_of C s body) = HEADER_LEN + length body"
  by (simp add: packet_of_def length_mask_header)

lemma seal_ok:
  assumes C: "crypto_ok C" and room: "length pt + OVERHEAD \<le> length out"
    and live: "\<not> is_expired s now" "s_send_counter s < REJECT_AFTER_MESSAGES"
    and w: "tr_write N (s_transport s) (s_send_counter s) pt (length out - HEADER_LEN) = Some body"
    and len: "length body = length pt + 16"
  shows "seal C N s pt out now =
    (Inr (length pt + OVERHEAD, packet_of C s body @ drop (length pt + OVERHEAD) out),
     s\<lparr>s_send_counter := s_send_counter s + 1\<rparr>)"
proof -
  let ?out1 = "take HEADER_LEN out @ body @ drop (HEADER_LEN + length body) out"
  have total: "HEADER_LEN + length body = length pt + OVERHEAD"
    using len by (simp add: framing_consts)
  have take12: "length (take HEADER_LEN out) = HEADER_LEN"
    using room by (simp add: framing_consts)
  have out1: "length ?out1 = length out"
    using room len by (simp add: framing_consts)
  have written: "get_range ?out1 0 (HEADER_LEN + length body) = Some (take HEADER_LEN out @ body)"
    using room len take12 out1 by (simp add: get_range_def framing_consts)
  have tag: "split_last_chunk TAG_LEN (take HEADER_LEN out @ body) =
      Some (take HEADER_LEN out @ take (length body - TAG_LEN) body, drop (length body - TAG_LEN) body)"
    using len take12 by (simp add: split_last_chunk_def framing_consts)
  have hdr: "overwrite ?out1 0 (mask_header C (s_mask s) (drop (length body - TAG_LEN) body)
      \<lparr>h_counter = s_send_counter s, h_index = s_remote_index s\<rparr>) =
      Some (packet_of C s body @ drop (HEADER_LEN + length body) out)"
    using overwrite_append [where pre = "[]" and old = "take HEADER_LEN out"] take12 C
    by (simp add: packet_of_def length_mask_header)
  show ?thesis
    unfolding seal_def Let_def
    using room live w written tag hdr by (simp add: total not_le not_less)
qed

lemma seal_session:
  "snd (seal C N s pt out now) = s \<or>
   (\<exists>v. fst (seal C N s pt out now) = Inr v) \<and> s_send_counter s < REJECT_AFTER_MESSAGES \<and>
    \<not> is_expired s now \<and>
    snd (seal C N s pt out now) = s\<lparr>s_send_counter := s_send_counter s + 1\<rparr>"
  by (simp add: seal_def Let_def not_le split: option.splits sum.splits prod.splits)

lemma seal_Inr:
  assumes "seal C N s pt out now = (Inr v, s')"
  shows "s_send_counter s < REJECT_AFTER_MESSAGES"
    and "s' = s\<lparr>s_send_counter := s_send_counter s + 1\<rparr>"
  using assms
  by (auto simp: seal_def Let_def not_le split: option.splits sum.splits prod.splits if_splits)

lemma seal_Inl: "seal C N s pt out now = (Inl e, s') \<Longrightarrow> s' = s"
  by (auto simp: seal_def Let_def split: option.splits sum.splits prod.splits if_splits)

lemma open_packet_Inl: "open_packet C N s pkt n now = (Inl e, s') \<Longrightarrow> s' = s"
  by (auto simp: open_packet_def Let_def split: option.splits sum.splits prod.splits if_splits)

lemma open_packet_Inr:
  assumes "open_packet C N s pkt n now = (Inr pt, s')"
  obtains hdr where "peek_header C (s_mask s) pkt = Inr hdr" "h_index hdr = s_local_index s"
    "check (s_replay s) (h_counter hdr)" "\<not> is_expired s now"
    "s' = s\<lparr>s_replay := commit (s_replay s) (h_counter hdr)\<rparr>"
  using assms
  by (auto simp: open_packet_def peek_header_def Let_def
      split: option.splits sum.splits prod.splits if_splits)

lemma open_packet_of:
  assumes C: "crypto_ok C" and live: "\<not> is_expired r now"
    and mask: "s_mask r = s_mask s" and idx: "s_local_index r = s_remote_index s"
    and len: "16 \<le> length body"
  shows "open_packet C N r (packet_of C s body) n now =
    (if \<not> check (s_replay r) (s_send_counter s) then (Inl Replayed, r)
     else case tr_read N (s_transport r) (s_send_counter s) body n of
       None \<Rightarrow> (Inl Rejected, r)
     | Some pt \<Rightarrow> (Inr pt, r\<lparr>s_replay := commit (s_replay r) (s_send_counter s)\<rparr>))"
proof -
  let ?tag = "drop (length body - TAG_LEN) body" and ?pre = "take (length body - TAG_LEN) body"
  have "split_packet (packet_of C s body) =
      Inr (mask_header C (s_mask s) ?tag
        \<lparr>h_counter = s_send_counter s, h_index = s_remote_index s\<rparr>, ?pre @ ?tag, ?tag)"
    using split_packet_parts [of _ ?tag ?pre] C len
    by (simp add: packet_of_def length_mask_header TAG_LEN_def)
  then show ?thesis
    using C live mask idx by (simp add: open_packet_def unmask_mask Let_def split: option.split)
qed

section \<open>Runs of a session\<close>

text \<open>
  \<open>seal_run\<close> seals one request after another and collects each plaintext sealed, the room it had and the
  packet it became; \<open>sealed_under\<close> says that a packet is the ciphertext the transport wrote for its plaintext
  under a nonce, behind a header that carries that nonce;
  \<open>open_all\<close> opens one packet after another and collects the counters of those accepted.
\<close>

fun seal_run ::
  "crypto \<Rightarrow> ('hs, 'tr) snow \<Rightarrow> 'tr session \<Rightarrow> (bytes \<times> bytes \<times> Millis) list
     \<Rightarrow> (bytes \<times> nat \<times> bytes) list \<times> 'tr session" where
  "seal_run C N s [] = ([], s)"
| "seal_run C N s ((pt, out, now) # rs) =
     (case seal C N s pt out now of
        (Inl e, s') \<Rightarrow> seal_run C N s' rs
      | (Inr (n, out'), s') \<Rightarrow>
          let (ps, s'') = seal_run C N s' rs in ((pt, length out - HEADER_LEN, take n out') # ps, s''))"

definition sealed_under :: "crypto \<Rightarrow> ('hs, 'tr) snow \<Rightarrow> 'tr session \<Rightarrow> u64 \<Rightarrow> bytes \<times> nat \<times> bytes \<Rightarrow> bool" where
  "sealed_under C N s nonce p =
     (case p of (pt, room, packet) \<Rightarrow>
        \<exists>body tag. tr_write N (s_transport s) nonce pt room = Some body \<and>
          packet = mask_header C (s_mask s) tag \<lparr>h_counter = nonce, h_index = s_remote_index s\<rparr> @ body)"

fun open_all ::
  "crypto \<Rightarrow> ('hs, 'tr) snow \<Rightarrow> 'tr session \<Rightarrow> (bytes \<times> nat \<times> Millis) list
     \<Rightarrow> u64 list \<times> 'tr session" where
  "open_all C N s [] = ([], s)"
| "open_all C N s ((pkt, n, now) # ps) =
     (case open_packet C N s pkt n now of
        (Inl e, s') \<Rightarrow> open_all C N s' ps
      | (Inr pt, s') \<Rightarrow>
          let (cs, s'') = open_all C N s' ps in
          (case peek_header C (s_mask s) pkt of
             Inl e \<Rightarrow> (cs, s'') | Inr hdr \<Rightarrow> (h_counter hdr # cs, s'')))"

lemma reject_after_messages: "REJECT_AFTER_MESSAGES = 18446744073709543423"
  by (simp add: REJECT_AFTER_MESSAGES_def)

lemma send_counter_Suc:
  "c < REJECT_AFTER_MESSAGES \<Longrightarrow> unat (c + 1) = Suc (unat c)"
  by (simp add: reject_after_messages word_less_nat_alt unat_word_ariths)

lemma overwrite_start: "overwrite xs 0 ys = Some zs \<Longrightarrow> zs = ys @ drop (length ys) xs"
  by (auto simp: overwrite_def split: if_splits)

lemma seal_sealed_under:
  assumes C: "crypto_ok C" and "seal C N s pt out now = (Inr (n, out'), s')"
  shows "sealed_under C N s (s_send_counter s) (pt, length out - HEADER_LEN, take n out')"
proof -
  have len: "HEADER_LEN \<le> length out"
    using assms(2) by (auto simp: seal_def Let_def framing_consts split: if_splits)
  then have "length (take HEADER_LEN out) = HEADER_LEN"
    by simp
  then show ?thesis
    using assms(2) len C
    by (auto simp: seal_def sealed_under_def Let_def rbind_eq_Inr ok_or_def length_mask_header dest!: overwrite_start
        split: if_splits option.splits sum.splits prod.splits)
qed

lemma sealed_under_counter [simp]: "sealed_under C N (s\<lparr>s_send_counter := c\<rparr>) = sealed_under C N s"
  by (simp add: sealed_under_def fun_eq_iff)

lemma seal_run_sealed:
  assumes "crypto_ok C" and "seal_run C N s reqs = (packets, s')"
  shows "list_all2 (sealed_under C N s) (map (\<lambda>i. s_send_counter s + of_nat i) [0..<length packets]) packets \<and>
    (packets = [] \<or> unat (s_send_counter s) + length packets \<le> unat REJECT_AFTER_MESSAGES)"
  using assms(2)
proof (induction reqs arbitrary: s packets)
  case (Cons r reqs)
  obtain pt out now where r: "r = (pt, out, now)" by (cases r) auto
  obtain res s1 where seal: "seal C N s pt out now = (res, s1)" by fastforce
  show ?case
  proof (cases res)
    case (Inl e)
    then show ?thesis using Cons seal by (auto simp: r dest: seal_Inl)
  next
    case (Inr v)
    obtain n out' where v: "v = (n, out')" by fastforce
    with seal Inr have lt: "s_send_counter s < REJECT_AFTER_MESSAGES" and s1: "s1 = s\<lparr>s_send_counter := s_send_counter s + 1\<rparr>"
      by (auto dest: seal_Inr)
    obtain ps where ps: "seal_run C N s1 reqs = (ps, s')" "packets = (pt, length out - HEADER_LEN, take n out') # ps"
      using Cons.prems seal Inr v by (auto simp: r split: prod.splits)
    have "sealed_under C N s (s_send_counter s) (pt, length out - HEADER_LEN, take n out')"
      using seal_sealed_under [OF assms(1)] seal Inr v by simp
    moreover have "[0..<length packets] = 0 # map Suc [0..<length ps]"
      by (simp add: ps(2) upt_conv_Cons map_Suc_upt del: upt_Suc)
    ultimately show ?thesis
      using Cons.IH [OF ps(1)] lt
      by (auto simp: s1 ps(2) send_counter_Suc comp_def add.assoc word_less_nat_alt)
  qed
qed simp

lemma open_all_counters:
  assumes "open_all C N s ps = (cs, s')" and "replay_abs (s_replay s) S"
  shows "distinct cs \<and> set cs \<inter> S = {} \<and> replay_abs (s_replay s') (S \<union> set cs)"
  using assms
proof (induction ps arbitrary: s cs S)
  case Nil
  then show ?case by simp
next
  case (Cons p ps)
  obtain pkt n now where p: "p = (pkt, n, now)" by (cases p) auto
  obtain res s1 where op: "open_packet C N s pkt n now = (res, s1)" by fastforce
  show ?case
  proof (cases res)
    case (Inl e)
    then have "open_all C N s ps = (cs, s')"
      using Cons.prems(1) op by (auto simp: p dest: open_packet_Inl)
    then show ?thesis using Cons.IH Cons.prems(2) by blast
  next
    case (Inr pt)
    with op obtain hdr where hdr: "peek_header C (s_mask s) pkt = Inr hdr"
      "check (s_replay s) (h_counter hdr)"
      "s1 = s\<lparr>s_replay := commit (s_replay s) (h_counter hdr)\<rparr>"
      by (auto elim: open_packet_Inr)
    then have abs: "replay_abs (s_replay s1) (insert (h_counter hdr) S)"
      using Cons.prems(2) rw.cmt_abs by simp
    obtain cs' where cs': "open_all C N s1 ps = (cs', s')" "cs = h_counter hdr # cs'"
      using Cons.prems(1) op Inr hdr(1) by (auto simp: p split: prod.splits)
    have "h_counter hdr \<notin> S"
      using hdr(2) Cons.prems(2) rw.chk_spec rw.spec_fresh by blast
    then show ?thesis using Cons.IH [OF cs'(1) abs] by (auto simp: cs'(2))
  qed
qed

section \<open>Properties of sessions\<close>

text \<open>A toy \<open>snow\<close>, for witnesses only: messages in clear, the initiator's key in the first one.\<close>

datatype toy_hs = ToyInitiator bytes | ToyWaiting | ToyResponder | ToyGot | ToyStatic bytes | ToyDone

fun toy_write :: "toy_hs \<Rightarrow> bytes \<Rightarrow> nat \<Rightarrow> (bytes \<times> toy_hs) option" where
  "toy_write (ToyInitiator k) p cap =
     Some (replicate 32 0 @ k @ replicate 16 0 @ p @ replicate 16 0, ToyWaiting)"
| "toy_write (ToyStatic k) p cap = Some (replicate 32 0 @ p @ replicate 16 0, ToyDone)"
| "toy_write h p cap = None"

fun toy_read :: "toy_hs \<Rightarrow> bytes \<Rightarrow> nat \<Rightarrow> bytes option \<times> toy_hs" where
  "toy_read ToyResponder m cap =
     (Some (take (length m - 96) (drop 80 m)), ToyStatic (take 32 (drop 32 m)))"
| "toy_read ToyWaiting m cap = (Some (take (length m - 48) (drop 32 m)), ToyDone)"
| "toy_read h m cap = (None, h)"

definition toy_snow :: "(toy_hs, nat) snow" where
  "toy_snow = \<lparr>build_initiator = (\<lambda>priv pub. Some (ToyInitiator priv)),
     build_responder = (\<lambda>priv. Some ToyResponder),
     hs_write = toy_write, hs_read = toy_read,
     hs_remote_static = (\<lambda>h. case h of ToyStatic k \<Rightarrow> Some k | _ \<Rightarrow> None),
     into_transport = (\<lambda>h. Some 0),
     tr_write = (\<lambda>t n p cap. Some (p @ replicate 16 1)),
     tr_read = (\<lambda>t n c cap. if length c < 16 then None else Some (take (length c - 16) c))\<rparr>"

lemma toy_paired: "transports_paired toy_snow a b"
  by (simp add: transports_paired_def toy_snow_def)

definition toy_session :: "u32 \<Rightarrow> u32 \<Rightarrow> bool \<Rightarrow> nat session" where
  "toy_session l r ini = \<lparr>s_transport = 0, s_mask = derive toy_crypto (replicate 32 3),
     s_local_index = l, s_remote_index = r, s_send_counter = 0, s_replay = replay_new,
     s_established = 0, s_is_initiator = ini, s_epoch = 0\<rparr>"

text \<open>C4. Between two sessions whose indices, masks and transports match, what one seals the
  other opens to the original bytes, as long as the counter is fresh to its replay window;
  opening the same packet a second time is refused as a replay.\<close>

theorem seal_open_roundtrip:
  assumes C: "crypto_ok C" and pair: "transports_paired N (s_transport s) (s_transport r)"
    and match: "s_mask r = s_mask s" "s_local_index r = s_remote_index s"
    and room: "length pt + OVERHEAD \<le> length out" "length pt + 16 \<le> 65535" "length pt \<le> n"
    and live: "\<not> is_expired s now" "s_send_counter s < REJECT_AFTER_MESSAGES"
      "\<not> is_expired r now'" "\<not> is_expired r now''"
    and fresh: "replay_abs (s_replay r) S" "spec_check S (s_send_counter s)"
  shows "\<exists>out' r'. seal C N s pt out now =
      (Inr (length pt + OVERHEAD, out'), s\<lparr>s_send_counter := s_send_counter s + 1\<rparr>) \<and>
    open_packet C N r (take (length pt + OVERHEAD) out') n now' = (Inr pt, r') \<and>
    open_packet C N r' (take (length pt + OVERHEAD) out') n now'' = (Inl Replayed, r')"
proof -
  have "length pt + 16 \<le> length out - HEADER_LEN" using room(1) by (simp add: framing_consts)
  then obtain body where
    w: "tr_write N (s_transport s) (s_send_counter s) pt (length out - HEADER_LEN) = Some body"
    and len: "length body = length pt + 16"
    and rd: "\<And>cap'. length pt \<le> cap' \<Longrightarrow> tr_read N (s_transport r) (s_send_counter s) body cap' = Some pt"
    using transports_pairedE [OF pair _ room(2)] by metis
  let ?r' = "r\<lparr>s_replay := commit (s_replay r) (s_send_counter s)\<rparr>"
  have pkt: "take (length pt + OVERHEAD) (packet_of C s body @ drop (length pt + OVERHEAD) out)
      = packet_of C s body"
    using len C by (simp add: length_packet_of framing_consts)
  have ok: "check (s_replay r) (s_send_counter s)" using fresh rw.chk_spec by blast
  then have "replay_abs (s_replay ?r') (insert (s_send_counter s) S)"
    using fresh(1) rw.cmt_abs by simp
  then have "\<not> check (s_replay ?r') (s_send_counter s)"
    using rw.chk_spec rw.spec_fresh by blast
  moreover have "16 \<le> length body" "\<not> is_expired ?r' now''"
    using len live(4) by (simp_all add: is_expired_def)
  ultimately have "open_packet C N ?r' (packet_of C s body) n now'' = (Inl Replayed, ?r')"
    using open_packet_of [of C ?r' now'' s body N n] C match by simp
  moreover have "open_packet C N r (packet_of C s body) n now' = (Inr pt, ?r')"
    using open_packet_of [OF C live(3) match \<open>16 \<le> length body\<close>, of N n] ok rd [OF room(3)] by simp
  ultimately show ?thesis
    using seal_ok [OF C room(1) live(1,2) w len] pkt by auto
qed

theorem seal_open_roundtrip_witness:
  "\<exists>out' r'. seal toy_crypto toy_snow (toy_session 4 9 True) [1, 2, 3] (replicate 40 0) 5 =
      (Inr (length [1, 2, 3 :: u8] + OVERHEAD, out'),
       (toy_session 4 9 True)\<lparr>s_send_counter := s_send_counter (toy_session 4 9 True) + 1\<rparr>) \<and>
    open_packet toy_crypto toy_snow (toy_session 9 4 False)
      (take (length [1, 2, 3 :: u8] + OVERHEAD) out') 100 6 = (Inr [1, 2, 3], r') \<and>
    open_packet toy_crypto toy_snow r' (take (length [1, 2, 3 :: u8] + OVERHEAD) out') 100 7
      = (Inl Replayed, r')"
  by (rule seal_open_roundtrip [where S = "{}"])
    (simp_all add: toy_paired toy_session_def framing_consts is_expired_def saturating_sub_def
      REJECT_AFTER_TIME_def reject_after_messages spec_check_def replay_abs_new)

text \<open>C23. Whatever is asked of a session, no two packets it seals use the same nonce.  Of any run of requests, the
  packets that come out are, in order, what the transport wrote under the counters that follow the session's own
  and the headers that announce them; those are distinct, and none reaches the message limit, so the 64-bit counter
  never wraps.\<close>

theorem nonces_never_repeat:
  assumes "crypto_ok C" and "seal_run C N s reqs = (packets, s')"
  shows "let nonces = map (\<lambda>i. s_send_counter s + of_nat i) [0..<length packets] in
    list_all2 (sealed_under C N s) nonces packets \<and> distinct nonces \<and>
    list_all (\<lambda>n. s_send_counter s \<le> n \<and> n < REJECT_AFTER_MESSAGES) nonces"
  unfolding Let_def
proof (intro conjI)
  let ?ns = "map (\<lambda>i. s_send_counter s + of_nat i) [0..<length packets]"
  note run = seal_run_sealed [OF assms]
  show "list_all2 (sealed_under C N s) ?ns packets"
    using run by blast
  have num: "unat (s_send_counter s + of_nat i) = unat (s_send_counter s) + i \<and>
      unat (s_send_counter s) + i < unat REJECT_AFTER_MESSAGES" if "i < length packets" for i
  proof -
    have "unat (s_send_counter s) + i < unat REJECT_AFTER_MESSAGES"
      using run that by auto
    then show ?thesis
      by (simp add: unat_word_ariths reject_after_messages unsigned_of_nat take_bit_eq_mod)
  qed
  then show "list_all (\<lambda>n. s_send_counter s \<le> n \<and> n < REJECT_AFTER_MESSAGES) ?ns"
    by (simp add: list_all_iff word_le_nat_alt word_less_nat_alt)
  show "distinct ?ns"
    unfolding distinct_map inj_on_def using num by (metis add_left_cancel atLeastLessThan_iff distinct_upt set_upt)
qed

theorem nonces_never_repeat_witness:
  "list_all2 (sealed_under toy_crypto toy_snow (toy_session 4 9 True)) [0, 1]
     (fst (seal_run toy_crypto toy_snow (toy_session 4 9 True)
       [([1], replicate 40 0, 5), ([2], [], 6), ([3], replicate 40 0, 7)]))"
proof -
  let ?run = "seal_run toy_crypto toy_snow (toy_session 4 9 True)
    [([1], replicate 40 0, 5), ([2], [], 6), ([3], replicate 40 0, 7)]"
  have "length (fst ?run) = 2" "s_send_counter (toy_session 4 9 True) = 0"
    by code_simp+
  then show ?thesis
    using nonces_never_repeat [OF toy_crypto_ok, of toy_snow "toy_session 4 9 True" _ "fst ?run" "snd ?run", OF surjective_pairing]
    by (simp add: upt_rec del: seal_run.simps)
qed

text \<open>A session that starts with an empty window accepts no counter twice, whatever packets
  arrive in whatever order.\<close>

theorem session_never_accepts_replay:
  "s_replay s = replay_new \<Longrightarrow> open_all C N s ps = (cs, s') \<Longrightarrow> distinct cs"
  using open_all_counters [of C N s ps cs s' "{}"] rw.abs_init by simp

theorem session_never_accepts_replay_witness:
  "distinct (fst (open_all toy_crypto toy_snow (toy_session 9 4 False)
      [(packet_of toy_crypto (toy_session 4 9 True) (replicate 20 1), 100, 6),
       (packet_of toy_crypto (toy_session 4 9 True) (replicate 20 1), 100, 6)])) \<and>
   fst (open_all toy_crypto toy_snow (toy_session 9 4 False)
      [(packet_of toy_crypto (toy_session 4 9 True) (replicate 20 1), 100, 6),
       (packet_of toy_crypto (toy_session 4 9 True) (replicate 20 1), 100, 6)]) = [0]"
proof -
  have "s_replay (toy_session 9 4 False) = replay_new" by (simp add: toy_session_def)
  note session_never_accepts_replay [OF this surjective_pairing]
  moreover have "fst (open_all toy_crypto toy_snow (toy_session 9 4 False)
      [(packet_of toy_crypto (toy_session 4 9 True) (replicate 20 1), 100, 6),
       (packet_of toy_crypto (toy_session 4 9 True) (replicate 20 1), 100, 6)]) = [0]"
    by code_simp
  ultimately show ?thesis by blast
qed

text \<open>Every failure leaves the session as it was: a packet that is too short, expired, addressed
  to another index, replayed or forged changes neither the window nor the counter, and a refused
  send consumes no nonce.\<close>

theorem failures_leave_session:
  "(open_packet C N s pkt n now = (Inl e, s') \<longrightarrow> s' = s) \<and>
   (seal C N s pt out now = (Inl e, s') \<longrightarrow> s' = s)"
  by (auto dest: open_packet_Inl seal_Inl)

theorem failures_leave_session_witness:
  "open_packet toy_crypto toy_snow (toy_session 9 4 False) (replicate 30 7) 100 6
     = (Inl Rejected, toy_session 9 4 False) \<and>
   seal toy_crypto toy_snow (toy_session 9 4 False) [1] [] 6
     = (Inl (Short 29 0), toy_session 9 4 False)"
proof -
  have o: "fst (open_packet toy_crypto toy_snow (toy_session 9 4 False) (replicate 30 7) 100 6)
      = Inl Rejected"
    and s: "fst (seal toy_crypto toy_snow (toy_session 9 4 False) [1] [] 6) = Inl (Short 29 0)"
    by code_simp+
  from failures_leave_session [of toy_crypto toy_snow "toy_session 9 4 False" "replicate 30 7" 100 6]
    o s show ?thesis by (metis prod.collapse)
qed

text \<open>The initiator is told to rekey strictly before its session is refused: an expired session
  needs a rekey, and one minute earlier it already did.\<close>

theorem rekey_before_expiry:
  "s_is_initiator s \<Longrightarrow> is_expired s now \<Longrightarrow>
     needs_rekey s now \<and> needs_rekey s (now - (REJECT_AFTER_TIME - REKEY_AFTER_TIME))"
  by (auto simp: is_expired_def needs_rekey_def word_le_nat_alt unat_saturating_sub
      REJECT_AFTER_TIME_def REKEY_AFTER_TIME_def unat_sub)

theorem rekey_before_expiry_witness:
  "is_expired (toy_session 4 9 True) 180000 \<and> needs_rekey (toy_session 4 9 True) 180000 \<and>
   needs_rekey (toy_session 4 9 True) (180000 - (REJECT_AFTER_TIME - REKEY_AFTER_TIME))"
proof -
  have "s_is_initiator (toy_session 4 9 True)" "is_expired (toy_session 4 9 True) 180000"
    by code_simp+
  from rekey_before_expiry [OF this] this(2) show ?thesis by blast
qed

section \<open>Properties of the handshake\<close>

text \<open>
  What the IK pattern of \<open>snow\<close> promises for two key pairs: the first message adds 96 bytes
  to its payload, the responder recovers the payload and the initiator's static key, the
  answer adds 48 bytes, the initiator recovers it, and both ends then hold transports that
  read each other.
\<close>

definition ik_second :: "('hs, 'tr) snow \<Rightarrow> 'hs \<Rightarrow> 'hs \<Rightarrow> bool" where
  "ik_second N h1 g1 \<longleftrightarrow>
     (\<forall>q cap. 48 + length q \<le> cap \<longrightarrow>
       (\<exists>m2 g2. hs_write N g1 q cap = Some (m2, g2) \<and> length m2 = 48 + length q \<and>
         (\<forall>cap'. length q \<le> cap' \<longrightarrow>
           (\<exists>h2 ti tr. hs_read N h1 m2 cap' = (Some q, h2) \<and> into_transport N h2 = Some ti \<and>
              into_transport N g2 = Some tr \<and>
              transports_paired N ti tr \<and> transports_paired N tr ti))))"

definition ik_completes ::
  "('hs, 'tr) snow \<Rightarrow> private_key \<Rightarrow> public_key \<Rightarrow> private_key \<Rightarrow> public_key \<Rightarrow> bool" where
  "ik_completes N priv_i pub_i priv_r pub_r \<longleftrightarrow>
     (\<exists>h0 g0. build_initiator N priv_i pub_r = Some h0 \<and> build_responder N priv_r = Some g0 \<and>
       (\<forall>p cap. 96 + length p \<le> cap \<longrightarrow>
         (\<exists>m1 h1. hs_write N h0 p cap = Some (m1, h1) \<and> length m1 = 96 + length p \<and>
           (\<forall>cap'. length p \<le> cap' \<longrightarrow>
             (\<exists>g1. hs_read N g0 m1 cap' = (Some p, g1) \<and> hs_remote_static N g1 = Some pub_i \<and>
                ik_second N h1 g1)))))"

definition sessions_matched :: "('hs, 'tr) snow \<Rightarrow> 'tr session \<Rightarrow> 'tr session \<Rightarrow> bool" where
  "sessions_matched N a b \<longleftrightarrow>
     s_mask a = s_mask b \<and> s_local_index a = s_remote_index b \<and>
     s_remote_index a = s_local_index b \<and> s_epoch a = s_epoch b \<and>
     transports_paired N (s_transport a) (s_transport b) \<and>
     transports_paired N (s_transport b) (s_transport a)"

text \<open>The two ways a packed payload is used: its length, and what unpacking recovers.\<close>

lemma packed_payload:
  obtains p where "get_range (fst (pack_payload i e pad)) 0 (snd (pack_payload i e pad)) = Some p"
    "length p = 8 + min pad 64" "unpack_payload p = (i, e)"
    "snd (pack_payload i e pad) = 8 + min pad 64"
proof -
  have len: "snd (pack_payload i e pad) = 8 + min pad 64"
    by (simp add: pack_payload_def noise_consts)
  then show ?thesis
    using that [of "take (snd (pack_payload i e pad)) (fst (pack_payload i e pad))"]
      unpack_pack [of i e pad]
    by (simp add: get_range_def noise_consts)
qed

lemma initiator_start_ok:
  assumes C: "crypto_ok C" and b: "build_initiator N priv pub_r = Some h0"
    and w: "get_range (fst (pack_payload idx ep pad)) 0 (snd (pack_payload idx ep pad)) = Some p"
      "length p = 8 + min pad 64" "hs_write N h0 p (104 + min pad 64) = Some (m1, h1)"
    and len: "length m1 = 96 + length p"
  shows "initiator_start C N priv pub_i pub_r idx ep pad =
    Inr (\<lparr>i_state = Some h1, i_responder_static = pub_r, i_local_static = pub_i,
          i_local_index = idx, i_epoch = ep\<rparr>, m1 @ mac1 C pub_r m1)"
proof -
  have snd: "snd (pack_payload idx ep pad) = 8 + min pad 64"
    by (simp add: pack_payload_def noise_consts)
  have buf: "message_buffer m1 (120 + min pad 64) = m1 @ replicate MAC1_LEN 0"
    using w(2) len by (intro message_buffer_exact) (simp add: noise_consts)
  show ?thesis
    using b w len buf C
    by (simp add: initiator_start_def snd noise_consts Let_def case_prod_beta
        seal_mac1_eq [unfolded noise_consts])
qed

lemma responder_read_ok:
  assumes C: "crypto_ok C" and len: "length m1 = 104 + min pad 64"
    and b: "build_responder N priv = Some g0"
    and rd: "hs_read N g0 m1 72 = (Some p, g1)" "length p = 8 + min pad 64"
      "unpack_payload p = (idx, ep)"
    and st: "hs_remote_static N g1 = Some pub_i" "length pub_i = 32"
  shows "responder_read C N priv pub_r (m1 @ mac1 C pub_r m1) =
    Inr \<lparr>p_state = g1, p_responder_static = pub_r, p_initiator_static = pub_i,
         p_remote_index = idx, p_epoch = ep\<rparr>"
  using assms length_mac1 [OF C, of pub_r m1] verify_seal_mac1 [OF C, of pub_r m1]
  by (simp add: responder_read_def noise_consts KEY_LEN_def)

lemma responder_accept_ok:
  assumes C: "crypto_ok C"
    and w: "get_range (fst (pack_payload idx (p_epoch pr) pad)) 0
        (snd (pack_payload idx (p_epoch pr) pad)) = Some q" "length q = 8 + min pad 64"
      "hs_write N (p_state pr) q (56 + min pad 64) = Some (m2, g2)" "length m2 = 48 + length q"
    and t: "into_transport N g2 = Some t"
  shows "responder_accept C N pr idx now pad =
    Inr (\<lparr>s_transport = t, s_mask = derive C (p_responder_static pr), s_local_index = idx,
          s_remote_index = p_remote_index pr, s_send_counter = 0, s_replay = replay_new,
          s_established = now, s_is_initiator = False, s_epoch = p_epoch pr\<rparr>,
         m2 @ mac1 C (p_initiator_static pr) m2)"
proof -
  have snd: "snd (pack_payload idx (p_epoch pr) pad) = 8 + min pad 64"
    by (simp add: pack_payload_def noise_consts)
  have buf: "message_buffer m2 (72 + min pad 64) = m2 @ replicate MAC1_LEN 0"
    using w(2,4) by (intro message_buffer_exact) (simp add: noise_consts)
  show ?thesis
    using w t buf C
    by (simp add: responder_accept_def snd noise_consts Let_def case_prod_beta
        seal_mac1_eq [unfolded noise_consts])
qed

lemma initiator_finish_ok:
  assumes C: "crypto_ok C" and len: "length m2 = 56 + min pad 64"
    and st: "i_state ini = Some h1" "hs_read N h1 m2 72 = (Some q, h2)" "length q = 8 + min pad 64"
      "unpack_payload q = (idx, i_epoch ini)"
    and t: "into_transport N h2 = Some t"
  shows "initiator_finish C N ini (m2 @ mac1 C (i_local_static ini) m2) now =
    (Inr \<lparr>s_transport = t, s_mask = derive C (i_responder_static ini),
          s_local_index = i_local_index ini, s_remote_index = idx, s_send_counter = 0,
          s_replay = replay_new, s_established = now, s_is_initiator = True,
          s_epoch = i_epoch ini\<rparr>, ini\<lparr>i_state := None\<rparr>)"
  using assms length_mac1 [OF C, of "i_local_static ini" m2]
    verify_seal_mac1 [OF C, of "i_local_static ini" m2]
  by (simp add: initiator_finish_def noise_consts)

text \<open>C5. For two authorised key pairs the handshake completes in two messages: whatever indices,
  epoch and padding are chosen, the responder learns the initiator's key and epoch, the messages
  have the lengths the format allows, and the two sessions match, so each opens what the other
  seals.\<close>

theorem handshake_completes:
  assumes C: "crypto_ok C" and ik: "ik_completes N priv_i pub_i priv_r pub_r"
    and key: "key_ok pub_i"
  shows "\<exists>ini msg1 pr s_r msg2 s_i.
    initiator_start C N priv_i pub_i pub_r idx_i ep pad_i = Inr (ini, msg1) \<and>
    length msg1 = MSG1_LEN + min pad_i MAX_PAD \<and>
    responder_read C N priv_r pub_r msg1 = Inr pr \<and>
    p_initiator_static pr = pub_i \<and> p_epoch pr = ep \<and>
    responder_accept C N pr idx_r now_r pad_r = Inr (s_r, msg2) \<and>
    length msg2 = MSG2_LEN + min pad_r MAX_PAD \<and>
    initiator_finish C N ini msg2 now_i = (Inr s_i, ini\<lparr>i_state := None\<rparr>) \<and>
    sessions_matched N s_i s_r \<and> s_is_initiator s_i \<and> \<not> s_is_initiator s_r \<and> s_epoch s_i = ep"
proof -
  obtain p where p: "get_range (fst (pack_payload idx_i ep pad_i)) 0 (snd (pack_payload idx_i ep pad_i)) = Some p"
    "length p = 8 + min pad_i 64" "unpack_payload p = (idx_i, ep)"
    by (rule packed_payload)
  obtain q where q: "get_range (fst (pack_payload idx_r ep pad_r)) 0 (snd (pack_payload idx_r ep pad_r)) = Some q"
    "length q = 8 + min pad_r 64" "unpack_payload q = (idx_r, ep)"
    by (rule packed_payload)
  from ik obtain h0 g0 where h0: "build_initiator N priv_i pub_r = Some h0"
    and g0: "build_responder N priv_r = Some g0"
    and first: "\<And>p cap. 96 + length p \<le> cap \<Longrightarrow>
      \<exists>m1 h1. hs_write N h0 p cap = Some (m1, h1) \<and> length m1 = 96 + length p \<and>
        (\<forall>cap'. length p \<le> cap' \<longrightarrow> (\<exists>g1. hs_read N g0 m1 cap' = (Some p, g1) \<and>
           hs_remote_static N g1 = Some pub_i \<and> ik_second N h1 g1))"
    unfolding ik_completes_def by blast
  have "96 + length p \<le> 104 + min pad_i 64" "length p \<le> 72" using p(2) by simp_all
  with first obtain m1 h1 g1
    where m1: "hs_write N h0 p (104 + min pad_i 64) = Some (m1, h1)" "length m1 = 96 + length p"
    and g1: "hs_read N g0 m1 72 = (Some p, g1)" "hs_remote_static N g1 = Some pub_i"
      "ik_second N h1 g1"
    by blast
  have "48 + length q \<le> 56 + min pad_r 64" "length q \<le> 72" using q(2) by simp_all
  with g1(3) obtain m2 g2 h2 ti tr
    where m2: "hs_write N g1 q (56 + min pad_r 64) = Some (m2, g2)" "length m2 = 48 + length q"
    and h2: "hs_read N h1 m2 72 = (Some q, h2)" "into_transport N h2 = Some ti"
      "into_transport N g2 = Some tr" "transports_paired N ti tr" "transports_paired N tr ti"
    unfolding ik_second_def by blast
  let ?ini = "\<lparr>i_state = Some h1, i_responder_static = pub_r, i_local_static = pub_i,
    i_local_index = idx_i, i_epoch = ep\<rparr>"
  let ?pr = "\<lparr>p_state = g1, p_responder_static = pub_r, p_initiator_static = pub_i,
    p_remote_index = idx_i, p_epoch = ep\<rparr>"
  have "initiator_start C N priv_i pub_i pub_r idx_i ep pad_i = Inr (?ini, m1 @ mac1 C pub_r m1)"
    using initiator_start_ok [OF C h0 p(1,2) m1] .
  moreover have "responder_read C N priv_r pub_r (m1 @ mac1 C pub_r m1) = Inr ?pr"
    using key m1(2) p(2) by (intro responder_read_ok [OF C _ g0 g1(1) p(2,3) g1(2)])
      (simp_all add: key_ok_def KEY_LEN_def)
  moreover have "responder_accept C N ?pr idx_r now_r pad_r = Inr
     (\<lparr>s_transport = tr, s_mask = derive C pub_r, s_local_index = idx_r, s_remote_index = idx_i,
       s_send_counter = 0, s_replay = replay_new, s_established = now_r, s_is_initiator = False,
       s_epoch = ep\<rparr>, m2 @ mac1 C pub_i m2)"
    using responder_accept_ok [of C idx_r ?pr pad_r q N m2 g2 tr now_r] C q(1,2) m2 h2(3) by simp
  moreover have "initiator_finish C N ?ini (m2 @ mac1 C pub_i m2) now_i = (Inr
     \<lparr>s_transport = ti, s_mask = derive C pub_r, s_local_index = idx_i, s_remote_index = idx_r,
       s_send_counter = 0, s_replay = replay_new, s_established = now_i, s_is_initiator = True,
       s_epoch = ep\<rparr>, ?ini\<lparr>i_state := None\<rparr>)"
    using initiator_finish_ok [of C m2 pad_r ?ini h1 N q h2 idx_r ti now_i] C m2(2) q(2,3) h2(1,2)
    by simp
  moreover have "length (m1 @ mac1 C pub_r m1) = MSG1_LEN + min pad_i MAX_PAD"
    "length (m2 @ mac1 C pub_i m2) = MSG2_LEN + min pad_r MAX_PAD"
    using m1(2) m2(2) p(2) q(2) length_mac1 [OF C] by (simp_all add: noise_consts)
  ultimately show ?thesis
    using h2(4,5) by (auto simp: sessions_matched_def)
qed

text \<open>The toy handshake satisfies what the theorem asks of \<open>snow\<close>.\<close>

lemma toy_ik: "length k = 32 \<Longrightarrow> ik_completes toy_snow k k priv pub"
  by (auto simp: ik_completes_def ik_second_def toy_snow_def toy_paired [unfolded toy_snow_def])

theorem handshake_completes_witness:
  "\<exists>ini msg1 pr s_r msg2 s_i.
    initiator_start toy_crypto toy_snow (replicate 32 1) (replicate 32 1) (replicate 32 2) 7 99 3
      = Inr (ini, msg1) \<and>
    length msg1 = MSG1_LEN + min 3 MAX_PAD \<and>
    responder_read toy_crypto toy_snow (replicate 32 4) (replicate 32 2) msg1 = Inr pr \<and>
    p_initiator_static pr = replicate 32 1 \<and> p_epoch pr = 99 \<and>
    responder_accept toy_crypto toy_snow pr 8 11 100 = Inr (s_r, msg2) \<and>
    length msg2 = MSG2_LEN + min 100 MAX_PAD \<and>
    initiator_finish toy_crypto toy_snow ini msg2 12 = (Inr s_i, ini\<lparr>i_state := None\<rparr>) \<and>
    sessions_matched toy_snow s_i s_r \<and> s_is_initiator s_i \<and> \<not> s_is_initiator s_r \<and>
    s_epoch s_i = 99"
  by (rule handshake_completes) (simp_all add: toy_ik key_ok_def KEY_LEN_def)

text \<open>Nobody can cancel a handshake by forging its answer: given that a failed read leaves the
  Noise state as it was, a reply that \<open>finish\<close> refuses leaves the initiator unchanged unless its
  contents authenticated under the handshake keys.\<close>

theorem forged_reply_keeps_handshake:
  assumes restore: "\<And>h m cap h'. hs_read N h m cap = (None, h') \<Longrightarrow> h' = h"
    and fin: "initiator_finish C N ini msg2 now = (Inl e, ini')"
    and forged: "\<And>h body p h'. i_state ini = Some h \<Longrightarrow> verify_mac1 C (i_local_static ini) msg2 = Inr body
      \<Longrightarrow> hs_read N h body (PAYLOAD_LEN + MAX_PAD) \<noteq> (Some p, h')"
  shows "ini' = ini"
  using fin
  by (auto simp: initiator_finish_def forged
      split: if_splits sum.splits option.splits prod.splits dest: restore)

theorem forged_reply_keeps_handshake_witness:
  "initiator_finish toy_crypto (toy_snow\<lparr>hs_read := \<lambda>h m cap. (None, h)\<rparr>)
     \<lparr>i_state = Some ToyWaiting, i_responder_static = [], i_local_static = replicate 32 1,
      i_local_index = 7, i_epoch = 99\<rparr>
     (replicate 56 0 @ mac1 toy_crypto (replicate 32 1) (replicate 56 0)) 5
   = (Inl Rejected, \<lparr>i_state = Some ToyWaiting, i_responder_static = [],
      i_local_static = replicate 32 1, i_local_index = 7, i_epoch = 99\<rparr>)"
proof -
  let ?N = "toy_snow\<lparr>hs_read := \<lambda>h m cap. (None, h)\<rparr>"
  let ?ini = "\<lparr>i_state = Some ToyWaiting, i_responder_static = [],
    i_local_static = replicate 32 1, i_local_index = 7, i_epoch = 99\<rparr> :: toy_hs initiator"
  let ?m = "replicate 56 0 @ mac1 toy_crypto (replicate 32 1) (replicate 56 0)"
  have "fst (initiator_finish toy_crypto ?N ?ini ?m 5) = Inl Rejected"
    by code_simp
  then have fin: "initiator_finish toy_crypto ?N ?ini ?m 5
      = (Inl Rejected, snd (initiator_finish toy_crypto ?N ?ini ?m 5))"
    by (metis prod.collapse)
  have "snd (initiator_finish toy_crypto ?N ?ini ?m 5) = ?ini"
    by (rule forged_reply_keeps_handshake [OF _ fin]) simp_all
  with fin show ?thesis by simp
qed

text \<open>A SYN numbered by \<open>syn_tag\<close> proves itself to a responder whose clock is in the same
  period or one period off, in either direction.\<close>

theorem syn_tag_accepted_nearby:
  "period' \<in> {period - 1, period, period + 1} \<Longrightarrow>
     syn_tag_matches C k period' ts (syn_tag C k period ts)"
  by (auto simp: syn_tag_matches_def)

theorem syn_tag_accepted_nearby_witness:
  "syn_tag_matches toy_crypto (replicate 32 2) 41 17 (syn_tag toy_crypto (replicate 32 2) 40 17)"
  using syn_tag_accepted_nearby [of 41 40 toy_crypto "replicate 32 2" 17] by simp

text \<open>The block of echo identifiers a peering uses lies in a Linux host's ephemeral range: the
  computation does not overflow sixteen bits, the block starts at or above 32768 and its last
  identifier is below 61000.\<close>

theorem icmp_block_in_ephemeral_range:
  "32768 \<le> unat (icmp_id_base C r i) \<and> unat (icmp_id_base C r i) + 255 \<le> 60999 \<and>
   (unat (icmp_id_base C r i) - 32768) mod 256 = 0"
proof -
  obtain h where h: "icmp_id_base C r i = ucast (32768 + (h mod 109) * (256 :: u32))"
    by (simp add: icmp_id_base_def ICMP_IDS_def Let_def)
  define k where "k = unat h mod 109"
  have k: "k \<le> 108" by (simp add: k_def)
  then have "unat (32768 + (h mod 109) * (256 :: u32)) = 32768 + k * 256"
    by (simp add: unat_word_ariths unat_mod k_def)
  then have "unat (icmp_id_base C r i) = 32768 + k * 256"
    using k by (simp add: h unsigned_ucast_eq take_bit_eq_mod)
  with k show ?thesis by simp
qed

end
