(* ===== verification/Wire.thy ===== *)
theory Wire
  imports Endpoint Rawip Noise
begin

text \<open>
  The seam of \<open>paqetz/src/tunnel.rs\<close> between the tunnel and its carrier: the enum \<open>Wire\<close> and its
  operations, the construction of a carrier from the configuration (\<open>Tunnel::wire\<close>), the reading of a
  captured frame (\<open>Tunnel::parse\<close>) and the taking up of a connection (\<open>Tunnel::take_up\<close>).  A
  \<open>tunnel_config\<close> holds the settings these read.  It ends with what a segment does to the numbering at the
  other end once it is read this way.
\<close>

section \<open>Settings\<close>

datatype shape = ShapeTcp carrier_mode | ShapeRaw shell

text \<open>The outer settings of one tunnel (\<open>TunnelConfig\<close> and the fields of \<open>Tunnel\<close> derived from it).\<close>

record tunnel_config =
  tc_shape :: shape
  tc_profile :: os_profile
  tc_sequencing :: sequencing
  tc_spoof_records :: bool
  tc_fragment_never :: bool
  tc_carrier_mss :: u16
  tc_is_initiator :: bool
  tc_local_public :: public_key
  tc_private :: private_key
  tc_peer_public :: public_key
  tc_clock_secret :: u32
  tc_icmp_ids :: "(u16 \<times> u16) option"

section \<open>The carrier in use\<close>

datatype wire = WTcp endpoint | WRaw raw_carrier

fun wire_data :: "wire \<Rightarrow> bytes \<Rightarrow> bytes \<Rightarrow> Millis \<Rightarrow> bool \<Rightarrow> nat option \<Rightarrow> sent_result \<times> wire" where
  "wire_data (WTcp c) payload out now push rec = map_prod id WTcp (data c payload out now push rec)"
| "wire_data (WRaw c) payload out now push rec = map_prod id WRaw (raw_data c payload out)"

fun wire_bare :: "wire \<Rightarrow> bytes \<Rightarrow> bytes \<Rightarrow> Millis \<Rightarrow> bool \<Rightarrow> sent_result \<times> wire" where
  "wire_bare (WTcp c) payload out now push = map_prod id WTcp (bare c payload out now push)"
| "wire_bare (WRaw c) payload out now push = map_prod id WRaw (raw_data c payload out)"

fun wire_at_record_boundary :: "wire \<Rightarrow> bool" where
  "wire_at_record_boundary (WTcp c) = at_record_boundary c"
| "wire_at_record_boundary (WRaw _) = True"

fun wire_owes_ack :: "wire \<Rightarrow> bool" where
  "wire_owes_ack (WTcp c) = owes_ack c"
| "wire_owes_ack (WRaw _) = False"

text \<open>\<open>c.ack(out, now).ok()\<close>: a failed acknowledgement is no acknowledgement.\<close>

fun wire_ack :: "wire \<Rightarrow> bytes \<Rightarrow> Millis \<Rightarrow> (nat \<times> bytes) option \<times> wire" where
  "wire_ack (WTcp c) out now =
     (case ack c out now of (Inl _, c') \<Rightarrow> (None, WTcp c') | (Inr r, c') \<Rightarrow> (Some r, WTcp c'))"
| "wire_ack (WRaw c) out now = (None, WRaw c)"

fun wire_remote :: "wire \<Rightarrow> sock" where
  "wire_remote (WTcp c) = e_remote c"
| "wire_remote (WRaw c) = (rw_remote c, raw_id c)"

fun wire_is_ready :: "wire \<Rightarrow> bool" where
  "wire_is_ready (WTcp c) = is_ready c"
| "wire_is_ready (WRaw _) = True"

fun wire_names_another_connection :: "wire \<Rightarrow> segment \<Rightarrow> bool" where
  "wire_names_another_connection (WTcp c) seg = names_another_connection c seg"
| "wire_names_another_connection (WRaw _) seg = False"

fun wire_tcp :: "wire \<Rightarrow> endpoint option" where
  "wire_tcp (WTcp c) = Some c"
| "wire_tcp (WRaw _) = None"

fun wire_set_remote :: "wire \<Rightarrow> sock \<Rightarrow> wire" where
  "wire_set_remote (WTcp c) remote = WTcp (set_remote c remote)"
| "wire_set_remote (WRaw c) remote = WRaw (raw_set_remote c (fst remote))"

fun wire_on_receive :: "wire \<Rightarrow> segment \<Rightarrow> wire" where
  "wire_on_receive (WTcp c) seg = WTcp (snd (on_receive c seg))"
| "wire_on_receive (WRaw c) seg = WRaw (answer_as c (snd (g_src seg)) (ucast (g_seq seg AND 0xFFFF)))"

section \<open>Building a carrier\<close>

definition make_wire :: "tunnel_config \<Rightarrow> role \<Rightarrow> sock \<Rightarrow> sock \<Rightarrow> u32 \<times> u32 \<times> u32 \<Rightarrow> wire" where
  "make_wire cfg role local_sock remote numbers =
     (case tc_shape cfg of
        ShapeTcp mode \<Rightarrow>
          WTcp (endpoint_new
            \<lparr>cf_local = local_sock, cf_remote = remote, cf_profile = tc_profile cfg, cf_role = role,
             cf_carrier = mode, cf_isn = fst numbers, cf_peer_isn = fst (snd numbers),
             cf_ts_base = snd (snd numbers), cf_sequencing = tc_sequencing cfg,
             cf_records = tc_spoof_records cfg, cf_dont_fragment = tc_fragment_never cfg,
             cf_mss = Some (tc_carrier_mss cfg)\<rparr>)
      | ShapeRaw sh \<Rightarrow>
          WRaw (raw_new
            \<lparr>rc_local = fst local_sock, rc_remote = fst remote, rc_profile = tc_profile cfg,
             rc_shell = sh, rc_dont_fragment = tc_fragment_never cfg,
             rc_echo = \<lparr>ec_reply = (role = Responder),
                        ec_id = (case role of Initiator \<Rightarrow> snd local_sock | Responder \<Rightarrow> snd remote),
                        ec_seq = 0\<rparr>\<rparr>))"

definition tunnel_opening :: "tunnel_config \<Rightarrow> carrier_mode option" where
  "tunnel_opening cfg = (case tc_shape cfg of ShapeTcp mode \<Rightarrow> Some mode | ShapeRaw _ \<Rightarrow> None)"

definition initiator_carrier :: "crypto \<Rightarrow> tunnel_config \<Rightarrow> sock \<Rightarrow> sock \<Rightarrow> u32 \<Rightarrow> wire" where
  "initiator_carrier C cfg local_sock peer epoch =
     make_wire cfg Initiator local_sock peer
       (carrier_numbers C epoch (tc_local_public cfg) (tc_peer_public cfg))"

text \<open>The largest payload of one segment, and whether a sealed payload fills it.\<close>

definition carrier_payload :: "tunnel_config \<Rightarrow> nat" where
  "carrier_payload cfg = unat (tc_carrier_mss cfg) - option_len Data (tc_profile cfg)"

definition fills_a_segment :: "tunnel_config \<Rightarrow> nat \<Rightarrow> bool" where
  "fills_a_segment cfg sealed \<longleftrightarrow>
     sealed + (if tc_spoof_records cfg then RECORD_HEADER else 0) \<ge> carrier_payload cfg"

section \<open>Reading a frame\<close>

text \<open>\<open>ours\<close> is this end's own outer address.\<close>

definition tunnel_parse :: "tunnel_config \<Rightarrow> ipv4 \<Rightarrow> bytes \<Rightarrow> segment option" where
  "tunnel_parse cfg ours frame =
     (case tc_shape cfg of
        ShapeTcp _ \<Rightarrow> do {
          seg \<leftarrow> segment_parse_ethernet frame;
          Some (if tc_spoof_records cfg
                then (case unwrap_record (g_payload seg) of
                        Some inner \<Rightarrow> seg\<lparr>g_payload := inner\<rparr> | None \<Rightarrow> seg)
                else seg)
        }
      | ShapeRaw sh \<Rightarrow> do {
          got \<leftarrow> raw_parse_ethernet frame sh;
          if rx_src got = ours \<and> ours \<noteq> Ipv4 0 0 0 0 then None
          else if (case tc_icmp_ids cfg of
                     Some (base, width) \<Rightarrow> rx_id got - base \<ge> width | None \<Rightarrow> False) then None
          else Some \<lparr>g_src = (rx_src got, rx_id got), g_dst = (rx_dst got, rx_id got),
                     g_seq = ucast (rx_seq got), g_ack = 0, g_flags = 0, g_window = 0,
                     g_ts_val = None, g_payload = rx_payload got\<rparr>
        })"

section \<open>Taking up a connection\<close>

definition responder_clock :: "crypto \<Rightarrow> tunnel_config \<Rightarrow> sock \<Rightarrow> u32" where
  "responder_clock C cfg from =
     responder_ts_base C (tc_private cfg) (tc_clock_secret cfg) (octets (fst from), snd from)"

definition take_up ::
  "crypto \<Rightarrow> tunnel_config \<Rightarrow> wire \<Rightarrow> segment \<Rightarrow> bool \<Rightarrow> bytes \<Rightarrow> Millis
     \<Rightarrow> (wire_error + (nat \<times> bytes) option) \<times> wire" where
  "take_up C cfg w seg fresh out now =
     (let answering = (fresh \<and> \<not> tc_is_initiator cfg) in
      case w of
        WTcp c \<Rightarrow>
          if answering \<and> e_carrier c = Handshake
          then (Inr None, WTcp (rejoin c seg (responder_clock C cfg (g_src seg))))
          else if answering \<and> e_carrier c = FakeHandshake
          then (let c1 = snd (on_receive (set_remote c (g_src seg)) seg) in
                case answer c1 (g_seq seg) out now of
                  (Inl err, c2) \<Rightarrow> (Inl err, WTcp c2)
                | (Inr r, c2) \<Rightarrow> (Inr (Some r), WTcp c2))
          else (Inr None, wire_on_receive (wire_set_remote w (g_src seg)) seg)
      | WRaw _ \<Rightarrow> (Inr None, wire_on_receive (wire_set_remote w (g_src seg)) seg))"

section \<open>The wire as a carrier\<close>

text \<open>A captured frame: link addresses, the ethertype, the datagram.\<close>

definition captured :: "bytes \<Rightarrow> bytes" where
  "captured packet = replicate 12 0 @ to_be_bytes 2 ETHERTYPE_IPV4 @ packet"

lemma captured_reads [simp]:
  "get_from (captured packet) ETH_LEN = Some packet" "be16_at (captured packet) 12 = Some ETHERTYPE_IPV4"
proof -
  have "captured packet = replicate 12 0 @ ucast (drop_bit 8 ETHERTYPE_IPV4) # ucast ETHERTYPE_IPV4 # packet"
    by (simp add: captured_def to_be_bytes_2)
  moreover have "replicate 12 (0 :: u8) = [0, 0, 0, 0, 0, 0, 0, 0, 0, 0, 0, 0]" by (simp add: numeral_eq_Suc)
  ultimately show "be16_at (captured packet) 12 = Some ETHERTYPE_IPV4" by (simp add: be16_at_def)
  show "get_from (captured packet) ETH_LEN = Some packet"
    by (simp add: captured_def get_from_def segment_consts)
qed

text \<open>A wire that fits the receiver's settings, its fixed cost and the longest payload it takes.\<close>

definition wire_suits :: "tunnel_config \<Rightarrow> ipv4 \<Rightarrow> wire \<Rightarrow> bool" where
  "wire_suits cfg ours w =
     (case (tc_shape cfg, w) of
        (ShapeTcp _, WTcp e) \<Rightarrow> is_ready e \<and> e_profile e \<in> set ALL_profiles \<and>
          e_records e = tc_spoof_records cfg \<and> e_record_left e = 0
      | (ShapeRaw sh, WRaw c) \<Rightarrow> rw_shell c = sh \<and> (rw_local c \<noteq> ours \<or> ours = Ipv4 0 0 0 0) \<and>
          (case tc_icmp_ids cfg of
             Some (base, width) \<Rightarrow> (if sh = Icmp then ec_id (rw_echo c) else 0) - base < width
           | None \<Rightarrow> True)
      | _ \<Rightarrow> False)"

definition wire_overhead :: "wire \<Rightarrow> nat" where
  "wire_overhead w =
     (case w of WTcp _ \<Rightarrow> MAX_OVERHEAD + RECORD_HEADER | WRaw c \<Rightarrow> shell_overhead (rw_shell c))"

definition wire_limit :: "wire \<Rightarrow> nat" where
  "wire_limit w = (case w of WTcp _ \<Rightarrow> MAX_SPAN | WRaw c \<Rightarrow> 65535 - shell_overhead (rw_shell c))"

definition read_payload :: "tunnel_config \<Rightarrow> ipv4 \<Rightarrow> bytes \<Rightarrow> bytes option" where
  "read_payload cfg ours packet = map_option g_payload (tunnel_parse cfg ours (captured packet))"

lemma data_on_wire_bytes:
  assumes "data e payload out now push rec = (Inr (n, buf), e')"
  shows "segment_parse_ipv4 (take n buf) = Some (read_back Data (e_profile e) (endpoint_fields e Data now push)
      (wire_payload e payload rec))"
    and "length buf = length out" and "e_profile e \<in> set ALL_profiles \<Longrightarrow>
      n \<le> MAX_OVERHEAD + length (wire_payload e payload rec)"
    and "n \<le> length buf"
proof -
  show "segment_parse_ipv4 (take n buf) = Some (read_back Data (e_profile e) (endpoint_fields e Data now push)
      (wire_payload e payload rec))"
    using data_sent(3) [OF assms] by (simp add: on_wire_def)
  note u = assms [unfolded data_unfold [OF data_sent(1) [OF assms]] Let_def]
  have "\<exists>parts. concat parts = wire_payload e payload rec \<and>
      emit_parts Data (e_profile e) (endpoint_fields e Data now push) parts out = Inr (n, buf)"
  proof (cases "e_records e \<and> e_record_left e = 0")
    case True
    then obtain h where h: "record_header (case rec of Some r \<Rightarrow> r | None \<Rightarrow> length payload) = Some h"
      using data_sent(4) [OF assms] by auto
    have "emit_parts Data (e_profile e) (endpoint_fields e Data now push) [h, payload] out = Inr (n, buf)"
      using u True h by (auto simp: count_sent_def endpoint_emit_parts_def split: prod.splits sum.splits if_splits)
    then show ?thesis using True h by (intro exI [of _ "[h, payload]"]) (simp add: wire_payload_def)
  next
    case False
    then have "emit_parts Data (e_profile e) (endpoint_fields e Data now push) [payload] out = Inr (n, buf)"
      using u by (auto simp: count_sent_def endpoint_emit_parts_def split: prod.splits sum.splits if_splits)
    then show ?thesis using False by (intro exI [of _ "[payload]"]) (auto simp: wire_payload_def)
  qed
  then obtain parts where p: "concat parts = wire_payload e payload rec"
    and em: "emit_parts Data (e_profile e) (endpoint_fields e Data now push) parts out = Inr (n, buf)" by blast
  note i = emit_parts_Inr [OF em]
  have n: "length (take n buf) = n" using i(3,6) by (simp add: p)
  then show "n \<le> length buf" by simp
  show "length buf = length out" using n i(4,7) by (metis append_take_drop_id length_append length_drop le_add_diff_inverse)
  show "n \<le> MAX_OVERHEAD + length (wire_payload e payload rec)" if "e_profile e \<in> set ALL_profiles"
    using profile_options_fit(3) [OF that, of Data] i(3) p
    by (simp add: packet_len_def MAX_OVERHEAD_def)
qed

lemma tcp_send_recv:
  assumes suits: "wire_suits cfg ours (WTcp e)" and len: "length payload \<le> MAX_SPAN"
    and room: "MAX_OVERHEAD + RECORD_HEADER + length payload \<le> length out"
  shows "\<exists>n buf e'. data e payload out now push None = (Inr (n, buf), e') \<and>
    n \<le> MAX_OVERHEAD + RECORD_HEADER + length payload \<and> length buf = length out \<and>
    read_payload cfg ours (take n buf) = Some payload \<and> wire_suits cfg ours (WTcp e')"
proof -
  obtain m where shape: "tc_shape cfg = ShapeTcp m"
    and e: "is_ready e" "e_profile e \<in> set ALL_profiles" "e_records e = tc_spoof_records cfg" "e_record_left e = 0"
    using suits by (auto simp: wire_suits_def split: shape.splits)
  have "room_for out (length payload + RECORD_HEADER)"
    using len room by (simp add: room_for_def MAX_SPAN_def MAX_RECORD_def RECORD_HEADER_def)
  then obtain v e' where d: "data e payload out now push None = (Inr v, e')"
    using data_succeeds [OF e(1,2), of out payload None now push] len by auto
  obtain n buf where v: "v = (n, buf)" by (cases v)
  note b = data_on_wire_bytes [OF d [unfolded v]]
  have w: "length (wire_payload e payload None) \<le> RECORD_HEADER + length payload"
    by (auto simp: wire_payload_def record_header_def RECORD_HEADER_def split: option.split if_splits)
  have unwrap: "unwrap_record (wire_payload e payload None) = Some payload" if spoof: "tc_spoof_records cfg"
  proof -
    obtain h where h: "record_header (length payload) = Some h"
      using data_sent(4) [OF d] spoof e(3,4) by auto
    then show ?thesis using unwrap_header [OF h, of payload] spoof e(3,4) by (simp add: wire_payload_def)
  qed
  have plain: "wire_payload e payload None = payload" if "\<not> tc_spoof_records cfg"
    using that e(3) by (simp add: wire_payload_def)
  have "read_payload cfg ours (take n buf) = Some payload"
    using b(1) shape unwrap plain by (simp add: read_payload_def tunnel_parse_def segment_parse_ethernet_def)
  moreover have "wire_suits cfg ours (WTcp e')"
    using e shape unfolding data_sent(2) [OF d]
    by (simp add: wire_suits_def is_ready_def is_established_def record_after_def split: carrier_mode.splits role.splits)
  ultimately show ?thesis using d v b(2) b(3) [OF e(2)] w by (auto simp: wire_suits_def)
qed

lemma raw_send_recv:
  assumes suits: "wire_suits cfg ours (WRaw c)" and len: "length payload \<le> 65535 - shell_overhead (rw_shell c)"
    and room: "shell_overhead (rw_shell c) + length payload \<le> length out"
  shows "\<exists>n buf c'. raw_data c payload out = (Inr (n, buf), c') \<and>
    n \<le> shell_overhead (rw_shell c) + length payload \<and> length buf = length out \<and>
    read_payload cfg ours (take n buf) = Some payload \<and> wire_suits cfg ours (WRaw c') \<and> rw_shell c' = rw_shell c"
proof -
  obtain sh where shape: "tc_shape cfg = ShapeRaw sh" "rw_shell c = sh"
    and ok: "rw_local c \<noteq> ours \<or> ours = Ipv4 0 0 0 0"
      "case tc_icmp_ids cfg of Some (base, width) \<Rightarrow> (if sh = Icmp then ec_id (rw_echo c) else 0) - base < width | None \<Rightarrow> True"
    using suits by (auto simp: wire_suits_def split: shape.splits)
  have "shell_overhead sh \<le> 28" by (cases sh) (simp_all add: shell_overhead_def raw_consts IPV4_LEN_def)
  then have n: "shell_overhead (rw_shell c) + length payload < 65536" using len shape(2) by simp
  let ?c1 = "c\<lparr>rw_counter := rw_counter c + 1\<rparr>"
  let ?n = "shell_overhead sh + length payload"
  have send: "raw_data c payload out = (Inr (?n, raw_packet ?c1 payload @ drop ?n out), ?c1)"
    using n room shape by (simp add: raw_data_eq Let_def)
  have "raw_parse_ipv4 (raw_packet ?c1 payload) sh = Some (raw_read_back ?c1 payload)"
    using parse_raw_packet [of ?c1 payload "[]"] n shape by simp
  then have "read_payload cfg ours (raw_packet ?c1 payload) = Some payload"
    using ok shape
    by (auto simp: read_payload_def tunnel_parse_def raw_parse_ethernet_def raw_read_back_def not_le split: option.splits)
  moreover have "wire_suits cfg ours (WRaw ?c1)"
    using suits by (auto simp: wire_suits_def split: shape.splits option.splits)
  ultimately show ?thesis using send room shape by auto
qed

interpretation wire: carrier "\<lambda>w payload out. wire_data w payload out now push None"
  "read_payload cfg ours" "wire_suits cfg ours" wire_overhead wire_limit for cfg ours now push
proof
  fix w :: wire and payload out :: bytes
  assume suits: "wire_suits cfg ours w" and len: "length payload \<le> wire_limit w"
    and room: "wire_overhead w + length payload \<le> length out"
  show "\<exists>n buf s'. wire_data w payload out now push None = (Inr (n, buf), s') \<and>
      n \<le> wire_overhead w + length payload \<and> length buf = length out \<and>
      read_payload cfg ours (take n buf) = Some payload \<and>
      wire_suits cfg ours s' \<and> wire_overhead s' = wire_overhead w \<and> wire_limit s' = wire_limit w"
  proof (cases w)
    case (WTcp e)
    then show ?thesis
      using tcp_send_recv [of cfg ours e payload out now push] suits len room
      by (auto simp: wire_overhead_def wire_limit_def)
  next
    case (WRaw c)
    then show ?thesis
      using raw_send_recv [of cfg ours c payload out] suits len room
      by (auto simp: wire_overhead_def wire_limit_def)
  qed
qed

section \<open>Properties\<close>


definition sample_tunnel :: "shape \<Rightarrow> bool \<Rightarrow> bool \<Rightarrow> tunnel_config" where
  "sample_tunnel sh recs initiates =
     \<lparr>tc_shape = sh, tc_profile = LINUX_6, tc_sequencing = Stream, tc_spoof_records = recs,
      tc_fragment_never = True, tc_carrier_mss = 1400, tc_is_initiator = initiates,
      tc_local_public = [1], tc_private = [2], tc_peer_public = [3], tc_clock_secret = 4, tc_icmp_ids = None\<rparr>"


lemma remote_kept [simp]:
  "e_remote (advance e stop) = e_remote e" "e_remote (establish e) = e_remote e"
  "e_remote (note_arrival e seg) = e_remote e" "e_remote (set_remote e r) = r"
  "e_remote (rejoin e seg t) = g_src seg"
  by (simp_all add: advance_def establish_def note_arrival_def set_remote_def rejoin_def Let_def split: option.split)

lemma on_receive_remote [simp]: "e_remote (snd (on_receive e seg)) = e_remote e"
  by (simp add: on_receive_def Let_def)

lemma answer_remote: "answer e ak out now = (r, e') \<Longrightarrow> e_remote e' = e_remote e"
  by (auto simp: answer_def Let_def split: sum.splits)

text \<open>Roaming.  Taking up an authenticated segment leaves the carrier addressing the place it came
  from, whatever the shape, the opening and the outcome: a TCP carrier its address and port, a replying
  ping its address and echo identifier, any other raw carrier the address.\<close>

theorem take_up_follows_peer:
  "case take_up C cfg w seg fresh out now of (r, w') \<Rightarrow>
     fst (wire_remote w') = fst (g_src seg) \<and>
     (case w of
        WTcp _ \<Rightarrow> wire_remote w' = g_src seg
      | WRaw c \<Rightarrow> snd (wire_remote w') = (if ec_reply (rw_echo c) then snd (g_src seg) else raw_id c))"
proof (cases w)
  case (WTcp c)
  let ?c1 = "snd (on_receive (set_remote c (g_src seg)) seg)"
  obtain r c2 where a: "answer ?c1 (g_seq seg) out now = (r, c2)" by fastforce
  have "e_remote c2 = g_src seg" using answer_remote [OF a] by simp
  then show ?thesis using a by (cases r) (simp_all add: take_up_def WTcp Let_def)
next
  case (WRaw c)
  then show ?thesis by (simp add: take_up_def Let_def answer_as_def raw_set_remote_def raw_id_def)
qed

lemma receive_counts:
  assumes "e_phase r = Established" and "e_peer_next r = Some sq" and "payload \<noteq> []" and "length payload < 2 ^ 31"
    and "f_seq f = sq"
  shows "e_peer_next (snd (on_receive r (read_back Data p f payload))) = Some (sq + of_nat (length payload))"
    and "e_phase (snd (on_receive r (read_back Data p f payload))) = Established"
proof -
  let ?seg = "read_back Data p f payload"
  let ?r' = "advance (note_arrival r ?seg) (sq + of_nat (length payload))"
  have recv: "snd (on_receive r ?seg) = ?r'"
    using receive_data [of r sq Data payload p f] assms by simp
  have "unat (of_nat (length payload) :: u32) = length payload" "0 < length payload"
    using assms(3,4) by (simp_all add: unsigned_of_nat take_bit_eq_mod)
  then have "unat (- (of_nat (length payload) :: u32)) > 2 ^ 20"
    using assms(4) unat_sub_if' [of 0 "of_nat (length payload) :: u32"] by simp
  then show "e_peer_next (snd (on_receive r ?seg)) = Some (sq + of_nat (length payload))"
    using assms(2) by (simp add: recv advance_eq REORDER_SPAN_def word_less_nat_alt)
  show "e_phase (snd (on_receive r ?seg)) = Established"
    using assms(1) by (simp add: recv)
qed

lemma stripped_payload:
  assumes "e_records s \<and> e_record_left s = 0 \<Longrightarrow> record_header (case rec of Some r \<Rightarrow> r | None \<Rightarrow> length payload) \<noteq> None"
    and fits: "length payload \<le> (case rec of Some n \<Rightarrow> n | None \<Rightarrow> length payload)"
    and "unwrap_record payload = None \<or> \<not> e_records s \<or> e_record_left s = 0"
  shows "length (wire_payload s payload rec) =
      (if e_records s \<and> e_record_left s = 0 then RECORD_HEADER else 0) + length payload \<and>
    (case (if e_records s then unwrap_record (wire_payload s payload rec) else None) of
       Some inner \<Rightarrow> inner | None \<Rightarrow> wire_payload s payload rec) = payload"
proof (cases "e_records s \<and> e_record_left s = 0")
  case True
  then obtain h where h: "record_header (case rec of Some r \<Rightarrow> r | None \<Rightarrow> length payload) = Some h"
    using assms(1) by auto
  then have "wire_payload s payload rec = h @ payload" "length h = RECORD_HEADER"
    using True by (auto simp: wire_payload_def record_header_def RECORD_HEADER_def split: if_splits)
  then show ?thesis
    using True unwrap_header [OF h fits] by simp
next
  case False
  then show ?thesis
    using assms(3) by (auto simp: wire_payload_def)
qed

text \<open>C27. Numbering and delivery over the wire, in stream mode, when the receiver expects the byte the sender sends next.
  A data segment is captured, read the way the tunnel reads it, record header off first, and folded in: its
  sequence number is the byte expected and its payload is what was sent.  Without a record header in front the
  receiver expects the sender's next byte afterwards.  With one it does not: the header is gone before the carrier
  counts, so the receiver expects, and will acknowledge, a byte five short of the one its peer sends next.  Inside
  a record the payload must not itself read as a record, or the parser takes its first bytes for a header.\<close>

theorem delivery_in_step:
  assumes sent: "data s payload out now push rec = (Inr (n, buf), s')" and step: "in_step s r" and "payload \<noteq> []"
    and fits: "length payload \<le> (case rec of Some n \<Rightarrow> n | None \<Rightarrow> length payload)"
    and cfg: "tc_shape cfg = ShapeTcp m" "tc_spoof_records cfg = e_records s"
    and plain: "unwrap_record payload = None \<or> \<not> e_records s \<or> e_record_left s = 0"
  shows "\<exists>seg r'. tunnel_parse cfg ours (captured (take n buf)) = Some seg \<and> g_seq seg = next_seq s \<and>
    g_payload seg = payload \<and> wire_on_receive (WTcp r) seg = WTcp r' \<and>
    (if e_records s \<and> e_record_left s = 0
     then e_peer_next r' = Some (next_seq s' - of_nat RECORD_HEADER)
     else in_step s' r')"
proof -
  let ?opens = "e_records s \<and> e_record_left s = 0"
  let ?w = "wire_payload s payload rec"
  let ?f = "endpoint_fields s Data now push"
  let ?seg = "read_back Data (e_profile s) ?f payload"
  let ?r' = "snd (on_receive r ?seg)"
  have st: "e_sequencing s = Stream" "e_phase r = Established" "e_peer_next r = Some (next_seq s)"
    using step by (simp_all add: in_step_def)
  note d = data_sent [OF sent]
  have w: "length ?w = (if ?opens then RECORD_HEADER else 0) + length payload"
    "(case (if e_records s then unwrap_record ?w else None) of Some inner \<Rightarrow> inner | None \<Rightarrow> ?w) = payload"
    using stripped_payload [OF d(4) fits plain] by blast+
  have "tunnel_parse cfg ours (captured (take n buf)) =
      Some (read_back Data (e_profile s) ?f ?w\<lparr>g_payload :=
        case (if e_records s then unwrap_record ?w else None) of Some inner \<Rightarrow> inner | None \<Rightarrow> ?w\<rparr>)"
    using data_on_wire_bytes(1) [OF sent] cfg
    by (simp add: tunnel_parse_def segment_parse_ethernet_def read_back_def split: option.split)
  then have parsed: "tunnel_parse cfg ours (captured (take n buf)) = Some ?seg"
    unfolding w(2) by (simp add: read_back_def)
  have small: "length payload < 2 ^ 31" using d(5) w(1) by simp
  have next_sent: "next_seq s' = next_seq s + of_nat (length ?w)" "e_sequencing s' = Stream"
    using next_seq_after [OF st(1) d(2)] by simp_all
  have "f_seq ?f = next_seq s"
    by (simp add: endpoint_fields_def)
  from receive_counts [OF st(2,3) assms(3) small this]
  have "e_peer_next ?r' = Some (next_seq s + of_nat (length payload))" "e_phase ?r' = Established" .
  then show ?thesis
    using parsed next_sent w(1) by (intro exI [of _ ?seg] exI [of _ ?r']) (auto simp: read_back_def in_step_def endpoint_fields_def)
qed

theorem delivery_in_step_witness:
  "\<exists>n buf s' seg r'. data (fst (sample_pair True)) [1, 2, 3] (replicate 1500 0) 50 True None = (Inr (n, buf), s') \<and>
     tunnel_parse (sample_tunnel (ShapeTcp Midstream) True False) (Ipv4 10 0 0 1) (captured (take n buf)) = Some seg \<and>
     g_payload seg = [1, 2, 3] \<and> wire_on_receive (WTcp (snd (sample_pair True))) seg = WTcp r' \<and>
     e_peer_next r' = Some (next_seq s' - of_nat RECORD_HEADER)"
proof -
  have "room_for (replicate 1500 0) (length ([1, 2, 3] :: bytes) + RECORD_HEADER)"
    by (simp add: room_for_def MAX_OVERHEAD_def segment_consts RECORD_HEADER_def)
  then obtain n buf s' where d: "data (fst (sample_pair True)) [1, 2, 3] (replicate 1500 0) 50 True None = (Inr (n, buf), s')"
    using data_succeeds [of "fst (sample_pair True)" "replicate 1500 0" "[1, 2, 3]" None 50 True]
    by (auto simp: sample_pair_def endpoint_new_def sample_config_def is_ready_def is_established_def
        ALL_profiles_def Let_def MAX_SPAN_def MAX_RECORD_def)
  have step: "in_step (fst (sample_pair True)) (snd (sample_pair True))"
    by (simp add: in_step_def sample_pair_def endpoint_new_def sample_config_def next_seq_def Let_def)
  have "e_records (fst (sample_pair True))" "e_record_left (fst (sample_pair True)) = 0"
    by (simp_all add: sample_pair_def endpoint_new_def sample_config_def Let_def)
  then show ?thesis
    using delivery_in_step [OF d step, of "sample_tunnel (ShapeTcp Midstream) True False" Midstream "Ipv4 10 0 0 1"] d
    by (auto simp: sample_tunnel_def simp del: wire_on_receive.simps)
qed

end
