(* ===== verification/Peer.thy ===== *)
theory Peer
  imports Repeat Wire
begin

text \<open>
  What the tunnel keeps per peer (\<open>PeerState\<close> of \<open>paqetz/src/tunnel.rs\<close>): the session in use, the
  one waiting to be confirmed and the one being read out, the carrier, and the clocks that decide when
  to handshake, move, knock, keep alive and give up.  Operations take and return the state; random
  draws are arguments (\<open>None\<close> when the operating system has none to give).
\<close>

section \<open>Constants\<close>

definition REKEY_JITTER :: Millis where "REKEY_JITTER = 20000"
definition RETRY_WHEN_GONE :: Millis where "RETRY_WHEN_GONE = 30000"
definition REJOIN_AFTER :: Millis where "REJOIN_AFTER = 1000"
definition CONFIRM_RETRY :: Millis where "CONFIRM_RETRY = 1000"
definition CONFIRM_TRIES :: u8 where "CONFIRM_TRIES = 4"
definition REKEY_TIMEOUT :: Millis where "REKEY_TIMEOUT = 5000"
definition REKEY_TIMEOUT_JITTER :: Millis where "REKEY_TIMEOUT_JITTER = 334"
definition REKEY_ATTEMPT_TIME :: Millis where "REKEY_ATTEMPT_TIME = 90000"
definition KEEPALIVE_TIMEOUT :: Millis where "KEEPALIVE_TIMEOUT = 10000"
definition PRESUMED_DEAD :: Millis where "PRESUMED_DEAD = KEEPALIVE_TIMEOUT + REKEY_TIMEOUT"
definition PORT_POOL :: nat where "PORT_POOL = 20"
definition ROTATE_AFTER :: Millis where "ROTATE_AFTER = 15 * 60 * 1000"
definition ROTATE_JITTER :: Millis where "ROTATE_JITTER = 5 * 60 * 1000"
definition ROTATE_AFTER_UNANSWERED :: u32 where "ROTATE_AFTER_UNANSWERED = 4"
definition SYN_RETRY :: Millis where "SYN_RETRY = 1000"
definition SYN_RETRY_MAX :: Millis where "SYN_RETRY_MAX = 8000"
definition STANDBY_LEAD :: Millis where "STANDBY_LEAD = 500"
definition STANDBY_LEAD_MIN :: Millis where "STANDBY_LEAD_MIN = 100"
definition SYN_PERIOD_SECS :: u64 where "SYN_PERIOD_SECS = 120"
definition SYN_FRESH :: Millis where "SYN_FRESH = SYN_PERIOD_SECS * 1000 div 2"
definition SYN_LEDGER_LEN :: nat where "SYN_LEDGER_LEN = 256"
definition SYN_LEDGER_KEEP :: Millis where "SYN_LEDGER_KEEP = 3 * SYN_PERIOD_SECS * 1000"

abbreviation Millis_MAX :: Millis where "Millis_MAX \<equiv> - 1"

lemmas peer_consts = REKEY_JITTER_def RETRY_WHEN_GONE_def REJOIN_AFTER_def CONFIRM_RETRY_def
  CONFIRM_TRIES_def REKEY_TIMEOUT_def REKEY_TIMEOUT_JITTER_def REKEY_ATTEMPT_TIME_def
  KEEPALIVE_TIMEOUT_def PRESUMED_DEAD_def SYN_RETRY_def SYN_RETRY_MAX_def STANDBY_LEAD_def
  STANDBY_LEAD_MIN_def SYN_PERIOD_SECS_def SYN_FRESH_def SYN_LEDGER_LEN_def SYN_LEDGER_KEEP_def

section \<open>Rotation\<close>

record rotation =
  ro_enabled :: bool
  ro_after :: Millis
  ro_jitter :: Millis
  ro_ports :: nat
  ro_unanswered :: u32
  ro_packets :: "u64 option"
  ro_bytes :: "u64 option"
  ro_silence :: "Millis option"

definition rotation_default :: rotation where
  "rotation_default =
     \<lparr>ro_enabled = True, ro_after = ROTATE_AFTER, ro_jitter = ROTATE_JITTER, ro_ports = PORT_POOL,
      ro_unanswered = ROTATE_AFTER_UNANSWERED, ro_packets = None, ro_bytes = None, ro_silence = None\<rparr>"

definition rotation_interval :: "rotation \<Rightarrow> u32 option \<Rightarrow> Millis" where
  "rotation_interval ro rnd =
     (let spread = (case rnd of None \<Rightarrow> 0 | Some r \<Rightarrow> ucast r mod (2 * ro_jitter ro + 1))
      in saturating_sub (saturating_add (ro_after ro) spread) (ro_jitter ro))"

definition handshake_pad :: "u32 option \<Rightarrow> nat" where
  "handshake_pad rnd = (case rnd of None \<Rightarrow> 0 | Some r \<Rightarrow> unat r mod (MAX_PAD + 1))"

datatype move = Stuck | Scheduled | Spent | Silent

fun position :: "u16 \<Rightarrow> u16 list \<Rightarrow> nat option" where
  "position x [] = None"
| "position x (y # ys) = (if x = y then Some 0 else map_option Suc (position x ys))"

definition next_port :: "u16 list \<Rightarrow> u16 \<Rightarrow> u16" where
  "next_port ports current =
     (case position current ports of
        None \<Rightarrow> current
      | Some at \<Rightarrow> (case get ports ((at + 1) mod length ports) of Some p \<Rightarrow> p | None \<Rightarrow> current))"

definition syn_backoff :: "u32 \<Rightarrow> Millis" where
  "syn_backoff tries =
     min (saturating_mul SYN_RETRY (push_bit (unat (min (saturating_sub tries 1) 3)) 1)) SYN_RETRY_MAX"

section \<open>The state\<close>

datatype cover_flight = CoverNothing | CoverOpening | CoverFinished

record ('hs, 'tr) peer_state =
  ps_session :: "'tr session option"
  ps_next :: "'tr session option"
  ps_previous :: "'tr session option"
  ps_pending :: "'hs initiator option"
  ps_carrier :: "wire option"
  ps_outbox :: outbox
  ps_inbox :: inbox
  ps_endpoint :: "sock option"
  ps_last_handshake :: Millis
  ps_rekey_at :: Millis
  ps_retry_at :: Millis
  ps_attempt_started :: "Millis option"
  ps_last_receive :: "Millis option"
  ps_last_send :: "Millis option"
  ps_last_keepalive :: "Millis option"
  ps_confirm_owed :: bool
  ps_confirm_tries :: u8
  ps_resume_at :: Millis
  ps_rotate_at :: Millis
  ps_reported_mtu :: "u16 option"
  ps_unanswered :: u32
  ps_last_data_receive :: "Millis option"
  ps_syn_tries :: u32
  ps_syn_retry_at :: Millis
  ps_opened_at :: Millis
  ps_carried_packets :: u64
  ps_carried_bytes :: u64
  ps_quiet_since :: "Millis option"
  ps_heard_at :: "Millis option"
  ps_syn_rtt :: "Millis option"
  ps_cover_due :: cover_flight
  ps_cover_session :: "bytes option"
  ps_standby :: "wire option"
  ps_standby_opened_at :: Millis

definition peer_new :: "sock option \<Rightarrow> limits \<Rightarrow> ('hs, 'tr) peer_state" where
  "peer_new endp l =
     \<lparr>ps_session = None, ps_next = None, ps_previous = None, ps_pending = None, ps_carrier = None,
      ps_outbox = outbox_new l, ps_inbox = inbox_new l, ps_endpoint = endp, ps_last_handshake = 0,
      ps_rekey_at = Millis_MAX, ps_retry_at = 0, ps_attempt_started = None, ps_last_receive = None,
      ps_last_send = None, ps_last_keepalive = None, ps_confirm_owed = False, ps_confirm_tries = 0,
      ps_resume_at = 0, ps_rotate_at = Millis_MAX, ps_reported_mtu = None, ps_unanswered = 0,
      ps_last_data_receive = None, ps_syn_tries = 0, ps_syn_retry_at = 0, ps_opened_at = 0,
      ps_carried_packets = 0, ps_carried_bytes = 0, ps_quiet_since = None, ps_heard_at = None,
      ps_syn_rtt = None, ps_cover_due = CoverNothing, ps_cover_session = None, ps_standby = None,
      ps_standby_opened_at = 0\<rparr>"

definition replace_carrier :: "('hs, 'tr) peer_state \<Rightarrow> wire \<Rightarrow> ('hs, 'tr) peer_state" where
  "replace_carrier st w =
     st\<lparr>ps_carrier := Some w, ps_carried_packets := 0, ps_carried_bytes := 0, ps_quiet_since := None,
        ps_heard_at := None, ps_cover_due := CoverOpening\<rparr>"

definition carried :: "('hs, 'tr) peer_state \<Rightarrow> nat \<Rightarrow> ('hs, 'tr) peer_state" where
  "carried st payload =
     st\<lparr>ps_carried_packets := saturating_add (ps_carried_packets st) 1,
        ps_carried_bytes := saturating_add (ps_carried_bytes st)
          (if payload < 2 ^ 64 then of_nat payload else - 1)\<rparr>"

section \<open>Clocks and decisions\<close>

text \<open>\<open>since.is_some_and(|t| now.saturating_sub(t) >= span)\<close>.\<close>

definition elapsed :: "Millis \<Rightarrow> Millis option \<Rightarrow> Millis \<Rightarrow> bool" where
  "elapsed now since span = (case since of None \<Rightarrow> False | Some t \<Rightarrow> saturating_sub now t \<ge> span)"

definition stuck :: "('hs, 'tr) peer_state \<Rightarrow> Millis \<Rightarrow> u32 \<Rightarrow> bool" where
  "stuck st now after \<longleftrightarrow> ps_unanswered st \<ge> after \<and>
     (case ps_last_receive st of None \<Rightarrow> True | Some heard \<Rightarrow> saturating_sub now heard \<ge> PRESUMED_DEAD)"

definition move_due ::
  "('hs, 'tr) peer_state \<Rightarrow> Millis \<Rightarrow> rotation \<Rightarrow> u32 option \<Rightarrow> move option \<times> ('hs, 'tr) peer_state" where
  "move_due st now ro rnd =
     (if stuck st now (ro_unanswered ro) then (Some Stuck, st)
      else if ps_session st = None then (None, st)
      else
        let st1 = (if ps_rotate_at st = Millis_MAX
                   then st\<lparr>ps_rotate_at := saturating_add now (rotation_interval ro rnd)\<rparr> else st)
        in if now \<ge> ps_rotate_at st1 then (Some Scheduled, st1)
           else if (case ro_packets ro of None \<Rightarrow> False | Some n \<Rightarrow> ps_carried_packets st1 \<ge> n)
                \<or> (case ro_bytes ro of None \<Rightarrow> False | Some n \<Rightarrow> ps_carried_bytes st1 \<ge> n)
           then (Some Spent, st1)
           else if (case ro_silence ro of None \<Rightarrow> False
                    | Some quiet \<Rightarrow> elapsed now (ps_quiet_since st1) quiet \<or> elapsed now (ps_heard_at st1) quiet)
           then (Some Silent, st1)
           else (None, st1))"

definition standby_lead :: "('hs, 'tr) peer_state \<Rightarrow> Millis" where
  "standby_lead st =
     (case ps_syn_rtt st of
        None \<Rightarrow> STANDBY_LEAD
      | Some rtt \<Rightarrow> min (max (saturating_mul rtt 4) STANDBY_LEAD_MIN) STANDBY_LEAD)"

definition move_near :: "('hs, 'tr) peer_state \<Rightarrow> Millis \<Rightarrow> rotation \<Rightarrow> bool" where
  "move_near st now ro =
     (let near = (\<lambda>c limit. case limit of None \<Rightarrow> False
                            | Some n \<Rightarrow> saturating_mul c 4 \<ge> saturating_mul n 3)
      in saturating_add now (standby_lead st) \<ge> ps_rotate_at st
         \<or> near (ps_carried_packets st) (ro_packets ro) \<or> near (ps_carried_bytes st) (ro_bytes ro))"

definition exhausted :: "('hs, 'tr) peer_state \<Rightarrow> Millis \<Rightarrow> bool" where
  "exhausted st now = elapsed now (ps_attempt_started st) REKEY_ATTEMPT_TIME"

definition revive :: "('hs, 'tr) peer_state \<Rightarrow> Millis \<Rightarrow> bool" where
  "revive st now \<longleftrightarrow> exhausted st now \<and> ps_session st = None \<and>
     saturating_sub now (ps_last_handshake st) \<ge> RETRY_WHEN_GONE"

definition presumed_dead :: "('hs, 'tr) peer_state \<Rightarrow> Millis \<Rightarrow> bool" where
  "presumed_dead st now =
     (case ps_last_send st of
        None \<Rightarrow> False
      | Some spoke \<Rightarrow>
          let heard = (case ps_last_receive st of None \<Rightarrow> 0 | Some h \<Rightarrow> h)
          in spoke > heard \<and> saturating_sub now heard \<ge> PRESUMED_DEAD)"

definition wants_handshake :: "('hs, 'tr) peer_state \<Rightarrow> Millis \<Rightarrow> bool" where
  "wants_handshake st now =
     (if now < ps_resume_at st then False
      else
        let waited = (now \<ge> ps_retry_at st) in
        case ps_session st of
          None \<Rightarrow> if exhausted st now then revive st now else ps_pending st = None \<or> waited
        | Some s \<Rightarrow> waited \<and>
            (s_is_initiator s \<and> (now \<ge> ps_rekey_at st \<or> s_send_counter s \<ge> REKEY_AFTER_MESSAGES)
             \<or> presumed_dead st now))"

definition knock_due :: "('hs, 'tr) peer_state \<Rightarrow> Millis \<Rightarrow> bool" where
  "knock_due st now \<longleftrightarrow> now \<ge> ps_syn_retry_at st \<and> (ps_session st \<noteq> None \<or> wants_handshake st now)"

definition syn_stale :: "('hs, 'tr) peer_state \<Rightarrow> Millis \<Rightarrow> bool" where
  "syn_stale st now \<longleftrightarrow> saturating_sub now (ps_opened_at st) \<ge> SYN_FRESH"

text \<open>\<open>Option::get_or_insert\<close>.\<close>

definition get_or_insert :: "'a option \<Rightarrow> 'a \<Rightarrow> 'a option" where
  "get_or_insert x v = (case x of None \<Rightarrow> Some v | Some _ \<Rightarrow> x)"

definition sent_syn :: "('hs, 'tr) peer_state \<Rightarrow> Millis \<Rightarrow> ('hs, 'tr) peer_state" where
  "sent_syn st now =
     (let tries = saturating_add (ps_syn_tries st) 1 in
      st\<lparr>ps_syn_tries := tries, ps_syn_retry_at := saturating_add now (syn_backoff tries),
         ps_unanswered := saturating_add (ps_unanswered st) 1, ps_last_handshake := now,
         ps_attempt_started := get_or_insert (ps_attempt_started st) now\<rparr>)"

definition wants_to_send :: "('hs, 'tr) peer_state \<Rightarrow> ('hs, 'tr) peer_state" where
  "wants_to_send st = st\<lparr>ps_attempt_started := None\<rparr>"

definition established :: "('hs, 'tr) peer_state \<Rightarrow> Millis \<Rightarrow> Millis \<Rightarrow> ('hs, 'tr) peer_state" where
  "established st now rekey_after =
     st\<lparr>ps_rekey_at := saturating_add now rekey_after, ps_last_receive := Some now, ps_last_send := None,
        ps_last_keepalive := None, ps_last_data_receive := None, ps_attempt_started := None,
        ps_resume_at := 0, ps_unanswered := 0\<rparr>"

definition farewell :: "('hs, 'tr) peer_state \<Rightarrow> Millis \<Rightarrow> ('hs, 'tr) peer_state" where
  "farewell st now =
     st\<lparr>ps_session := None, ps_next := None, ps_previous := None, ps_pending := None,
        ps_confirm_owed := False, ps_confirm_tries := 0, ps_last_send := None, ps_last_keepalive := None,
        ps_last_data_receive := None, ps_attempt_started := None,
        ps_resume_at := saturating_add now REJOIN_AFTER, ps_outbox := outbox_clear (ps_outbox st)\<rparr>"

text \<open>\<open>Option\<close>'s ordering: \<open>None\<close> is below every \<open>Some\<close>.\<close>

definition last_spoke :: "('hs, 'tr) peer_state \<Rightarrow> Millis" where
  "last_spoke st =
     (case (ps_last_send st, ps_last_keepalive st) of
        (None, None) \<Rightarrow> 0 | (Some a, None) \<Rightarrow> a | (None, Some b) \<Rightarrow> b | (Some a, Some b) \<Rightarrow> max a b)"

definition owes_keepalive :: "('hs, 'tr) peer_state \<Rightarrow> Millis \<Rightarrow> bool" where
  "owes_keepalive st now =
     (case ps_last_data_receive st of
        None \<Rightarrow> False
      | Some heard \<Rightarrow> last_spoke st < heard \<and> saturating_sub now heard \<ge> KEEPALIVE_TIMEOUT)"

definition owes_persistent :: "('hs, 'tr) peer_state \<Rightarrow> Millis \<Rightarrow> Millis \<Rightarrow> bool" where
  "owes_persistent st now every \<longleftrightarrow> saturating_sub now (last_spoke st) \<ge> every"

definition owes_empty :: "('hs, 'tr) peer_state \<Rightarrow> Millis \<Rightarrow> bool \<Rightarrow> Millis option \<Rightarrow> bool" where
  "owes_empty st now keepalive persistent =
     (if ps_confirm_owed st
      then (case ps_last_keepalive st of None \<Rightarrow> True | Some spoke \<Rightarrow> saturating_sub now spoke \<ge> CONFIRM_RETRY)
      else keepalive \<and> owes_keepalive st now
           \<or> (case persistent of None \<Rightarrow> False | Some every \<Rightarrow> owes_persistent st now every))"

section \<open>Sessions\<close>

definition peer_mask :: "('hs, 'tr) peer_state \<Rightarrow> header_mask option" where
  "peer_mask st =
     map_option s_mask (case ps_session st of Some s \<Rightarrow> Some s
       | None \<Rightarrow> (case ps_previous st of Some s \<Rightarrow> Some s | None \<Rightarrow> ps_next st))"

definition install :: "('hs, 'tr) peer_state \<Rightarrow> 'tr session \<Rightarrow> ('hs, 'tr) peer_state" where
  "install st s =
     st\<lparr>ps_outbox := outbox_clear (ps_outbox st), ps_previous := ps_session st, ps_session := Some s,
        ps_next := None, ps_confirm_owed := True, ps_confirm_tries := 0\<rparr>"

definition accept_session :: "('hs, 'tr) peer_state \<Rightarrow> 'tr session \<Rightarrow> ('hs, 'tr) peer_state" where
  "accept_session st s = st\<lparr>ps_next := Some s\<rparr>"

definition confirm :: "('hs, 'tr) peer_state \<Rightarrow> ('hs, 'tr) peer_state" where
  "confirm st =
     (case ps_next st of
        None \<Rightarrow> st
      | Some s \<Rightarrow> st\<lparr>ps_next := None, ps_outbox := outbox_clear (ps_outbox st),
                     ps_previous := ps_session st, ps_session := Some s\<rparr>)"

definition retire_expired :: "('hs, 'tr) peer_state \<Rightarrow> Millis \<Rightarrow> ('hs, 'tr) peer_state" where
  "retire_expired st now =
     (let keep = (\<lambda>slot. case slot of None \<Rightarrow> None | Some s \<Rightarrow> if is_expired s now then None else Some s)
      in st\<lparr>ps_session := keep (ps_session st), ps_previous := keep (ps_previous st),
            ps_next := keep (ps_next st)\<rparr>)"

text \<open>Errors that send the packet on to the next session.\<close>

definition not_this_one :: "core_error + bytes \<Rightarrow> bool" where
  "not_this_one r \<longleftrightarrow> r = Inl Rejected \<or> r = Inl Expired"

definition open_waiting ::
  "crypto \<Rightarrow> ('hs, 'tr) snow \<Rightarrow> ('hs, 'tr) peer_state \<Rightarrow> bytes \<Rightarrow> nat \<Rightarrow> Millis \<Rightarrow> (core_error + bytes) option
     \<Rightarrow> (core_error + bytes) option \<times> ('hs, 'tr) peer_state" where
  "open_waiting C N st packet out_len now tried =
     (case ps_next st of
        None \<Rightarrow> (tried, st)
      | Some waiting \<Rightarrow>
          (case open_packet C N waiting packet out_len now of
             (Inl e, s') \<Rightarrow> (Some (Inl e), st\<lparr>ps_next := Some s'\<rparr>)
           | (Inr plain, s') \<Rightarrow> (Some (Inr plain), confirm (st\<lparr>ps_next := Some s'\<rparr>))))"

definition open_previous ::
  "crypto \<Rightarrow> ('hs, 'tr) snow \<Rightarrow> ('hs, 'tr) peer_state \<Rightarrow> bytes \<Rightarrow> nat \<Rightarrow> Millis \<Rightarrow> (core_error + bytes) option
     \<Rightarrow> (core_error + bytes) option \<times> ('hs, 'tr) peer_state" where
  "open_previous C N st packet out_len now tried =
     (case ps_previous st of
        None \<Rightarrow> open_waiting C N st packet out_len now tried
      | Some previous \<Rightarrow>
          let (r, s') = open_packet C N previous packet out_len now;
              st1 = st\<lparr>ps_previous := Some s'\<rparr>
          in if not_this_one r then open_waiting C N st1 packet out_len now (Some r)
             else (Some r, st1))"

definition peer_open ::
  "crypto \<Rightarrow> ('hs, 'tr) snow \<Rightarrow> ('hs, 'tr) peer_state \<Rightarrow> bytes \<Rightarrow> nat \<Rightarrow> Millis
     \<Rightarrow> (core_error + bytes) option \<times> ('hs, 'tr) peer_state" where
  "peer_open C N st packet out_len now =
     (case ps_session st of
        None \<Rightarrow> open_previous C N st packet out_len now None
      | Some current \<Rightarrow>
          let (r, s') = open_packet C N current packet out_len now;
              st1 = st\<lparr>ps_session := Some s'\<rparr>
          in if not_this_one r then open_previous C N st1 packet out_len now (Some r)
             else (Some r, if isl r then st1 else st1\<lparr>ps_confirm_owed := False, ps_confirm_tries := 0\<rparr>))"

section \<open>What the handlers note\<close>

text \<open>\<open>Tunnel::rekey_after\<close> and \<open>Tunnel::rekey_interval\<close>.\<close>

definition rekey_after :: "u32 option \<Rightarrow> Millis" where
  "rekey_after rnd =
     REKEY_AFTER_TIME + (case rnd of None \<Rightarrow> REKEY_JITTER | Some r \<Rightarrow> ucast r mod (2 * REKEY_JITTER + 1))
       - REKEY_JITTER"

definition rekey_interval :: "u32 option \<Rightarrow> Millis" where
  "rekey_interval rnd =
     REKEY_TIMEOUT + (case rnd of None \<Rightarrow> 0 | Some r \<Rightarrow> ucast r mod REKEY_TIMEOUT_JITTER)"

text \<open>A handshake gone out (\<open>maybe_handshake\<close>), an empty packet gone out (\<open>maybe_keepalive\<close>), a frame
  gone out (\<open>seal_into\<close>), an authenticated packet come in (\<open>handle_transport\<close>).\<close>

definition note_handshake ::
  "('hs, 'tr) peer_state \<Rightarrow> 'hs initiator \<Rightarrow> Millis \<Rightarrow> u32 option \<Rightarrow> ('hs, 'tr) peer_state" where
  "note_handshake st ini now rnd =
     st\<lparr>ps_pending := Some ini, ps_last_handshake := now,
        ps_retry_at := saturating_add now (rekey_interval rnd),
        ps_attempt_started := get_or_insert (ps_attempt_started st) now,
        ps_unanswered := saturating_add (ps_unanswered st) 1\<rparr>"

definition note_keepalive :: "('hs, 'tr) peer_state \<Rightarrow> Millis \<Rightarrow> ('hs, 'tr) peer_state" where
  "note_keepalive st now =
     (let st1 = st\<lparr>ps_last_keepalive := Some now\<rparr> in
      if ps_confirm_owed st1
      then let tries = saturating_add (ps_confirm_tries st1) 1
           in st1\<lparr>ps_confirm_tries := tries, ps_confirm_owed := (tries < CONFIRM_TRIES)\<rparr>
      else st1)"

definition note_sent :: "('hs, 'tr) peer_state \<Rightarrow> bytes \<Rightarrow> nat \<Rightarrow> Millis \<Rightarrow> ('hs, 'tr) peer_state" where
  "note_sent st packet sealed_len now =
     carried (if packet \<noteq> []
              then st\<lparr>ps_last_send := Some now, ps_quiet_since := get_or_insert (ps_quiet_since st) now\<rparr>
              else st) sealed_len"

definition note_received :: "('hs, 'tr) peer_state \<Rightarrow> nat \<Rightarrow> nat \<Rightarrow> Millis \<Rightarrow> ('hs, 'tr) peer_state" where
  "note_received st n payload_len now =
     (let st1 = carried (st\<lparr>ps_last_receive := Some now, ps_quiet_since := None, ps_heard_at := Some now\<rparr>)
                  payload_len
      in if n > 0 then st1\<lparr>ps_last_data_receive := Some now\<rparr> else st1)"

section \<open>Answered SYNs\<close>

type_synonym syn_ledger = "(u32 \<times> sock \<times> Millis) list"

fun ledger_expire :: "Millis \<Rightarrow> syn_ledger \<Rightarrow> syn_ledger" where
  "ledger_expire now [] = []"
| "ledger_expire now ((sq, from, at) # seen) =
     (if saturating_sub now at > SYN_LEDGER_KEEP then ledger_expire now seen else (sq, from, at) # seen)"

definition admit :: "syn_ledger \<Rightarrow> u32 \<Rightarrow> sock \<Rightarrow> Millis \<Rightarrow> bool \<times> syn_ledger" where
  "admit ledger sq from now =
     (let seen = ledger_expire now ledger in
      case find (\<lambda>e. fst e = sq) seen of
        Some (_, first, _) \<Rightarrow> (first = from, seen)
      | None \<Rightarrow>
          (let seen1 = (if length seen \<ge> SYN_LEDGER_LEN then tl seen else seen)
           in (True, seen1 @ [(sq, from, now)])))"

section \<open>Which session answers\<close>

lemma open_packet_other:
  assumes "peek_header C (s_mask t) packet = Inr hdr" and "h_index hdr \<noteq> s_local_index t"
  shows "not_this_one (fst (open_packet C N t packet n now))" "snd (open_packet C N t packet n now) = t"
  using assms
  by (auto simp: open_packet_def peek_header_def not_this_one_def Let_def rbind_def split: sum.splits prod.splits)

text \<open>The three slots, in the order they are tried.\<close>

definition held :: "('hs, 'tr) peer_state \<Rightarrow> 'tr session list" where
  "held st = List.map_filter id [ps_session st, ps_previous st, ps_next st]"

lemma in_held: "s \<in> set (held st) \<longleftrightarrow> s \<in> set_option (ps_session st) \<or> s \<in> set_option (ps_previous st) \<or> s \<in> set_option (ps_next st)"
  by (auto simp: held_def map_filter_def)

lemma open_waiting_refused:
  assumes "open_waiting C N st packet n now tried = (r, st')" and "\<not> (\<exists>plain. r = Some (Inr plain))"
  shows "st' = st"
  using assms open_packet_Inl
  by (fastforce simp: open_waiting_def split: option.splits prod.splits sum.splits)

lemma open_previous_refused:
  assumes "open_previous C N st packet n now tried = (r, st')" and "\<not> (\<exists>plain. r = Some (Inr plain))"
  shows "st' = st"
proof (cases "ps_previous st")
  case None
  then show ?thesis using assms open_waiting_refused by (simp add: open_previous_def)
next
  case (Some s)
  obtain q s' where o: "open_packet C N s packet n now = (q, s')" by fastforce
  show ?thesis
  proof (cases q)
    case (Inl e)
    then have "s' = s" using o open_packet_Inl by blast
    then have "st\<lparr>ps_previous := Some s'\<rparr> = st" using Some by simp
    then show ?thesis using assms Some o Inl open_waiting_refused
      by (auto simp: open_previous_def Let_def split: if_splits)
  next
    case (Inr plain)
    then show ?thesis using assms Some o by (auto simp: open_previous_def Let_def not_this_one_def)
  qed
qed

text \<open>C12. A packet that does not authenticate leaves no trace: whatever the sessions held and whatever was
  sent, if no session opens it then the peer's whole state is what it was, the replay windows, the
  session sealed under and the timers included.\<close>

theorem unauthenticated_packet_leaves_peer:
  assumes "peer_open C N st packet n now = (r, st')" and "\<nexists>plain. r = Some (Inr plain)"
  shows "st' = st"
proof (cases "ps_session st")
  case None
  then show ?thesis using assms open_previous_refused by (auto simp: peer_open_def)
next
  case (Some s)
  obtain q s' where o: "open_packet C N s packet n now = (q, s')" by fastforce
  show ?thesis
  proof (cases q)
    case (Inl e)
    then have "s' = s" using o open_packet_Inl by blast
    then have "st\<lparr>ps_session := Some s'\<rparr> = st" using Some by simp
    then show ?thesis using assms Some o Inl open_previous_refused
      by (auto simp: peer_open_def Let_def split: if_splits)
  next
    case (Inr plain)
    then show ?thesis using assms Some o by (auto simp: peer_open_def Let_def not_this_one_def)
  qed
qed

theorem unauthenticated_packet_leaves_peer_witness:
  "peer_open toy_crypto toy_snow ((peer_new None limits_off)\<lparr>ps_session := Some (toy_session 9 4 False),
      ps_next := Some (toy_session 8 5 False)\<rparr>) (replicate 30 7) 100 6 =
    (Some (Inl Rejected), (peer_new None limits_off)\<lparr>ps_session := Some (toy_session 9 4 False),
      ps_next := Some (toy_session 8 5 False)\<rparr>)"
proof -
  let ?st = "(peer_new None limits_off)\<lparr>ps_session := Some (toy_session 9 4 False),
    ps_next := Some (toy_session 8 5 False)\<rparr> :: (toy_hs, nat) peer_state"
  have r: "fst (peer_open toy_crypto toy_snow ?st (replicate 30 7) 100 6) = Some (Inl Rejected)" by code_simp
  then have "snd (peer_open toy_crypto toy_snow ?st (replicate 30 7) 100 6) = ?st"
    using unauthenticated_packet_leaves_peer [of toy_crypto toy_snow ?st "replicate 30 7" 100 6] by (metis Inl_Inr_False option.inject prod.collapse)
  with r show ?thesis by (metis prod.collapse)
qed

lemma open_tried:
  assumes "open_packet C N s packet n now = (Inr plain, s')" and "s_mask t = s_mask s"
    and "s_local_index t = s_local_index s \<longrightarrow> t = s"
  shows "open_packet C N t packet n now = (if t = s then (Inr plain, s') else (fst (open_packet C N t packet n now), t)) \<and>
    (t \<noteq> s \<longrightarrow> not_this_one (fst (open_packet C N t packet n now)))"
proof (cases "t = s")
  case True
  then show ?thesis using assms(1) by simp
next
  case False
  obtain hdr where h: "peek_header C (s_mask s) packet = Inr hdr" "h_index hdr = s_local_index s"
    using open_packet_Inr [OF assms(1)] by metis
  then have "peek_header C (s_mask t) packet = Inr hdr" "h_index hdr \<noteq> s_local_index t"
    using assms(2,3) False by auto
  from open_packet_other [OF this, of N n now] False show ?thesis by (metis prod.collapse)
qed

lemma same_slot:
  "ps_session st = Some s \<Longrightarrow> st\<lparr>ps_session := Some s\<rparr> = st"
  "ps_previous st = Some s \<Longrightarrow> st\<lparr>ps_previous := Some s\<rparr> = st"
  by simp_all

lemma open_waiting_reaches:
  assumes "ps_next st = Some s" and "open_packet C N s packet n now = (Inr plain, s')"
  shows "open_waiting C N st packet n now tried =
    (Some (Inr plain), st\<lparr>ps_next := None, ps_outbox := outbox_clear (ps_outbox st),
       ps_previous := ps_session st, ps_session := Some s'\<rparr>)"
  using assms by (simp add: open_waiting_def confirm_def)

lemma open_previous_reaches:
  assumes "open_packet C N s packet n now = (Inr plain, s')"
    and "\<forall>t\<in>set (held st). s_mask t = s_mask s \<and> (s_local_index t = s_local_index s \<longrightarrow> t = s)"
    and "s \<in> set_option (ps_previous st) \<or> s \<in> set_option (ps_next st)"
  shows "open_previous C N st packet n now tried =
    (Some (Inr plain),
     if s \<in> set_option (ps_previous st) then st\<lparr>ps_previous := Some s'\<rparr>
     else st\<lparr>ps_next := None, ps_outbox := outbox_clear (ps_outbox st),
             ps_previous := ps_session st, ps_session := Some s'\<rparr>)"
proof (cases "ps_previous st")
  case None
  then show ?thesis using assms(1,3) open_waiting_reaches by (auto simp: open_previous_def)
next
  case (Some t)
  then have t: "s_mask t = s_mask s" "s_local_index t = s_local_index s \<longrightarrow> t = s" using assms(2) by (auto simp: in_held)
  show ?thesis
  proof (cases "t = s")
    case True
    then show ?thesis using Some assms(1) by (simp add: open_previous_def not_this_one_def)
  next
    case False
    then obtain r where r: "open_packet C N t packet n now = (r, t)" "not_this_one r"
      using open_tried [OF assms(1) t] by auto
    then show ?thesis using Some False assms(1,3) open_waiting_reaches [of st s C N packet n now plain s']
      by (simp add: open_previous_def same_slot)
  qed
qed

text \<open>C11. Every session that is held is reached.  A packet that one of the three sessions opens is opened,
  even when the sessions tried before it have expired, as long as no other holds its index: the current
  one settles the confirmation it owed, the previous one changes nothing but its replay window, and the
  waiting one, and only it, becomes the one to seal under, the old one being kept for reading and the
  packets held for repeating forgotten.\<close>

theorem open_reaches_every_session:
  assumes "open_packet C N s packet n now = (Inr plain, s')" and "s \<in> set (held st)"
    and "\<forall>t\<in>set (held st). s_mask t = s_mask s \<and> (s_local_index t = s_local_index s \<longrightarrow> t = s)"
  shows "peer_open C N st packet n now =
    (Some (Inr plain),
     if s \<in> set_option (ps_session st)
     then st\<lparr>ps_session := Some s', ps_confirm_owed := False, ps_confirm_tries := 0\<rparr>
     else if s \<in> set_option (ps_previous st) then st\<lparr>ps_previous := Some s'\<rparr>
     else st\<lparr>ps_next := None, ps_outbox := outbox_clear (ps_outbox st),
             ps_previous := ps_session st, ps_session := Some s'\<rparr>)"
proof (cases "ps_session st")
  case None
  then show ?thesis using open_previous_reaches [OF assms(1,3)] assms(2) by (auto simp: peer_open_def in_held)
next
  case (Some t)
  then have t: "s_mask t = s_mask s" "s_local_index t = s_local_index s \<longrightarrow> t = s" using assms(3) by (auto simp: in_held)
  show ?thesis
  proof (cases "t = s")
    case True
    then show ?thesis using Some assms(1) by (simp add: peer_open_def not_this_one_def)
  next
    case False
    then obtain r where r: "open_packet C N t packet n now = (r, t)" "not_this_one r"
      using open_tried [OF assms(1) t] by auto
    then show ?thesis using Some False open_previous_reaches [OF assms(1,3)] assms(2)
      by (auto simp: peer_open_def in_held same_slot)
  qed
qed


theorem open_reaches_every_session_witness:
  "\<exists>st'. peer_open toy_crypto toy_snow
      ((peer_new None limits_off)\<lparr>ps_session := Some (toy_session 8 5 True),
         ps_next := Some (toy_session 9 4 False\<lparr>s_established := 200000\<rparr>)\<rparr>)
      (packet_of toy_crypto (toy_session 4 9 True) (replicate 20 1)) 100 200000
    = (Some (Inr (replicate 4 1)), st') \<and>
    map_option s_local_index (ps_session st') = Some 9 \<and> map_option s_local_index (ps_previous st') = Some 8"
proof -
  define cur where "cur = toy_session 8 5 True"
  define new where "new = toy_session 9 4 False\<lparr>s_established := 200000\<rparr>"
  define p where "p = packet_of toy_crypto (toy_session 4 9 True) (replicate 20 1)"
  let ?st = "(peer_new None limits_off)\<lparr>ps_session := Some cur, ps_next := Some new\<rparr> :: (toy_hs, nat) peer_state"
  have "fst (open_packet toy_crypto toy_snow new p 100 200000) = Inr (replicate 4 1)"
    unfolding new_def p_def by code_simp
  then obtain s' where o: "open_packet toy_crypto toy_snow new p 100 200000 = (Inr (replicate 4 1), s')"
    by (metis prod.collapse)
  have idx: "s_local_index cur = 8" "s_local_index new = 9" "s_mask cur = s_mask new"
    by (simp_all add: cur_def new_def toy_session_def)
  obtain hdr :: header where "s' = new\<lparr>s_replay := commit (s_replay new) (h_counter hdr)\<rparr>"
    by (rule open_packet_Inr [OF o]) blast
  then have "s_local_index s' = 9" using idx by simp
  moreover have ne: "cur \<noteq> new" using idx by auto
  moreover have held: "set (held ?st) = {cur, new}" by (auto simp: held_def map_filter_def peer_new_def)
  moreover have "\<forall>t\<in>set (held ?st). s_mask t = s_mask new \<and> (s_local_index t = s_local_index new \<longrightarrow> t = new)"
    unfolding held using idx by simp
  ultimately show ?thesis
    using open_reaches_every_session [OF o, of ?st] idx unfolding cur_def [symmetric] new_def [symmetric] p_def [symmetric]
    by (simp add: peer_new_def)
qed

section \<open>Handshakes\<close>

lemma elapsed_Some [simp]: "elapsed now (Some t) span \<longleftrightarrow> unat span \<le> unat now - unat t"
  by (simp add: elapsed_def word_le_nat_alt unat_saturating_sub)

lemma elapsed_None [simp]: "\<not> elapsed now None span"
  by (simp add: elapsed_def)

lemma small_random:
  "0 < k \<Longrightarrow> k \<le> 100000 \<Longrightarrow> unat (ucast (r :: u32) mod (of_nat k :: Millis)) < k"
  by (simp add: unat_mod unat_of_nat take_bit_eq_mod)

lemma unat_rekey_interval: "5000 \<le> unat (rekey_interval rnd) \<and> unat (rekey_interval rnd) < 5334"
proof (cases rnd)
  case None
  then show ?thesis by (simp add: rekey_interval_def peer_consts)
next
  case (Some r)
  have "unat (ucast r mod (334 :: Millis)) < 334" using small_random [of 334 r] by simp
  then show ?thesis using Some by (simp add: rekey_interval_def peer_consts unat_plus_if')
qed

lemma unat_rekey_after: "100000 \<le> unat (rekey_after rnd) \<and> unat (rekey_after rnd) \<le> 140000"
proof (cases rnd)
  case None
  then show ?thesis by (simp add: rekey_after_def peer_consts REKEY_AFTER_TIME_def)
next
  case (Some r)
  have "unat (ucast r mod (40001 :: Millis)) < 40001" using small_random [of 40001 r] by simp
  then show ?thesis using Some
    by (simp add: rekey_after_def peer_consts REKEY_AFTER_TIME_def unat_plus_if' unat_sub_if')
qed

text \<open>C14. Handshakes are paced and never given up on for good.  After a handshake has gone out, none is
  wanted for the five seconds of the retry interval, whatever else the state says.  Without a session
  one is wanted again once that interval and any goodbye are over: at once within the ninety seconds of
  a run of attempts, and thirty seconds after the last attempt when the run is exhausted.\<close>

theorem handshakes_paced_and_retried:
  assumes "unat now + 5334 < 2 ^ 64"
  shows "(if unat now \<le> unat t \<and> unat t < unat now + 5000
          then \<not> wants_handshake (note_handshake st ini now rnd) t else True) \<and>
    (if ps_session st = None \<and> unat now + 5334 \<le> unat t \<and> ps_resume_at st \<le> t
     then wants_handshake (note_handshake st ini now rnd) t =
       (exhausted (note_handshake st ini now rnd) t \<longrightarrow> unat now + 30000 \<le> unat t)
     else True)"
proof -
  let ?st = "note_handshake st ini now rnd"
  have r: "unat (ps_retry_at ?st) = unat now + unat (rekey_interval rnd)"
    using unat_rekey_interval [of rnd] assms by (simp add: note_handshake_def unat_saturating_add)
  have st: "ps_session ?st = ps_session st" "ps_pending ?st = Some ini" "ps_last_handshake ?st = now"
    "ps_resume_at ?st = ps_resume_at st"
    by (simp_all add: note_handshake_def)
  have early: "\<not> wants_handshake ?st t" if t: "unat now \<le> unat t" "unat t < unat now + 5000"
  proof -
    have "\<not> ps_retry_at ?st \<le> t" using r t unat_rekey_interval [of rnd] by (simp add: word_le_nat_alt)
    moreover have "\<not> revive ?st t"
      using t st(3) by (auto simp: revive_def word_le_nat_alt unat_saturating_sub peer_consts)
    ultimately show ?thesis using st by (auto simp: wants_handshake_def Let_def split: option.split)
  qed
  have late: "wants_handshake ?st t = (exhausted ?st t \<longrightarrow> unat now + 30000 \<le> unat t)"
    if t: "ps_session st = None" "unat now + 5334 \<le> unat t" "ps_resume_at st \<le> t"
  proof -
    have "ps_retry_at ?st \<le> t" using r t unat_rekey_interval [of rnd] by (simp add: word_le_nat_alt)
    moreover have "revive ?st t = (exhausted ?st t \<and> unat now + 30000 \<le> unat t)"
      using t st by (auto simp: revive_def word_le_nat_alt unat_saturating_sub peer_consts)
    ultimately show ?thesis using st t by (auto simp: wants_handshake_def Let_def not_less)
  qed
  show ?thesis using early late by simp
qed

definition sample_initiator :: "nat initiator" where
  "sample_initiator = \<lparr>i_state = Some 0, i_responder_static = [], i_local_static = [], i_local_index = 1, i_epoch = 2\<rparr>"

theorem handshakes_paced_and_retried_witness:
  "\<not> wants_handshake (note_handshake (peer_new None limits_off :: (nat, nat) peer_state) sample_initiator 1000 (Some 7)) 5999 \<and>
   wants_handshake (note_handshake (peer_new None limits_off :: (nat, nat) peer_state) sample_initiator 1000 (Some 7)) 6334"
proof -
  let ?st = "peer_new None limits_off :: (nat, nat) peer_state"
  have "ps_session ?st = None" "ps_resume_at ?st = 0" by (simp_all add: peer_new_def)
  moreover have "\<not> exhausted (note_handshake ?st sample_initiator 1000 (Some 7)) 6334"
    by (simp add: exhausted_def note_handshake_def peer_new_def get_or_insert_def peer_consts)
  ultimately show ?thesis
    using handshakes_paced_and_retried [of 1000 5999 ?st sample_initiator "Some 7"]
      handshakes_paced_and_retried [of 1000 6334 ?st sample_initiator "Some 7"] by simp
qed

text \<open>A completed handshake settles everything that asked for one: the new session is sealed under and
  the old one kept for reading, and until the rekey time, or the message limit, no handshake is wanted,
  the carrier is not thought stuck and the peer is not thought dead.\<close>

theorem completed_handshake_settles:
  assumes "unat now + 140000 < 2 ^ 64" and "unat now \<le> unat t" and "unat t < unat now + 100000"
    and "s_send_counter s < REKEY_AFTER_MESSAGES" and "0 < after"
  shows "let st' = established (install st s) now (rekey_after rnd) in
    ps_session st' = Some s \<and> ps_previous st' = ps_session st \<and> ps_next st' = None \<and>
    \<not> wants_handshake st' t \<and> \<not> stuck st' t after \<and> \<not> presumed_dead st' t \<and>
    outbox_get (ps_outbox st') c t = None"
proof -
  have "unat (ps_rekey_at (established (install st s) now (rekey_after rnd))) = unat now + unat (rekey_after rnd)"
    using unat_rekey_after [of rnd] assms(1) by (simp add: established_def unat_saturating_add)
  then have "\<not> ps_rekey_at (established (install st s) now (rekey_after rnd)) \<le> t"
    using assms(3) unat_rekey_after [of rnd] by (simp add: word_le_nat_alt)
  then show ?thesis
    using assms(4,5) ob.lookup_forget
    by (simp add: Let_def wants_handshake_def stuck_def presumed_dead_def established_def install_def not_le)
qed

theorem completed_handshake_settles_witness:
  "\<not> wants_handshake (established (install (peer_new None limits_off :: (nat, nat) peer_state) (toy_session 4 9 True)) 5 (rekey_after None)) 90000"
proof -
  have "s_send_counter (toy_session 4 9 True) < REKEY_AFTER_MESSAGES"
    by (simp add: toy_session_def REKEY_AFTER_MESSAGES_def)
  then show ?thesis
    using completed_handshake_settles [of 5 90000 "toy_session 4 9 True" 1 "peer_new None limits_off :: (nat, nat) peer_state" None 0]
    by (simp add: Let_def)
qed

text \<open>A goodbye ends every session and the handshake that follows waits: after \<open>farewell\<close> nothing can be
  opened or repeated, and a new handshake is wanted exactly from the moment the rejoin delay is over,
  whatever run of attempts was under way.\<close>

theorem farewell_then_rejoin:
  "held (farewell st now) = [] \<and>
   fst (peer_open C N (farewell st now) packet n t) = None \<and>
   outbox_get (ps_outbox (farewell st now)) c t = None \<and>
   wants_handshake (farewell st now) t = (saturating_add now REJOIN_AFTER \<le> t)"
  using ob.lookup_forget [of "ps_outbox st" c t]
  by (auto simp: farewell_def held_def map_filter_def peer_open_def open_previous_def open_waiting_def
      wants_handshake_def exhausted_def Let_def not_less)

text \<open>Retiring sessions drops exactly the expired ones: what remains is held, unexpired and unchanged,
  and a session that still seals is never lost.\<close>

theorem retire_drops_expired:
  "held (retire_expired st now) = filter (\<lambda>s. \<not> is_expired s now) (held st)"
  by (simp add: held_def map_filter_def retire_expired_def Let_def split: option.split)

section \<open>Moving between ports\<close>

lemma position_nth: "distinct ports \<Longrightarrow> i < length ports \<Longrightarrow> position (ports ! i) ports = Some i"
  by (induction ports arbitrary: i) (auto simp: nth_Cons split: nat.split)

lemma next_port_nth:
  "distinct ports \<Longrightarrow> i < length ports \<Longrightarrow> next_port ports (ports ! i) = ports ! (Suc i mod length ports)"
proof -
  assume p: "distinct ports" "i < length ports"
  then have "Suc i mod length ports < length ports" by (intro mod_less_divisor) linarith
  then show ?thesis using position_nth [OF p] by (simp add: next_port_def get_def)
qed

text \<open>Rotation visits the whole pool: starting from any port of it, moving \<open>k\<close> times lands on the port
  \<open>k\<close> places further round, so every port is used once before any is used again; a port outside the
  pool, one that was configured, is never left.\<close>

theorem rotation_visits_every_port:
  assumes "distinct ports" and "i < length ports" and "fixed \<notin> set ports"
  shows "(next_port ports ^^ k) (ports ! i) = ports ! ((i + k) mod length ports) \<and>
    set (map (\<lambda>k. (next_port ports ^^ k) (ports ! i)) [0..<length ports]) = set ports \<and>
    (next_port ports ^^ k) fixed = fixed"
proof -
  have step: "(next_port ports ^^ k) (ports ! i) = ports ! ((i + k) mod length ports)" for k
  proof (induction k)
    case 0
    then show ?case using assms(2) by simp
  next
    case (Suc k)
    have "(i + k) mod length ports < length ports" using assms(2) by (intro mod_less_divisor) linarith
    from next_port_nth [OF assms(1) this] Suc show ?case by (simp add: mod_Suc_eq)
  qed
  have "map (\<lambda>k. ports ! ((i + k) mod length ports)) [0..<length ports] = rotate i ports"
    by (rule nth_equalityI) (simp_all add: nth_rotate)
  then have "set (map (\<lambda>k. ports ! ((i + k) mod length ports)) [0..<length ports]) = set ports" by simp
  then have "set (map (\<lambda>k. (next_port ports ^^ k) (ports ! i)) [0..<length ports]) = set ports"
    by (simp add: step)
  moreover have "position fixed ports = None"
    using assms(3) by (induction ports) auto
  then have "next_port ports fixed = fixed" by (simp add: next_port_def)
  then have "(next_port ports ^^ k) fixed = fixed" by (induction k) simp_all
  ultimately show ?thesis using step by blast
qed

theorem rotation_visits_every_port_witness:
  "(next_port [61000, 61007, 61003] ^^ 4) 61007 = 61003 \<and> (next_port [61000, 61007, 61003] ^^ 4) 443 = 443"
  using rotation_visits_every_port [of "[61000, 61007, 61003]" 1 443 4] by simp

text \<open>How long a five-tuple lasts, and how fast a silent path is knocked on: a rotation interval lies
  within the jitter either side of the configured time, the wait before a repeated SYN doubles from one
  second to eight and stays there, and the next connection is opened between a tenth and half a second
  ahead of a move.\<close>

theorem clocks_stay_in_range:
  assumes "unat (ro_jitter ro) \<le> unat (ro_after ro)" and "unat (ro_after ro) + 2 * unat (ro_jitter ro) < 2 ^ 63"
  shows "unat (ro_after ro) - unat (ro_jitter ro) \<le> unat (rotation_interval ro rnd) \<and>
    unat (rotation_interval ro rnd) \<le> unat (ro_after ro) + unat (ro_jitter ro) \<and>
    syn_backoff tries = (if tries \<le> 1 then 1000 else if tries = 2 then 2000 else if tries = 3 then 4000 else 8000) \<and>
    100 \<le> unat (standby_lead st) \<and> unat (standby_lead st) \<le> 500"
proof -
  have j: "unat (2 * ro_jitter ro + 1) = 2 * unat (ro_jitter ro) + 1"
    using assms by (simp add: unat_word_ariths)
  have "unat (case rnd of None \<Rightarrow> 0 | Some r \<Rightarrow> ucast r mod (2 * ro_jitter ro + 1)) \<le> 2 * unat (ro_jitter ro)"
  proof (cases rnd)
    case (Some r)
    have "unat (ucast r mod (2 * ro_jitter ro + 1)) = unat (ucast r :: u64) mod (2 * unat (ro_jitter ro) + 1)"
      by (simp add: unat_mod j)
    also have "\<dots> < 2 * unat (ro_jitter ro) + 1" by simp
    finally show ?thesis using Some by simp
  qed simp
  then have iv: "unat (ro_after ro) - unat (ro_jitter ro) \<le> unat (rotation_interval ro rnd) \<and>
      unat (rotation_interval ro rnd) \<le> unat (ro_after ro) + unat (ro_jitter ro)"
    using assms
    by (simp add: rotation_interval_def Let_def unat_saturating_add unat_saturating_sub del: diff_le_self) linarith
  have sl: "100 \<le> unat (standby_lead st) \<and> unat (standby_lead st) \<le> 500"
    by (auto simp: standby_lead_def peer_consts word_le_nat_alt min_def max_def split: option.split)
  have sb: "syn_backoff tries = (if tries \<le> 1 then 1000 else if tries = 2 then 2000 else if tries = 3 then 4000 else 8000)"
  proof -
    have "unat tries \<le> 1 \<or> unat tries = 2 \<or> unat tries = 3 \<or> 3 < unat tries" by linarith
    then consider "tries \<le> 1" | "tries = 2" | "tries = 3" | "tries > 3"
      by (auto simp: word_le_nat_alt word_less_nat_alt word_unat_eq_iff)
    then show ?thesis
    proof cases
      case 1
      then have "saturating_sub tries 1 = 0"
        by (simp add: word_unat_eq_iff unat_saturating_sub word_le_nat_alt)
      then show ?thesis using 1 by (simp add: syn_backoff_def peer_consts saturating_mul_def)
    next
      case 4
      then have "3 \<le> saturating_sub tries 1"
        by (simp add: word_le_nat_alt word_less_nat_alt unat_saturating_sub)
      then have "min (saturating_sub tries 1) 3 = 3" by simp
      moreover have "\<not> tries \<le> 1" "tries \<noteq> 2" "tries \<noteq> 3" using 4 by (auto simp: word_le_nat_alt word_less_nat_alt)
      ultimately show ?thesis by (simp add: syn_backoff_def peer_consts saturating_mul_def)
    qed (simp_all add: syn_backoff_def peer_consts saturating_mul_def saturating_sub_def word_le_nat_alt)
  qed
  show ?thesis using iv sl sb by blast
qed

theorem clocks_stay_in_range_witness:
  "600000 \<le> unat (rotation_interval rotation_default (Some 77)) \<and> unat (rotation_interval rotation_default (Some 77)) \<le> 1200000"
  using clocks_stay_in_range [of rotation_default "Some 77" 1 "peer_new None limits_off :: (nat, nat) peer_state"]
  by (simp add: rotation_default_def ROTATE_AFTER_def ROTATE_JITTER_def)

section \<open>The ledger of answered SYNs\<close>

definition ledger_ok :: "syn_ledger \<Rightarrow> bool" where
  "ledger_ok l \<longleftrightarrow> distinct (map fst l) \<and> length l \<le> SYN_LEDGER_LEN"

lemma ledger_expire_suffix: "\<exists>pre. l = pre @ ledger_expire now l"
proof (induction l)
  case (Cons e l)
  then obtain pre where "l = pre @ ledger_expire now l" by blast
  then have "e # l = (e # pre) @ ledger_expire now l" by simp
  moreover have "e # l = [] @ e # l" by simp
  ultimately show ?case by (cases e) (metis ledger_expire.simps(2))
qed simp

lemma ledger_expire_keeps:
  "\<not> saturating_sub now t > SYN_LEDGER_KEEP \<Longrightarrow> \<exists>pre'. ledger_expire now (pre @ (sq, from, t) # post) = pre' @ (sq, from, t) # post"
proof (induction pre)
  case (Cons e pre)
  then obtain pre' where p: "ledger_expire now (pre @ (sq, from, t) # post) = pre' @ (sq, from, t) # post" by blast
  show ?case
  proof (cases e)
    case (fields a b c)
    show ?thesis
    proof (cases "saturating_sub now c > SYN_LEDGER_KEEP")
      case True
      then show ?thesis using fields p by simp
    next
      case False
      then show ?thesis using fields by (intro exI [of _ "e # pre"]) simp
    qed
  qed
qed simp

lemma find_distinct:
  "distinct (map fst l) \<Longrightarrow> (sq, v) \<in> set l \<Longrightarrow> find (\<lambda>e. fst e = sq) l = Some (sq, v)"
  by (induction l) (auto simp: rev_image_eqI)

lemma ledger_ok_expire: "ledger_ok l \<Longrightarrow> ledger_ok (ledger_expire now l)"
  using ledger_expire_suffix [of l now] by (metis (no_types, lifting) distinct_append ledger_ok_def le_add2
      length_append map_append order_trans)

lemma ledger_ok_tl: "ledger_ok l \<Longrightarrow> ledger_ok (tl l)"
  by (cases l) (simp_all add: ledger_ok_def)

lemma ledger_ok_admit:
  assumes "ledger_ok l"
  shows "ledger_ok (snd (admit l sq from now))"
proof -
  let ?seen = "ledger_expire now l"
  let ?kept = "if length ?seen \<ge> SYN_LEDGER_LEN then tl ?seen else ?seen"
  have ok: "ledger_ok ?seen" using assms by (rule ledger_ok_expire)
  show ?thesis
  proof (cases "find (\<lambda>e. fst e = sq) ?seen")
    case None
    then have "sq \<notin> fst ` set ?seen" by (force simp: find_None_iff)
    then have "sq \<notin> fst ` set ?kept" by (auto dest: list.set_sel(2) split: if_splits) (metis list.set_sel(2) list.sel(2) fst_conv image_eqI)
    moreover have "ledger_ok ?kept" "length ?kept < SYN_LEDGER_LEN"
      using ok ledger_ok_tl [OF ok] by (auto simp: ledger_ok_def SYN_LEDGER_LEN_def)
    ultimately show ?thesis using None by (simp add: admit_def Let_def ledger_ok_def del: if_split)
  next
    case (Some e)
    then show ?thesis using ok by (auto simp: admit_def Let_def split: prod.splits)
  qed
qed

definition admit_all :: "syn_ledger \<Rightarrow> (u32 \<times> sock \<times> Millis) list \<Rightarrow> syn_ledger" where
  "admit_all = foldl (\<lambda>l (sq, from, now). snd (admit l sq from now))"

lemma admit_keeps_entry:
  assumes "l = pre @ (sq, from, t0) # post" and "length post < 255" and "\<not> saturating_sub now t0 > SYN_LEDGER_KEEP"
  shows "\<exists>pre' post'. snd (admit l sq' from' now) = pre' @ (sq, from, t0) # post' \<and> length post' \<le> Suc (length post)"
proof -
  obtain pre1 where e: "ledger_expire now l = pre1 @ (sq, from, t0) # post"
    using ledger_expire_keeps [OF assms(3)] assms(1) by blast
  show ?thesis
  proof (cases "find (\<lambda>e. fst e = sq') (ledger_expire now l)")
    case (Some x)
    then have "snd (admit l sq' from' now) = ledger_expire now l" by (auto simp: admit_def Let_def split: prod.splits)
    then show ?thesis using e by (intro exI [of _ pre1] exI [of _ post]) simp
  next
    case None
    show ?thesis
    proof (cases "length (ledger_expire now l) \<ge> SYN_LEDGER_LEN")
      case False
      then have "snd (admit l sq' from' now) = pre1 @ (sq, from, t0) # post @ [(sq', from', now)]"
        using None e by (simp add: admit_def Let_def)
      then show ?thesis by (metis length_append_singleton order_refl)
    next
      case True
      then have "pre1 \<noteq> []" using e assms(2) by (auto simp: SYN_LEDGER_LEN_def)
      then have "snd (admit l sq' from' now) = tl pre1 @ (sq, from, t0) # post @ [(sq', from', now)]"
        using None e True by (simp add: admit_def Let_def)
      then show ?thesis by (metis length_append_singleton order_refl)
    qed
  qed
qed

lemma admit_all_keeps_entry:
  assumes "l = pre @ (sq, from, t0) # post" and "length post + length es \<le> 255"
    and "\<forall>e\<in>set es. \<not> saturating_sub (snd (snd e)) t0 > SYN_LEDGER_KEEP" and "ledger_ok l"
  shows "(\<exists>pre' post'. admit_all l es = pre' @ (sq, from, t0) # post') \<and> ledger_ok (admit_all l es)"
  using assms
proof (induction es arbitrary: l pre post)
  case Nil
  then show ?case by (auto simp: admit_all_def)
next
  case (Cons e es)
  obtain sq' from' now where e: "e = (sq', from', now)" by (cases e)
  obtain pre' post' where p: "snd (admit l sq' from' now) = pre' @ (sq, from, t0) # post'" "length post' \<le> Suc (length post)"
    using admit_keeps_entry [OF Cons.prems(1), of now sq' from'] Cons.prems(2,3) e by auto
  have "admit_all l (e # es) = admit_all (snd (admit l sq' from' now)) es" by (simp add: admit_all_def e)
  then show ?case
    using Cons.IH [OF p(1)] p(2) Cons.prems ledger_ok_admit [of l sq' from' now] by simp
qed

text \<open>A captured SYN draws no answer.  Once a SYN has been answered, and through as many as 255 other
  SYNs, a copy of it is answered exactly when it comes from the place the first one came from, for as
  long as its proof holds; and the ledger never grows past its limit.\<close>

theorem captured_syn_unanswered:
  assumes "ledger_ok l" and "find (\<lambda>e. fst e = sq) (ledger_expire t0 l) = None"
    and "length others \<le> 255"
    and "\<forall>e\<in>set ((sq, from', t) # others). \<not> saturating_sub (snd (snd e)) t0 > SYN_LEDGER_KEEP"
  shows "fst (admit l sq from t0) \<and>
    fst (admit (admit_all (snd (admit l sq from t0)) others) sq from' t) = (from' = from) \<and>
    length (admit_all (snd (admit l sq from t0)) others) \<le> SYN_LEDGER_LEN"
proof -
  obtain pre where l1: "snd (admit l sq from t0) = pre @ (sq, from, t0) # []" "fst (admit l sq from t0)"
    using assms(2) by (auto simp: admit_def Let_def)
  have ok1: "ledger_ok (snd (admit l sq from t0))" using assms(1) by (rule ledger_ok_admit)
  obtain pre' post' where l2: "admit_all (snd (admit l sq from t0)) others = pre' @ (sq, from, t0) # post'"
    and ok2: "ledger_ok (admit_all (snd (admit l sq from t0)) others)"
    using admit_all_keeps_entry [OF l1(1) _ _ ok1, of others] assms(3,4) by auto
  let ?l = "admit_all (snd (admit l sq from t0)) others"
  have "(sq, from, t0) \<in> set (ledger_expire t ?l)"
    using ledger_expire_keeps [of t t0 pre' sq "from" post'] assms(4) l2 by auto
  moreover have "distinct (map fst (ledger_expire t ?l))" using ledger_ok_expire [OF ok2] by (simp add: ledger_ok_def)
  ultimately have "find (\<lambda>e. fst e = sq) (ledger_expire t ?l) = Some (sq, from, t0)" by (rule find_distinct [rotated])
  then have "fst (admit ?l sq from' t) = (from' = from)" by (auto simp: admit_def Let_def)
  then show ?thesis using l1(2) ok2 by (simp add: ledger_ok_def)
qed

theorem captured_syn_unanswered_witness:
  "\<not> fst (admit (admit_all (snd (admit [] 77 (Ipv4 10 0 0 2, 61000) 5)) [(78, (Ipv4 10 0 0 3, 1), 6)]) 77 (Ipv4 10 0 0 9, 61000) 9)"
  using captured_syn_unanswered [of "[]" 77 5 "[(78, (Ipv4 10 0 0 3, 1), 6)]" "(Ipv4 10 0 0 9, 61000)" 9 "(Ipv4 10 0 0 2, 61000)"]
  by (simp add: ledger_ok_def saturating_sub_def SYN_LEDGER_KEEP_def SYN_PERIOD_SECS_def)

end
