(* ===== verification/Gso.thy ===== *)
theory Gso
  imports Segment
begin

text \<open>
  Grouping inner packets into one write (\<open>paqetz-dp/src/gso.rs\<close>): which packets may join a run, the
  frame a run becomes, and the \<open>virtio_net_hdr\<close> that tells the kernel where to split it.  The splitting
  itself is the kernel's; \<open>split_at_size\<close> states what the header asks for, and the theorems show that
  it gives back the packets that were held, in order, with the sequence numbers they had.
\<close>

section \<open>Packets\<close>

definition UDP_LEN :: nat where "UDP_LEN = 8"
definition PROTO_UDP :: u8 where "PROTO_UDP = 17"
definition TCP_CSUM_OFFSET :: u16 where "TCP_CSUM_OFFSET = 16"
definition UDP_CSUM_OFFSET :: u16 where "UDP_CSUM_OFFSET = 6"
definition GSO_TCPV4 :: u8 where "GSO_TCPV4 = 1"
definition GSO_UDP_L4 :: u8 where "GSO_UDP_L4 = 5"
definition NEEDS_CSUM :: u8 where "NEEDS_CSUM = 1"
definition TCP_ENDS_RUN :: u8 where "TCP_ENDS_RUN = 0x01 OR 0x02 OR 0x04 OR 0x20"
definition MAX_IP_TOTAL :: nat where "MAX_IP_TOTAL = 65535"
definition VNET_HDR_LEN :: nat where "VNET_HDR_LEN = 10"

text \<open>The ranges of the headers that may differ along a run, and those of the IPv4 header that may not.\<close>

definition TCP_SEQ :: "nat \<times> nat" where "TCP_SEQ = (4, 8)"
definition TCP_CSUM :: "nat \<times> nat" where "TCP_CSUM = (16, 18)"
definition UDP_CSUM :: "nat \<times> nat" where "UDP_CSUM = (6, 8)"
definition UDP_LENGTH :: "nat \<times> nat" where "UDP_LENGTH = (4, 6)"
definition SAME :: "(nat \<times> nat) list" where "SAME = [(0, 2), (6, 10), (12, 20)]"

lemmas gso_consts = UDP_LEN_def PROTO_UDP_def TCP_CSUM_OFFSET_def UDP_CSUM_OFFSET_def GSO_TCPV4_def
  GSO_UDP_L4_def NEEDS_CSUM_def MAX_IP_TOTAL_def VNET_HDR_LEN_def TCP_SEQ_def TCP_CSUM_def
  UDP_CSUM_def UDP_LENGTH_def SAME_def

record gso_packet =
  gp_l4 :: bytes
  gp_payload :: bytes
  gp_ip :: bytes
  gp_proto :: u8
  gp_seq :: u32

text \<open>The length of the transport header and the sequence number.\<close>

definition gso_l4 :: "u8 \<Rightarrow> bytes \<Rightarrow> (nat \<times> u32) option" where
  "gso_l4 proto rest =
     (if proto = PROTO_TCP then do {
        off \<leftarrow> get rest 12;
        let offset = unat (drop_bit 4 off) * 4;
        if offset < 20 \<or> offset > length rest then None
        else do {
          sq \<leftarrow> be32_at rest 4;
          flags \<leftarrow> get rest 13;
          if flags AND TCP_ENDS_RUN \<noteq> 0 then None else Some (offset, sq)
        }
      }
      else if proto = PROTO_UDP then (if length rest < UDP_LEN then None else Some (UDP_LEN, 0))
      else None)"

definition gso_parse :: "bytes \<Rightarrow> gso_packet option" where
  "gso_parse bs = do {
     ip \<leftarrow> get_range bs 0 IPV4_LEN;
     ver_ihl \<leftarrow> get ip 0;
     if ver_ihl \<noteq> 0x45 then None
     else do {
       tot \<leftarrow> be16_at ip 2;
       let total_len = unat tot;
       frag \<leftarrow> be16_at ip 6;
       if frag AND 0x3FFF \<noteq> 0 then None
       else if total_len > length bs \<or> total_len < IPV4_LEN then None
       else do {
         proto \<leftarrow> get ip 9;
         rest \<leftarrow> get_range bs IPV4_LEN total_len;
         (l4_len, sq) \<leftarrow> gso_l4 proto rest;
         l4 \<leftarrow> get_range rest 0 l4_len;
         payload \<leftarrow> get_from rest l4_len;
         Some \<lparr>gp_l4 = l4, gp_payload = payload, gp_ip = ip, gp_proto = proto, gp_seq = sq\<rparr>
       }
     }
   }"

definition size32 :: "nat \<Rightarrow> u32" where
  "size32 n = (if n < 2 ^ 32 then of_nat n else - 1)"

definition varies :: "u8 \<Rightarrow> (nat \<times> nat) list" where
  "varies proto = (if proto = PROTO_TCP then [TCP_SEQ, TCP_CSUM] else [UDP_LENGTH, UDP_CSUM])"

text \<open>The byte-wise comparison of two transport headers, from position \<open>i\<close>.\<close>

fun same_l4 :: "(nat \<times> nat) list \<Rightarrow> nat \<Rightarrow> bytes \<Rightarrow> bytes \<Rightarrow> bool" where
  "same_l4 vs i (x # xs) (y # ys) =
     ((list_ex (\<lambda>(a, b). a \<le> i \<and> i < b) vs \<or> x = y) \<and> same_l4 vs (i + 1) xs ys)"
| "same_l4 vs i _ _ = True"

definition continues_after :: "gso_packet \<Rightarrow> nat \<Rightarrow> gso_packet \<Rightarrow> nat \<Rightarrow> bool" where
  "continues_after a a_payload b gso_size =
     (if list_ex (\<lambda>(x, y). get_range (gp_ip a) x y \<noteq> get_range (gp_ip b) x y) SAME then False
      else if gp_proto a \<noteq> gp_proto b \<or> length (gp_l4 a) \<noteq> length (gp_l4 b) then False
      else if \<not> same_l4 (varies (gp_proto a)) 0 (gp_l4 a) (gp_l4 b) then False
      else if gp_proto a = PROTO_TCP \<and> gp_seq b \<noteq> gp_seq a + size32 a_payload then False
      else a_payload = gso_size \<and> gp_payload b \<noteq> [] \<and> length (gp_payload b) \<le> gso_size)"

section \<open>The coalescer\<close>

record gso_run =
  gr_proto :: u8
  gr_l4_len :: nat
  gr_gso_size :: nat
  gr_count :: nat
  gr_payload :: nat
  gr_last_ip :: bytes
  gr_last_l4 :: bytes
  gr_last_seq :: u32
  gr_last_payload :: nat

record coalescer =
  co_frame :: bytes
  co_header :: bytes
  co_run :: "gso_run option"
  co_pending :: bool

definition coalescer_default :: coalescer where
  "coalescer_default =
     \<lparr>co_frame = [], co_header = replicate VNET_HDR_LEN 0, co_run = None, co_pending = False\<rparr>"

definition joins :: "coalescer \<Rightarrow> bytes \<Rightarrow> bool" where
  "joins c packet =
     (case gso_parse packet of
        None \<Rightarrow> False
      | Some nxt \<Rightarrow>
          (case co_run c of
             None \<Rightarrow> \<not> co_pending c \<and> gp_payload nxt \<noteq> []
           | Some run \<Rightarrow>
               (let lst = \<lparr>gp_l4 = gr_last_l4 run, gp_payload = [], gp_ip = gr_last_ip run,
                           gp_proto = gr_proto run, gp_seq = gr_last_seq run\<rparr> in
                if \<not> continues_after lst (gr_last_payload run) nxt (gr_gso_size run) then False
                else IPV4_LEN + gr_l4_len run + gr_payload run + length (gp_payload nxt) \<le> MAX_IP_TOTAL)))"

definition can_hold :: "bytes \<Rightarrow> bool" where
  "can_hold packet = (case gso_parse packet of None \<Rightarrow> False | Some p \<Rightarrow> gp_payload p \<noteq> [])"

definition hold :: "coalescer \<Rightarrow> bytes \<Rightarrow> coalescer" where
  "hold c packet =
     (let c1 = c\<lparr>co_pending := True\<rparr> in
      case gso_parse packet of
        None \<Rightarrow> c1\<lparr>co_frame := packet, co_run := None\<rparr>
      | Some nxt \<Rightarrow>
          (case co_run c1 of
             Some run \<Rightarrow>
               c1\<lparr>co_frame := co_frame c1 @ gp_payload nxt,
                  co_run := Some (run\<lparr>gr_count := gr_count run + 1,
                    gr_payload := gr_payload run + length (gp_payload nxt), gr_last_l4 := gp_l4 nxt,
                    gr_last_seq := gp_seq nxt, gr_last_payload := length (gp_payload nxt)\<rparr>)\<rparr>
           | None \<Rightarrow>
               c1\<lparr>co_frame := gp_ip nxt @ gp_l4 nxt @ gp_payload nxt,
                  co_run := Some \<lparr>gr_proto = gp_proto nxt, gr_l4_len = length (gp_l4 nxt),
                    gr_gso_size = length (gp_payload nxt), gr_count = 1,
                    gr_payload = length (gp_payload nxt),
                    gr_last_ip = (case get_range (gp_ip nxt) 0 IPV4_LEN of
                                    Some slot \<Rightarrow> slot | None \<Rightarrow> replicate IPV4_LEN 0),
                    gr_last_l4 = gp_l4 nxt, gr_last_seq = gp_seq nxt,
                    gr_last_payload = length (gp_payload nxt)\<rparr>\<rparr>))"

section \<open>The frame of a run\<close>

definition csum_offset :: "u8 \<Rightarrow> u16" where
  "csum_offset proto = (if proto = PROTO_TCP then TCP_CSUM_OFFSET else UDP_CSUM_OFFSET)"

text \<open>\<open>u16::try_from\<close>.\<close>

definition u16_of :: "nat \<Rightarrow> u16 option" where
  "u16_of n = (if n < 65536 then Some (of_nat n) else None)"

definition vnet_header :: "gso_run \<Rightarrow> bytes" where
  "vnet_header run =
     [NEEDS_CSUM, if gr_proto run = PROTO_TCP then GSO_TCPV4 else GSO_UDP_L4]
     @ to_le_bytes 2 (case u16_of (IPV4_LEN + gr_l4_len run) of Some v \<Rightarrow> v | None \<Rightarrow> - 1)
     @ to_le_bytes 2 (case u16_of (gr_gso_size run) of Some v \<Rightarrow> v | None \<Rightarrow> - 1)
     @ to_le_bytes 2 (case u16_of IPV4_LEN of Some v \<Rightarrow> v | None \<Rightarrow> 0)
     @ to_le_bytes 2 (csum_offset (gr_proto run))"

text \<open>The checksum arithmetic of this file: a 32-bit sum and its fold.\<close>

fun sum16 :: "bytes \<Rightarrow> u32" where
  "sum16 [] = 0"
| "sum16 [lst] = ucast (from_be_bytes [lst, 0] :: u16)"
| "sum16 (a # b # rest) = ucast (from_be_bytes [a, b] :: u16) + sum16 rest"

function gso_fold_loop :: "u32 \<Rightarrow> u32" where
  "gso_fold_loop s =
     (if drop_bit 16 s \<noteq> 0 then gso_fold_loop ((s AND 0xFFFF) + drop_bit 16 s) else s)"
  by pat_completeness auto
termination
proof (relation "measure unat")
  fix s :: u32
  assume nz: "drop_bit 16 s \<noteq> 0"
  have low: "unat (s AND 0xFFFF) = unat s mod 65536"
    using unat_and_mask [of s 16] by (simp add: mask_eq_exp_minus_1)
  have high: "unat (drop_bit 16 s) = unat s div 65536"
    by (simp only: unat_shiftr) simp
  have "65536 \<le> unat s"
    using nz high by (metis div_less not_le unat_eq_zero)
  then show "((s AND 0xFFFF) + drop_bit 16 s, s) \<in> measure unat"
    using fold_step_less [of "unat s"] unat_bounds(3) [of s] by (simp add: unat_word_ariths low high)
qed simp

declare gso_fold_loop.simps [simp del]

definition gso_fold :: "u32 \<Rightarrow> u16" where
  "gso_fold s = ucast (gso_fold_loop s AND 0xFFFF)"

definition pseudo_header :: "bytes \<Rightarrow> gso_run \<Rightarrow> u16 option" where
  "pseudo_header frame run = do {
     src \<leftarrow> get_range frame 12 16;
     dst \<leftarrow> get_range frame 16 20;
     len \<leftarrow> u16_of (gr_l4_len run + gr_gso_size run);
     Some (gso_fold (sum16 (src @ dst @ [0, gr_proto run] @ to_be_bytes 2 len)))
   }"

text \<open>Each write into the frame stays even when a later one fails.\<close>

definition gso_finish :: "bytes \<Rightarrow> gso_run \<Rightarrow> bytes option \<times> bytes" where
  "gso_finish frame run =
     (case u16_of (IPV4_LEN + gr_l4_len run + gr_payload run) of None \<Rightarrow> (None, frame)
      | Some ip_total \<Rightarrow>
     (case overwrite frame 2 (to_be_bytes 2 ip_total) of None \<Rightarrow> (None, frame)
      | Some f1 \<Rightarrow>
     (case overwrite f1 10 [0, 0] of None \<Rightarrow> (None, f1)
      | Some f2 \<Rightarrow>
     (case get_range f2 0 IPV4_LEN of None \<Rightarrow> (None, f2)
      | Some ip \<Rightarrow>
     (case overwrite f2 10 (to_be_bytes 2 (NOT (gso_fold (sum16 ip)))) of None \<Rightarrow> (None, f2)
      | Some f3 \<Rightarrow>
     (case (if gr_proto run = PROTO_UDP
            then (case u16_of (UDP_LEN + gr_payload run) of None \<Rightarrow> None
                  | Some udp_total \<Rightarrow> overwrite f3 (IPV4_LEN + 4) (to_be_bytes 2 udp_total))
            else Some f3) of None \<Rightarrow> (None, f3)
      | Some f4 \<Rightarrow>
     (case pseudo_header f4 run of None \<Rightarrow> (None, f4)
      | Some partial \<Rightarrow>
     (case overwrite f4 (IPV4_LEN + unat (csum_offset (gr_proto run))) (to_be_bytes 2 partial) of
        None \<Rightarrow> (None, f4)
      | Some f5 \<Rightarrow> (Some (vnet_header run), f5)))))))))"

definition take_held :: "coalescer \<Rightarrow> (bytes \<times> bytes) option \<times> coalescer" where
  "take_held c =
     (if \<not> co_pending c then (None, c)
      else
        let c1 = c\<lparr>co_pending := False, co_run := None\<rparr>;
            plain = c1\<lparr>co_header := replicate VNET_HDR_LEN 0\<rparr> in
        case co_run c of
          None \<Rightarrow> (Some (co_header plain, co_frame plain), plain)
        | Some run \<Rightarrow>
            if gr_count run = 1 then (Some (co_header plain, co_frame plain), plain)
            else (case gso_finish (co_frame c1) run of
                    (None, frame) \<Rightarrow> (None, c1\<lparr>co_frame := frame\<rparr>)
                  | (Some hdr, frame) \<Rightarrow> (Some (hdr, frame), c1\<lparr>co_header := hdr, co_frame := frame\<rparr>)))"

definition co_is_empty :: "coalescer \<Rightarrow> bool" where
  "co_is_empty c \<longleftrightarrow> \<not> co_pending c"

definition co_clear :: "coalescer \<Rightarrow> coalescer" where
  "co_clear c = c\<lparr>co_frame := [], co_run := None, co_pending := False\<rparr>"

section \<open>Writing to the device\<close>

text \<open>One write of the tunnel to its device: a packet on its own, or a frame with the header that tells
  how to split it; and what the tunnel does with each packet it delivers (\<open>Tunnel::write_inner\<close>) and at
  the end of a batch (\<open>Tunnel::flush_inner\<close>), as far as the device sees it.\<close>

datatype device_write = WriteOne bytes | WriteHeld bytes bytes

definition write_held :: "coalescer \<Rightarrow> device_write list \<times> coalescer" where
  "write_held c =
     (case take_held c of (None, c1) \<Rightarrow> ([], c1) | (Some (hdr, frame), c1) \<Rightarrow> ([WriteHeld hdr frame], c1))"

definition write_coalesced :: "coalescer \<Rightarrow> bytes \<Rightarrow> device_write list \<times> coalescer" where
  "write_coalesced c packet =
     (let (before, c1) = (if joins c packet then ([], c) else write_held c) in
      if can_hold packet then (before, hold c1 packet) else (before @ [WriteOne packet], c1))"

fun write_batch :: "coalescer \<Rightarrow> bytes list \<Rightarrow> device_write list \<times> coalescer" where
  "write_batch c [] = write_held c"
| "write_batch c (p # ps) =
     (let (ws, c1) = write_coalesced c p; (ws', c2) = write_batch c1 ps in (ws @ ws', c2))"

section \<open>What the device is asked to emit\<close>

text \<open>A packet as the receiving stack tells it apart: byte for byte when it is never grouped; otherwise
  the fields of its IPv4 header that all segments share, its transport header without the fields that
  vary along a run, its sequence number and its payload.\<close>

datatype inner_view =
    As_is bytes
  | Segment_of "bytes option list" bytes u32 bytes

definition blank :: "u8 \<Rightarrow> bytes \<Rightarrow> bytes" where
  "blank proto l4 =
     map (\<lambda>(i, x). if list_ex (\<lambda>(a, b). a \<le> i \<and> i < b) (varies proto) then 0 else x) (enumerate 0 l4)"

definition shared :: "bytes \<Rightarrow> bytes option list" where
  "shared ip = map (\<lambda>(x, y). get_range ip x y) SAME"

definition segment_view :: "gso_packet \<Rightarrow> inner_view" where
  "segment_view p = Segment_of (shared (gp_ip p)) (blank (gp_proto p) (gp_l4 p)) (gp_seq p) (gp_payload p)"

definition view :: "bytes \<Rightarrow> inner_view" where
  "view packet = (if can_hold packet then segment_view (the (gso_parse packet)) else As_is packet)"

text \<open>What a \<open>virtio_net_hdr\<close> asks for: the bytes behind the headers in pieces of \<open>gso_size\<close>, each behind
  a copy of the headers, the sequence number advanced by what went before.\<close>

function split_at_size :: "nat \<Rightarrow> bytes \<Rightarrow> bytes list" where
  "split_at_size n xs =
     (if xs = [] then [] else if n = 0 then [xs] else take n xs # split_at_size n (drop n xs))"
  by pat_completeness auto
termination by (relation "measure (\<lambda>(n, xs). length xs)") auto

declare split_at_size.simps [simp del]

definition segments_asked :: "bytes \<Rightarrow> bytes \<Rightarrow> inner_view list" where
  "segments_asked hdr frame =
     (let tcp = (hdr ! 1 = GSO_TCPV4);
          hdr_len = unat (from_le_bytes [hdr ! 2, hdr ! 3] :: u16);
          size = unat (from_le_bytes [hdr ! 4, hdr ! 5] :: u16);
          ip = take IPV4_LEN frame;
          l4 = take (hdr_len - IPV4_LEN) (drop IPV4_LEN frame);
          first = (if tcp then the (be32_at l4 4) else 0);
          pieces = split_at_size size (drop hdr_len frame)
      in map (\<lambda>k. Segment_of (shared ip) (blank (if tcp then PROTO_TCP else PROTO_UDP) l4)
                    (if tcp then first + of_nat (k * size) else 0) (pieces ! k))
           [0..<length pieces])"

fun emitted :: "device_write \<Rightarrow> inner_view list" where
  "emitted (WriteOne packet) = [view packet]"
| "emitted (WriteHeld hdr frame) =
     (if hdr = replicate VNET_HDR_LEN 0 then [view frame] else segments_asked hdr frame)"

section \<open>Runs\<close>

text \<open>A parsed packet is its IPv4 header, its transport header and its payload, in that order.\<close>

definition packet_ok :: "gso_packet \<Rightarrow> bool" where
  "packet_ok p \<longleftrightarrow> length (gp_ip p) = IPV4_LEN \<and>
     gso_parse (gp_ip p @ gp_l4 p @ gp_payload p) = Some p \<and>
     (if gp_proto p = PROTO_TCP then 20 \<le> length (gp_l4 p) \<and> be32_at (gp_l4 p) 4 = Some (gp_seq p)
      else gp_proto p = PROTO_UDP \<and> length (gp_l4 p) = UDP_LEN \<and> gp_seq p = 0) \<and>
     IPV4_LEN + length (gp_l4 p) + length (gp_payload p) \<le> MAX_IP_TOTAL"

lemma gso_l4_cases:
  assumes "gso_l4 proto rest = Some (n, sq)"
  shows "n \<le> length rest \<and> (if proto = PROTO_TCP then 20 \<le> n \<and> be32_at rest 4 = Some sq
    else proto = PROTO_UDP \<and> n = UDP_LEN \<and> sq = 0)"
  using assms by (auto simp: gso_l4_def bind_eq_Some_conv Let_def split: if_splits)

lemma gso_parse_ok:
  assumes "gso_parse bs = Some p"
  shows "packet_ok p"
proof -
  obtain tot frag :: u16 and l4_len where p: "length bs \<ge> 20" "bs ! 0 = 0x45"
    "be16_at (take 20 bs) 2 = Some tot" "be16_at (take 20 bs) 6 = Some frag" "frag AND 0x3FFF = 0"
    "unat tot \<le> length bs" "20 \<le> unat tot"
    "gso_l4 (bs ! 9) (take (unat tot - 20) (drop 20 bs)) = Some (l4_len, gp_seq p)"
    "gp_ip p = take 20 bs" "gp_proto p = bs ! 9"
    "gp_l4 p = take l4_len (take (unat tot - 20) (drop 20 bs))"
    "gp_payload p = drop l4_len (take (unat tot - 20) (drop 20 bs))"
    using assms
    by (auto simp: gso_parse_def get_range_def get_from_def get_def IPV4_LEN_def bind_eq_Some_conv
        Let_def split: if_splits)
  let ?rest = "take (unat tot - 20) (drop 20 bs)"
  note l4 = gso_l4_cases [OF p(8)]
  have whole: "gp_ip p @ gp_l4 p @ gp_payload p = take 20 bs @ ?rest"
    by (simp only: p(9,11,12) append_take_drop_id)
  have ip: "take 20 (take 20 bs @ ?rest) = take 20 bs" "drop 20 (take 20 bs @ ?rest) = ?rest"
    using p(1) by simp_all
  have "bs \<noteq> []"
    using p(1) by auto
  then have "gso_parse (take 20 bs @ ?rest) = Some p"
    using p l4
    by (simp add: gso_parse_def get_range_def get_from_def get_def IPV4_LEN_def nth_append)
  moreover have "be32_at (take l4_len ?rest) 4 = be32_at ?rest 4" if "20 \<le> l4_len"
    using that l4 by (simp add: be32_at_def get_def)
  ultimately show ?thesis
    using p l4 unat_bounds(2) [of tot] whole
    by (auto simp: packet_ok_def IPV4_LEN_def MAX_IP_TOTAL_def)
qed

lemma view_packet:
  assumes "gso_parse bs = Some p" and "gp_payload p \<noteq> []"
  shows "view bs = segment_view p" "view (gp_ip p @ gp_l4 p @ gp_payload p) = segment_view p"
  using assms gso_parse_ok [OF assms(1)] by (simp_all add: view_def can_hold_def packet_ok_def)

lemma length_blank [simp]: "length (blank proto l4) = length l4"
  by (simp add: blank_def)

lemma blank_nth:
  "i < length l4 \<Longrightarrow>
     blank proto l4 ! i = (if list_ex (\<lambda>(a, b). a \<le> i \<and> i < b) (varies proto) then 0 else l4 ! i)"
  by (simp add: blank_def nth_enumerate_eq)

lemma same_l4_nth:
  assumes "length xs = length ys"
  shows "same_l4 vs i xs ys \<longleftrightarrow>
    (\<forall>k < length xs. list_ex (\<lambda>(a, b). a \<le> i + k \<and> i + k < b) vs \<or> xs ! k = ys ! k)"
  using assms
proof (induction xs ys arbitrary: i rule: list_induct2)
  case (Cons x xs y ys)
  show ?case
    unfolding same_l4.simps Cons.IH by (auto simp: All_less_Suc2)
qed simp

lemma same_l4_blank:
  "length xs = length ys \<Longrightarrow> same_l4 (varies proto) 0 xs ys \<Longrightarrow> blank proto xs = blank proto ys"
  by (rule nth_equalityI) (auto simp: same_l4_nth blank_nth)

text \<open>The packets of a run: alike in all that is shared, full but for the last, in sequence.\<close>

definition run_step :: "gso_packet \<Rightarrow> nat \<Rightarrow> gso_packet \<Rightarrow> bool" where
  "run_step f k p \<longleftrightarrow> packet_ok p \<and> gp_payload p \<noteq> [] \<and> shared (gp_ip p) = shared (gp_ip f) \<and>
     gp_proto p = gp_proto f \<and> length (gp_l4 p) = length (gp_l4 f) \<and>
     blank (gp_proto f) (gp_l4 p) = blank (gp_proto f) (gp_l4 f) \<and>
     (gp_proto f = PROTO_TCP \<longrightarrow> gp_seq p = gp_seq f + of_nat (k * length (gp_payload f))) \<and>
     length (gp_payload p) \<le> length (gp_payload f)"

definition is_run :: "gso_packet list \<Rightarrow> bool" where
  "is_run ps \<longleftrightarrow> ps \<noteq> [] \<and> (\<forall>k < length ps. run_step (hd ps) k (ps ! k)) \<and>
     (\<forall>p \<in> set (butlast ps). length (gp_payload p) = length (gp_payload (hd ps))) \<and>
     IPV4_LEN + length (gp_l4 (hd ps)) + length (concat (map gp_payload ps)) \<le> MAX_IP_TOTAL"

definition holds_run :: "coalescer \<Rightarrow> gso_packet list \<Rightarrow> bool" where
  "holds_run c ps \<longleftrightarrow> is_run ps \<and> co_pending c \<and>
     co_frame c = gp_ip (hd ps) @ gp_l4 (hd ps) @ concat (map gp_payload ps) \<and>
     co_run c = Some \<lparr>gr_proto = gp_proto (hd ps), gr_l4_len = length (gp_l4 (hd ps)),
       gr_gso_size = length (gp_payload (hd ps)), gr_count = length ps,
       gr_payload = length (concat (map gp_payload ps)), gr_last_ip = gp_ip (hd ps),
       gr_last_l4 = gp_l4 (last ps), gr_last_seq = gp_seq (last ps),
       gr_last_payload = length (gp_payload (last ps))\<rparr>"

lemma is_run_single:
  assumes "packet_ok p" and "gp_payload p \<noteq> []"
  shows "is_run [p]"
  using assms by (simp add: is_run_def run_step_def packet_ok_def)

lemma shared_eq:
  "\<not> list_ex (\<lambda>(x, y). get_range a x y \<noteq> get_range b x y) SAME \<longleftrightarrow> shared a = shared b"
  by (auto simp: shared_def SAME_def)

lemma run_step_next:
  assumes a: "run_step f k a" and ok: "packet_ok q" and size: "length (gp_payload f) < 2 ^ 32"
    and c: "continues_after \<lparr>gp_l4 = gp_l4 a, gp_payload = [], gp_ip = gp_ip f, gp_proto = gp_proto f,
        gp_seq = gp_seq a\<rparr> (length (gp_payload a)) q (length (gp_payload f))"
  shows "run_step f (Suc k) q \<and> length (gp_payload a) = length (gp_payload f)"
proof -
  have q: "shared (gp_ip q) = shared (gp_ip f)" "gp_proto q = gp_proto f"
    "length (gp_l4 a) = length (gp_l4 q)" "same_l4 (varies (gp_proto f)) 0 (gp_l4 a) (gp_l4 q)"
    "gp_proto f = PROTO_TCP \<longrightarrow> gp_seq q = gp_seq a + size32 (length (gp_payload a))"
    "length (gp_payload a) = length (gp_payload f)" "gp_payload q \<noteq> []"
    "length (gp_payload q) \<le> length (gp_payload f)"
    using c by (auto simp: continues_after_def shared_eq split: if_splits)
  then show ?thesis
    using a ok size same_l4_blank [OF q(3,4)] by (simp add: run_step_def size32_def algebra_simps)
qed

lemma is_run_snoc:
  assumes run: "is_run ps" and ok: "packet_ok q"
    and c: "continues_after \<lparr>gp_l4 = gp_l4 (last ps), gp_payload = [], gp_ip = gp_ip (hd ps),
        gp_proto = gp_proto (hd ps), gp_seq = gp_seq (last ps)\<rparr> (length (gp_payload (last ps))) q
        (length (gp_payload (hd ps)))"
    and fits: "IPV4_LEN + length (gp_l4 (hd ps)) + length (concat (map gp_payload ps))
      + length (gp_payload q) \<le> MAX_IP_TOTAL"
  shows "is_run (ps @ [q])"
proof -
  obtain rs a where ps: "ps = rs @ [a]"
    using run by (metis is_run_def rev_exhaust)
  have "length (gp_payload (hd ps)) \<le> length (concat (map gp_payload ps))"
    by (cases ps) (simp_all add: ps)
  then have size: "length (gp_payload (hd ps)) < 2 ^ 32"
    using fits by (simp add: MAX_IP_TOTAL_def)
  have a: "run_step (hd ps) (length rs) a"
    using run by (auto simp: is_run_def ps dest: spec [of _ "length rs"])
  have q: "run_step (hd ps) (Suc (length rs)) q" "length (gp_payload a) = length (gp_payload (hd ps))"
    using run_step_next [OF a ok size] c by (simp_all add: ps)
  have hd: "hd (ps @ [q]) = hd ps"
    by (simp add: ps hd_append)
  have "run_step (hd ps) k ((ps @ [q]) ! k)" if "k < length (ps @ [q])" for k
  proof (cases "k < length ps")
    case True
    then show ?thesis
      using run by (simp add: is_run_def nth_append)
  next
    case False
    with that have "k = length ps"
      by simp
    moreover from this have "k = Suc (length rs)"
      by (simp add: ps)
    ultimately have "(ps @ [q]) ! k = q" "k = Suc (length rs)"
      by simp_all
    then show ?thesis
      using q(1) by simp
  qed
  moreover have "length (gp_payload p) = length (gp_payload (hd ps))" if "p \<in> set ps" for p
    using that run q(2) by (auto simp: is_run_def ps butlast_append)
  ultimately show ?thesis
    using fits unfolding is_run_def hd by simp
qed

lemma split_full:
  assumes "0 < n" and "\<forall>x \<in> set xs. length x = n" and "y \<noteq> []" and "length y \<le> n"
  shows "split_at_size n (concat xs @ y) = xs @ [y]"
  using assms(2)
proof (induction xs)
  case Nil
  then show ?case
    using assms by (simp add: split_at_size.simps [of n y] split_at_size.simps [of n "[]"])
next
  case (Cons x xs)
  then show ?case
    using assms(1) by (subst split_at_size.simps) auto
qed

lemma split_run:
  assumes "is_run ps"
  shows "split_at_size (length (gp_payload (hd ps))) (concat (map gp_payload ps)) = map gp_payload ps"
proof -
  obtain rs a where ps: "ps = rs @ [a]"
    using assms by (metis is_run_def rev_exhaust)
  have a: "run_step (hd ps) (length rs) a" and f: "run_step (hd ps) 0 (hd ps)"
    using assms by (auto simp: is_run_def ps hd_conv_nth dest: spec [of _ "length rs"])
  have "\<forall>x \<in> set (map gp_payload rs). length x = length (gp_payload (hd ps))"
    using assms by (auto simp: is_run_def ps)
  moreover have "gp_payload a \<noteq> []" "length (gp_payload a) \<le> length (gp_payload (hd ps))"
    "0 < length (gp_payload (hd ps))"
    using a f by (simp_all add: run_step_def)
  ultimately show ?thesis
    using split_full [of "length (gp_payload (hd ps))" "map gp_payload rs" "gp_payload a"]
    by (simp add: ps)
qed

section \<open>The frame that is written\<close>

lemma overwrite_middle:
  assumes "k + length bs \<le> length mid" and "at = length pre + k"
  shows "overwrite (pre @ mid @ post) at bs =
    Some (pre @ (take k mid @ bs @ drop (k + length bs) mid) @ post)"
  using assms by (simp add: overwrite_def)

lemma blank_overwrite:
  assumes "k + length bs \<le> length l4"
    and "\<And>i. k \<le> i \<Longrightarrow> i < k + length bs \<Longrightarrow> list_ex (\<lambda>(a, b). a \<le> i \<and> i < b) (varies proto)"
  shows "blank proto (take k l4 @ bs @ drop (k + length bs) l4) = blank proto l4"
  using assms by (intro nth_equalityI) (auto simp: blank_nth nth_append)

lemma shared_written:
  assumes "length ip = 20" and "length x = 2" and "length y = 2"
  shows "shared (take 2 ip @ x @ take 6 (drop 4 ip) @ y @ drop 12 ip) = shared ip"
proof -
  obtain a b c d where "x = [a, b]" "y = [c, d]"
    using assms(2,3) by (auto simp: numeral_eq_Suc length_Suc_conv)
  with assms(1) show ?thesis
    by (auto simp: shared_def SAME_def get_range_def numeral_eq_Suc length_Suc_conv)
qed

definition run_of :: "gso_packet \<Rightarrow> nat \<Rightarrow> nat \<Rightarrow> gso_packet \<Rightarrow> gso_run" where
  "run_of f n tot a =
     \<lparr>gr_proto = gp_proto f, gr_l4_len = length (gp_l4 f), gr_gso_size = length (gp_payload f),
      gr_count = n, gr_payload = tot, gr_last_ip = gp_ip f, gr_last_l4 = gp_l4 a,
      gr_last_seq = gp_seq a, gr_last_payload = length (gp_payload a)\<rparr>"

lemma finish_run:
  assumes ok: "packet_ok f" and fits: "IPV4_LEN + length (gp_l4 f) + length body \<le> MAX_IP_TOTAL"
    and size: "length (gp_payload f) \<le> length body"
  shows "\<exists>ip l4. gso_finish (gp_ip f @ gp_l4 f @ body) (run_of f n (length body) a) =
      (Some (vnet_header (run_of f n (length body) a)), ip @ l4 @ body)
    \<and> length ip = IPV4_LEN \<and> shared ip = shared (gp_ip f) \<and> length l4 = length (gp_l4 f)
    \<and> blank (gp_proto f) l4 = blank (gp_proto f) (gp_l4 f)
    \<and> (gp_proto f = PROTO_TCP \<longrightarrow> be32_at l4 4 = Some (gp_seq f))"
proof -
  let ?r = "run_of f n (length body) a"
  let ?rest = "gp_l4 f @ body"
  have ip: "length (gp_ip f) = 20"
    using ok by (simp add: packet_ok_def IPV4_LEN_def)
  have l4: "if gp_proto f = PROTO_TCP then 20 \<le> length (gp_l4 f) \<and> be32_at (gp_l4 f) 4 = Some (gp_seq f)
     else gp_proto f = PROTO_UDP \<and> length (gp_l4 f) = 8"
    using ok by (auto simp: packet_ok_def UDP_LEN_def split: if_splits)
  define t :: bytes where "t = to_be_bytes 2 (of_nat (20 + length (gp_l4 f) + length body) :: u16)"
  define ip2 where "ip2 = take 2 (gp_ip f) @ t @ take 6 (drop 4 (gp_ip f)) @ [0, 0] @ drop 12 (gp_ip f)"
  define ck where "ck = to_be_bytes 2 (NOT (gso_fold (sum16 ip2)))"
  define ip3 where "ip3 = take 2 (gp_ip f) @ t @ take 6 (drop 4 (gp_ip f)) @ ck @ drop 12 (gp_ip f)"
  have len: "length t = 2" "length ck = 2" "length ip2 = 20" "length ip3 = 20"
    using ip by (simp_all add: t_def ck_def ip2_def ip3_def)
  have first: "overwrite (gp_ip f @ ?rest) 2 t = Some ((take 2 (gp_ip f) @ t @ drop 4 (gp_ip f)) @ ?rest)"
    using ip len overwrite_middle [of 2 t "gp_ip f" 2 "[]" ?rest] by simp
  have second: "overwrite ((take 2 (gp_ip f) @ t @ drop 4 (gp_ip f)) @ ?rest) 10 [0, 0] = Some (ip2 @ ?rest)"
    using ip len overwrite_middle [of 6 "[0, 0]" "drop 4 (gp_ip f)" 10 "take 2 (gp_ip f) @ t" ?rest]
    by (simp add: ip2_def)
  have third: "overwrite (ip2 @ ?rest) 10 ck = Some (ip3 @ ?rest)"
    using ip len overwrite_middle [of 0 ck "[0, 0]" 10
        "take 2 (gp_ip f) @ t @ take 6 (drop 4 (gp_ip f))" "drop 12 (gp_ip f) @ ?rest"]
    by (simp add: ip2_def ip3_def)
  have share: "shared ip3 = shared (gp_ip f)"
    unfolding ip3_def by (rule shared_written) (simp_all add: ip len)
  have until: "gso_finish (gp_ip f @ ?rest) ?r =
     (case (if gp_proto f = PROTO_UDP
            then overwrite (ip3 @ ?rest) 24 (to_be_bytes 2 (of_nat (8 + length body) :: u16))
            else Some (ip3 @ ?rest)) of None \<Rightarrow> (None, ip3 @ ?rest)
      | Some f4 \<Rightarrow>
     (case pseudo_header f4 ?r of None \<Rightarrow> (None, f4)
      | Some partial \<Rightarrow>
     (case overwrite f4 (20 + unat (csum_offset (gp_proto f))) (to_be_bytes 2 partial) of
        None \<Rightarrow> (None, f4)
      | Some f5 \<Rightarrow> (Some (vnet_header ?r), f5))))"
    using fits first second third len
    by (simp add: gso_finish_def run_of_def u16_of_def IPV4_LEN_def MAX_IP_TOTAL_def UDP_LEN_def t_def
        get_range_def ck_def cong: option.case_cong)
  have pseudo: "\<exists>v. pseudo_header (ip3 @ rest) ?r = Some v" for rest
    using len fits size
    by (simp add: pseudo_header_def get_range_def u16_of_def run_of_def IPV4_LEN_def MAX_IP_TOTAL_def)
  show ?thesis
  proof (cases "gp_proto f = PROTO_TCP")
    case True
    obtain v where v: "pseudo_header (ip3 @ ?rest) ?r = Some v"
      using pseudo by blast
    have "overwrite (ip3 @ ?rest) 36 (to_be_bytes 2 v) =
        Some (ip3 @ (take 16 (gp_l4 f) @ to_be_bytes 2 v @ drop 18 (gp_l4 f)) @ body)"
      using True l4 len overwrite_middle [of 16 "to_be_bytes 2 v" "gp_l4 f" 36 ip3 body] by simp
    moreover have "blank (gp_proto f) (take 16 (gp_l4 f) @ to_be_bytes 2 v @ drop 18 (gp_l4 f))
        = blank (gp_proto f) (gp_l4 f)"
      using True l4 blank_overwrite [of 16 "to_be_bytes 2 v" "gp_l4 f" "gp_proto f"]
      by (simp add: varies_def TCP_SEQ_def TCP_CSUM_def)
    moreover have "be32_at (take 16 (gp_l4 f) @ to_be_bytes 2 v @ drop 18 (gp_l4 f)) 4 = Some (gp_seq f)"
      using True l4 by (auto simp: be32_at_def get_def nth_append)
    moreover have "PROTO_TCP \<noteq> PROTO_UDP" "2 \<le> length (gp_l4 f)"
      using True l4 by (auto simp: PROTO_TCP_def PROTO_UDP_def)
    moreover from this have "Suc (Suc (length (gp_l4 f) - 2)) = length (gp_l4 f)"
      by simp
    ultimately show ?thesis
      using until True v share len l4
      by - (rule exI [of _ ip3], rule exI [of _ "take 16 (gp_l4 f) @ to_be_bytes 2 v @ drop 18 (gp_l4 f)"],
        simp add: csum_offset_def TCP_CSUM_OFFSET_def IPV4_LEN_def)
  next
    case False
    define u where "u = to_be_bytes 2 (of_nat (8 + length body) :: u16)"
    define l where "l = take 4 (gp_l4 f) @ u @ drop 6 (gp_l4 f)"
    have lu: "length u = 2" "length l = 8" "gp_proto f = PROTO_UDP" "length (gp_l4 f) = 8"
      using False l4 by (simp_all add: u_def l_def)
    have w: "overwrite (ip3 @ ?rest) 24 u = Some (ip3 @ l @ body)"
      using lu len overwrite_middle [of 4 u "gp_l4 f" 24 ip3 body] by (simp add: l_def)
    obtain v where v: "pseudo_header (ip3 @ l @ body) ?r = Some v"
      using pseudo by blast
    have w2: "overwrite (ip3 @ l @ body) 26 (to_be_bytes 2 v) =
        Some (ip3 @ (take 6 l @ to_be_bytes 2 v @ drop 8 l) @ body)"
      using lu len overwrite_middle [of 6 "to_be_bytes 2 v" l 26 ip3 body] by simp
    have "blank (gp_proto f) (take 6 l @ to_be_bytes 2 v @ drop 8 l) = blank (gp_proto f) l"
      using lu False blank_overwrite [of 6 "to_be_bytes 2 v" l "gp_proto f"]
      by (simp add: varies_def UDP_LENGTH_def UDP_CSUM_def)
    also have "\<dots> = blank (gp_proto f) (gp_l4 f)"
      using lu False blank_overwrite [of 4 u "gp_l4 f" "gp_proto f"]
      by (simp add: varies_def UDP_LENGTH_def UDP_CSUM_def l_def)
    finally show ?thesis
      using until False v share len lu w w2
      by - (rule exI [of _ ip3], rule exI [of _ "take 6 l @ to_be_bytes 2 v @ drop 8 l"],
        simp add: csum_offset_def UDP_CSUM_OFFSET_def IPV4_LEN_def u_def)
  qed
qed

lemma vnet_header_reads:
  assumes "IPV4_LEN + gr_l4_len r < 65536" and "gr_gso_size r < 65536"
  shows "vnet_header r ! 0 = NEEDS_CSUM"
    "vnet_header r ! 1 = (if gr_proto r = PROTO_TCP then GSO_TCPV4 else GSO_UDP_L4)"
    "unat (from_le_bytes [vnet_header r ! 2, vnet_header r ! 3] :: u16) = IPV4_LEN + gr_l4_len r"
    "unat (from_le_bytes [vnet_header r ! 4, vnet_header r ! 5] :: u16) = gr_gso_size r"
proof -
  have two: "\<exists>a b. to_le_bytes 2 w = [a, b] \<and> from_le_bytes [a, b] = w" for w :: u16
    using from_le_to_le [of 2 w] by (simp add: to_le_bytes_def numeral_eq_Suc)
  obtain a b c d where "to_le_bytes 2 (of_nat (IPV4_LEN + gr_l4_len r) :: u16) = [a, b]"
    "from_le_bytes [a, b] = (of_nat (IPV4_LEN + gr_l4_len r) :: u16)"
    "to_le_bytes 2 (of_nat (gr_gso_size r) :: u16) = [c, d]"
    "from_le_bytes [c, d] = (of_nat (gr_gso_size r) :: u16)"
    using two [of "of_nat (IPV4_LEN + gr_l4_len r)"] two [of "of_nat (gr_gso_size r)"] by blast
  then show "vnet_header r ! 0 = NEEDS_CSUM"
    "vnet_header r ! 1 = (if gr_proto r = PROTO_TCP then GSO_TCPV4 else GSO_UDP_L4)"
    "unat (from_le_bytes [vnet_header r ! 2, vnet_header r ! 3] :: u16) = IPV4_LEN + gr_l4_len r"
    "unat (from_le_bytes [vnet_header r ! 4, vnet_header r ! 5] :: u16) = gr_gso_size r"
    using assms by (simp_all add: vnet_header_def u16_of_def unat_of_nat del: of_nat_add)
qed

lemma emitted_run:
  assumes run: "is_run ps" and len: "length ps \<noteq> 1" and r: "r = run_of (hd ps) n tot a"
    and ip: "length ip = IPV4_LEN" "shared ip = shared (gp_ip (hd ps))"
    and l4: "length l4 = length (gp_l4 (hd ps))"
      "blank (gp_proto (hd ps)) l4 = blank (gp_proto (hd ps)) (gp_l4 (hd ps))"
      "gp_proto (hd ps) = PROTO_TCP \<longrightarrow> be32_at l4 4 = Some (gp_seq (hd ps))"
  shows "emitted (WriteHeld (vnet_header r) (ip @ l4 @ concat (map gp_payload ps))) = map segment_view ps"
proof -
  let ?f = "hd ps" and ?body = "concat (map gp_payload ps)"
  have f: "run_step ?f 0 ?f" and steps: "\<And>k. k < length ps \<Longrightarrow> run_step ?f k (ps ! k)"
    and ne: "ps \<noteq> []"
    using run by (auto simp: is_run_def hd_conv_nth)
  have ok: "packet_ok ?f"
    using f by (simp add: run_step_def)
  have small: "IPV4_LEN + gr_l4_len r < 65536" "gr_gso_size r < 65536"
    using ok by (simp_all add: r run_of_def packet_ok_def MAX_IP_TOTAL_def)
  note hdr = vnet_header_reads [OF small]
  have nz: "vnet_header r \<noteq> replicate VNET_HDR_LEN 0"
    using hdr(1) by (auto simp: VNET_HDR_LEN_def NEEDS_CSUM_def)
  have fields: "gr_l4_len r = length l4" "gr_gso_size r = length (gp_payload ?f)" "gr_proto r = gp_proto ?f"
    using l4(1) by (simp_all add: r run_of_def)
  have proto: "(if gp_proto ?f = PROTO_TCP then PROTO_TCP else PROTO_UDP) = gp_proto ?f"
    using ok by (auto simp: packet_ok_def split: if_splits)
  have kinds: "GSO_UDP_L4 \<noteq> GSO_TCPV4"
    by (simp add: GSO_UDP_L4_def GSO_TCPV4_def)
  have "segments_asked (vnet_header r) (ip @ l4 @ ?body) =
      map (\<lambda>k. Segment_of (shared (gp_ip ?f)) (blank (gp_proto ?f) (gp_l4 ?f))
        (if gp_proto ?f = PROTO_TCP then gp_seq ?f + of_nat (k * length (gp_payload ?f)) else 0)
        (gp_payload (ps ! k))) [0..<length ps]"
    unfolding segments_asked_def Let_def hdr fields
    using l4 ip kinds split_run [OF run] proto
    by (cases "gp_proto ?f = PROTO_TCP") simp_all
  also have "\<dots> = map (\<lambda>k. segment_view (ps ! k)) [0..<length ps]"
  proof (rule map_cong [OF refl])
    fix k
    assume "k \<in> set [0..<length ps]"
    then have "run_step ?f k (ps ! k)"
      by (simp add: steps)
    then show "Segment_of (shared (gp_ip ?f)) (blank (gp_proto ?f) (gp_l4 ?f))
        (if gp_proto ?f = PROTO_TCP then gp_seq ?f + of_nat (k * length (gp_payload ?f)) else 0)
        (gp_payload (ps ! k)) = segment_view (ps ! k)"
      by (cases "gp_proto ?f = PROTO_TCP") (simp_all add: run_step_def segment_view_def packet_ok_def)
  qed
  also have "\<dots> = map segment_view ps"
    by (metis map_map comp_def map_nth map_cong)
  finally show ?thesis
    using nz by simp
qed

section \<open>Nothing is lost or reordered\<close>

lemma held_single:
  assumes "co_run c = None" and "gso_parse packet = Some p" and "gp_payload p \<noteq> []"
  shows "holds_run (hold c packet) [p]"
  using assms gso_parse_ok [OF assms(2)] is_run_single [of p]
  by (simp add: hold_def holds_run_def packet_ok_def get_range_def)

lemma held_more:
  assumes c: "holds_run c ps" and j: "joins c packet" and p: "gso_parse packet = Some p"
  shows "holds_run (hold c packet) (ps @ [p])"
proof -
  have ne: "ps \<noteq> []"
    using c by (simp add: holds_run_def is_run_def)
  have "is_run (ps @ [p])"
  proof (rule is_run_snoc)
    show "is_run ps" "packet_ok p"
      using c gso_parse_ok [OF p] by (simp_all add: holds_run_def)
  qed (use c j p in \<open>auto simp: holds_run_def joins_def Let_def split: if_splits\<close>)
  then show ?thesis
    using c p ne by (simp add: hold_def holds_run_def hd_append)
qed

lemma write_held_run:
  assumes c: "holds_run c ps"
  shows "concat (map emitted (fst (write_held c))) = map segment_view ps
    \<and> co_run (snd (write_held c)) = None \<and> \<not> co_pending (snd (write_held c))"
proof -
  have run: "is_run ps" and pend: "co_pending c"
    and frame: "co_frame c = gp_ip (hd ps) @ gp_l4 (hd ps) @ concat (map gp_payload ps)"
    and r: "co_run c = Some (run_of (hd ps) (length ps) (length (concat (map gp_payload ps))) (last ps))"
    using c by (simp_all add: holds_run_def run_of_def)
  have f: "run_step (hd ps) 0 (hd ps)" and ne: "ps \<noteq> []"
    using run by (auto simp: is_run_def hd_conv_nth)
  have ok: "packet_ok (hd ps)" "gp_payload (hd ps) \<noteq> []"
    using f by (simp_all add: run_step_def)
  show ?thesis
  proof (cases "length ps = 1")
    case True
    then obtain p where "ps = [p]"
      by (auto simp: length_Suc_conv)
    moreover from this ok have "view (gp_ip p @ gp_l4 p @ gp_payload p) = segment_view p"
      by (simp add: packet_ok_def view_def can_hold_def)
    ultimately show ?thesis
      using pend frame r by (simp add: write_held_def take_held_def run_of_def Let_def)
  next
    case False
    have size: "length (gp_payload (hd ps)) \<le> length (concat (map gp_payload ps))"
      using ne by (cases ps) simp_all
    obtain ip l4 where fin: "gso_finish (co_frame c)
        (run_of (hd ps) (length ps) (length (concat (map gp_payload ps))) (last ps)) =
        (Some (vnet_header (run_of (hd ps) (length ps) (length (concat (map gp_payload ps))) (last ps))),
         ip @ l4 @ concat (map gp_payload ps))"
      "length ip = IPV4_LEN" "shared ip = shared (gp_ip (hd ps))" "length l4 = length (gp_l4 (hd ps))"
      "blank (gp_proto (hd ps)) l4 = blank (gp_proto (hd ps)) (gp_l4 (hd ps))"
      "gp_proto (hd ps) = PROTO_TCP \<longrightarrow> be32_at l4 4 = Some (gp_seq (hd ps))"
      using finish_run [OF ok(1) _ size, of "length ps" "last ps"] run unfolding is_run_def frame by auto
    have "gr_count (run_of (hd ps) (length ps) (length (concat (map gp_payload ps))) (last ps)) \<noteq> 1"
      using False by (simp add: run_of_def)
    then show ?thesis
      using pend r fin(1) emitted_run [OF run False refl fin(2-6)]
      by (simp add: write_held_def take_held_def Let_def del: emitted.simps)
  qed
qed

text \<open>Between packets the coalescer holds nothing, or a run.\<close>

definition holding :: "coalescer \<Rightarrow> gso_packet list \<Rightarrow> bool" where
  "holding c ps \<longleftrightarrow> (if ps = [] then co_run c = None \<and> \<not> co_pending c else holds_run c ps)"

lemma write_held_holding:
  assumes "holding c ps"
  shows "concat (map emitted (fst (write_held c))) = map segment_view ps \<and> holding (snd (write_held c)) []"
proof (cases "ps = []")
  case True
  then show ?thesis
    using assms by (simp add: holding_def write_held_def take_held_def)
next
  case False
  then show ?thesis
    using assms write_held_run [of c ps] by (simp add: holding_def)
qed

lemma write_coalesced_holding:
  assumes "holding c ps"
  shows "\<exists>qs. holding (snd (write_coalesced c packet)) qs \<and>
    concat (map emitted (fst (write_coalesced c packet))) @ map segment_view qs =
      map segment_view ps @ [view packet]"
proof (cases "joins c packet")
  case True
  then obtain p where p: "gso_parse packet = Some p" "gp_payload p \<noteq> []"
    by (auto simp: joins_def continues_after_def Let_def split: option.splits if_splits)
  have "holding (hold c packet) (ps @ [p])"
    using assms True held_single [OF _ p, of c] held_more [of c ps packet p] p(1)
    by (auto simp: holding_def split: if_splits)
  then show ?thesis
    using True p view_packet [OF p] by (intro exI [of _ "ps @ [p]"]) (simp add: write_coalesced_def can_hold_def)
next
  case False
  note h = write_held_holding [OF assms]
  show ?thesis
  proof (cases "can_hold packet")
    case True
    then obtain p where p: "gso_parse packet = Some p" "gp_payload p \<noteq> []"
      by (auto simp: can_hold_def split: option.splits)
    have "holding (hold (snd (write_held c)) packet) [p]"
      using h held_single [OF _ p] by (simp add: holding_def)
    then show ?thesis
      using False True h view_packet [OF p]
      by (intro exI [of _ "[p]"]) (simp add: write_coalesced_def case_prod_beta)
  next
    case cannot: False
    show ?thesis
      using False cannot h by (intro exI [of _ "[]"]) (simp add: write_coalesced_def case_prod_beta)
  qed
qed

lemma write_batch_holding:
  assumes "holding c ps"
  shows "concat (map emitted (fst (write_batch c packets))) = map segment_view ps @ map view packets
    \<and> holding (snd (write_batch c packets)) []"
  using assms
proof (induction packets arbitrary: c ps)
  case Nil
  then show ?case
    using write_held_holding [of c ps] by simp
next
  case (Cons packet packets)
  obtain qs where q: "holding (snd (write_coalesced c packet)) qs"
    "concat (map emitted (fst (write_coalesced c packet))) @ map segment_view qs =
      map segment_view ps @ [view packet]"
    using write_coalesced_holding [OF Cons.prems] by blast
  then show ?case
    using Cons.IH [OF q(1)] by (simp add: case_prod_beta flip: append_assoc)
qed


end
