(* ===== verification/Tunnel.thy ===== *)
theory Tunnel
  imports Peer Toobig Gso
begin

text \<open>
  The tunnel of one peer (\<open>paqetz/src/tunnel.rs\<close>): its state, what it reads from outside, the checks
  on inner packets and their way to the device, the decoy flights, and sealing and sending.  The
  handlers of arriving frames are in \<open>Inbound\<close>, the timers in \<open>Timers\<close>.

  Every method of \<open>Tunnel\<close> is a function on the whole tunnel.  Frames handed to the network and
  writes handed to the device are appended to logs, in order.  The clock, the random numbers and
  whether a system call succeeds come from an \<open>environment\<close>; a method reads the clock once.  Buffers
  are passed by their contents: what a method leaves in them past the length it returns is never read.
\<close>

section \<open>Inner addresses\<close>

type_synonym ipv6 = "128 word"

definition v4_bits :: "ipv4 \<Rightarrow> u32" where
  "v4_bits a = from_be_bytes (octets a)"

definition in_network :: "ipv4 \<Rightarrow> ipv4 \<Rightarrow> u8 \<Rightarrow> bool" where
  "in_network addr net prefix =
     (if prefix = 0 then True
      else if prefix > 32 then False
      else let shift = 32 - unat prefix; mask = push_bit shift (- 1)
           in v4_bits addr AND mask = v4_bits net AND mask)"

definition mask6 :: "u8 \<Rightarrow> ipv6" where
  "mask6 prefix =
     (if prefix = 0 then 0
      else let shift = 128 - unat (min prefix 128) in if shift < 128 then push_bit shift (- 1) else 0)"

definition in_network6 :: "ipv6 \<Rightarrow> ipv6 \<Rightarrow> u8 \<Rightarrow> bool" where
  "in_network6 addr net prefix =
     (if prefix > 128 then False else addr AND mask6 prefix = net AND mask6 prefix)"

text \<open>The predicates of \<open>std::net\<close> that are used.\<close>

fun is_loopback :: "ipv4 \<Rightarrow> bool" where "is_loopback (Ipv4 a b c d) \<longleftrightarrow> a = 127"
fun is_multicast :: "ipv4 \<Rightarrow> bool" where "is_multicast (Ipv4 a b c d) \<longleftrightarrow> 224 \<le> a \<and> a \<le> 239"
fun is_link_local :: "ipv4 \<Rightarrow> bool" where "is_link_local (Ipv4 a b c d) \<longleftrightarrow> a = 169 \<and> b = 254"

definition is_broadcast :: "ipv4 \<Rightarrow> bool" where "is_broadcast a \<longleftrightarrow> a = Ipv4 255 255 255 255"
definition is_unspecified :: "ipv4 \<Rightarrow> bool" where "is_unspecified a \<longleftrightarrow> a = Ipv4 0 0 0 0"

definition v6_top :: "ipv6 \<Rightarrow> u16" where "v6_top a = ucast (drop_bit 112 a)"

definition is_multicast6 :: "ipv6 \<Rightarrow> bool" where "is_multicast6 a \<longleftrightarrow> v6_top a AND 0xFF00 = 0xFF00"

definition is_unicast_link_local6 :: "ipv6 \<Rightarrow> bool" where
  "is_unicast_link_local6 a \<longleftrightarrow> v6_top a AND 0xFFC0 = 0xFE80"

definition plausible_source :: "ipv4 \<Rightarrow> bool" where
  "plausible_source addr \<longleftrightarrow>
     \<not> (is_loopback addr \<or> is_multicast addr \<or> is_broadcast addr \<or> is_link_local addr \<or> is_unspecified addr)"

definition plausible_source6 :: "ipv6 \<Rightarrow> bool" where
  "plausible_source6 addr \<longleftrightarrow>
     \<not> (addr = 1 \<or> is_multicast6 addr \<or> is_unicast_link_local6 addr \<or> addr = 0)"

definition inner_addresses6 :: "bytes \<Rightarrow> (ipv6 \<times> ipv6) option" where
  "inner_addresses6 packet =
     (if map_option (drop_bit 4) (get packet 0) \<noteq> Some 6 then None
      else do {
        src \<leftarrow> get_range packet 8 24;
        dst \<leftarrow> get_range packet 24 40;
        Some (from_be_bytes src, from_be_bytes dst)
      })"

definition worth_carrying :: "bytes \<Rightarrow> bool" where
  "worth_carrying packet =
     (case inner_addresses6 packet of Some (_, dst) \<Rightarrow> \<not> is_multicast6 dst | None \<Rightarrow> True)"

definition inner_source :: "bytes \<Rightarrow> ipv4 option" where
  "inner_source packet =
     (if map_option (drop_bit 4) (get packet 0) \<noteq> Some 4 then None else addr_at packet 12)"

definition learn_local :: "sock \<Rightarrow> sock \<Rightarrow> sock" where
  "learn_local current destination = (if is_unspecified (fst current) then destination else current)"

section \<open>Settings\<close>

record settings =
  se_outer :: tunnel_config
  se_mtu :: u32
  se_spoof_sni :: "bytes option"
  se_acknowledge :: bool
  se_repeat :: limits
  se_keepalive :: bool
  se_persistent_keepalive :: "Millis option"
  se_rotation :: rotation
  se_ports :: "u16 list"
  se_address6 :: bool
  se_allowed_ips :: "(ipv4 \<times> u8) list"
  se_allowed_ips6 :: "(ipv6 \<times> u8) list"

abbreviation se_initiator :: "settings \<Rightarrow> bool" where
  "se_initiator S \<equiv> tc_is_initiator (se_outer S)"

definition permits :: "settings \<Rightarrow> ipv4 \<Rightarrow> bool" where
  "permits S addr = list_ex (\<lambda>(net, prefix). in_network addr net prefix) (se_allowed_ips S)"

definition permits6 :: "settings \<Rightarrow> ipv6 \<Rightarrow> bool" where
  "permits6 S addr = list_ex (\<lambda>(net, prefix). in_network6 addr net prefix) (se_allowed_ips6 S)"

fun shape_has_ports :: "shape \<Rightarrow> bool" where
  "shape_has_ports (ShapeTcp m) = True"
| "shape_has_ports (ShapeRaw sh) = False"

fun shape_rotates :: "shape \<Rightarrow> bool" where
  "shape_rotates (ShapeTcp m) = True"
| "shape_rotates (ShapeRaw sh) = (sh = Icmp)"

fun shape_protocol :: "shape \<Rightarrow> u8" where
  "shape_protocol (ShapeTcp m) = PROTO_TCP"
| "shape_protocol (ShapeRaw sh) = shell_protocol sh"

fun shape_overhead :: "shape \<Rightarrow> bool \<Rightarrow> nat" where
  "shape_overhead sh recs =
     (let shell = (case sh of ShapeTcp m \<Rightarrow> MAX_OVERHEAD | ShapeRaw r \<Rightarrow> shell_overhead r)
      in if recs then shell + RECORD_HEADER else shell)"

definition fitted_mtu :: "u32 \<Rightarrow> shape \<Rightarrow> bool \<Rightarrow> u32 option \<Rightarrow> u32" where
  "fitted_mtu configured sh recs link =
     (case link of
        None \<Rightarrow> configured
      | Some l \<Rightarrow>
          (let need = shape_overhead sh recs + OVERHEAD;
               overhead = (if need < 2 ^ 32 then of_nat need else - 1);
               room = saturating_sub l overhead
           in if room = 0 then configured else min configured room))"

section \<open>The tunnel and its surroundings\<close>

datatype counter =
    TxPackets | TxBytes | TxDropped | RxPackets | RxBytes | RejectedPackets | ReplayedPackets
  | Disallowed | Martian | DeviceFull | Unparsed | Asked | Repeated | Repaired | HandshakesSent
  | HandshakesDone | Roams | Moves | Farewells | Duplicate | TooBigReports | LastHandshakeMs

type_synonym stats = "counter \<Rightarrow> u64"

definition stats_bump :: "counter \<Rightarrow> stats \<Rightarrow> stats" where
  "stats_bump c st = st(c := st c + 1)"

definition stats_add :: "counter \<Rightarrow> u64 \<Rightarrow> stats \<Rightarrow> stats" where
  "stats_add c n st = st(c := st c + n)"

definition stats_note_handshake :: "u64 \<Rightarrow> stats \<Rightarrow> stats" where
  "stats_note_handshake now st = (stats_bump HandshakesDone st)(LastHandshakeMs := now)"

datatype tunnel_error = OsFailed string | CoreFailed core_error | WireFailed wire_error

record ('hs, 'tr) tunnel =
  tu_state :: "('hs, 'tr) peer_state"
  tu_local :: sock
  tu_answered :: syn_ledger
  tu_cover_owed :: nat
  tu_coalescer :: "coalescer option"
  tu_stats :: stats
  tu_out :: "(bytes \<times> ipv4) list"
  tu_device :: "device_write list"

datatype device_outcome = Written | WouldBlock | WriteFailed

record environment =
  en_now :: Millis
  en_period :: u64
  en_index :: "u32 option"
  en_epoch :: "u32 option"
  en_syn_epoch :: "u32 option"
  en_pad :: "u32 option"
  en_rekey :: "u32 option"
  en_retry :: "u32 option"
  en_rotate :: "u32 option"
  en_first_rotate :: "u32 option"
  en_secrets :: "secrets option"
  en_tx :: "bytes \<Rightarrow> ipv4 \<Rightarrow> bool"
  en_device :: "device_write \<Rightarrow> device_outcome"

abbreviation bump :: "counter \<Rightarrow> ('hs, 'tr) tunnel \<Rightarrow> ('hs, 'tr) tunnel" where
  "bump c t \<equiv> tu_stats_update (stats_bump c) t"

abbreviation bump_by :: "counter \<Rightarrow> u64 \<Rightarrow> ('hs, 'tr) tunnel \<Rightarrow> ('hs, 'tr) tunnel" where
  "bump_by c n t \<equiv> tu_stats_update (stats_add c n) t"

abbreviation set_state :: "('hs, 'tr) peer_state \<Rightarrow> ('hs, 'tr) tunnel \<Rightarrow> ('hs, 'tr) tunnel" where
  "set_state st t \<equiv> t\<lparr>tu_state := st\<rparr>"

text \<open>\<open>self.tx.send\<close>, with whether it worked.\<close>

definition transmit :: "environment \<Rightarrow> bytes \<Rightarrow> ipv4 \<Rightarrow> ('hs, 'tr) tunnel \<Rightarrow> bool \<times> ('hs, 'tr) tunnel" where
  "transmit E frame dst t =
     (if en_tx E frame dst then (True, t\<lparr>tu_out := tu_out t @ [(frame, dst)]\<rparr>) else (False, t))"

text \<open>A send whose failure the caller returns.\<close>

definition send_or_fail ::
  "environment \<Rightarrow> string \<Rightarrow> bytes \<Rightarrow> ipv4 \<Rightarrow> ('hs, 'tr) tunnel \<Rightarrow> (tunnel_error + unit) \<times> ('hs, 'tr) tunnel" where
  "send_or_fail E context frame dst t =
     (let (ok, t') = transmit E frame dst t in (if ok then Inr () else Inl (OsFailed context), t'))"

section \<open>To the device\<close>

definition note_write ::
  "device_outcome \<Rightarrow> ('hs, 'tr) tunnel \<Rightarrow> (tunnel_error + unit) \<times> ('hs, 'tr) tunnel" where
  "note_write outcome t =
     (case outcome of
        Written \<Rightarrow> (Inr (), t)
      | WouldBlock \<Rightarrow> (Inr (), bump DeviceFull t)
      | WriteFailed \<Rightarrow> (Inl (OsFailed ''writing to the TUN device''), t))"

definition device_put ::
  "environment \<Rightarrow> device_write \<Rightarrow> ('hs, 'tr) tunnel \<Rightarrow> (tunnel_error + unit) \<times> ('hs, 'tr) tunnel" where
  "device_put E w t =
     note_write (en_device E w)
       (if en_device E w = Written then t\<lparr>tu_device := tu_device t @ [w]\<rparr> else t)"

definition write_one ::
  "environment \<Rightarrow> bytes \<Rightarrow> ('hs, 'tr) tunnel \<Rightarrow> (tunnel_error + unit) \<times> ('hs, 'tr) tunnel" where
  "write_one E packet t = device_put E (WriteOne packet) t"

definition tunnel_write_held ::
  "environment \<Rightarrow> coalescer \<Rightarrow> ('hs, 'tr) tunnel \<Rightarrow> (tunnel_error + unit) \<times> ('hs, 'tr) tunnel" where
  "tunnel_write_held E co t =
     (case take_held co of
        (None, co') \<Rightarrow> (Inr (), t\<lparr>tu_coalescer := Some co'\<rparr>)
      | (Some (hdr, frame), co') \<Rightarrow>
          device_put E (WriteHeld hdr frame) (t\<lparr>tu_coalescer := Some co'\<rparr>))"

definition write_inner ::
  "environment \<Rightarrow> bytes \<Rightarrow> ('hs, 'tr) tunnel \<Rightarrow> (tunnel_error + unit) \<times> ('hs, 'tr) tunnel" where
  "write_inner E packet t =
     (case tu_coalescer t of
        None \<Rightarrow> write_one E packet t
      | Some co \<Rightarrow>
          (case (if joins co packet then (Inr (), t) else tunnel_write_held E co t) of
             (Inl e, t') \<Rightarrow> (Inl e, t')
           | (Inr _, t') \<Rightarrow>
               if can_hold packet
               then (Inr (), t'\<lparr>tu_coalescer := map_option (\<lambda>c. hold c packet) (tu_coalescer t')\<rparr>)
               else write_one E packet t'))"

definition flush_inner ::
  "environment \<Rightarrow> ('hs, 'tr) tunnel \<Rightarrow> (tunnel_error + unit) \<times> ('hs, 'tr) tunnel" where
  "flush_inner E t =
     (case tu_coalescer t of None \<Rightarrow> (Inr (), t) | Some co \<Rightarrow> tunnel_write_held E co t)"

definition deliver6 ::
  "settings \<Rightarrow> environment \<Rightarrow> bytes \<Rightarrow> ('hs, 'tr) tunnel \<Rightarrow> (tunnel_error + unit) \<times> ('hs, 'tr) tunnel" where
  "deliver6 S E packet t =
     (case inner_addresses6 packet of
        None \<Rightarrow> (Inr (), t)
      | Some (source, destination) \<Rightarrow>
          if is_multicast6 destination then (Inr (), t)
          else if \<not> se_address6 S then (Inr (), bump Disallowed t)
          else if \<not> permits6 S source then (Inr (), bump Disallowed t)
          else if \<not> plausible_source6 source then (Inr (), bump Martian t)
          else write_inner E packet t)"

definition deliver ::
  "settings \<Rightarrow> environment \<Rightarrow> bytes \<Rightarrow> ('hs, 'tr) tunnel \<Rightarrow> (tunnel_error + unit) \<times> ('hs, 'tr) tunnel" where
  "deliver S E packet t =
     (if map_option (drop_bit 4) (get packet 0) = Some 6 then deliver6 S E packet t
      else case inner_source packet of
        None \<Rightarrow> (Inr (), t)
      | Some source \<Rightarrow>
          if \<not> permits S source then (Inr (), bump Disallowed t)
          else if \<not> plausible_source source then (Inr (), bump Martian t)
          else write_inner E packet t)"

section \<open>Decoy flights\<close>

definition COVER_FRAME :: nat where "COVER_FRAME = 2048"
definition MAX_INNER :: nat where "MAX_INNER = 9000"
definition MAX_FRAME :: nat where "MAX_FRAME = 9216"

text \<open>The flight owed, if it can be composed.\<close>

definition cover_record :: "settings \<Rightarrow> bytes \<Rightarrow> secrets \<Rightarrow> ('hs, 'tr) peer_state \<Rightarrow> bytes option" where
  "cover_record S name secrets st =
     (case ps_cover_due st of
        CoverNothing \<Rightarrow> None
      | CoverOpening \<Rightarrow>
          if se_initiator S then client_hello name secrets
          else map_option (\<lambda>i. server_hello i secrets) (ps_cover_session st)
      | CoverFinished \<Rightarrow> Some (client_finished secrets))"

text \<open>The loop over the segments of a flight: each is cut at the segment size and sent, and the first
  failure ends it.  One unit of fuel is one segment; the length of the flight is enough, because a
  segment holds at least a byte.\<close>

fun send_flight ::
  "nat \<Rightarrow> environment \<Rightarrow> nat \<Rightarrow> ipv4 \<Rightarrow> bytes \<Rightarrow> wire \<Rightarrow> ('hs, 'tr) tunnel \<Rightarrow> wire \<times> ('hs, 'tr) tunnel" where
  "send_flight 0 E chunk dst rest w t = (w, t)"
| "send_flight (Suc fuel) E chunk dst rest w t =
     (if rest = [] then (w, t)
      else
        let n = min (length rest) chunk; head = take n rest; tail = drop n rest in
        case wire_bare w head (replicate COVER_FRAME 0) (en_now E) (tail = []) of
          (Inl e, w') \<Rightarrow> (w', t)
        | (Inr (written, frame), w') \<Rightarrow>
            (case get_range frame 0 written of
               None \<Rightarrow> send_flight fuel E chunk dst tail w' t
             | Some out \<Rightarrow>
                 (let (ok, t') = transmit E out dst t in
                  if ok then send_flight fuel E chunk dst tail w' t' else (w', t'))))"

definition send_cover :: "settings \<Rightarrow> environment \<Rightarrow> ('hs, 'tr) tunnel \<Rightarrow> ('hs, 'tr) tunnel" where
  "send_cover S E t =
     (let st = tu_state t in
      case se_spoof_sni S of
        None \<Rightarrow> t
      | Some name \<Rightarrow>
          if ps_cover_due st = CoverNothing then t
          else case ps_carrier st of
            None \<Rightarrow> t
          | Some w \<Rightarrow>
              if \<not> wire_is_ready w \<or> \<not> wire_at_record_boundary w then t
              else case en_secrets E of
                None \<Rightarrow> t
              | Some secrets \<Rightarrow>
                  (let t1 = set_state (st\<lparr>ps_cover_due := CoverNothing\<rparr>) t in
                   case cover_record S name secrets st of
                     None \<Rightarrow> t1
                   | Some flight \<Rightarrow>
                       (let (w', t2) =
                              send_flight (length flight) E (carrier_payload (se_outer S))
                                (fst (wire_remote w)) flight w t1
                        in set_state ((tu_state t2)\<lparr>ps_carrier := Some w'\<rparr>) t2)))"

section \<open>Sealing and sending\<close>

text \<open>What happens once a session and an open carrier are at hand; \<open>st\<close> is the state after the decoy.\<close>

definition seal_under ::
  "crypto \<Rightarrow> ('hs, 'tr) snow \<Rightarrow> settings \<Rightarrow> environment \<Rightarrow> bytes \<Rightarrow> bytes \<Rightarrow> bytes \<Rightarrow> bool \<Rightarrow> nat option
     \<Rightarrow> 'tr session \<Rightarrow> ('hs, 'tr) tunnel
     \<Rightarrow> (tunnel_error + ((nat \<times> bytes) \<times> ipv4) option) \<times> ('hs, 'tr) tunnel" where
  "seal_under C N S E packet sealed frame push rec session t =
     (let st = tu_state t; counter = s_send_counter session; now = en_now E in
      case seal C N session packet sealed now of
        (Inl e, session') \<Rightarrow> (Inl (CoreFailed e), set_state (st\<lparr>ps_session := Some session'\<rparr>) t)
      | (Inr (n, sealed'), session') \<Rightarrow>
          (let st1 = st\<lparr>ps_session := Some session'\<rparr> in
           case ps_carrier st1 of
             None \<Rightarrow> (Inr None, bump TxDropped (set_state st1 t))
           | Some w \<Rightarrow>
               (case get_range sealed' 0 n of
                  None \<Rightarrow> (Inr None, bump TxDropped (set_state st1 t))
                | Some payload \<Rightarrow>
                    (let push' = (push \<or> \<not> fills_a_segment (se_outer S) (length payload)) in
                     case wire_data w payload frame now push' rec of
                       (Inl e, w') \<Rightarrow>
                         (Inl (WireFailed e), set_state (st1\<lparr>ps_carrier := Some w'\<rparr>) t)
                     | (Inr (written, frame'), w') \<Rightarrow>
                         (let dst = fst (wire_remote w');
                              st2 = note_sent (st1\<lparr>ps_carrier := Some w'\<rparr>) packet n now;
                              st3 = (if control_parse packet = None
                                     then st2\<lparr>ps_outbox := outbox_record (ps_outbox st2) counter packet now\<rparr>
                                     else st2)
                          in (Inr (Some ((written, frame'), dst)),
                              bump_by TxBytes (of_nat (length packet)) (bump TxPackets (set_state st3 t))))))))"

definition seal_into ::
  "crypto \<Rightarrow> ('hs, 'tr) snow \<Rightarrow> settings \<Rightarrow> environment \<Rightarrow> bytes \<Rightarrow> bytes \<Rightarrow> bytes \<Rightarrow> bool \<Rightarrow> nat option
     \<Rightarrow> ('hs, 'tr) tunnel \<Rightarrow> (tunnel_error + ((nat \<times> bytes) \<times> ipv4) option) \<times> ('hs, 'tr) tunnel" where
  "seal_into C N S E packet sealed frame push rec t =
     (if \<not> worth_carrying packet then (Inr None, t)
      else
        let st = tu_state t; now = en_now E;
            st1 = (if (case ps_session st of None \<Rightarrow> True | Some s \<Rightarrow> is_expired s now)
                   then confirm st else st) in
        if ps_session st1 = None then (Inr None, set_state (wants_to_send st1) t)
        else if (case ps_carrier st1 of None \<Rightarrow> False | Some c \<Rightarrow> \<not> wire_is_ready c)
        then (Inr None, bump TxDropped (set_state st1 t))
        else
          let t2 = send_cover S E (set_state st1 t) in
          case ps_session (tu_state t2) of
            None \<Rightarrow> (Inr None, t2)
          | Some session \<Rightarrow> seal_under C N S E packet sealed frame push rec session t2)"

definition send_inner ::
  "crypto \<Rightarrow> ('hs, 'tr) snow \<Rightarrow> settings \<Rightarrow> environment \<Rightarrow> bytes \<Rightarrow> bytes \<Rightarrow> bytes
     \<Rightarrow> ('hs, 'tr) tunnel \<Rightarrow> (tunnel_error + unit) \<times> ('hs, 'tr) tunnel" where
  "send_inner C N S E packet sealed frame t =
     (case seal_into C N S E packet sealed frame True (Some (length packet + OVERHEAD)) t of
        (Inl e, t') \<Rightarrow> (Inl e, t')
      | (Inr None, t') \<Rightarrow> (Inr (), t')
      | (Inr (Some ((written, frame'), dst)), t') \<Rightarrow>
          (case get_range frame' 0 written of
             None \<Rightarrow> (Inr (), t')
           | Some out \<Rightarrow> send_or_fail E ''transmitting'' out dst t'))"

end
