(* ===== verification/Timers.thy ===== *)
theory Timers
  imports Tunnel
begin

text \<open>
  What the timer thread of the tunnel does (\<open>paqetz/src/tunnel.rs\<close>): opening connections, moving
  between ports, handshakes, empty packets, and the goodbye; one definition per method.
\<close>

section \<open>Opening a connection\<close>

text \<open>The SYN of a carrier that still wants one; \<open>tcp\<close> is that carrier, \<open>waits\<close> and \<open>stale\<close> what was
  read off it.\<close>

definition knock_with ::
  "crypto \<Rightarrow> settings \<Rightarrow> environment \<Rightarrow> bytes \<Rightarrow> bool \<Rightarrow> ('hs, 'tr) tunnel
     \<Rightarrow> (tunnel_error + bool) \<times> ('hs, 'tr) tunnel" where
  "knock_with C S E out waits t =
     (let st = tu_state t; now = en_now E in
      case Option.bind (ps_carrier st) wire_tcp of
        None \<Rightarrow> (Inr False, t)
      | Some tcp \<Rightarrow>
          (let first = (e_phase tcp = Idle \<or> \<not> waits);
               tcp1 = (if waits
                       then number_syn tcp now (syn_tag C (tc_peer_public (se_outer S)) (en_period E))
                       else tcp)
           in case handshake tcp1 out now of
                (Inl e, tcp2) \<Rightarrow> (Inl (WireFailed e), set_state (st\<lparr>ps_carrier := Some (WTcp tcp2)\<rparr>) t)
              | (Inr None, tcp2) \<Rightarrow> (Inr False, set_state (st\<lparr>ps_carrier := Some (WTcp tcp2)\<rparr>) t)
              | (Inr (Some (n, out')), tcp2) \<Rightarrow>
                  (let st1 = st\<lparr>ps_carrier := Some (WTcp tcp2)\<rparr>;
                       st2 = (if waits
                              then sent_syn (if first then st1\<lparr>ps_opened_at := now\<rparr> else st1) now
                              else st1);
                       t2 = set_state st2 t
                   in case get_range out' 0 n of
                        None \<Rightarrow> (Inr False, t2)
                      | Some syn_bytes \<Rightarrow>
                          (case send_or_fail E ''transmitting a SYN'' syn_bytes (fst (e_remote tcp2)) t2 of
                             (Inl e, t3) \<Rightarrow> (Inl e, t3)
                           | (Inr _, t3) \<Rightarrow> (Inr True, t3)))))"

definition knock ::
  "crypto \<Rightarrow> settings \<Rightarrow> environment \<Rightarrow> bytes \<Rightarrow> ('hs, 'tr) tunnel
     \<Rightarrow> (tunnel_error + bool) \<times> ('hs, 'tr) tunnel" where
  "knock C S E out t =
     (let st = tu_state t; now = en_now E in
      if now < ps_syn_retry_at st then (Inr False, t)
      else case Option.bind (ps_carrier st) wire_tcp of
        None \<Rightarrow> (Inr False, t)
      | Some tcp \<Rightarrow>
          if \<not> wants_opening tcp then (Inr False, t)
          else
            let waits = (e_carrier tcp = Handshake);
                stale = (waits \<and> e_phase tcp = SynSent \<and> syn_stale st now) in
            case (if stale then ps_endpoint st else None) of
              None \<Rightarrow> knock_with C S E out waits t
            | Some peer \<Rightarrow>
                (case en_syn_epoch E of
                   None \<Rightarrow> (Inl (OsFailed ''drawing an epoch''), t)
                 | Some epoch \<Rightarrow>
                     knock_with C S E out waits
                       (set_state (st\<lparr>ps_carrier :=
                          Some (initiator_carrier C (se_outer S) (e_local tcp) peer epoch)\<rparr>) t)))"

definition maybe_open ::
  "crypto \<Rightarrow> settings \<Rightarrow> environment \<Rightarrow> bytes \<Rightarrow> ('hs, 'tr) tunnel
     \<Rightarrow> (tunnel_error + unit) \<times> ('hs, 'tr) tunnel" where
  "maybe_open C S E frame t =
     (if \<not> knock_due (tu_state t) (en_now E) then (Inr (), t)
      else case knock C S E frame t of (Inl e, t') \<Rightarrow> (Inl e, t') | (Inr _, t') \<Rightarrow> (Inr (), t'))"

section \<open>Handshakes\<close>

definition start_handshake ::
  "crypto \<Rightarrow> ('hs, 'tr) snow \<Rightarrow> settings \<Rightarrow> environment \<Rightarrow> bytes \<Rightarrow> sock \<Rightarrow> u32 \<Rightarrow> u32 \<Rightarrow> ('hs, 'tr) tunnel
     \<Rightarrow> (tunnel_error + unit) \<times> ('hs, 'tr) tunnel" where
  "start_handshake C N S E frame peer epoch index t =
     (let cfg = se_outer S; now = en_now E in
      case initiator_start C N (tc_private cfg) (tc_local_public cfg) (tc_peer_public cfg) index epoch
             (handshake_pad (en_pad E)) of
        Inl e \<Rightarrow> (Inl (CoreFailed e), t)
      | Inr (ini, msg1) \<Rightarrow>
          (case ps_carrier (tu_state t) of
             None \<Rightarrow> (Inr (), t)
           | Some w \<Rightarrow>
               (case wire_data w msg1 frame now True (Some (length msg1)) of
                  (Inl e, w') \<Rightarrow>
                    (Inl (WireFailed e), set_state ((tu_state t)\<lparr>ps_carrier := Some w'\<rparr>) t)
                | (Inr (written, frame'), w') \<Rightarrow>
                    (let t1 = set_state (note_handshake ((tu_state t)\<lparr>ps_carrier := Some w'\<rparr>) ini now
                                           (en_retry E)) t
                     in case get_range frame' 0 written of
                          None \<Rightarrow> (Inr (), t1)
                        | Some out \<Rightarrow>
                            (case send_or_fail E ''transmitting handshake'' out (fst peer) t1 of
                               (Inl e, t2) \<Rightarrow> (Inl e, t2)
                             | (Inr _, t2) \<Rightarrow> (Inr (), bump HandshakesSent t2))))))"

definition maybe_handshake ::
  "crypto \<Rightarrow> ('hs, 'tr) snow \<Rightarrow> settings \<Rightarrow> environment \<Rightarrow> bytes \<Rightarrow> ('hs, 'tr) tunnel
     \<Rightarrow> (tunnel_error + unit) \<times> ('hs, 'tr) tunnel" where
  "maybe_handshake C N S E frame t =
     (let now = en_now E; st = retire_expired (tu_state t) now in
      if \<not> wants_handshake st now then (Inr (), set_state st t)
      else
        let st1 = (if revive st now then st\<lparr>ps_attempt_started := None\<rparr> else st);
            t1 = set_state st1 t in
        case ps_endpoint st1 of
          None \<Rightarrow> (Inr (), t1)
        | Some peer \<Rightarrow>
            (case (en_epoch E, en_index E) of
               (None, _) \<Rightarrow> (Inl (OsFailed ''generating an epoch''), t1)
             | (Some epoch, None) \<Rightarrow> (Inl (OsFailed ''generating a session index''), t1)
             | (Some epoch, Some index) \<Rightarrow>
                 (let t2 = (if ps_carrier st1 = None
                            then set_state (replace_carrier st1
                                   (initiator_carrier C (se_outer S) (tu_local t1) peer epoch)) t1
                            else t1)
                  in case knock C S E (replicate MAX_OVERHEAD 0) t2 of
                       (Inl e, t3) \<Rightarrow> (Inl e, t3)
                     | (Inr _, t3) \<Rightarrow>
                         if (case ps_carrier (tu_state t3) of None \<Rightarrow> False | Some w \<Rightarrow> \<not> wire_is_ready w)
                         then (Inr (), t3)
                         else start_handshake C N S E frame peer epoch index (send_cover S E t3))))"

section \<open>Empty packets and the goodbye\<close>

definition maybe_keepalive ::
  "crypto \<Rightarrow> ('hs, 'tr) snow \<Rightarrow> settings \<Rightarrow> environment \<Rightarrow> bytes \<Rightarrow> bytes \<Rightarrow> ('hs, 'tr) tunnel
     \<Rightarrow> (tunnel_error + unit) \<times> ('hs, 'tr) tunnel" where
  "maybe_keepalive C N S E sealed frame t =
     (if ps_session (tu_state t) = None then (Inr (), t)
      else if \<not> owes_empty (tu_state t) (en_now E) (se_keepalive S) (se_persistent_keepalive S)
      then (Inr (), t)
      else case send_inner C N S E [] sealed frame t of
        (Inl e, t') \<Rightarrow> (Inl e, t')
      | (Inr _, t') \<Rightarrow> (Inr (), set_state (note_keepalive (tu_state t') (en_now E)) t'))"

definition say_goodbye ::
  "crypto \<Rightarrow> ('hs, 'tr) snow \<Rightarrow> settings \<Rightarrow> environment \<Rightarrow> ('hs, 'tr) tunnel \<Rightarrow> ('hs, 'tr) tunnel" where
  "say_goodbye C N S E t =
     (if ps_session (tu_state t) = None then t
      else snd (send_inner C N S E BYE (replicate (MAX_INNER + OVERHEAD) 0) (replicate MAX_FRAME 0) t))"

section \<open>Moving\<close>

definition prepare_standby ::
  "crypto \<Rightarrow> settings \<Rightarrow> environment \<Rightarrow> ('hs, 'tr) tunnel \<Rightarrow> (tunnel_error + unit) \<times> ('hs, 'tr) tunnel" where
  "prepare_standby C S E t =
     (let st = tu_state t; now = en_now E; (ip, current) = tu_local t;
          nxt = next_port (se_ports S) current in
      case ps_endpoint st of
        None \<Rightarrow> (Inr (), t)
      | Some peer \<Rightarrow>
          if nxt = current then (Inr (), t)
          else case en_syn_epoch E of
            None \<Rightarrow> (Inl (OsFailed ''drawing an epoch''), t)
          | Some epoch \<Rightarrow>
              (case wire_tcp (initiator_carrier C (se_outer S) (ip, nxt) peer epoch) of
                 None \<Rightarrow> (Inr (), t)
               | Some tcp \<Rightarrow>
                   (case handshake
                           (number_syn tcp now (syn_tag C (tc_peer_public (se_outer S)) (en_period E)))
                           (replicate MAX_OVERHEAD 0) now of
                      (Inl e, _) \<Rightarrow> (Inl (WireFailed e), t)
                    | (Inr None, _) \<Rightarrow> (Inr (), t)
                    | (Inr (Some (n, out)), tcp') \<Rightarrow>
                        (case get_range out 0 n of
                           None \<Rightarrow> (Inr (), t)
                         | Some syn_bytes \<Rightarrow>
                             (case send_or_fail E ''opening the next connection'' syn_bytes (fst peer) t of
                                (Inl e, t1) \<Rightarrow> (Inl e, t1)
                              | (Inr _, t1) \<Rightarrow>
                                  (Inr (), set_state ((tu_state t1)\<lparr>ps_standby := Some (WTcp tcp'),
                                             ps_standby_opened_at := now\<rparr>) t1))))))"

text \<open>The carrier to move to and its port: the standby, or one built on the next port of the pool.\<close>

definition next_carrier ::
  "crypto \<Rightarrow> settings \<Rightarrow> environment \<Rightarrow> sock \<Rightarrow> ('hs, 'tr) tunnel
     \<Rightarrow> (wire \<times> u16 \<times> ('hs, 'tr) peer_state) option" where
  "next_carrier C S E peer t =
     (let st = tu_state t; (ip, current) = tu_local t in
      case ps_standby st of
        Some standby \<Rightarrow>
          Some (standby, (case wire_tcp standby of None \<Rightarrow> current | Some tcp \<Rightarrow> snd (e_local tcp)),
                st\<lparr>ps_standby := None, ps_opened_at := ps_standby_opened_at st\<rparr>)
      | None \<Rightarrow>
          (let nxt = next_port (se_ports S) current in
           if nxt = current then None
           else map_option (\<lambda>epoch. (initiator_carrier C (se_outer S) (ip, nxt) peer epoch, nxt, st))
                  (en_epoch E)))"

text \<open>The move itself, once it is due and there is somewhere to move to.\<close>

definition move_carrier ::
  "crypto \<Rightarrow> ('hs, 'tr) snow \<Rightarrow> settings \<Rightarrow> environment \<Rightarrow> bytes \<Rightarrow> bytes \<Rightarrow> move \<Rightarrow> wire \<times> u16
     \<Rightarrow> ('hs, 'tr) tunnel \<Rightarrow> ('hs, 'tr) tunnel" where
  "move_carrier C N S E sealed frame why nxt t =
     (let now = en_now E;
          t1 = set_state (replace_carrier (tu_state t) (fst nxt)) t;
          t2 = snd (knock C S E (replicate MAX_OVERHEAD 0) t1);
          st2 = tu_state t2;
          st3 = (if why = Stuck then st2\<lparr>ps_retry_at := now\<rparr> else st2);
          t3 = (set_state st3 t2)\<lparr>tu_local := (fst (tu_local t2), snd nxt)\<rparr>;
          follow = (ps_session st3 \<noteq> None
                    \<and> (case ps_carrier st3 of None \<Rightarrow> False | Some w \<Rightarrow> wire_is_ready w));
          t4 = bump Moves t3
      in if follow then snd (send_inner C N S E [] sealed frame t4) else t4)"

definition maybe_rotate ::
  "crypto \<Rightarrow> ('hs, 'tr) snow \<Rightarrow> settings \<Rightarrow> environment \<Rightarrow> bytes \<Rightarrow> bytes
     \<Rightarrow> ('hs, 'tr) tunnel \<Rightarrow> ('hs, 'tr) tunnel" where
  "maybe_rotate C N S E sealed frame t =
     (let ro = se_rotation S; cfg = se_outer S; now = en_now E; st = tu_state t in
      if \<not> ro_enabled ro \<or> \<not> shape_rotates (tc_shape cfg) \<or> length (se_ports S) < 2 then t
      else
        let t1 = (if tunnel_opening cfg = Some Handshake \<and> ps_session st \<noteq> None \<and> ps_standby st = None
                     \<and> (case ps_carrier st of None \<Rightarrow> False | Some w \<Rightarrow> wire_is_ready w)
                     \<and> move_near st now ro
                  then snd (prepare_standby C S E t) else t);
            (due, st1) = move_due (tu_state t1) now ro (en_first_rotate E) in
        case due of
          None \<Rightarrow> set_state st1 t1
        | Some why \<Rightarrow>
            (let st2 = st1\<lparr>ps_rotate_at := saturating_add now (rotation_interval ro (en_rotate E)),
                           ps_unanswered := 0\<rparr>;
                 t2 = set_state st2 t1
             in case ps_endpoint st2 of
                  None \<Rightarrow> t2
                | Some peer \<Rightarrow>
                    (case next_carrier C S E peer t2 of
                       None \<Rightarrow> t2
                     | Some (w, nxt, st3) \<Rightarrow> move_carrier C N S E sealed frame why (w, nxt) (set_state st3 t2))))"

section \<open>One round of the timer\<close>

definition MAX_TIMER_FRAME :: nat where "MAX_TIMER_FRAME = MAX_INNER + MAX_OVERHEAD + OVERHEAD"

definition timer_round ::
  "crypto \<Rightarrow> ('hs, 'tr) snow \<Rightarrow> settings \<Rightarrow> environment \<Rightarrow> ('hs, 'tr) tunnel \<Rightarrow> ('hs, 'tr) tunnel" where
  "timer_round C N S E t =
     (let sealed = replicate (MAX_INNER + OVERHEAD) 0; frame = replicate MAX_FRAME 0;
          keepalive_frame = replicate MAX_TIMER_FRAME 0;
          t1 = (if se_initiator S then snd (maybe_handshake C N S E frame t) else t);
          t2 = (if se_initiator S
                then snd (maybe_open C S E frame (maybe_rotate C N S E sealed keepalive_frame t1))
                else t1)
      in snd (maybe_keepalive C N S E sealed keepalive_frame t2))"

end
