(* ===== verification/Inbound.thy ===== *)
theory Inbound
  imports Timers
begin

text \<open>
  Arriving frames (\<open>paqetz/src/tunnel.rs\<close>): the dispatch of a segment, the opening of connections,
  both handshake messages, transport packets with what they ask for, and path-MTU reports.
\<close>

section \<open>Opening a connection\<close>

definition put_slot :: "bool \<Rightarrow> endpoint \<Rightarrow> ('hs, 'tr) peer_state \<Rightarrow> ('hs, 'tr) peer_state" where
  "put_slot standby tcp st =
     (if standby then st\<lparr>ps_standby := Some (WTcp tcp)\<rparr> else st\<lparr>ps_carrier := Some (WTcp tcp)\<rparr>)"

definition handle_syn_ack ::
  "crypto \<Rightarrow> ('hs, 'tr) snow \<Rightarrow> settings \<Rightarrow> environment \<Rightarrow> segment \<Rightarrow> bytes \<Rightarrow> ('hs, 'tr) tunnel
     \<Rightarrow> (tunnel_error + unit) \<times> ('hs, 'tr) tunnel" where
  "handle_syn_ack C N S E seg reply t =
     (let st = tu_state t; now = en_now E;
          standby = (case Option.bind (ps_standby st) wire_tcp of
                       None \<Rightarrow> False | Some tcp \<Rightarrow> snd (e_local tcp) = snd (g_dst seg)) in
      case Option.bind (if standby then ps_standby st else ps_carrier st) wire_tcp of
        None \<Rightarrow> (Inr (), t)
      | Some tcp \<Rightarrow>
          if \<not> opens (e_carrier tcp) \<or> e_remote tcp \<noteq> g_src seg \<or> \<not> answers_syn tcp seg
          then (Inl (CoreFailed Rejected), t)
          else
            let tcp1 = snd (on_receive tcp seg) in
            if is_ready tcp \<or> \<not> is_ready tcp1 then (Inr (), set_state (put_slot standby tcp1 st) t)
            else (case ack tcp1 reply now of
              (Inl e, tcp2) \<Rightarrow> (Inl (WireFailed e), set_state (put_slot standby tcp2 st) t)
            | (Inr (n, reply'), tcp2) \<Rightarrow>
                (let asked = (if standby then ps_standby_opened_at st else ps_opened_at st);
                     st1 = (put_slot standby tcp2 st)\<lparr>ps_syn_rtt := Some (saturating_sub now asked)\<rparr> in
                 if standby
                 then (case get_range reply' 0 n of
                         None \<Rightarrow> (Inr (), set_state st1 t)
                       | Some out \<Rightarrow>
                           send_or_fail E ''completing the next connection'' out (fst (g_src seg)) (set_state st1 t))
                 else
                   let st2 = st1\<lparr>ps_syn_tries := 0, ps_syn_retry_at := 0, ps_unanswered := 0, ps_retry_at := now\<rparr>;
                       carrying = (ps_session st2 \<noteq> None);
                       t2 = set_state st2 t in
                   case get_range reply' 0 n of
                     None \<Rightarrow> (Inr (), t2)
                   | Some out \<Rightarrow>
                       (case send_or_fail E ''completing the connection'' out (fst (g_src seg)) t2 of
                          (Inl e, t3) \<Rightarrow> (Inl e, t3)
                        | (Inr _, t3) \<Rightarrow>
                            if carrying then send_inner C N S E [] (replicate OVERHEAD 0) reply t3
                            else maybe_handshake C N S E reply t3))))"

definition tunnel_answer_syn ::
  "crypto \<Rightarrow> settings \<Rightarrow> environment \<Rightarrow> segment \<Rightarrow> bytes \<Rightarrow> ('hs, 'tr) tunnel
     \<Rightarrow> (tunnel_error + unit) \<times> ('hs, 'tr) tunnel" where
  "tunnel_answer_syn C S E seg reply t =
     (let cfg = se_outer S; now = en_now E in
      case g_ts_val seg of
        None \<Rightarrow> (Inl (CoreFailed Rejected), t)
      | Some ts \<Rightarrow>
          if \<not> syn_tag_matches C (tc_local_public cfg) (en_period E) ts (g_seq seg)
          then (Inl (CoreFailed Rejected), t)
          else
            let (admitted, ledger) = admit (tu_answered t) (g_seq seg) (g_src seg) now;
                t1 = t\<lparr>tu_answered := ledger\<rparr> in
            if \<not> admitted then (Inl (CoreFailed Rejected), t1)
            else
              let isn = syn_ack_isn C (tc_private cfg) (g_seq seg) (octets (fst (g_src seg)), snd (g_src seg));
                  tsv = timestamp (responder_clock C cfg (g_src seg)) now (p_ts_hz (tc_profile cfg)) in
              case answer_syn (tc_profile cfg) (g_dst seg) seg
                     \<lparr>r_isn = isn, r_ts_val = tsv, r_dont_fragment = tc_fragment_never cfg,
                      r_mss = tc_carrier_mss cfg\<rparr> reply of
                Inl e \<Rightarrow> (Inl (WireFailed e), t1)
              | Inr (n, reply') \<Rightarrow>
                  (case get_range reply' 0 n of
                     None \<Rightarrow> (Inr (), t1)
                   | Some out \<Rightarrow> send_or_fail E ''answering a SYN'' out (fst (g_src seg)) t1))"

definition handle_syn ::
  "crypto \<Rightarrow> ('hs, 'tr) snow \<Rightarrow> settings \<Rightarrow> environment \<Rightarrow> segment \<Rightarrow> bytes \<Rightarrow> ('hs, 'tr) tunnel
     \<Rightarrow> (tunnel_error + unit) \<times> ('hs, 'tr) tunnel" where
  "handle_syn C N S E seg reply t =
     (if has seg ACK
      then (if se_initiator S then handle_syn_ack C N S E seg reply t else (Inl (CoreFailed Rejected), t))
      else case tunnel_opening (se_outer S) of
        Some Handshake \<Rightarrow>
          if \<not> se_initiator S then tunnel_answer_syn C S E seg reply t else (Inl (CoreFailed Rejected), t)
      | Some FakeHandshake \<Rightarrow> (Inr (), t)
      | _ \<Rightarrow> (Inl (CoreFailed Rejected), t))"

section \<open>Handshake messages\<close>

text \<open>The part of \<open>handle_msg1\<close> under the lock, in two: take up the connection and announce it, then
  answer and keep the session.\<close>

definition msg1_reply ::
  "settings \<Rightarrow> environment \<Rightarrow> sock \<Rightarrow> bytes \<Rightarrow> 'tr session \<Rightarrow> bytes
     \<Rightarrow> ('hs, 'tr) tunnel \<Rightarrow> (tunnel_error + unit) \<times> ('hs, 'tr) tunnel" where
  "msg1_reply S E from reply session msg2 t =
     (let now = en_now E; t1 = send_cover S E t; st = tu_state t1 in
      case ps_carrier st of
        None \<Rightarrow> (Inr (), t1)
      | Some w \<Rightarrow>
          (case wire_data w msg2 reply now True (Some (length msg2)) of
             (Inl e, w') \<Rightarrow> (Inl (WireFailed e), set_state (st\<lparr>ps_carrier := Some w'\<rparr>) t1)
           | (Inr (written, reply'), w') \<Rightarrow>
               (let st2 = accept_session (st\<lparr>ps_carrier := Some w'\<rparr>) session;
                    st3 = (established (st2\<lparr>ps_pending := None\<rparr>) now (rekey_after (en_rekey E)))
                            \<lparr>ps_endpoint := Some from\<rparr>;
                    t3 = tu_stats_update (stats_note_handshake now) (set_state st3 t1)
                in case get_range reply' 0 written of
                     None \<Rightarrow> (Inr (), t3)
                   | Some out \<Rightarrow>
                       (case send_or_fail E ''transmitting handshake reply'' out (fst from) t3 of
                          (Inl e, t4) \<Rightarrow> (Inl e, t4)
                        | (Inr _, t4) \<Rightarrow> (Inr (), bump HandshakesSent t4)))))"

definition msg1_answer ::
  "crypto \<Rightarrow> settings \<Rightarrow> environment \<Rightarrow> segment \<Rightarrow> bytes \<Rightarrow> u32 \<times> u32 \<times> u32 \<Rightarrow> 'tr session \<Rightarrow> bytes
     \<Rightarrow> ('hs, 'tr) tunnel \<Rightarrow> (tunnel_error + unit) \<times> ('hs, 'tr) tunnel" where
  "msg1_answer C S E seg reply numbers session msg2 t =
     (let cfg = se_outer S; st = tu_state t; from = g_src seg;
          op = (case tunnel_opening cfg of None \<Rightarrow> False | Some m \<Rightarrow> opens m);
          fresh = (case ps_carrier st of None \<Rightarrow> True
                   | Some c \<Rightarrow> wire_remote c \<noteq> from \<or> op \<and> wire_names_another_connection c seg);
          built = (case ps_carrier st of
                     None \<Rightarrow> replace_carrier st (make_wire cfg Responder (g_dst seg) from
                               (if tunnel_opening cfg = Some Handshake
                                then (0, 0, responder_clock C cfg from) else numbers))
                   | Some _ \<Rightarrow> st) in
      case ps_carrier built of
        None \<Rightarrow> (Inr (), set_state built t)
      | Some w \<Rightarrow>
          (case take_up C cfg w seg fresh (replicate MAX_OVERHEAD 0) (en_now E) of
             (Inl e, w1) \<Rightarrow> (Inl (WireFailed e), set_state (built\<lparr>ps_carrier := Some w1\<rparr>) t)
           | (Inr announce, w1) \<Rightarrow>
               (let t1 = set_state (built\<lparr>ps_carrier := Some w1\<rparr>) t in
                case Option.bind announce (\<lambda>(n, out). get_range out 0 n) of
                  None \<Rightarrow> msg1_reply S E from reply session msg2 t1
                | Some syn_ack \<Rightarrow>
                    (case send_or_fail E ''announcing the connection'' syn_ack (fst from) t1 of
                       (Inl e, t2) \<Rightarrow> (Inl e, t2)
                     | (Inr _, t2) \<Rightarrow> msg1_reply S E from reply session msg2 t2))))"

definition handle_msg1 ::
  "crypto \<Rightarrow> ('hs, 'tr) snow \<Rightarrow> settings \<Rightarrow> environment \<Rightarrow> segment \<Rightarrow> bytes \<Rightarrow> bytes \<Rightarrow> ('hs, 'tr) tunnel
     \<Rightarrow> (tunnel_error + unit) \<times> ('hs, 'tr) tunnel" where
  "handle_msg1 C N S E seg payload reply t =
     (let cfg = se_outer S; now = en_now E in
      if se_initiator S then (Inr (), t)
      else case responder_read C N (tc_private cfg) (tc_local_public cfg) payload of
        Inl e \<Rightarrow> (Inl (CoreFailed e), t)
      | Inr pend \<Rightarrow>
          if p_initiator_static pend \<noteq> tc_peer_public cfg then (Inl (CoreFailed Unauthorized), t)
          else
            let (isn_i, isn_r, ts_base) =
                  carrier_numbers C (p_epoch pend) (tc_peer_public cfg) (tc_local_public cfg) in
            case en_index E of
              None \<Rightarrow> (Inl (OsFailed ''generating a session index''), t)
            | Some index \<Rightarrow>
                (let pad = (if length payload > MSG1_LEN then handshake_pad (en_pad E) else 0) in
                 case responder_accept C N pend index now pad of
                   Inl e \<Rightarrow> (Inl (CoreFailed e), t)
                 | Inr (session, msg2) \<Rightarrow>
                     (let port = (if shape_has_ports (tc_shape cfg) then snd (g_dst seg) else snd (tu_local t));
                          t1 = t\<lparr>tu_local := learn_local (tu_local t) (fst (g_dst seg), port)\<rparr>
                      in msg1_answer C S E seg reply (isn_r, isn_i, ts_base) session msg2 t1)))"

definition handle_msg2 ::
  "crypto \<Rightarrow> ('hs, 'tr) snow \<Rightarrow> environment \<Rightarrow> segment \<Rightarrow> bytes \<Rightarrow> ('hs, 'tr) tunnel
     \<Rightarrow> (tunnel_error + unit) \<times> ('hs, 'tr) tunnel" where
  "handle_msg2 C N E seg payload t =
     (let st = tu_state t; now = en_now E in
      case ps_pending st of
        None \<Rightarrow> (Inr (), t)
      | Some pend \<Rightarrow>
          (case initiator_finish C N pend payload now of
             (Inl e, pend') \<Rightarrow> (Inl (CoreFailed e), set_state (st\<lparr>ps_pending := Some pend'\<rparr>) t)
           | (Inr session, _) \<Rightarrow>
               (let st1 = st\<lparr>ps_pending := None,
                             ps_carrier := map_option (\<lambda>w. wire_on_receive w seg) (ps_carrier st)\<rparr>;
                    st2 = established (install st1 session) now (rekey_after (en_rekey E))
                in (Inr (), tu_stats_update (stats_note_handshake now) (set_state st2 t)))))"

section \<open>Transport packets\<close>

definition ask_for ::
  "crypto \<Rightarrow> ('hs, 'tr) snow \<Rightarrow> settings \<Rightarrow> environment \<Rightarrow> u64 list \<Rightarrow> ('hs, 'tr) tunnel \<Rightarrow> ('hs, 'tr) tunnel" where
  "ask_for C N S E counters t =
     (case request_body counters of
        None \<Rightarrow> t
      | Some body \<Rightarrow>
          (case send_inner C N S E body (replicate (MAX_INNER + OVERHEAD) 0) (replicate MAX_FRAME 0) t of
             (Inl e, t') \<Rightarrow> t'
           | (Inr _, t') \<Rightarrow> bump_by Asked (of_nat (length counters)) t'))"

definition repeat_packet ::
  "crypto \<Rightarrow> ('hs, 'tr) snow \<Rightarrow> settings \<Rightarrow> environment \<Rightarrow> u64 \<times> bytes \<Rightarrow> ('hs, 'tr) tunnel \<Rightarrow> ('hs, 'tr) tunnel" where
  "repeat_packet C N S E entry t =
     (case repeat_body (fst entry) (snd entry) of
        None \<Rightarrow> t
      | Some body \<Rightarrow>
          (case send_inner C N S E body (replicate (MAX_INNER + OVERHEAD) 0) (replicate MAX_FRAME 0) t of
             (Inl e, t') \<Rightarrow> t'
           | (Inr _, t') \<Rightarrow> bump Repeated t'))"

text \<open>What the packet itself says, while the state is held: the repeats to send, the packet a repeat
  carries if it is still wanted, and the state after it.\<close>

definition transport_control ::
  "environment \<Rightarrow> bytes \<Rightarrow> ('hs, 'tr) tunnel
     \<Rightarrow> (u64 \<times> bytes) list \<times> bytes option \<times> ('hs, 'tr) tunnel" where
  "transport_control E packet t =
     (let st = tu_state t; now = en_now E in
      case control_parse packet of
        Some (Nack wanted) \<Rightarrow> (answers (ps_outbox st) now wanted, None, t)
      | Some (Repeat original inner) \<Rightarrow>
          (case satisfied (ps_inbox st) original of
             (True, ib) \<Rightarrow> ([], Some inner, bump Repaired (set_state (st\<lparr>ps_inbox := ib\<rparr>) t))
           | (False, ib) \<Rightarrow> ([], None, bump Duplicate (set_state (st\<lparr>ps_inbox := ib\<rparr>) t)))
      | Some Bye \<Rightarrow> ([], None, bump Farewells (set_state (farewell st now) t))
      | None \<Rightarrow> ([], None, t))"

text \<open>What follows a packet that opened: the peer's address, the carrier, the clocks, the gaps.\<close>

definition transport_heard ::
  "crypto \<Rightarrow> settings \<Rightarrow> environment \<Rightarrow> segment \<Rightarrow> header option \<Rightarrow> nat \<Rightarrow> ('hs, 'tr) tunnel
     \<Rightarrow> (tunnel_error + u64 list) \<times> ('hs, 'tr) tunnel" where
  "transport_heard C S E seg hdr n t =
     (let cfg = se_outer S; now = en_now E; st = tu_state t; from = g_src seg;
          fresh = (case ps_carrier st of None \<Rightarrow> False | Some c \<Rightarrow> wire_remote c \<noteq> from);
          st1 = (if fresh then st\<lparr>ps_cover_due := CoverOpening\<rparr> else st);
          t1 = (if ps_endpoint st1 \<noteq> Some from
                then bump Roams (set_state (st1\<lparr>ps_endpoint := Some from\<rparr>) t) else set_state st1 t) in
      case (case ps_carrier (tu_state t1) of
              None \<Rightarrow> (Inr None, t1)
            | Some w \<Rightarrow>
                (let (r, w') = take_up C cfg w seg fresh (replicate MAX_OVERHEAD 0) now
                 in (r, set_state ((tu_state t1)\<lparr>ps_carrier := Some w'\<rparr>) t1))) of
        (Inl e, t2) \<Rightarrow> (Inl (WireFailed e), t2)
      | (Inr announce, t2) \<Rightarrow>
          (case (case Option.bind announce (\<lambda>(m, out). get_range out 0 m) of
                   None \<Rightarrow> (Inr (), t2)
                 | Some syn_ack \<Rightarrow> send_or_fail E ''announcing the connection'' syn_ack (fst from) t2) of
             (Inl e, t3) \<Rightarrow> (Inl e, t3)
           | (Inr _, t3) \<Rightarrow>
               (let st3 = note_received (tu_state t3) n (length (g_payload seg)) now in
                case hdr of
                  Some h \<Rightarrow>
                    if l_capacity (se_repeat S) > 0
                    then let (asking, ib) = arrived (ps_inbox st3) (h_index h) (h_counter h) now
                         in (Inr asking, set_state (st3\<lparr>ps_inbox := ib\<rparr>) t3)
                    else (Inr [], set_state st3 t3)
                | None \<Rightarrow> (Inr [], set_state st3 t3))))"

definition handle_transport ::
  "crypto \<Rightarrow> ('hs, 'tr) snow \<Rightarrow> settings \<Rightarrow> environment \<Rightarrow> segment \<Rightarrow> nat \<Rightarrow> ('hs, 'tr) tunnel
     \<Rightarrow> (tunnel_error + unit) \<times> ('hs, 'tr) tunnel" where
  "handle_transport C N S E seg inner_len t =
     (let st = tu_state t;
          hdr = Option.bind (peer_mask st)
                  (\<lambda>mask. case peek_header C mask (g_payload seg) of Inl _ \<Rightarrow> None | Inr h \<Rightarrow> Some h) in
      case peer_open C N st (g_payload seg) inner_len (en_now E) of
        (None, st') \<Rightarrow> (Inr (), set_state st' t)
      | (Some (Inl e), st') \<Rightarrow> (Inl (CoreFailed e), set_state st' t)
      | (Some (Inr packet), st') \<Rightarrow>
          (case transport_heard C S E seg hdr (length packet) (set_state st' t) of
             (Inl e, t1) \<Rightarrow> (Inl e, t1)
           | (Inr asking, t1) \<Rightarrow>
               (let (repeats, repeated, t2) = transport_control E packet t1;
                    t3 = bump_by RxBytes (of_nat (length packet)) (bump RxPackets t2);
                    t4 = (if asking \<noteq> [] then ask_for C N S E asking t3 else t3);
                    t5 = fold (repeat_packet C N S E) repeats t4
                in case repeated of
                     Some inner \<Rightarrow> deliver S E inner t5
                   | None \<Rightarrow> if control_parse packet \<noteq> None then (Inr (), t5) else deliver S E packet t5)))"

section \<open>Dispatch\<close>

text \<open>The decoy handshake of the peer: \<open>None\<close> when the segment is not part of one.\<close>

definition handle_cover ::
  "settings \<Rightarrow> environment \<Rightarrow> bytes \<Rightarrow> ('hs, 'tr) tunnel \<Rightarrow> ('hs, 'tr) tunnel option" where
  "handle_cover S E payload t =
     (if se_spoof_sni S = None then None
      else if tu_cover_owed t > 0
      then Some (t\<lparr>tu_cover_owed := tu_cover_owed t - length payload\<rparr>)
      else case owed_after_opening payload of
        Some owed \<Rightarrow>
          (let t1 = (case session_id payload of
                       Some i \<Rightarrow> set_state ((tu_state t)\<lparr>ps_cover_session := Some i\<rparr>) t
                     | None \<Rightarrow> t)
           in Some (t1\<lparr>tu_cover_owed := min owed (carrier_payload (se_outer S))\<rparr>))
      | None \<Rightarrow>
          if is_cover payload
          then Some (case session_id payload of
                 Some i \<Rightarrow> set_state ((tu_state t)\<lparr>ps_cover_session := Some i\<rparr>) t
               | None \<Rightarrow>
                   if se_initiator S
                   then send_cover S E (set_state ((tu_state t)\<lparr>ps_cover_due := CoverFinished\<rparr>) t)
                   else t)
          else None)"

definition handle_segment ::
  "crypto \<Rightarrow> ('hs, 'tr) snow \<Rightarrow> settings \<Rightarrow> environment \<Rightarrow> segment \<Rightarrow> nat \<Rightarrow> bytes \<Rightarrow> ('hs, 'tr) tunnel
     \<Rightarrow> (tunnel_error + unit) \<times> ('hs, 'tr) tunnel" where
  "handle_segment C N S E seg inner_len reply t =
     (let payload = g_payload seg; public = tc_local_public (se_outer S) in
      if has seg SYN then handle_syn C N S E seg reply t
      else if payload = [] then (Inr (), t)
      else case handle_cover S E payload t of
        Some t' \<Rightarrow> (Inr (), t')
      | None \<Rightarrow>
          if se_initiator S
          then (if MSG2_LEN \<le> length payload \<and> length payload \<le> MSG2_MAX
                   \<and> \<not> isl (verify_mac1 C public payload)
                then handle_msg2 C N E seg payload t
                else handle_transport C N S E seg inner_len t)
          else (if MSG1_LEN \<le> length payload \<and> length payload \<le> MSG1_MAX
                   \<and> \<not> isl (verify_mac1 C public payload)
                then handle_msg1 C N S E seg payload reply t
                else handle_transport C N S E seg inner_len t))"

section \<open>Frames\<close>

definition note_inbound :: "tunnel_error \<Rightarrow> ('hs, 'tr) tunnel \<Rightarrow> ('hs, 'tr) tunnel" where
  "note_inbound e t =
     (case e of
        CoreFailed Rejected \<Rightarrow> bump RejectedPackets t
      | CoreFailed Replayed \<Rightarrow> bump ReplayedPackets t
      | _ \<Rightarrow> bump RejectedPackets t)"

definition note_too_big :: "settings \<Rightarrow> too_big \<Rightarrow> ('hs, 'tr) tunnel \<Rightarrow> ('hs, 'tr) tunnel" where
  "note_too_big S report t =
     (let st = tu_state t in
      case ps_endpoint st of
        None \<Rightarrow> t
      | Some peer \<Rightarrow>
          if \<not> describes report (tu_local t) peer (shape_protocol (tc_shape (se_outer S)))
          then bump Unparsed t
          else case shortfall report of
            None \<Rightarrow> t
          | Some over \<Rightarrow>
              (let t1 = bump TooBigReports t in
               if (case ps_reported_mtu st of None \<Rightarrow> False | Some seen \<Rightarrow> seen \<le> t_mtu report) then t1
               else set_state (st\<lparr>ps_reported_mtu := Some (t_mtu report)\<rparr>) t1))"

definition handle_unparsed :: "settings \<Rightarrow> bytes \<Rightarrow> ('hs, 'tr) tunnel \<Rightarrow> ('hs, 'tr) tunnel" where
  "handle_unparsed S frame t =
     (case toobig_parse_ethernet frame of
        None \<Rightarrow> if tc_icmp_ids (se_outer S) = None then bump Unparsed t else t
      | Some report \<Rightarrow> note_too_big S report t)"

definition acknowledge :: "settings \<Rightarrow> environment \<Rightarrow> ('hs, 'tr) tunnel \<Rightarrow> ('hs, 'tr) tunnel" where
  "acknowledge S E t =
     (if \<not> se_acknowledge S then t
      else case ps_carrier (tu_state t) of
        None \<Rightarrow> t
      | Some w \<Rightarrow>
          if \<not> wire_is_ready w \<or> \<not> wire_owes_ack w then t
          else
            let (r, w') = wire_ack w (replicate MAX_OVERHEAD 0) (en_now E);
                t1 = set_state ((tu_state t)\<lparr>ps_carrier := Some w'\<rparr>) t in
            case Option.bind r (\<lambda>(n, out). get_range out 0 n) of
              None \<Rightarrow> t1
            | Some frame \<Rightarrow> snd (transmit E frame (fst (wire_remote w)) t1))"

text \<open>One captured frame, and one batch of them (\<open>wire_to_tun_batched\<close>): what the batch left held goes to
  the device, and an acknowledgement goes out if one is owed.\<close>

definition receive_frame ::
  "crypto \<Rightarrow> ('hs, 'tr) snow \<Rightarrow> settings \<Rightarrow> environment \<Rightarrow> bytes \<Rightarrow> ('hs, 'tr) tunnel \<Rightarrow> ('hs, 'tr) tunnel" where
  "receive_frame C N S E frame t =
     (case tunnel_parse (se_outer S) (fst (tu_local t)) frame of
        None \<Rightarrow> handle_unparsed S frame t
      | Some seg \<Rightarrow>
          (case handle_segment C N S E seg MAX_INNER (replicate MAX_FRAME 0) t of
             (Inl e, t') \<Rightarrow> note_inbound e t'
           | (Inr _, t') \<Rightarrow> t'))"

definition end_batch :: "settings \<Rightarrow> environment \<Rightarrow> ('hs, 'tr) tunnel \<Rightarrow> ('hs, 'tr) tunnel" where
  "end_batch S E t =
     acknowledge S E (case flush_inner E t of (Inl e, t') \<Rightarrow> note_inbound e t' | (Inr _, t') \<Rightarrow> t')"

definition receive_batch ::
  "crypto \<Rightarrow> ('hs, 'tr) snow \<Rightarrow> settings \<Rightarrow> environment \<Rightarrow> (environment \<times> bytes) list
     \<Rightarrow> ('hs, 'tr) tunnel \<Rightarrow> ('hs, 'tr) tunnel" where
  "receive_batch C N S E frames t =
     end_batch S E (fold (\<lambda>(E', frame). receive_frame C N S E' frame) frames t)"

end
