(* ===== verification/Reach.thy ===== *)
theory Reach
  imports Inbound
begin

text \<open>
  Runs of a tunnel: any sequence of batches from the wire, rounds of the timer, packets from the device
  and the goodbye, in any order and under any clock, randomness and outcome of the system calls.  Two
  kinds of invariant are carried through every method: one about the carriers, as a locale over what a
  carrier keeps of itself, interpreted for the shape and for the pool of ports; and one about what
  reaches the device.
\<close>

section \<open>What an endpoint keeps\<close>

definition ep_identity :: "endpoint \<Rightarrow> sock \<times> carrier_mode \<times> role \<times> os_profile \<times> bool \<times> bool" where
  "ep_identity e = (e_local e, e_carrier e, e_role e, e_profile e, e_records e, e_dont_fragment e)"

definition raw_identity :: "raw_carrier \<Rightarrow> ipv4 \<times> shell \<times> os_profile \<times> bool" where
  "raw_identity c = (rw_local c, rw_shell c, rw_profile c, rw_dont_fragment c)"

fun wire_identity where
  "wire_identity (WTcp e) = Inl (ep_identity e)"
| "wire_identity (WRaw c) = Inr (raw_identity c)"

named_theorems identity_simps "operations that keep the identity of a carrier"

lemma emit_identity [identity_simps]:
  "ep_identity (snd (endpoint_emit_parts e k parts out now push)) = ep_identity e"
  "ep_identity (snd (emit_raw e k payload out now push)) = ep_identity e"
  by (simp_all add: emit_raw_def endpoint_emit_parts_def ep_identity_def split: sum.split)

lemma count_identity [identity_simps]: "ep_identity (snd (count_sent n r)) = ep_identity (snd r)"
  by (cases r) (simp add: count_sent_def ep_identity_def split: sum.split)

lemma syn_identity [identity_simps]: "ep_identity (snd (syn e sq out now)) = ep_identity e"
  by (simp add: syn_def Let_def ep_identity_def split: sum.split)

lemma map_some_identity [identity_simps]: "ep_identity (snd (map_some r)) = ep_identity (snd r)"
  by (simp add: map_some_def split: prod.split sum.split)

lemma record_left_identity [identity_simps]:
  "ep_identity (e\<lparr>e_record_left := n\<rparr>) = ep_identity e" "ep_identity (e\<lparr>e_phase := p\<rparr>) = ep_identity e"
  by (simp_all add: ep_identity_def)

lemma data_identity [identity_simps]: "ep_identity (snd (data e payload out now push rec)) = ep_identity e"
  by (simp add: data_def Let_def identity_simps split: option.split)

lemma bare_identity [identity_simps]: "ep_identity (snd (bare e payload out now push)) = ep_identity e"
  by (simp add: bare_def identity_simps)

lemma ack_identity [identity_simps]: "ep_identity (snd (ack e out now)) = ep_identity e"
  by (simp add: ack_def identity_simps)

lemma handshake_identity [identity_simps]: "ep_identity (snd (handshake e out now)) = ep_identity e"
proof -
  have "ep_identity (snd (case syn e sq out now of
      (Inl err, e1) \<Rightarrow> (Inl err, e1) | (Inr r, e1) \<Rightarrow> (Inr (Some r), e1\<lparr>e_phase := SynSent\<rparr>)))
      = ep_identity e" for sq
    using syn_identity [of e sq out now]
    by (cases "syn e sq out now") (auto simp: record_left_identity split: sum.split)
  then show ?thesis
    by (simp add: handshake_def identity_simps)
qed

lemma answer_identity [identity_simps]: "ep_identity (snd (answer e ak out now)) = ep_identity e"
  by (simp add: answer_def Let_def ep_identity_def split: sum.split)

lemma receive_identity [identity_simps]:
  "ep_identity (note_arrival e seg) = ep_identity e" "ep_identity (advance e stop) = ep_identity e"
  "ep_identity (establish e) = ep_identity e" "ep_identity (number_syn e now f) = ep_identity e"
  "ep_identity (rejoin e seg b) = ep_identity e" "ep_identity (set_remote e r) = ep_identity e"
  by (simp_all add: note_arrival_def advance_def establish_def number_syn_def rejoin_def set_remote_def
      ep_identity_def Let_def split: option.split)

lemma peer_next_identity [identity_simps]:
  "ep_identity (e\<lparr>e_peer_next := x, e_relearn := b\<rparr>) = ep_identity e"
  "ep_identity (e\<lparr>e_peer_next := x\<rparr>) = ep_identity e"
  "ep_identity (e\<lparr>e_peer_next := x, e_phase := p\<rparr>) = ep_identity e"
  by (simp_all add: ep_identity_def)

lemma on_receive_identity [identity_simps]: "ep_identity (snd (on_receive e seg)) = ep_identity e"
  by (simp add: on_receive_def Let_def identity_simps)

lemma raw_identity_kept [identity_simps]:
  "raw_identity (snd (raw_data c payload out)) = raw_identity c"
  "raw_identity (raw_set_remote c r) = raw_identity c" "raw_identity (answer_as c i q) = raw_identity c"
  by (auto simp: raw_data_def raw_set_remote_def answer_as_def raw_identity_def Let_def split: sum.split)

lemma wire_identity_kept [identity_simps]:
  "wire_identity (snd (wire_data w payload out now push rec)) = wire_identity w"
  "wire_identity (snd (wire_bare w payload out now push)) = wire_identity w"
  "wire_identity (snd (wire_ack w out now)) = wire_identity w"
  "wire_identity (wire_set_remote w r) = wire_identity w"
  "wire_identity (wire_on_receive w seg) = wire_identity w"
proof -
  show "wire_identity (snd (wire_ack w out now)) = wire_identity w"
  proof (cases w)
    case (WTcp c)
    then show ?thesis
      using ack_identity [of c out now] by (auto split: prod.split sum.split)
  qed simp
qed (cases w; simp add: identity_simps)+

lemma take_up_identity [identity_simps]:
  "wire_identity (snd (take_up C cfg w seg fresh out now)) = wire_identity w"
proof (cases w)
  case (WTcp c)
  let ?c1 = "snd (on_receive (set_remote c (g_src seg)) seg)"
  obtain r c2 where a: "answer ?c1 (g_seq seg) out now = (r, c2)"
    by fastforce
  moreover have "ep_identity c2 = ep_identity c"
    using answer_identity [of ?c1 "g_seq seg" out now] by (simp add: a identity_simps)
  ultimately show ?thesis
    by (simp add: WTcp take_up_def Let_def identity_simps split: sum.split)
qed (simp add: take_up_def Let_def identity_simps)

section \<open>Invariants through every method\<close>

text \<open>The packets that pass the checks of \<open>deliver\<close>.\<close>

definition acceptable :: "settings \<Rightarrow> bytes \<Rightarrow> bool" where
  "acceptable S packet =
     (if map_option (drop_bit 4) (get packet 0) = Some 6
      then (case inner_addresses6 packet of
              None \<Rightarrow> False
            | Some (source, destination) \<Rightarrow>
                \<not> is_multicast6 destination \<and> se_address6 S \<and> permits6 S source \<and> plausible_source6 source)
      else (case inner_source packet of
              None \<Rightarrow> False | Some source \<Rightarrow> permits S source \<and> plausible_source source))"

text \<open>\<open>P\<close> holds of a carrier by its identity and \<open>L\<close> of this end's outer address: whatever is built from
  such an address satisfies \<open>P\<close>.  \<open>D\<close> relates what was written to the device and what is held back for
  it, and is kept as long as only acceptable packets are written or held.\<close>

locale tunnel_invariant =
  fixes S :: settings and P :: "wire \<Rightarrow> bool" and L :: "sock \<Rightarrow> bool"
    and D :: "device_write list \<Rightarrow> coalescer option \<Rightarrow> bool"
  assumes identity: "wire_identity w' = wire_identity w \<Longrightarrow> P w \<Longrightarrow> P w'"
    and initiator: "L l \<Longrightarrow> P (initiator_carrier C (se_outer S) l peer epoch)"
    and responder: "\<not> se_initiator S \<Longrightarrow> P (make_wire (se_outer S) Responder l peer numbers)"
    and local: "P (WTcp e) \<Longrightarrow> L (e_local e)"
    and learnt: "\<not> se_initiator S \<Longrightarrow> L l"
    and moved: "L (ip, p) \<Longrightarrow> L (ip, next_port (se_ports S) p)"
    and followed: "L (ip, p) \<Longrightarrow> L (ip', p') \<Longrightarrow> L (ip, p')"
    and written: "D d c \<Longrightarrow> acceptable S packet \<Longrightarrow> D (d @ [WriteOne packet]) c"
    and flushed: "D d (Some co) \<Longrightarrow> take_held co = (Some (hdr, frame), co') \<Longrightarrow>
      D d (Some co') \<and> D (d @ [WriteHeld hdr frame]) (Some co')"
    and idle: "D d (Some co) \<Longrightarrow> take_held co = (None, co') \<Longrightarrow> D d (Some co')"
    and joined: "D d (Some co) \<Longrightarrow> acceptable S packet \<Longrightarrow> joins co packet \<or> \<not> co_pending co \<Longrightarrow>
      D d (Some (hold co packet))"
begin

definition carriers :: "('hs, 'tr) peer_state \<Rightarrow> bool" where
  "carriers st \<longleftrightarrow> pred_option P (ps_carrier st) \<and> pred_option P (ps_standby st)"

definition ok :: "('hs, 'tr) tunnel \<Rightarrow> bool" where
  "ok t \<longleftrightarrow> carriers (tu_state t) \<and> L (tu_local t) \<and> D (tu_device t) (tu_coalescer t)"

lemma kept [simp]:
  "P w \<Longrightarrow> P (snd (wire_data w payload out now push rec))" "P w \<Longrightarrow> P (snd (wire_bare w payload out now push))"
  "P w \<Longrightarrow> P (snd (wire_ack w out now))" "P w \<Longrightarrow> P (snd (take_up C cfg w seg fresh out now))"
  "P w \<Longrightarrow> P (wire_on_receive w seg)"
  by (erule identity [rotated]; simp add: identity_simps)+

lemma kept_tcp [simp]:
  "P (WTcp e) \<Longrightarrow> P (WTcp (snd (handshake e out now)))" "P (WTcp e) \<Longrightarrow> P (WTcp (snd (ack e out now)))"
  "P (WTcp e) \<Longrightarrow> P (WTcp (number_syn e now f))" "P (WTcp e) \<Longrightarrow> P (WTcp (snd (on_receive e seg)))"
  by (erule identity [rotated]; simp add: identity_simps)+

lemma wire_tcp_Some [simp]: "wire_tcp w = Some e \<longleftrightarrow> w = WTcp e"
  by (cases w) auto

lemma carriers_update [simp]:
  "carriers (ps_session_update f1 st) = carriers st" "carriers (ps_next_update f2 st) = carriers st"
  "carriers (ps_previous_update f3 st) = carriers st" "carriers (ps_pending_update f4 st) = carriers st"
  "carriers (ps_outbox_update f5 st) = carriers st" "carriers (ps_inbox_update f6 st) = carriers st"
  "carriers (ps_endpoint_update f7 st) = carriers st" "carriers (ps_last_handshake_update f8 st) = carriers st"
  "carriers (ps_rekey_at_update f9 st) = carriers st" "carriers (ps_retry_at_update f10 st) = carriers st"
  "carriers (ps_attempt_started_update f11 st) = carriers st" "carriers (ps_last_receive_update f12 st) = carriers st"
  "carriers (ps_last_send_update f13 st) = carriers st" "carriers (ps_last_keepalive_update f14 st) = carriers st"
  "carriers (ps_confirm_owed_update f15 st) = carriers st" "carriers (ps_confirm_tries_update f16 st) = carriers st"
  "carriers (ps_resume_at_update f17 st) = carriers st" "carriers (ps_rotate_at_update f18 st) = carriers st"
  "carriers (ps_reported_mtu_update f19 st) = carriers st" "carriers (ps_unanswered_update f20 st) = carriers st"
  "carriers (ps_last_data_receive_update f21 st) = carriers st" "carriers (ps_syn_tries_update f22 st) = carriers st"
  "carriers (ps_syn_retry_at_update f23 st) = carriers st" "carriers (ps_opened_at_update f24 st) = carriers st"
  "carriers (ps_carried_packets_update f25 st) = carriers st" "carriers (ps_carried_bytes_update f26 st) = carriers st"
  "carriers (ps_quiet_since_update f27 st) = carriers st" "carriers (ps_heard_at_update f28 st) = carriers st"
  "carriers (ps_syn_rtt_update f29 st) = carriers st" "carriers (ps_cover_due_update f30 st) = carriers st"
  "carriers (ps_cover_session_update f31 st) = carriers st" "carriers (ps_standby_opened_at_update f32 st) = carriers st"
  "carriers (ps_carrier_update g st) \<longleftrightarrow> pred_option P (g (ps_carrier st)) \<and> pred_option P (ps_standby st)"
  "carriers (ps_standby_update h st) \<longleftrightarrow> pred_option P (ps_carrier st) \<and> pred_option P (h (ps_standby st))"
  by (simp_all add: carriers_def)

lemma carriers_other [simp]:
  "carriers (confirm st) = carriers st" "carriers (wants_to_send st) = carriers st"
  "carriers (note_sent st packet n now) = carriers st" "carriers (sent_syn st now) = carriers st"
  "carriers (note_handshake st ini now rnd) = carriers st" "carriers (retire_expired st now) = carriers st"
  "carriers (note_keepalive st now) = carriers st" "carriers (accept_session st s) = carriers st"
  "carriers (install st s) = carriers st" "carriers (established st now b) = carriers st"
  "carriers (farewell st now) = carriers st" "carriers (note_received st n m now) = carriers st"
  "carriers (carried st m) = carriers st"
  by (simp_all add: confirm_def wants_to_send_def note_sent_def carried_def sent_syn_def
      note_handshake_def retire_expired_def note_keepalive_def accept_session_def install_def
      established_def farewell_def note_received_def Let_def split: option.split)

lemma carriers_replace [simp]:
  "carriers (replace_carrier st w) \<longleftrightarrow> P w \<and> pred_option P (ps_standby st)"
  by (simp add: replace_carrier_def)

lemma ok_simps [simp]:
  "ok (set_state st t) \<longleftrightarrow> carriers st \<and> L (tu_local t) \<and> D (tu_device t) (tu_coalescer t)"
  "ok (tu_stats_update f t) = ok t" "ok (t\<lparr>tu_out := o'\<rparr>) = ok t" "ok (t\<lparr>tu_answered := a\<rparr>) = ok t"
  "ok (t\<lparr>tu_cover_owed := c\<rparr>) = ok t"
  by (simp_all add: ok_def carriers_def)

lemma okD:
  "ok t \<Longrightarrow> carriers (tu_state t) \<and> L (tu_local t) \<and> pred_option P (ps_carrier (tu_state t))
     \<and> pred_option P (ps_standby (tu_state t)) \<and> D (tu_device t) (tu_coalescer t)"
  by (simp add: ok_def carriers_def)

lemma transmit_fields [simp]:
  "tu_state (snd (transmit E frame dst t)) = tu_state t" "tu_local (snd (transmit E frame dst t)) = tu_local t"
  "tu_state (snd (send_or_fail E ctxt frame dst t)) = tu_state t"
  "tu_local (snd (send_or_fail E ctxt frame dst t)) = tu_local t"
  "tu_device (snd (transmit E frame dst t)) = tu_device t"
  "tu_coalescer (snd (transmit E frame dst t)) = tu_coalescer t"
  "tu_device (snd (send_or_fail E ctxt frame dst t)) = tu_device t"
  "tu_coalescer (snd (send_or_fail E ctxt frame dst t)) = tu_coalescer t"
  by (simp_all add: transmit_def send_or_fail_def case_prod_beta)

lemma transmit_ok [simp]:
  "ok (snd (transmit E frame dst t)) = ok t" "ok (snd (send_or_fail E ctxt frame dst t)) = ok t"
  by (simp_all add: ok_def)

lemma send_flight_fields [simp]:
  "tu_state (snd (send_flight fuel E chunk dst rest w t)) = tu_state t"
  "tu_local (snd (send_flight fuel E chunk dst rest w t)) = tu_local t"
  "tu_device (snd (send_flight fuel E chunk dst rest w t)) = tu_device t"
  "tu_coalescer (snd (send_flight fuel E chunk dst rest w t)) = tu_coalescer t"
  by (induction fuel arbitrary: rest w t)
    (simp_all add: Let_def case_prod_beta split: sum.split option.split)

lemma send_flight_kept [simp]: "P w \<Longrightarrow> P (fst (send_flight fuel E chunk dst rest w t))"
  by (induction fuel arbitrary: rest w t)
    (simp_all add: Let_def case_prod_beta split: sum.split option.split)

lemmas ok_unfold = Let_def case_prod_beta ok_def carriers_def

lemma send_cover_ok [simp]: "ok t \<Longrightarrow> ok (send_cover S E t)"
  by (auto simp: send_cover_def ok_unfold split: option.split)

lemma seal_under_ok [simp]:
  assumes "ok t"
  shows "ok (snd (seal_under C N S E packet sealed frame push rec s t))"
  using okD [OF assms] by (auto simp: seal_under_def Let_def case_prod_beta split: sum.split option.split)

lemma seal_into_ok [simp]:
  assumes "ok t"
  shows "ok (snd (seal_into C N S E packet sealed frame push rec t))"
proof -
  define st1 where "st1 = (if (case ps_session (tu_state t) of None \<Rightarrow> True | Some s \<Rightarrow> is_expired s (en_now E))
    then confirm (tu_state t) else tu_state t)"
  have "carriers st1"
    using okD [OF assms] by (simp add: st1_def)
  then show ?thesis
    using assms okD [OF assms] unfolding seal_into_def Let_def st1_def [symmetric]
    by (simp split: option.split)
qed

lemma send_inner_ok [simp]:
  assumes "ok t"
  shows "ok (snd (send_inner C N S E packet sealed frame t))"
  using assms by (auto simp: send_inner_def case_prod_beta split: sum.split option.split)

lemma knock_with_ok [simp]:
  assumes "ok t"
  shows "ok (snd (knock_with C S E out waits t))"
  using assms okD [OF assms]
  by (auto simp: knock_with_def Let_def case_prod_beta bind_eq_Some_conv split: sum.split option.split)

lemma knock_ok [simp]:
  assumes "ok t"
  shows "ok (snd (knock C S E out t))"
proof -
  have "ok (set_state ((tu_state t)\<lparr>ps_carrier := Some (initiator_carrier C (se_outer S) (e_local e) peer epoch)\<rparr>) t)"
    if "ps_carrier (tu_state t) = Some (WTcp e)" for e peer epoch
    using okD [OF assms] that initiator [OF local, of e C peer epoch] by simp
  then show ?thesis
    using assms by (simp add: knock_def Let_def bind_eq_Some_conv split: option.split)
qed

lemma maybe_open_ok [simp]: "ok t \<Longrightarrow> ok (snd (maybe_open C S E frame t))"
  by (simp add: maybe_open_def case_prod_beta split: sum.split)

lemma start_handshake_ok [simp]:
  assumes "ok t"
  shows "ok (snd (start_handshake C N S E frame peer epoch index t))"
  using assms okD [OF assms]
  by (auto simp: start_handshake_def Let_def case_prod_beta split: sum.split option.split)

lemma maybe_handshake_ok [simp]:
  assumes "ok t"
  shows "ok (snd (maybe_handshake C N S E frame t))"
proof -
  define st where "st = retire_expired (tu_state t) (en_now E)"
  define st1 where "st1 = (if revive st (en_now E) then st\<lparr>ps_attempt_started := None\<rparr> else st)"
  have c: "carriers st" "carriers st1" "L (tu_local t)" "D (tu_device t) (tu_coalescer t)"
    using okD [OF assms] by (simp_all add: st_def st1_def)
  then show ?thesis
    using assms c c(2) [unfolded carriers_def] unfolding maybe_handshake_def Let_def st_def [symmetric]
    unfolding st1_def [symmetric]
    by (simp add: case_prod_beta initiator [OF c(3)] split: sum.split option.split)
qed

lemma maybe_keepalive_ok [simp]:
  assumes "ok t"
  shows "ok (snd (maybe_keepalive C N S E sealed frame t))"
proof -
  have "ok (snd (send_inner C N S E [] sealed frame t))"
    using assms by simp
  from assms okD [OF this] show ?thesis
    by (auto simp: maybe_keepalive_def case_prod_beta split: sum.split)
qed

lemma say_goodbye_ok [simp]: "ok t \<Longrightarrow> ok (say_goodbye C N S E t)"
  by (simp add: say_goodbye_def)

lemma prepare_standby_ok [simp]:
  assumes "ok t"
  shows "ok (snd (prepare_standby C S E t))"
proof -
  obtain ip port where l: "tu_local t = (ip, port)" "L (ip, next_port (se_ports S) port)"
    using okD [OF assms] moved by (cases "tu_local t") auto
  have "P (WTcp (snd (handshake (number_syn e now f) out now')))"
    if "initiator_carrier C (se_outer S) (ip, next_port (se_ports S) port) peer epoch = WTcp e"
    for e peer epoch now f out now'
    using initiator [OF l(2), of C peer epoch] that by simp
  then show ?thesis
    using assms okD [OF assms]
    by (auto simp: prepare_standby_def l(1) Let_def case_prod_beta split: sum.split option.split)
qed

lemma next_carrier_ok:
  assumes "ok t" and "next_carrier C S E peer t = Some (w, p, st)"
  shows "P w \<and> carriers st \<and> (\<forall>ip. fst (tu_local t) = ip \<longrightarrow> L (ip, p))"
proof -
  obtain ip port where l: "tu_local t = (ip, port)" "L (ip, port)" "L (ip, next_port (se_ports S) port)"
    using okD [OF assms(1)] moved by (cases "tu_local t") auto
  show ?thesis
  proof (cases "ps_standby (tu_state t)")
    case None
    then show ?thesis
      using assms(2) okD [OF assms(1)] l
      by (auto simp: next_carrier_def Let_def initiator [OF l(3)] split: if_splits)
  next
    case (Some s)
    then have "P s"
      using okD [OF assms(1)] by simp
    moreover from this have "L (ip, snd (e_local e))" if "wire_tcp s = Some e" for e
      using that local [of e] followed [OF l(2)] by (cases "e_local e") auto
    ultimately show ?thesis
      using assms(2) okD [OF assms(1)] l Some
      by (auto simp: next_carrier_def Let_def split: option.splits)
  qed
qed

lemma move_carrier_ok:
  assumes "ok t" and "P w" and "L (fst (tu_local t), p)"
  shows "ok (move_carrier C N S E sealed frame why (w, p) t)"
proof -
  have keeps: "tu_local (snd (knock C S E out u)) = tu_local u" for out and u :: "('a, 'b) tunnel"
    by (simp add: knock_def knock_with_def Let_def case_prod_beta split: option.split sum.split)
  define t1 where "t1 = set_state (replace_carrier (tu_state t) w) t"
  define t2 where "t2 = snd (knock C S E (replicate MAX_OVERHEAD 0) t1)"
  have "ok t1"
    using okD [OF assms(1)] assms(2) by (simp add: t1_def)
  then have t2: "ok t2" "tu_local t2 = tu_local t"
    by (simp_all add: t2_def keeps t1_def)
  have "ok ((set_state st t2)\<lparr>tu_local := (fst (tu_local t2), p)\<rparr>)" if "carriers st" for st
    using that assms(3) t2(2) okD [OF t2(1)] by (simp add: ok_def)
  moreover have "carriers (if why = Stuck then (tu_state t2)\<lparr>ps_retry_at := en_now E\<rparr> else tu_state t2)"
    using okD [OF t2(1)] by simp
  ultimately show ?thesis
    unfolding move_carrier_def Let_def fst_conv snd_conv t1_def [symmetric] t2_def [symmetric] by simp
qed

lemma move_due_carriers [simp]: "carriers (snd (move_due st now ro rnd)) = carriers st"
  by (simp add: move_due_def Let_def)

lemma maybe_rotate_ok [simp]:
  assumes "ok t"
  shows "ok (maybe_rotate C N S E sealed frame t)"
proof -
  define t1 where "t1 = (if tunnel_opening (se_outer S) = Some Handshake \<and> ps_session (tu_state t) \<noteq> None
      \<and> ps_standby (tu_state t) = None
      \<and> (case ps_carrier (tu_state t) of None \<Rightarrow> False | Some w \<Rightarrow> wire_is_ready w)
      \<and> move_near (tu_state t) (en_now E) (se_rotation S)
    then snd (prepare_standby C S E t) else t)"
  obtain due st1 where d: "move_due (tu_state t1) (en_now E) (se_rotation S) (en_first_rotate E) = (due, st1)"
    by fastforce
  have "ok t1"
    using assms by (simp add: t1_def)
  then have c: "carriers st1" "L (tu_local t1)" "D (tu_device t1) (tu_coalescer t1)"
    using okD [of t1] move_due_carriers [of "tu_state t1" "en_now E" "se_rotation S" "en_first_rotate E"]
    by (simp_all add: d)
  define t2 where "t2 = set_state (st1\<lparr>ps_rotate_at := saturating_add (en_now E)
      (rotation_interval (se_rotation S) (en_rotate E)), ps_unanswered := 0\<rparr>) t1"
  have t2: "ok t2"
    using c by (simp add: t2_def)
  have "ok (move_carrier C N S E sealed frame why (w, p) (set_state st t2))"
    if "next_carrier C S E peer t2 = Some (w, p, st)" for why w p st peer
    using next_carrier_ok [OF t2 that] okD [OF t2] by (intro move_carrier_ok) simp_all
  then show ?thesis
    using assms t2 c unfolding maybe_rotate_def Let_def t1_def [symmetric] d prod.case t2_def [symmetric]
    by (auto split: option.split)
qed

lemma timer_round_ok [simp]: "ok t \<Longrightarrow> ok (timer_round C N S E t)"
  by (simp add: timer_round_def Let_def)

lemma device_put_ok:
  assumes "ok t" and "D (tu_device t @ [w]) (tu_coalescer t)"
  shows "ok (snd (device_put E w t))"
  using assms by (simp add: device_put_def note_write_def ok_def split: device_outcome.split)

lemma write_one_ok [simp]: "ok t \<Longrightarrow> acceptable S packet \<Longrightarrow> ok (snd (write_one E packet t))"
  using okD [of t] written by (simp add: write_one_def device_put_ok)

lemma take_held_pending: "take_held co = (r, co') \<Longrightarrow> \<not> co_pending co'"
  by (auto simp: take_held_def Let_def split: if_splits option.splits prod.splits)

lemma write_held_ok:
  assumes "ok t" and "tu_coalescer t = Some co"
  shows "ok (snd (tunnel_write_held E co t)) \<and>
    (\<exists>co'. tu_coalescer (snd (tunnel_write_held E co t)) = Some co' \<and> \<not> co_pending co')"
proof -
  obtain r co' where r: "take_held co = (r, co')"
    by fastforce
  note d = okD [OF assms(1), unfolded assms(2)]
  have kept: "D (tu_device t) (Some co')"
    using d r flushed [of "tu_device t" co _ _ co'] idle [of "tu_device t" co co'] by (cases r) auto
  then have ok': "ok (t\<lparr>tu_coalescer := Some co'\<rparr>)"
    using d by (simp add: ok_def)
  have held: "tu_coalescer (snd (device_put E w t')) = tu_coalescer t'" for w and t' :: "('a, 'b) tunnel"
    by (simp add: device_put_def note_write_def split: device_outcome.split)
  show ?thesis
  proof (cases r)
    case None
    then show ?thesis
      using ok' r take_held_pending [OF r] by (simp add: tunnel_write_held_def)
  next
    case (Some hf)
    then have "D (tu_device t @ [WriteHeld (fst hf) (snd hf)]) (Some co')"
      using flushed [of "tu_device t" co "fst hf" "snd hf" co'] d r by simp
    then show ?thesis
      using ok' r Some take_held_pending [OF r] held
      by (simp add: tunnel_write_held_def device_put_ok case_prod_beta)
  qed
qed

lemma flush_inner_ok [simp]: "ok t \<Longrightarrow> ok (snd (flush_inner E t))"
  by (simp add: flush_inner_def write_held_ok split: option.split)

lemma write_inner_ok [simp]:
  assumes "ok t" and "acceptable S packet"
  shows "ok (snd (write_inner E packet t))"
proof (cases "tu_coalescer t")
  case None
  then show ?thesis
    using assms by (simp add: write_inner_def)
next
  case (Some co)
  define m where "m = (if joins co packet then (Inr (), t) else tunnel_write_held E co t)"
  obtain co' where m: "ok (snd m)" "tu_coalescer (snd m) = Some co'" "joins co' packet \<or> \<not> co_pending co'"
    using assms(1) Some write_held_ok [OF assms(1) Some, of E] by (cases "joins co packet") (auto simp: m_def)
  have "ok ((snd m)\<lparr>tu_coalescer := Some (hold co' packet)\<rparr>)"
    using okD [OF m(1)] joined [OF _ assms(2) m(3)] by (simp add: ok_def m(2))
  then show ?thesis
    using m assms(2) Some unfolding write_inner_def
    by (simp add: m_def [symmetric] case_prod_beta split: sum.split)
qed

lemma deliver_ok [simp]: "ok t \<Longrightarrow> ok (snd (deliver S E packet t))"
  by (auto simp: deliver_def deliver6_def acceptable_def split: option.split intro!: write_inner_ok)

lemma put_slot_ok [simp]:
  "P (WTcp tcp) \<Longrightarrow> carriers st \<Longrightarrow> carriers (put_slot standby tcp st)"
  by (simp add: put_slot_def carriers_def)

lemma ok_option:
  assumes "ok (snd a)" and "\<And>v. x = Some v \<Longrightarrow> ok (snd (b v))"
  shows "ok (snd (case x of None \<Rightarrow> a | Some v \<Rightarrow> b v))"
  using assms by (cases x) simp_all

lemma handle_syn_ack_ok [simp]:
  assumes "ok t"
  shows "ok (snd (handle_syn_ack C N S E seg reply t))"
  unfolding handle_syn_ack_def Let_def
  apply (rule ok_option)
  subgoal using assms by simp
  subgoal premises slot for tcp
  proof -
    have "P (WTcp tcp)"
      using slot okD [OF assms] by (auto simp: bind_eq_Some_conv split: if_splits)
    then show ?thesis
      using assms okD [OF assms] by (simp add: case_prod_beta split: sum.split option.split)
  qed
  done

lemma tunnel_answer_syn_ok [simp]: "ok t \<Longrightarrow> ok (snd (tunnel_answer_syn C S E seg reply t))"
  by (simp add: tunnel_answer_syn_def Let_def case_prod_beta split: sum.split option.split)

lemma handle_syn_ok [simp]: "ok t \<Longrightarrow> ok (snd (handle_syn C N S E seg reply t))"
  by (simp add: handle_syn_def split: option.split carrier_mode.split)

lemma handle_msg2_ok [simp]:
  assumes "ok t"
  shows "ok (snd (handle_msg2 C N E seg payload t))"
  using assms okD [OF assms]
  by (auto simp: handle_msg2_def Let_def case_prod_beta option.pred_map pred_option_def
      split: sum.split option.split)

lemma msg1_reply_ok [simp]:
  assumes "ok t"
  shows "ok (snd (msg1_reply S E from reply session msg2 t))"
proof -
  have c: "ok (send_cover S E t)"
    using assms by simp
  show ?thesis
    using c okD [OF c] by (auto simp: msg1_reply_def Let_def case_prod_beta split: option.split sum.split)
qed

lemma msg1_answer_ok:
  assumes "ok t" and r: "\<not> se_initiator S"
  shows "ok (snd (msg1_answer C S E seg reply numbers session msg2 t))"
proof -
  define built where "built = (case ps_carrier (tu_state t) of
      None \<Rightarrow> replace_carrier (tu_state t) (make_wire (se_outer S) Responder (g_dst seg) (g_src seg)
        (if tunnel_opening (se_outer S) = Some Handshake
         then (0, 0, responder_clock C (se_outer S) (g_src seg)) else numbers))
    | Some _ \<Rightarrow> tu_state t)"
  have "carriers built" "pred_option P (ps_carrier built)" "pred_option P (ps_standby built)" "L (tu_local t)"
    "D (tu_device t) (tu_coalescer t)"
    using okD [OF assms(1)]
    by (auto simp: built_def carriers_def replace_carrier_def responder [OF r] split: option.split)
  then show ?thesis
    unfolding msg1_answer_def Let_def built_def [symmetric]
    by (auto simp: case_prod_beta split: option.split sum.split)
qed

lemma handle_msg1_ok [simp]:
  assumes "ok t"
  shows "ok (snd (handle_msg1 C N S E seg payload reply t))"
proof (cases "se_initiator S")
  case False
  have "ok (t\<lparr>tu_local := l\<rparr>)" for l
    using okD [OF assms] learnt [OF False] by (simp add: ok_def)
  then show ?thesis
    using assms False
    by (simp add: handle_msg1_def Let_def case_prod_beta msg1_answer_ok split: sum.split option.split)
qed (simp add: handle_msg1_def assms)

lemma asking_ok [simp]:
  assumes "ok t"
  shows "ok (ask_for C N S E counters t)" "ok (repeat_packet C N S E entry t)"
  using assms by (simp_all add: ask_for_def repeat_packet_def case_prod_beta split: option.split sum.split)

lemma repeats_ok [simp]: "ok t \<Longrightarrow> ok (fold (repeat_packet C N S E) entries t)"
  by (induction entries arbitrary: t) simp_all

lemma transport_control_ok [simp]:
  assumes "ok t"
  shows "ok (snd (snd (transport_control E packet t)))"
  using assms okD [OF assms]
  by (auto simp: transport_control_def Let_def split: option.split control.split prod.split bool.split)

lemma transport_heard_ok [simp]:
  assumes "ok t"
  shows "ok (snd (transport_heard C S E seg hdr n t))"
proof -
  define fresh where "fresh = (case ps_carrier (tu_state t) of None \<Rightarrow> False | Some c \<Rightarrow> wire_remote c \<noteq> g_src seg)"
  define st1 where "st1 = (if fresh then (tu_state t)\<lparr>ps_cover_due := CoverOpening\<rparr> else tu_state t)"
  define t1 where "t1 = (if ps_endpoint st1 \<noteq> Some (g_src seg)
    then bump Roams (set_state (st1\<lparr>ps_endpoint := Some (g_src seg)\<rparr>) t) else set_state st1 t)"
  have "ok t1"
    using okD [OF assms] by (simp add: st1_def t1_def)
  then have t1: "ok t1" "pred_option P (ps_carrier (tu_state t1))" "pred_option P (ps_standby (tu_state t1))"
    "carriers (tu_state t1)" "L (tu_local t1)" "D (tu_device t1) (tu_coalescer t1)"
    using okD [of t1] by simp_all
  define m where "m = (case ps_carrier (tu_state t1) of
      None \<Rightarrow> (Inr None, t1)
    | Some w \<Rightarrow>
        (let (r, w') = take_up C (se_outer S) w seg fresh (replicate MAX_OVERHEAD 0) (en_now E)
         in (r, set_state ((tu_state t1)\<lparr>ps_carrier := Some w'\<rparr>) t1)))"
  have "ok (snd m)"
    using t1 by (auto simp: m_def case_prod_beta split: option.split)
  then show ?thesis
    using okD [of "snd m"]
    unfolding transport_heard_def Let_def fresh_def [symmetric] st1_def [symmetric] t1_def [symmetric]
      m_def [unfolded Let_def, symmetric]
    by (simp add: case_prod_beta split: option.split sum.split)
qed

lemma handle_transport_ok [simp]:
  assumes "ok t"
  shows "ok (snd (handle_transport C N S E seg inner_len t))"
proof -
  have "carriers (snd (peer_open C N st packet n now)) = carriers st"
    for st :: "('a, 'b) peer_state" and packet n now
    by (simp add: peer_open_def open_previous_def open_waiting_def Let_def case_prod_beta split: option.split sum.split)
  then have "ok (set_state (snd (peer_open C N (tu_state t) packet n now)) t)" for packet n now
    using okD [OF assms] by simp
  then show ?thesis
    unfolding handle_transport_def Let_def
    by (simp add: case_prod_beta split: option.split sum.split)
qed

lemma handle_cover_ok:
  assumes "ok t" and "handle_cover S E payload t = Some t'"
  shows "ok t'"
  using assms okD [OF assms(1)]
  by (auto simp: handle_cover_def Let_def split: if_splits option.splits)

lemma handle_segment_ok [simp]:
  assumes "ok t"
  shows "ok (snd (handle_segment C N S E seg inner_len reply t))"
  using assms by (auto simp: handle_segment_def Let_def dest: handle_cover_ok split: option.split)

lemma note_inbound_ok [simp]: "ok (note_inbound e t) = ok t"
  by (simp add: note_inbound_def split: tunnel_error.split core_error.split)

lemma acknowledge_ok [simp]:
  assumes "ok t"
  shows "ok (acknowledge S E t)"
  using assms okD [OF assms]
  by (auto simp: acknowledge_def Let_def case_prod_beta split: option.split)

lemma handle_unparsed_ok [simp]:
  assumes "ok t"
  shows "ok (handle_unparsed S frame t)"
  using assms okD [OF assms] by (simp add: handle_unparsed_def note_too_big_def Let_def split: option.split)

lemma receive_frame_ok [simp]: "ok t \<Longrightarrow> ok (receive_frame C N S E frame t)"
  by (simp add: receive_frame_def case_prod_beta split: option.split sum.split)

lemma receive_batch_ok [simp]:
  assumes "ok t"
  shows "ok (receive_batch C N S E frames t)"
proof -
  have "ok (fold (\<lambda>(E', frame). receive_frame C N S E' frame) frames t)"
    using assms by (induction frames arbitrary: t) auto
  then show ?thesis
    by (simp add: receive_batch_def end_batch_def case_prod_beta split: sum.split)
qed

end

end
