(* ===== verification/Bpf.thy ===== *)
theory Bpf
  imports Toobig Wire
begin

text \<open>
  The capture filter (\<open>paqetz-dp/src/bpf.rs\<close>): the classic-BPF programs that select the tunnel's
  own frames in the kernel, and the interpreter that gives them their meaning (the one the source
  tests the programs with).  The programs are shown to accept exactly the frames their documentation
  names, and every frame that one of the frame parsers of the wire crate reads.
\<close>

section \<open>Instructions\<close>

record insn =
  i_code :: u16
  i_jt :: u8
  i_jf :: u8
  i_k :: u32

definition insn_of :: "u16 \<Rightarrow> u8 \<Rightarrow> u8 \<Rightarrow> u32 \<Rightarrow> insn" where
  "insn_of code jt jf k = \<lparr>i_code = code, i_jt = jt, i_jf = jf, i_k = k\<rparr>"

definition LD_H_ABS :: u16 where "LD_H_ABS = 0x28"
definition LD_B_ABS :: u16 where "LD_B_ABS = 0x30"
definition LD_H_IND :: u16 where "LD_H_IND = 0x48"
definition LDX_B_MSH :: u16 where "LDX_B_MSH = 0xB1"
definition JEQ_K :: u16 where "JEQ_K = 0x15"
definition JSET_K :: u16 where "JSET_K = 0x45"
definition RET_K :: u16 where "RET_K = 0x06"

definition F_ETHERTYPE_IPV4 :: u32 where "F_ETHERTYPE_IPV4 = 0x0800"
definition F_PROTO_TCP :: u32 where "F_PROTO_TCP = 6"
definition F_PROTO_ICMP :: u32 where "F_PROTO_ICMP = 1"
definition FRAGMENT_OFFSET_MASK :: u32 where "FRAGMENT_OFFSET_MASK = 0x1FFF"
definition ICMP_FRAGMENTATION_NEEDED :: u32 where "ICMP_FRAGMENTATION_NEEDED = 0x0304"
definition ACCEPT :: u32 where "ACCEPT = 262144"

definition MTU_TAIL_LEN :: nat where "MTU_TAIL_LEN = 8"
definition FIXED_LEN :: nat where "FIXED_LEN = 10 + MTU_TAIL_LEN"
definition MAX_PORTS :: nat where "MAX_PORTS = 240"
definition PROTOCOL_LEN :: nat where "PROTOCOL_LEN = 8 + MTU_TAIL_LEN"

lemmas bpf_opcodes = LD_H_ABS_def LD_B_ABS_def LD_H_IND_def LDX_B_MSH_def JEQ_K_def JSET_K_def RET_K_def

lemmas bpf_consts = F_ETHERTYPE_IPV4_def F_PROTO_TCP_def F_PROTO_ICMP_def FRAGMENT_OFFSET_MASK_def
  ICMP_FRAGMENTATION_NEEDED_def ACCEPT_def MTU_TAIL_LEN_def FIXED_LEN_def MAX_PORTS_def PROTOCOL_LEN_def

datatype match = Ports "u16 list" | Protocol u8

fun program_len :: "match \<Rightarrow> nat" where
  "program_len (Ports ports) = FIXED_LEN + length ports"
| "program_len (Protocol proto) = PROTOCOL_LEN"

section \<open>Programs\<close>

text \<open>\<open>u8::try_from(n).unwrap_or(u8::MAX)\<close>.\<close>

definition offset :: "nat \<Rightarrow> u8" where
  "offset n = (if n < 256 then of_nat n else 255)"

definition mtu_tail :: "insn list" where
  "mtu_tail =
    [insn_of JEQ_K 0 6 F_PROTO_ICMP,
     insn_of LD_H_ABS 0 0 20,
     insn_of JSET_K 4 0 FRAGMENT_OFFSET_MASK,
     insn_of LDX_B_MSH 0 0 14,
     insn_of LD_H_IND 0 0 14,
     insn_of JEQ_K 0 1 ICMP_FRAGMENTATION_NEEDED,
     insn_of RET_K 0 0 ACCEPT,
     insn_of RET_K 0 0 0]"

definition protocol_program :: "u8 \<Rightarrow> insn list" where
  "protocol_program proto =
    [insn_of LD_H_ABS 0 0 12,
     insn_of JEQ_K 0 5 F_ETHERTYPE_IPV4,
     insn_of LD_B_ABS 0 0 23,
     insn_of JEQ_K 0 4 (ucast proto),
     insn_of LD_H_ABS 0 0 20,
     insn_of JSET_K 1 0 FRAGMENT_OFFSET_MASK,
     insn_of RET_K 0 0 ACCEPT,
     insn_of RET_K 0 0 0] @ mtu_tail"

text \<open>The comparisons, one per port; \<open>i\<close> is the position of the port in the whole list of \<open>n\<close>.\<close>

fun port_tests :: "nat \<Rightarrow> nat \<Rightarrow> u16 list \<Rightarrow> insn list" where
  "port_tests n i [] = []"
| "port_tests n i (port # ports) =
     insn_of JEQ_K (offset (n - 1 - i)) (if i + 1 = n then 1 else 0) (ucast port)
       # port_tests n (i + 1) ports"

definition ports_program :: "u16 list \<Rightarrow> insn list" where
  "ports_program ports =
    (let n = length ports;
         to_fail = (\<lambda>i. offset (9 + n - i - 1));
         to_icmp = (\<lambda>i. offset (10 + n - i - 1)) in
     [insn_of LD_H_ABS 0 0 12,
      insn_of JEQ_K 0 (to_fail 1) F_ETHERTYPE_IPV4,
      insn_of LD_B_ABS 0 0 23,
      insn_of JEQ_K 0 (to_icmp 3) F_PROTO_TCP,
      insn_of LD_H_ABS 0 0 20,
      insn_of JSET_K (to_fail 5) 0 FRAGMENT_OFFSET_MASK,
      insn_of LDX_B_MSH 0 0 14,
      insn_of LD_H_IND 0 0 16]
     @ port_tests n 0 ports
     @ [insn_of RET_K 0 0 ACCEPT, insn_of RET_K 0 0 0]
     @ mtu_tail)"

fun filter_program :: "match \<Rightarrow> insn list" where
  "filter_program (Ports ports) = ports_program ports"
| "filter_program (Protocol proto) = protocol_program proto"

text \<open>\<open>Shape::matching\<close>.\<close>

fun matching :: "shape \<Rightarrow> u16 list \<Rightarrow> match" where
  "matching (ShapeTcp m) ports = Ports ports"
| "matching (ShapeRaw sh) ports = Protocol (shell_protocol sh)"

section \<open>Execution\<close>

text \<open>The interpreter, with the program counter, the accumulator and the index register; a load past
  the end of the frame ends the program with 0, and \<open>None\<close> is the panic on an index outside the
  program or on an opcode the programs do not use.\<close>

function bpf_run :: "insn list \<Rightarrow> bytes \<Rightarrow> nat \<Rightarrow> u32 \<Rightarrow> u32 \<Rightarrow> u32 option" where
  "bpf_run prog frame pc a x =
     (if length prog \<le> pc then None
      else
        let i = prog ! pc; c = i_code i; k = unat (i_k i) in
        if c = LD_H_ABS then
          (case be16_at frame k of None \<Rightarrow> Some 0
           | Some v \<Rightarrow> bpf_run prog frame (pc + 1) (ucast v) x)
        else if c = LD_B_ABS then
          (case get frame k of None \<Rightarrow> Some 0
           | Some v \<Rightarrow> bpf_run prog frame (pc + 1) (ucast v) x)
        else if c = LD_H_IND then
          (case be16_at frame (unat (x + i_k i)) of None \<Rightarrow> Some 0
           | Some v \<Rightarrow> bpf_run prog frame (pc + 1) (ucast v) x)
        else if c = LDX_B_MSH then
          (case get frame k of None \<Rightarrow> Some 0
           | Some v \<Rightarrow> bpf_run prog frame (pc + 1) a (ucast (v AND 0x0F) * 4))
        else if c = JEQ_K then
          bpf_run prog frame (pc + 1 + unat (if a = i_k i then i_jt i else i_jf i)) a x
        else if c = JSET_K then
          bpf_run prog frame (pc + 1 + unat (if a AND i_k i \<noteq> 0 then i_jt i else i_jf i)) a x
        else if c = RET_K then Some (i_k i)
        else None)"
  by pat_completeness auto
termination by (relation "measure (\<lambda>(prog, frame, pc, a, x). length prog - pc)") auto

declare bpf_run.simps [simp del]

text \<open>The same execution over the rest of the program: jumps only go forward.\<close>

function bpf_exec :: "insn list \<Rightarrow> bytes \<Rightarrow> u32 \<Rightarrow> u32 \<Rightarrow> u32 option" where
  "bpf_exec [] frame a x = None"
| "bpf_exec (i # rest) frame a x =
     (let c = i_code i; k = unat (i_k i) in
        if c = LD_H_ABS then
          (case be16_at frame k of None \<Rightarrow> Some 0 | Some v \<Rightarrow> bpf_exec rest frame (ucast v) x)
        else if c = LD_B_ABS then
          (case get frame k of None \<Rightarrow> Some 0 | Some v \<Rightarrow> bpf_exec rest frame (ucast v) x)
        else if c = LD_H_IND then
          (case be16_at frame (unat (x + i_k i)) of None \<Rightarrow> Some 0
           | Some v \<Rightarrow> bpf_exec rest frame (ucast v) x)
        else if c = LDX_B_MSH then
          (case get frame k of None \<Rightarrow> Some 0
           | Some v \<Rightarrow> bpf_exec rest frame a (ucast (v AND 0x0F) * 4))
        else if c = JEQ_K then
          bpf_exec (drop (unat (if a = i_k i then i_jt i else i_jf i)) rest) frame a x
        else if c = JSET_K then
          bpf_exec (drop (unat (if a AND i_k i \<noteq> 0 then i_jt i else i_jf i)) rest) frame a x
        else if c = RET_K then Some (i_k i)
        else None)"
  by pat_completeness auto
termination by (relation "measure (\<lambda>(prog, frame, a, x). length prog)") auto

declare bpf_exec.simps(2) [simp del]

lemma bpf_run_exec: "bpf_run prog frame pc a x = bpf_exec (drop pc prog) frame a x"
proof (induction prog frame pc a x rule: bpf_run.induct)
  case (1 prog frame pc a x)
  show ?case
  proof (cases "length prog \<le> pc")
    case False
    then have "drop pc prog = prog ! pc # drop (Suc pc) prog"
      by (simp add: Cons_nth_drop_Suc)
    then show ?thesis
      using False 1
      by (subst bpf_run.simps) (simp add: bpf_exec.simps(2) Let_def add.commute split: option.split)
  qed (simp add: bpf_run.simps)
qed

lemma bpf_exec_steps [simp]:
  "bpf_exec (insn_of LD_H_ABS jt jf k # rest) frame a x =
     (case be16_at frame (unat k) of None \<Rightarrow> Some 0 | Some v \<Rightarrow> bpf_exec rest frame (ucast v) x)"
  "bpf_exec (insn_of LD_B_ABS jt jf k # rest) frame a x =
     (case get frame (unat k) of None \<Rightarrow> Some 0 | Some v \<Rightarrow> bpf_exec rest frame (ucast v) x)"
  "bpf_exec (insn_of LD_H_IND jt jf k # rest) frame a x =
     (case be16_at frame (unat (x + k)) of None \<Rightarrow> Some 0 | Some v \<Rightarrow> bpf_exec rest frame (ucast v) x)"
  "bpf_exec (insn_of LDX_B_MSH jt jf k # rest) frame a x =
     (case get frame (unat k) of None \<Rightarrow> Some 0
      | Some v \<Rightarrow> bpf_exec rest frame a (ucast (v AND 0x0F) * 4))"
  "bpf_exec (insn_of JEQ_K jt jf k # rest) frame a x =
     bpf_exec (drop (unat (if a = k then jt else jf)) rest) frame a x"
  "bpf_exec (insn_of JSET_K jt jf k # rest) frame a x =
     bpf_exec (drop (unat (if a AND k \<noteq> 0 then jt else jf)) rest) frame a x"
  "bpf_exec (insn_of RET_K jt jf k # rest) frame a x = Some k"
  by (simp_all add: bpf_exec.simps(2) insn_of_def bpf_opcodes)

section \<open>What a program is meant to accept\<close>

text \<open>Not a later fragment, by the flags and offset word of the IPv4 header.\<close>

definition first_fragment :: "bytes \<Rightarrow> bool" where
  "first_fragment frame = (case be16_at frame 20 of None \<Rightarrow> False | Some f \<Rightarrow> f AND 0x1FFF = 0)"

text \<open>The halfword \<open>k - 14\<close> bytes into what follows the IPv4 header, options counted.\<close>

definition behind_ip :: "bytes \<Rightarrow> nat \<Rightarrow> u16 option" where
  "behind_ip frame k =
     (case get frame 14 of None \<Rightarrow> None | Some b \<Rightarrow> be16_at frame (4 * unat (b AND 0x0F) + k))"

definition mtu_report :: "u8 \<Rightarrow> bytes \<Rightarrow> bool" where
  "mtu_report proto frame \<longleftrightarrow>
     proto = PROTO_ICMP \<and> first_fragment frame \<and> behind_ip frame 14 = Some 0x0304"

fun carried_by :: "match \<Rightarrow> u8 \<Rightarrow> bytes \<Rightarrow> bool" where
  "carried_by (Ports ports) proto frame \<longleftrightarrow> first_fragment frame \<and>
     (case behind_ip frame 16 of None \<Rightarrow> False | Some port \<Rightarrow> port \<in> set ports)"
| "carried_by (Protocol p) proto frame \<longleftrightarrow> first_fragment frame"

fun match_protocol :: "match \<Rightarrow> u8" where
  "match_protocol (Ports ports) = PROTO_TCP"
| "match_protocol (Protocol p) = p"

definition wanted :: "match \<Rightarrow> bytes \<Rightarrow> bool" where
  "wanted what frame \<longleftrightarrow> be16_at frame 12 = Some ETHERTYPE_IPV4 \<and>
     (case get frame 23 of None \<Rightarrow> False
      | Some proto \<Rightarrow> if proto = match_protocol what then carried_by what proto frame
                      else mtu_report proto frame)"

section \<open>Evaluation\<close>

lemma unat_widen [simp]:
  "unat (ucast (v :: u16) :: u32) = unat v" "unat (ucast (p :: u8) :: u32) = unat p"
  using unat_bounds(1) [of p] unat_bounds(2) [of v] by (simp_all add: unat_ucast_mod)

lemma widen_eq [simp]:
  "(ucast (v :: u16) :: u32) = ucast w \<longleftrightarrow> v = w" "(ucast (p :: u8) :: u32) = ucast q \<longleftrightarrow> p = q"
  by (metis unat_widen(1) word_unat_eq_iff) (metis unat_widen(2) word_unat_eq_iff)

lemma widen_literal:
  "(ucast (v :: u16) :: u32) = 0x800 \<longleftrightarrow> v = 0x800" "(ucast v :: u32) = 0x304 \<longleftrightarrow> v = 0x304"
  "(ucast (p :: u8) :: u32) = 6 \<longleftrightarrow> p = 6" "(ucast p :: u32) = 1 \<longleftrightarrow> p = 1"
  by (simp_all only: word_unat_eq_iff unat_widen) simp_all

lemma fragment_bits: "(ucast (v :: u16) :: u32) AND 0x1FFF = 0 \<longleftrightarrow> v AND 0x1FFF = 0"
proof -
  have "(ucast v :: u32) AND mask 13 = 0 \<longleftrightarrow> v AND mask 13 = 0"
    by (simp only: unat_eq_zero [symmetric] unat_and_mask unat_widen)
  then show ?thesis
    by (simp add: mask_eq_exp_minus_1)
qed

lemma header_offset:
  "unat (ucast (b AND 0x0F :: u8) * 4 + (k :: u32)) = 4 * unat (b AND 0x0F) + unat k"
  if "unat k < 100"
proof -
  have "unat (b AND 0x0F) < 16"
    using unat_and_mask [of b 4] by (simp add: mask_eq_exp_minus_1)
  then show ?thesis
    using that by (simp add: unat_word_ariths)
qed

lemma unat_offset: "n < 256 \<Longrightarrow> unat (offset n) = n"
  by (simp add: offset_def unat_of_nat)

lemma exec_tail:
  "bpf_exec mtu_tail frame (ucast proto) x = Some (if mtu_report proto frame then ACCEPT else 0)"
  unfolding mtu_tail_def mtu_report_def first_fragment_def behind_ip_def toobig_consts
  by (simp add: bpf_consts widen_literal fragment_bits header_offset split: option.split)

lemma length_port_tests [simp]: "length (port_tests n i ports) = length ports"
  by (induction ports arbitrary: i) auto

lemma exec_port_tests:
  assumes "i + length ports = n" and "n \<le> 256" and "ports \<noteq> []"
  shows "bpf_exec (port_tests n i ports @ insn_of RET_K 0 0 ACCEPT # insn_of RET_K 0 0 0 # rest)
      frame (ucast v) x = Some (if v \<in> set ports then ACCEPT else 0)"
  using assms
proof (induction ports arbitrary: i)
  case (Cons port ports)
  show ?case
  proof (cases "ports = []")
    case False
    then have "Suc i \<noteq> n"
      using Cons.prems(1) by (cases ports) auto
    then show ?thesis
      using Cons False by (auto simp: unat_offset)
  qed (use Cons.prems in \<open>simp add: unat_offset\<close>)
qed simp

lemma exec_ports:
  assumes "length ports \<le> 248" and "ports \<noteq> []"
  shows "bpf_exec (ports_program ports) frame a x = Some (if wanted (Ports ports) frame then ACCEPT else 0)"
proof -
  let ?n = "length ports"
  have fits: "unat (offset (9 + ?n - 1 - 1)) = ?n + 7" "unat (offset (10 + ?n - 3 - 1)) = ?n + 6"
    "unat (offset (9 + ?n - 5 - 1)) = ?n + 3"
    using assms(1) by (simp_all add: unat_offset)
  have tests: "bpf_exec (port_tests ?n 0 ports @ insn_of RET_K 0 0 ACCEPT # insn_of RET_K 0 0 0 # rest)
      frame (ucast v) y = Some (if v \<in> set ports then ACCEPT else 0)" for rest v y
    using exec_port_tests [of 0 ports ?n] assms by simp
  show ?thesis
    unfolding ports_program_def Let_def wanted_def
    by (simp add: fits [simplified] widen_literal tests exec_tail fragment_bits header_offset drop_Cons'
        F_ETHERTYPE_IPV4_def F_PROTO_TCP_def FRAGMENT_OFFSET_MASK_def segment_consts
        first_fragment_def behind_ip_def split: option.split)
qed

lemma exec_protocol:
  "bpf_exec (protocol_program p) frame a x = Some (if wanted (Protocol p) frame then ACCEPT else 0)"
  unfolding protocol_program_def wanted_def
  by (simp add: widen_literal exec_tail fragment_bits drop_Cons' F_ETHERTYPE_IPV4_def
      FRAGMENT_OFFSET_MASK_def segment_consts first_fragment_def split: option.split)

fun match_ok :: "match \<Rightarrow> bool" where
  "match_ok (Ports ports) \<longleftrightarrow> ports \<noteq> [] \<and> length ports \<le> MAX_PORTS"
| "match_ok (Protocol p) \<longleftrightarrow> True"

lemma filter_run:
  assumes "match_ok what"
  shows "bpf_run (filter_program what) frame 0 0 0 = Some (if wanted what frame then ACCEPT else 0)"
proof (cases what)
  case (Ports ports)
  with assms show ?thesis
    by (simp add: bpf_run_exec exec_ports MAX_PORTS_def)
next
  case (Protocol p)
  then show ?thesis
    by (simp add: bpf_run_exec exec_protocol)
qed

text \<open>C7. The capture filter, run on any frame whatever, comes to an end inside the program and accepts
  the frame exactly when it is IPv4 and either unfragmented traffic of the carrier (TCP to one of the
  ports named, or the carrier's protocol) or an unfragmented ICMP report that fragmentation was
  needed; the transport header is found behind IPv4 options.  This holds for every non-empty pool of
  ports up to the bound the filter may name.
\<close>
theorem filter_accepts_exactly:
  assumes "match_ok what"
  shows "bpf_run (filter_program what) frame 0 0 0 = Some (if wanted what frame then ACCEPT else 0)
    \<and> length (filter_program what) = program_len what"
  using filter_run [OF assms]
  by (cases what) (simp_all add: ports_program_def protocol_program_def mtu_tail_def bpf_consts Let_def)

theorem filter_accepts_exactly_witness:
  "bpf_run (filter_program (Ports [443, 8443])) (replicate 12 0 @ [8, 0]) 0 0 0 =
     Some (if wanted (Ports [443, 8443]) (replicate 12 0 @ [8, 0]) then ACCEPT else 0)
   \<and> length (filter_program (Ports [443, 8443])) = program_len (Ports [443, 8443])"
  by (rule filter_accepts_exactly) (simp add: MAX_PORTS_def)

section \<open>What the parsers read, the filter passes\<close>

lemma be16_at_drop: "be16_at (drop n bs) i = be16_at bs (n + i)"
  by (simp add: be16_at_def get_def add.assoc less_diff_conv add.commute)

lemma get_drop: "get (drop n bs) i = get bs (n + i)"
  by (auto simp: get_def)

lemma be16_at_take: "be16_at (take n bs) i = Some v \<Longrightarrow> be16_at bs i = Some v"
  by (auto simp: be16_at_def get_def bind_eq_Some_conv split: if_splits)

lemma unfragmented:
  assumes "(frag :: u16) AND 0xBFFF = 0"
  shows "frag AND 0x1FFF = 0"
proof -
  have "frag AND 0x1FFF = (frag AND 0xBFFF) AND 0x1FFF"
    by (simp add: and.assoc)
  then show ?thesis
    using assms by simp
qed

lemma segment_frame_wanted:
  assumes "segment_parse_ethernet frame = Some seg" and "snd (g_dst seg) \<in> set ports"
  shows "wanted (Ports ports) frame"
proof -
  obtain v frag and tl16 :: u16 and tcp src dst where ip: "be16_at frame 12 = Some ETHERTYPE_IPV4"
    "get frame 14 = Some v" "get frame 23 = Some PROTO_TCP" "be16_at frame 20 = Some frag"
    "frag AND 0xBFFF = 0" "get_range (drop 14 frame) (unat (v AND 0x0F) * 4) (unat tl16) = Some tcp"
    "parse_tcp tcp src dst = Some seg"
    using assms(1)
    by (auto simp: segment_parse_ethernet_def segment_parse_ipv4_def get_from_def ETH_LEN_def get_drop
        be16_at_drop bind_eq_Some_conv Let_def split: if_splits)
  have "be16_at tcp 2 = Some (snd (g_dst seg))"
    using ip(7) by (auto simp: parse_tcp_def bind_eq_Some_conv Let_def split: if_splits)
  moreover have "tcp = take (unat tl16 - unat (v AND 0x0F) * 4) (drop (unat (v AND 0x0F) * 4 + 14) frame)"
    using ip(6) by (auto simp: get_range_def split: if_splits)
  ultimately have "be16_at frame (unat (v AND 0x0F) * 4 + 14 + 2) = Some (snd (g_dst seg))"
    using be16_at_take be16_at_drop by metis
  then show ?thesis
    using ip(1-5) assms(2) unfragmented [OF ip(5)]
    by (simp add: wanted_def first_fragment_def behind_ip_def mult.commute add.commute)
qed

lemma raw_frame_wanted:
  assumes "raw_parse_ethernet frame sh = Some r"
  shows "wanted (Protocol (shell_protocol sh)) frame"
proof -
  obtain frag where "be16_at frame 12 = Some ETHERTYPE_IPV4" "get frame 23 = Some (shell_protocol sh)"
    "be16_at frame 20 = Some frag" "frag AND 0xBFFF = 0"
    using assms
    by (auto simp: raw_parse_ethernet_def raw_parse_ipv4_def get_from_def ETH_LEN_def get_drop
        be16_at_drop bind_eq_Some_conv Let_def split: if_splits)
  then show ?thesis
    using unfragmented [of frag] by (simp add: wanted_def first_fragment_def)
qed

lemma report_frame_wanted:
  assumes "toobig_parse_ethernet frame = Some t"
  shows "wanted what frame"
proof -
  obtain v frag where ip: "be16_at frame 12 = Some ETHERTYPE_IPV4" "get frame 14 = Some v"
    "get frame 23 = Some PROTO_ICMP" "be16_at frame 20 = Some frag" "frag AND 0xBFFF = 0"
    "get frame (unat (v AND 0x0F) * 4 + 14) = Some DEST_UNREACHABLE"
    "get frame (15 + unat (v AND 0x0F) * 4) = Some FRAGMENTATION_NEEDED"
    using assms
    by (auto simp: toobig_parse_ethernet_def toobig_parse_ipv4_def ipv4_header_len_def get_from_def
        ETH_LEN_def get_drop be16_at_drop bind_eq_Some_conv Let_def add.assoc split: if_splits)
  have "from_be_bytes [3, 4] = (0x0304 :: u16)"
    by code_simp
  then have "be16_at frame (unat (v AND 0x0F) * 4 + 14) = Some 0x0304"
    using ip(6,7) by (simp add: be16_at_def toobig_consts add.commute)
  then have "mtu_report PROTO_ICMP frame"
    using ip unfragmented [OF ip(5)]
    by (simp add: mtu_report_def first_fragment_def behind_ip_def mult.commute add.commute)
  moreover have "PROTO_ICMP \<noteq> PROTO_TCP" "first_fragment frame"
    using ip(4) unfragmented [OF ip(5)] by (simp_all add: segment_consts toobig_consts first_fragment_def)
  ultimately show ?thesis
    using ip(1,3) by (cases what) (simp_all add: wanted_def)
qed

text \<open>The filter never hides from the tunnel a frame the tunnel would read: for every shape of the
  carrier, whatever the frame parser of the tunnel makes a segment of (addressed to one of the pool's
  ports, where the shape has ports) and whatever is read as a path-MTU report is accepted.
\<close>
theorem filter_passes_what_is_read:
  assumes "match_ok (matching (tc_shape cfg) ports)"
    and "(\<exists>seg. tunnel_parse cfg ours frame = Some seg
           \<and> (case tc_shape cfg of ShapeTcp m \<Rightarrow> snd (g_dst seg) \<in> set ports | ShapeRaw sh \<Rightarrow> True))
         \<or> (\<exists>t. toobig_parse_ethernet frame = Some t)"
  shows "bpf_run (filter_program (matching (tc_shape cfg) ports)) frame 0 0 0 = Some ACCEPT"
proof -
  have "wanted (matching (tc_shape cfg) ports) frame"
    using assms(2)
  proof (elim disjE exE conjE)
    fix seg
    assume "tunnel_parse cfg ours frame = Some seg"
      "case tc_shape cfg of ShapeTcp m \<Rightarrow> snd (g_dst seg) \<in> set ports | ShapeRaw sh \<Rightarrow> True"
    then show ?thesis
      by (cases "tc_shape cfg")
        (auto simp: tunnel_parse_def bind_eq_Some_conv intro!: segment_frame_wanted raw_frame_wanted
          split: if_splits option.splits)
  qed (rule report_frame_wanted)
  then show ?thesis
    using filter_run [OF assms(1)] by simp
qed

definition sample_frame :: bytes where
  "sample_frame = replicate 12 0 @ [8, 0] @
     [0x45, 0, 0, 22, 0, 0, 0x40, 0, 64, 99, 0, 0, 10, 0, 0, 1, 10, 0, 0, 2, 7, 7]"

lemma sample_frame_read:
  "map_option g_payload (tunnel_parse (sample_tunnel (ShapeRaw (Bare 99)) False False) (Ipv4 10 0 0 2)
     sample_frame) = Some [7, 7]"
  by code_simp

theorem filter_passes_what_is_read_witness:
  "bpf_run (filter_program (matching (tc_shape (sample_tunnel (ShapeRaw (Bare 99)) False False)) []))
     sample_frame 0 0 0 = Some ACCEPT"
  by (rule filter_passes_what_is_read [of _ _ "Ipv4 10 0 0 2"])
    (use sample_frame_read in \<open>auto simp: sample_tunnel_def\<close>)

text \<open>An empty pool is no filter at all: the program for it falls through its missing comparisons
  and accepts every unfragmented TCP frame long enough to have a destination port.
\<close>
theorem empty_pool_accepts_all_tcp:
  "bpf_run (filter_program (Ports [])) frame 0 0 0 =
     Some (if wanted (Ports (case behind_ip frame 16 of None \<Rightarrow> [] | Some port \<Rightarrow> [port])) frame
           then ACCEPT else 0)"
  unfolding wanted_def
  by (simp add: bpf_run_exec ports_program_def unat_offset widen_literal exec_tail fragment_bits
      header_offset drop_Cons' F_ETHERTYPE_IPV4_def F_PROTO_TCP_def FRAGMENT_OFFSET_MASK_def
      segment_consts first_fragment_def behind_ip_def split: option.split)

end
