(* ===== verification/Runs.thy ===== *)
theory Runs
  imports Reach Bpf
begin

text \<open>
  Runs of a whole tunnel, and the invariants of every run: the carrier has the configured shape, the
  ports in use stay in the pool the capture filter was built for, and nothing reaches the device whose
  source the peer may not use.  Each is an interpretation of \<open>tunnel_invariant\<close>.
\<close>

section \<open>Runs\<close>

text \<open>The threads of the tunnel, interleaved: a batch from the wire, a round of the timer, a packet from
  the device, a packet of a burst sealed and sent on, and the goodbye.\<close>

inductive tunnel_run for C N S where
  Start: "tunnel_run C N S t t"
| Batch: "tunnel_run C N S t u \<Longrightarrow> tunnel_run C N S t (receive_batch C N S E frames u)"
| Timer: "tunnel_run C N S t u \<Longrightarrow> tunnel_run C N S t (timer_round C N S E u)"
| Outbound: "tunnel_run C N S t u \<Longrightarrow> tunnel_run C N S t (snd (send_inner C N S E packet sealed frame u))"
| Burst: "tunnel_run C N S t u \<Longrightarrow>
    tunnel_run C N S t (snd (transmit E out dst (snd (seal_into C N S E packet sealed frame push rec u))))"
| Goodbye: "tunnel_run C N S t u \<Longrightarrow> tunnel_run C N S t (say_goodbye C N S E u)"

context tunnel_invariant
begin

lemma run_ok: "tunnel_run C N S t u \<Longrightarrow> ok t \<Longrightarrow> ok u"
  by (induction rule: tunnel_run.induct) simp_all

end

section \<open>The shape of the carrier\<close>

definition shaped :: "settings \<Rightarrow> wire \<Rightarrow> bool" where
  "shaped S w =
     (case (tc_shape (se_outer S), w) of
        (ShapeTcp mode, WTcp e) \<Rightarrow>
          e_carrier e = mode \<and> e_profile e = tc_profile (se_outer S)
          \<and> e_records e = tc_spoof_records (se_outer S) \<and> e_dont_fragment e = tc_fragment_never (se_outer S)
      | (ShapeRaw sh, WRaw c) \<Rightarrow>
          rw_shell c = sh \<and> rw_profile c = tc_profile (se_outer S)
          \<and> rw_dont_fragment c = tc_fragment_never (se_outer S)
      | _ \<Rightarrow> False)"

lemma shaped_identity: "wire_identity w' = wire_identity w \<Longrightarrow> shaped S w \<Longrightarrow> shaped S w'"
  by (cases w; cases w') (auto simp: shaped_def ep_identity_def raw_identity_def split: shape.splits)

lemma shaped_made: "shaped S (make_wire (se_outer S) role l peer numbers)"
  by (simp add: shaped_def make_wire_def endpoint_new_def raw_new_def Let_def split: shape.split)

interpretation shape: tunnel_invariant S "shaped S" "\<lambda>_. True" "\<lambda>_ _. True" for S
  by unfold_locales (auto simp: initiator_carrier_def shaped_made intro: shaped_identity)

section \<open>The pool of ports\<close>

definition pooled :: "settings \<Rightarrow> wire \<Rightarrow> bool" where
  "pooled S w \<longleftrightarrow> \<not> se_initiator S \<or>
     (case w of WTcp e \<Rightarrow> snd (e_local e) \<in> set (se_ports S) | WRaw c \<Rightarrow> True)"

definition pooled_local :: "settings \<Rightarrow> sock \<Rightarrow> bool" where
  "pooled_local S l \<longleftrightarrow> \<not> se_initiator S \<or> snd l \<in> set (se_ports S)"

lemma next_port_pool: "p \<in> set ports \<Longrightarrow> next_port ports p \<in> set ports"
  by (auto simp: next_port_def get_def split: option.split)

interpretation pool: tunnel_invariant S "pooled S" "pooled_local S" "\<lambda>_ _. True" for S
proof unfold_locales
  show "wire_identity w' = wire_identity w \<Longrightarrow> pooled S w \<Longrightarrow> pooled S w'" for w w'
    by (cases w; cases w') (auto simp: pooled_def ep_identity_def)
  show "pooled_local S l \<Longrightarrow> pooled S (initiator_carrier C (se_outer S) l peer epoch)" for l C peer epoch
    by (auto simp: pooled_def pooled_local_def initiator_carrier_def make_wire_def endpoint_new_def Let_def split: shape.split)
qed (auto simp: pooled_def pooled_local_def next_port_pool)

section \<open>What reaches the device\<close>

text \<open>Every write starts a packet whose source passed the checks; a frame that is split passes that source
  on to each of its segments.\<close>

fun routed :: "settings \<Rightarrow> device_write \<Rightarrow> bool" where
  "routed S (WriteOne packet) = acceptable S packet"
| "routed S (WriteHeld hdr frame) = acceptable S frame"

definition held_back :: "settings \<Rightarrow> coalescer option \<Rightarrow> bool" where
  "held_back S c =
     (case c of
        None \<Rightarrow> True
      | Some co \<Rightarrow>
          if co_pending co then acceptable S (co_frame co) \<and> (co_run co = None \<or> get (co_frame co) 0 = Some 0x45)
          else co_run co = None)"

lemma acceptable_cong:
  assumes "get f 0 = Some 0x45" and "get g 0 = Some 0x45" and "addr_at f 12 = addr_at g 12"
  shows "acceptable S f = acceptable S g"
proof -
  have "drop_bit 4 (0x45 :: u8) = 4"
    by simp
  then show ?thesis
    using assms by (simp add: acceptable_def inner_source_def)
qed

lemma get_overwrite:
  assumes "overwrite buf at bs = Some buf'" and "i < at \<or> at + length bs \<le> i"
  shows "get buf' i = get buf i"
  using assms by (auto simp: overwrite_def get_def nth_append split: if_splits)

lemma addr_at_overwrite:
  assumes "overwrite buf at bs = Some buf'" and "i + 4 \<le> at \<or> at + length bs \<le> i"
  shows "addr_at buf' i = addr_at buf i"
proof -
  have "get buf' (i + k) = get buf (i + k)" if "k < 4" for k
    using get_overwrite [OF assms(1), of "i + k"] assms(2) that by linarith
  from this [of 0] this [of 1] this [of 2] this [of 3] show ?thesis
    by (simp add: addr_at_def)
qed

lemma finish_source:
  assumes "gso_finish frame run = (Some hdr, frame')"
  shows "get frame' 0 = get frame 0 \<and> addr_at frame' 12 = addr_at frame 12"
proof -
  have "16 \<le> unat (csum_offset (gr_proto run)) + IPV4_LEN" "16 \<le> IPV4_LEN + 4"
    by (simp_all add: IPV4_LEN_def)
  then show ?thesis
    using assms
    by (auto simp: gso_finish_def get_overwrite addr_at_overwrite length_to_be_bytes
        split: option.splits if_splits)
qed

lemma take_held_source:
  assumes "held_back S (Some co)" and "take_held co = (r, co')"
  shows "held_back S (Some co') \<and> (case r of None \<Rightarrow> True | Some (hdr, frame) \<Rightarrow> acceptable S frame)"
proof (cases "co_pending co")
  case False
  then show ?thesis
    using assms by (auto simp: take_held_def)
next
  case pending: True
  have ok: "acceptable S (co_frame co)" "co_run co = None \<or> get (co_frame co) 0 = Some 0x45"
    using assms(1) pending by (simp_all add: held_back_def)
  show ?thesis
  proof (cases "\<exists>run hdr frame. co_run co = Some run \<and> gso_finish (co_frame co) run = (Some hdr, frame)")
    case True
    then obtain run hdr frame where f: "co_run co = Some run" "gso_finish (co_frame co) run = (Some hdr, frame)"
      by blast
    have "acceptable S frame"
      using ok f(1) finish_source [OF f(2)] acceptable_cong [of frame "co_frame co" S] by simp
    then show ?thesis
      using assms(2) pending ok f
      by (auto simp: take_held_def held_back_def Let_def split: if_splits)
  next
    case False
    then show ?thesis
      using assms(2) pending ok
      by (auto simp: take_held_def held_back_def Let_def split: if_splits option.splits prod.splits)
  qed
qed

lemma parsed_source:
  assumes "gso_parse packet = Some p"
  shows "get packet 0 = Some 0x45" "get (gp_ip p @ rest) 0 = Some 0x45"
    "addr_at (gp_ip p @ rest) 12 = addr_at packet 12"
  using assms
  by (auto simp: gso_parse_def get_range_def get_def addr_at_def IPV4_LEN_def nth_append bind_eq_Some_conv
      Let_def split: if_splits)

lemma addr_at_append: "addr_at f i = Some a \<Longrightarrow> addr_at (f @ g) i = Some a"
  by (auto simp: addr_at_def get_def nth_append bind_eq_Some_conv split: if_splits)

lemma hold_source:
  assumes h: "held_back S (Some co)" and a: "acceptable S packet" and j: "joins co packet \<or> \<not> co_pending co"
  shows "held_back S (Some (hold co packet))"
proof (cases "gso_parse packet")
  case None
  then show ?thesis
    using a by (simp add: hold_def held_back_def)
next
  case (Some p)
  show ?thesis
  proof (cases "co_run co")
    case None
    have "acceptable S (gp_ip p @ gp_l4 p @ gp_payload p)"
      using a parsed_source [OF Some] acceptable_cong [of packet "gp_ip p @ gp_l4 p @ gp_payload p" S] by simp
    then show ?thesis
      using None Some parsed_source(2) [OF Some] by (simp add: hold_def held_back_def)
  next
    case (Some run)
    then have f: "acceptable S (co_frame co)" "get (co_frame co) 0 = Some 0x45"
      using h by (auto simp: held_back_def split: if_splits)
    have "drop_bit 4 (0x45 :: u8) = 4"
      by simp
    then obtain src where "addr_at (co_frame co) 12 = Some src"
      using f by (auto simp: acceptable_def inner_source_def split: option.splits if_splits)
    then have "acceptable S (co_frame co @ gp_payload p)" "get (co_frame co @ gp_payload p) 0 = Some 0x45"
      using f addr_at_append acceptable_cong [of "co_frame co" "co_frame co @ gp_payload p" S]
      by (auto simp: get_def nth_append split: if_splits)
    then show ?thesis
      using Some \<open>gso_parse packet = Some p\<close> by (simp add: hold_def held_back_def)
  qed
qed

interpretation route: tunnel_invariant S "\<lambda>_. True" "\<lambda>_. True"
  "\<lambda>d c. list_all (routed S) d \<and> held_back S c" for S
proof unfold_locales
  fix d co hdr frame co'
  assume "list_all (routed S) d \<and> held_back S (Some co)" "take_held co = (Some (hdr, frame), co')"
  then show "(list_all (routed S) d \<and> held_back S (Some co')) \<and>
      (list_all (routed S) (d @ [WriteHeld hdr frame]) \<and> held_back S (Some co'))"
    using take_held_source [of S co "Some (hdr, frame)" co'] by simp
next
  fix d co co'
  assume "list_all (routed S) d \<and> held_back S (Some co)" "take_held co = (None, co')"
  then show "list_all (routed S) d \<and> held_back S (Some co')"
    using take_held_source [of S co None co'] by simp
qed (simp_all add: hold_source)

section \<open>Invariants of every run\<close>

text \<open>A tunnel as it starts: no carriers yet, nothing written, nothing held back.\<close>

definition starts :: "settings \<Rightarrow> ('hs, 'tr) tunnel \<Rightarrow> bool" where
  "starts S t \<longleftrightarrow> ps_carrier (tu_state t) = None \<and> ps_standby (tu_state t) = None \<and> tu_device t = [] \<and>
     (case tu_coalescer t of None \<Rightarrow> True | Some co \<Rightarrow> co = coalescer_default) \<and>
     (se_initiator S \<longrightarrow> snd (tu_local t) \<in> set (se_ports S))"

lemma starts_ok:
  assumes "starts S t"
  shows "shape.ok S t" "pool.ok S t" "route.ok S t"
proof -
  show "shape.ok S t" "pool.ok S t"
    using assms by (auto simp: starts_def shape.ok_def shape.carriers_def pool.ok_def pool.carriers_def pooled_local_def)
  have "held_back S (tu_coalescer t)"
    using assms by (auto simp: starts_def held_back_def coalescer_default_def split: option.splits)
  then show "route.ok S t"
    using assms unfolding route.ok_def route.carriers_def starts_def by (auto simp: pred_option_def)
qed

definition sample_settings :: "shape \<Rightarrow> bool \<Rightarrow> settings" where
  "sample_settings sh initiates =
     \<lparr>se_outer = sample_tunnel sh False initiates, se_mtu = 1400, se_spoof_sni = None,
      se_acknowledge = False, se_repeat = limits_off, se_keepalive = True, se_persistent_keepalive = None,
      se_rotation = rotation_default, se_ports = [4000, 4001], se_address6 = False,
      se_allowed_ips = [(Ipv4 10 7 0 0, 24)], se_allowed_ips6 = []\<rparr>"

definition sample_start :: "(toy_hs, nat) tunnel" where
  "sample_start =
     \<lparr>tu_state = peer_new (Some (Ipv4 10 0 0 2, 443)) limits_off, tu_local = (Ipv4 10 0 0 1, 4000),
      tu_answered = [], tu_cover_owed = 0, tu_coalescer = Some coalescer_default, tu_stats = (\<lambda>_. 0),
      tu_out = [], tu_device = []\<rparr>"

definition sample_env :: "Millis \<Rightarrow> environment" where
  "sample_env now =
     \<lparr>en_now = now, en_period = 0, en_index = Some 1, en_epoch = Some 2, en_syn_epoch = Some 3,
      en_pad = None, en_rekey = None, en_retry = None, en_rotate = None, en_first_rotate = None,
      en_secrets = None, en_tx = (\<lambda>_ _. True), en_device = (\<lambda>_. Written)\<rparr>"

lemma sample_starts: "starts (sample_settings sh b) sample_start"
  by (simp add: starts_def sample_settings_def sample_start_def peer_new_def)

text \<open>C8. In every run of a tunnel, whatever arrives and however its threads interleave, the carrier and the
  connection opened ahead of a move have the shape, the profile, the record framing and the
  fragmentation rule that were configured: no peer, forged or real, can make this end speak another
  shape on the wire.\<close>
theorem carrier_keeps_its_shape:
  assumes "tunnel_run C N S t u" and "starts S t"
  shows "pred_option (shaped S) (ps_carrier (tu_state u)) \<and> pred_option (shaped S) (ps_standby (tu_state u))"
  using shape.okD [OF shape.run_ok [OF assms(1) starts_ok(1) [OF assms(2)]]] by simp

theorem carrier_keeps_its_shape_witness:
  "pred_option (shaped (sample_settings (ShapeRaw Gre) True))
     (ps_carrier (tu_state (timer_round toy_crypto toy_snow (sample_settings (ShapeRaw Gre) True) (sample_env 9) sample_start))) \<and>
   pred_option (shaped (sample_settings (ShapeRaw Gre) True))
     (ps_standby (tu_state (timer_round toy_crypto toy_snow (sample_settings (ShapeRaw Gre) True) (sample_env 9) sample_start)))"
  by (rule carrier_keeps_its_shape [OF tunnel_run.Timer [OF tunnel_run.Start] sample_starts])

text \<open>C2. Cryptokey routing, for the whole of a run: every packet and every frame written to the device has
  a source the peer's allowed addresses cover and that no rule forbids outright (loopback, multicast,
  link-local, broadcast, unspecified), whether it arrived as a packet or inside a repeat, and whether
  it was written alone or joined into a run.\<close>
theorem device_sees_permitted_sources:
  assumes "tunnel_run C N S t u" and "starts S t"
  shows "list_all (routed S) (tu_device u)"
  using route.okD [OF route.run_ok [OF assms(1) starts_ok(3) [OF assms(2)]]] by simp

theorem device_sees_permitted_sources_witness:
  "list_all (routed (sample_settings (ShapeRaw Gre) False))
     (tu_device (receive_batch toy_crypto toy_snow (sample_settings (ShapeRaw Gre) False) (sample_env 9)
        [(sample_env 9, [69, 0]), (sample_env 10, [])] sample_start))"
  by (rule device_sees_permitted_sources [OF tunnel_run.Batch [OF tunnel_run.Start] sample_starts])

text \<open>C9. Moving stays inside the filter.  In every run of an initiating tunnel whose pool is not too large
  for a filter, a frame addressed to the port its carrier or its standby is bound to passes the capture
  filter built from the pool at the start, provided the segment parser reads it: rotation never moves
  the tunnel to a port on which it would be deaf.\<close>
theorem rotation_stays_in_filter:
  assumes "tunnel_run C N S t u" and "starts S t" and "se_initiator S"
    and "tc_shape (se_outer S) = ShapeTcp mode" and "length (se_ports S) \<le> MAX_PORTS"
    and "ps_carrier (tu_state u) = Some (WTcp e) \<or> ps_standby (tu_state u) = Some (WTcp e)"
    and "segment_parse_ethernet frame = Some seg" and "snd (g_dst seg) = snd (e_local e)"
  shows "bpf_run (filter_program (matching (tc_shape (se_outer S)) (se_ports S))) frame 0 0 0 = Some ACCEPT"
proof -
  have "pooled S (WTcp e)"
    using pool.okD [OF pool.run_ok [OF assms(1) starts_ok(2) [OF assms(2)]]] assms(6) by auto
  then have port: "snd (g_dst seg) \<in> set (se_ports S)"
    using assms(3,8) by (simp add: pooled_def)
  then have "match_ok (Ports (se_ports S))"
    using assms(5) by (cases "se_ports S") simp_all
  then show ?thesis
    using filter_run [of "Ports (se_ports S)" frame] segment_frame_wanted [OF assms(7) port] assms(4) by simp
qed

definition deaf_snow :: "(toy_hs, nat) snow" where
  "deaf_snow = toy_snow\<lparr>build_initiator := (\<lambda>_ _. None)\<rparr>"

abbreviation sample_tcp :: settings where
  "sample_tcp \<equiv> sample_settings (ShapeTcp Midstream) True"

definition sample_wire :: "crypto \<Rightarrow> wire" where
  "sample_wire C = initiator_carrier C (se_outer sample_tcp) (Ipv4 10 0 0 1, 4000) (Ipv4 10 0 0 2, 443) 2"

lemma sample_wire_tcp:
  obtains e where "sample_wire C = WTcp e" "\<not> wants_opening e" "is_ready e" "e_local e = (Ipv4 10 0 0 1, 4000)"
  by (simp add: sample_wire_def initiator_carrier_def make_wire_def sample_settings_def sample_tunnel_def
      endpoint_new_def wants_opening_def is_ready_def is_established_def Let_def)

lemma sample_wants: "wants_handshake (peer_new p l) now" "retire_expired (peer_new p l) now = peer_new p l"
  "\<not> revive (peer_new p l) now"
  by (simp_all add: peer_new_def wants_handshake_def retire_expired_def exhausted_def elapsed_def revive_def)

lemma sample_handshake:
  "snd (maybe_handshake C deaf_snow sample_tcp (sample_env 9) frame sample_start) =
     set_state (replace_carrier (tu_state sample_start) (sample_wire C)) sample_start"
proof -
  obtain e where e: "sample_wire C = WTcp e" "\<not> wants_opening e" "is_ready e"
    by (rule sample_wire_tcp)
  have k: "knock C sample_tcp (sample_env 9) out
      (set_state (replace_carrier (tu_state sample_start) (sample_wire C)) sample_start) =
      (Inr False, set_state (replace_carrier (tu_state sample_start) (sample_wire C)) sample_start)" for out
    using e by (simp add: knock_def replace_carrier_def Let_def)
  have "tu_state sample_start = peer_new (Some (Ipv4 10 0 0 2, 443)) limits_off"
    "ps_endpoint (tu_state sample_start) = Some (Ipv4 10 0 0 2, 443)" "ps_carrier (tu_state sample_start) = None"
    "tu_local sample_start = (Ipv4 10 0 0 1, 4000)" "en_epoch (sample_env 9) = Some 2"
    "en_index (sample_env 9) = Some 1" "se_spoof_sni sample_tcp = None"
    by (simp_all add: sample_start_def peer_new_def sample_env_def sample_settings_def)
  then show ?thesis
    using k e
    by (simp add: maybe_handshake_def Let_def sample_wants sample_wire_def send_cover_def start_handshake_def
        initiator_start_def deaf_snow_def replace_carrier_def)
qed

lemma sample_rest:
  assumes t_def: "t = set_state (replace_carrier (tu_state sample_start) (sample_wire C)) sample_start"
  shows "maybe_rotate C deaf_snow sample_tcp (sample_env 9) sealed frame t = t"
    "snd (maybe_open C sample_tcp (sample_env 9) frame t) = t"
    "snd (maybe_keepalive C deaf_snow sample_tcp (sample_env 9) sealed frame t) = t"
proof -
  obtain e where e: "sample_wire C = WTcp e" "\<not> wants_opening e" "is_ready e"
    by (rule sample_wire_tcp)
  have f: "ps_session (tu_state t) = None" "ps_carrier (tu_state t) = Some (WTcp e)" "ps_unanswered (tu_state t) = 0"
    using e(1) by (simp_all add: t_def sample_start_def replace_carrier_def peer_new_def)
  have "move_due (tu_state t) now rotation_default rnd = (None, tu_state t)" for now rnd
    using f by (simp add: move_due_def stuck_def rotation_default_def ROTATE_AFTER_UNANSWERED_def)
  moreover have "se_rotation sample_tcp = rotation_default" "tunnel_opening (se_outer sample_tcp) = Some Midstream"
    by (simp_all add: sample_settings_def tunnel_opening_def sample_tunnel_def)
  ultimately show "maybe_rotate C deaf_snow sample_tcp (sample_env 9) sealed frame t = t"
    by (simp add: maybe_rotate_def Let_def)
  show "snd (maybe_open C sample_tcp (sample_env 9) frame t) = t"
    using f(2) e(2) by (simp add: maybe_open_def knock_def Let_def split: prod.split sum.split)
  show "snd (maybe_keepalive C deaf_snow sample_tcp (sample_env 9) sealed frame t) = t"
    using f(1) by (simp add: maybe_keepalive_def)
qed

lemma sample_round:
  "ps_carrier (tu_state (timer_round C deaf_snow sample_tcp (sample_env 9) sample_start)) = Some (sample_wire C)"
proof -
  have "se_initiator sample_tcp"
    by (simp add: sample_settings_def sample_tunnel_def)
  then show ?thesis
    by (simp add: timer_round_def Let_def sample_handshake sample_rest [OF refl])
      (simp add: replace_carrier_def)
qed

definition sample_reply :: bytes where
  "sample_reply = replicate 12 0 @ [8, 0] @
     [0x45, 0, 0, 40, 0, 0, 0x40, 0, 64, 6, 0, 0, 10, 0, 0, 2, 10, 0, 0, 1] @
     [1, 187, 0x0F, 0xA0, 0, 0, 0, 1, 0, 0, 0, 1, 0x50, 0x10, 1, 0, 0, 0, 0, 0]"

lemma sample_reply_read:
  "map_option (\<lambda>s. snd (g_dst s)) (segment_parse_ethernet sample_reply) = Some 4000"
  by code_simp

theorem rotation_stays_in_filter_witness:
  "bpf_run (filter_program (matching (tc_shape (se_outer sample_tcp)) (se_ports sample_tcp))) sample_reply 0 0 0
     = Some ACCEPT"
proof -
  obtain e where e: "sample_wire toy_crypto = WTcp e" "e_local e = (Ipv4 10 0 0 1, 4000)"
    by (rule sample_wire_tcp)
  obtain seg where seg: "segment_parse_ethernet sample_reply = Some seg" "snd (g_dst seg) = 4000"
    using sample_reply_read by auto
  have "ps_carrier (tu_state (timer_round toy_crypto deaf_snow sample_tcp (sample_env 9) sample_start)) = Some (WTcp e)"
    by (simp only: sample_round e(1))
  moreover have "snd (g_dst seg) = snd (e_local e)"
    by (simp only: e(2) seg(2) snd_conv)
  moreover have "tunnel_run toy_crypto deaf_snow sample_tcp sample_start
      (timer_round toy_crypto deaf_snow sample_tcp (sample_env 9) sample_start)"
    by (rule tunnel_run.Timer [OF tunnel_run.Start])
  ultimately show ?thesis
    using rotation_stays_in_filter [of toy_crypto deaf_snow sample_tcp sample_start _ Midstream e sample_reply seg]
      sample_starts seg(1)
    by (simp add: sample_settings_def sample_tunnel_def MAX_PORTS_def)
qed

end
