(* ===== verification/Outbound.thy ===== *)
theory Outbound
  imports Timers
begin

text \<open>
  Packets from the device (\<open>paqetz/src/tunnel.rs\<close>): the unbatched loop body, and the batched one, which
  drains what is queued, plans the record headers of the burst, seals every packet and offers the frames
  to the kernel together, correcting the counters by what it did not take.
\<close>

section \<open>Reading a burst\<close>

definition BATCH :: nat where "BATCH = 32"

datatype device_read = ReadPacket bytes | ReadNothing | ReadFailed

text \<open>The reads that follow the first: until the burst is full or nothing more is queued.\<close>

fun drain :: "nat \<Rightarrow> device_read list \<Rightarrow> bytes list" where
  "drain 0 reads = []"
| "drain (Suc room) [] = []"
| "drain (Suc room) (r # reads) =
     (case r of
        ReadPacket packet \<Rightarrow> if packet \<noteq> [] then packet # drain room reads else []
      | _ \<Rightarrow> [])"

definition note_outbound :: "('hs, 'tr) tunnel \<Rightarrow> ('hs, 'tr) tunnel" where
  "note_outbound t = bump TxDropped t"

definition stats_sub :: "counter \<Rightarrow> u64 \<Rightarrow> stats \<Rightarrow> stats" where
  "stats_sub c n st = st(c := saturating_sub (st c) n)"

text \<open>One packet per system call.\<close>

definition send_simple ::
  "crypto \<Rightarrow> ('hs, 'tr) snow \<Rightarrow> settings \<Rightarrow> environment \<Rightarrow> bytes \<Rightarrow> ('hs, 'tr) tunnel \<Rightarrow> ('hs, 'tr) tunnel" where
  "send_simple C N S E packet t =
     (case send_inner C N S E packet (replicate (MAX_INNER + OVERHEAD) 0) (replicate MAX_TIMER_FRAME 0) t of
        (Inl e, t') \<Rightarrow> note_outbound t'
      | (Inr _, t') \<Rightarrow> t')"

section \<open>Records of a burst\<close>

text \<open>How many packets one record takes and what they come to, given how many it holds already.\<close>

fun record_span :: "nat \<Rightarrow> nat \<Rightarrow> nat list \<Rightarrow> nat \<times> nat" where
  "record_span taken span [] = (taken, span)"
| "record_span taken span (l # ls) =
     (let n = l + OVERHEAD in
      if taken > 0 \<and> span + n > MAX_SPAN then (taken, span) else record_span (Suc taken) (span + n) ls)"

text \<open>For each packet the length of the record it opens, if it opens one.\<close>

function record_opens :: "nat list \<Rightarrow> nat option list" where
  "record_opens [] = []"
| "record_opens (l # ls) =
     (let (taken, span) = record_span 0 0 (l # ls); k = max taken 1
      in Some span # replicate (k - 1) None @ record_opens (drop k (l # ls)))"
  by pat_completeness auto

termination
  by (relation "measure length") auto

section \<open>Sealing and sending a burst\<close>

text \<open>The frames that were sealed: the bytes to send, the length of the packet inside, the destination.\<close>

type_synonym sealed_frame = "bytes option \<times> nat \<times> ipv4"

fun seal_burst ::
  "crypto \<Rightarrow> ('hs, 'tr) snow \<Rightarrow> settings \<Rightarrow> environment \<Rightarrow> (bytes \<times> nat option) list
     \<Rightarrow> ('hs, 'tr) tunnel \<Rightarrow> sealed_frame list \<times> ('hs, 'tr) tunnel" where
  "seal_burst C N S E [] t = ([], t)"
| "seal_burst C N S E ((packet, rec) # rest) t =
     (case seal_into C N S E packet (replicate (MAX_INNER + OVERHEAD) 0) (replicate MAX_TIMER_FRAME 0)
             (rest = []) rec t of
        (Inr (Some ((written, frame), dst)), t') \<Rightarrow>
          (let (ready, t'') = seal_burst C N S E rest t'
           in ((get_range frame 0 written, length packet, dst) # ready, t''))
      | (Inr None, t') \<Rightarrow> seal_burst C N S E rest t'
      | (Inl e, t') \<Rightarrow> seal_burst C N S E rest (note_outbound t'))"

text \<open>\<open>outcome\<close> is what the kernel says of the batch: how many of the frames it took, or an error.\<close>

definition send_burst ::
  "nat option \<Rightarrow> sealed_frame list \<Rightarrow> ('hs, 'tr) tunnel \<Rightarrow> ('hs, 'tr) tunnel" where
  "send_burst outcome ready t =
     (if ready = [] then t
      else
        let packets = List.map_filter fst ready;
            dsts = map (snd \<circ> snd) ready;
            offered = length packets in
        case outcome of
          None \<Rightarrow> note_outbound t
        | Some n \<Rightarrow>
            (let t1 = t\<lparr>tu_out := tu_out t @ zip (take n packets) dsts\<rparr> in
             if n < offered
             then
               let lost = of_nat (offered - n);
                   unsent = sum_list (map (\<lambda>r. of_nat (fst (snd r))) (drop n (take offered ready)))
               in tu_stats_update
                    (\<lambda>st. stats_sub TxBytes unsent (stats_sub TxPackets lost (stats_add TxDropped lost st))) t1
             else t1))"

definition tun_burst ::
  "crypto \<Rightarrow> ('hs, 'tr) snow \<Rightarrow> settings \<Rightarrow> environment \<Rightarrow> bytes list \<Rightarrow> nat option
     \<Rightarrow> ('hs, 'tr) tunnel \<Rightarrow> ('hs, 'tr) tunnel" where
  "tun_burst C N S E packets outcome t =
     (let (ready, t1) = seal_burst C N S E (zip packets (record_opens (map length packets))) t
      in send_burst outcome ready t1)"

section \<open>The plan of a burst\<close>

abbreviation sealed_total :: "nat list \<Rightarrow> nat" where
  "sealed_total ls \<equiv> sum_list (map (\<lambda>l. l + OVERHEAD) ls)"

lemma record_span_takes:
  "\<exists>j \<le> length ls. record_span k s ls = (k + j, s + sealed_total (take j ls)) \<and>
     ((if k = 0 then 2 else 1) \<le> j \<longrightarrow> s + sealed_total (take j ls) \<le> MAX_SPAN) \<and>
     (j < length ls \<longrightarrow> s + sealed_total (take j ls) + (ls ! j + OVERHEAD) > MAX_SPAN) \<and>
     (k = 0 \<and> ls \<noteq> [] \<longrightarrow> 1 \<le> j)"
proof (induction k s ls rule: record_span.induct)
  case (2 k s l ls)
  show ?case
  proof (cases "k > 0 \<and> s + (l + OVERHEAD) > MAX_SPAN")
    case True
    then show ?thesis by (intro exI [of _ 0]) (simp add: Let_def)
  next
    case False
    then obtain j where j: "j \<le> length ls"
        "record_span (Suc k) (s + (l + OVERHEAD)) ls = (Suc k + j, s + (l + OVERHEAD) + sealed_total (take j ls))"
        "1 \<le> j \<longrightarrow> s + (l + OVERHEAD) + sealed_total (take j ls) \<le> MAX_SPAN"
        "j < length ls \<longrightarrow> s + (l + OVERHEAD) + sealed_total (take j ls) + (ls ! j + OVERHEAD) > MAX_SPAN"
      using 2 [OF refl] by auto
    then show ?thesis
      using False by (intro exI [of _ "Suc j"]) (auto simp: Let_def not_less_eq_eq)
  qed
qed simp

definition announced :: "nat list \<Rightarrow> nat option list" where
  "announced g = Some (sealed_total g) # replicate (length g - 1) None"

text \<open>C31. The plan of the record headers of a burst.  The burst is cut into runs: the first packet of each run
  announces exactly what the packets of the run come to once sealed, no other packet of it opens a
  record, a run of more than one packet fits one record, and a run ends only where the next packet would
  not have fitted.\<close>
theorem record_plan:
  "\<exists>groups. concat groups = lens \<and> record_opens lens = concat (map announced groups) \<and>
     list_all (\<lambda>g. g \<noteq> [] \<and> (length g = 1 \<or> sealed_total g \<le> MAX_SPAN)) groups \<and>
     list_all2 (\<lambda>g h. sealed_total g + sealed_total (take 1 h) > MAX_SPAN) (butlast groups) (tl groups)"
proof (induction lens rule: record_opens.induct)
  case (2 l ls)
  obtain j where j: "j \<le> length (l # ls)" "record_span 0 0 (l # ls) = (j, sealed_total (take j (l # ls)))"
      "2 \<le> j \<longrightarrow> sealed_total (take j (l # ls)) \<le> MAX_SPAN" "1 \<le> j"
      "j < length (l # ls) \<longrightarrow> sealed_total (take j (l # ls)) + ((l # ls) ! j + OVERHEAD) > MAX_SPAN"
    using record_span_takes [of "l # ls" 0 0] by auto
  let ?g = "take j (l # ls)" and ?rest = "drop j (l # ls)"
  obtain groups where gs: "concat groups = ?rest" "record_opens ?rest = concat (map announced groups)"
      "list_all (\<lambda>g. g \<noteq> [] \<and> (length g = 1 \<or> sealed_total g \<le> MAX_SPAN)) groups"
      "list_all2 (\<lambda>g h. sealed_total g + sealed_total (take 1 h) > MAX_SPAN) (butlast groups) (tl groups)"
    using 2 [OF j(2) [symmetric] refl] j(4) by (auto simp: max_def)
  have g: "length ?g = j" "?g \<noteq> []"
    using j(1,4) by auto
  have next_opens: "sealed_total ?g + sealed_total (take 1 h) > MAX_SPAN" if "groups = h # hs" for h hs
  proof -
    have h: "h \<noteq> []"
      using that gs(3) by simp
    then have "drop j (l # ls) \<noteq> []"
      using that gs(1) by auto
    then have "j < length (l # ls)"
      by (simp add: not_less [symmetric])
    note h = h this
    then have "hd h = (l # ls) ! j"
      using gs(1) that by (metis append_is_Nil_conv concat.simps(2) hd_append2 hd_drop_conv_nth)
    then show ?thesis
      using h j(5) by (cases h) auto
  qed
  have "record_opens (l # ls) = announced ?g @ record_opens ?rest"
    using j(2,4) g(1) by (simp add: announced_def max_def del: drop_Suc_Cons take_Suc_Cons)
  moreover have "list_all2 (\<lambda>g h. sealed_total g + sealed_total (take 1 h) > MAX_SPAN) (butlast (?g # groups)) groups"
    using gs(4) next_opens by (cases groups) auto
  ultimately show ?case
    using gs g j(3,4) append_take_drop_id [of j "l # ls"] by (intro exI [of _ "?g # groups"]) auto
qed (rule exI [of _ "[]"], simp)

section \<open>Accounting\<close>

lemma cover_stats [simp]: "tu_stats (send_cover S E t) = tu_stats t"
proof -
  have "tu_stats (snd (send_flight fuel E chunk dst rest w u)) = tu_stats u"
    for fuel chunk dst rest w and u :: "('a, 'b) tunnel"
    by (induction fuel arbitrary: rest w u)
      (simp_all add: Let_def transmit_def case_prod_beta split: sum.split option.split)
  then show ?thesis
    by (simp add: send_cover_def Let_def case_prod_beta split: option.split)
qed

lemma stats_other [simp]:
  "stats_bump c st d = (if d = c then st c + 1 else st d)"
  "stats_add c n st d = (if d = c then st c + n else st d)"
  "stats_sub c n st d = (if d = c then saturating_sub (st c) n else st d)"
  by (simp_all add: stats_bump_def stats_add_def stats_sub_def)

lemma wire_data_written:
  assumes "wire_data w payload out now push rec = (Inr (n, buf), w')"
  shows "n \<le> length buf"
proof (cases w)
  case (WTcp e)
  then show ?thesis
    using assms data_on_wire_bytes(4) by (cases "data e payload out now push rec") auto
next
  case (WRaw c)
  then show ?thesis
    using assms by (auto simp: raw_data_eq Let_def split: if_splits)
qed

definition counted :: "bytes \<Rightarrow> stats \<Rightarrow> stats \<Rightarrow> (tunnel_error + ((nat \<times> bytes) \<times> ipv4) option) \<Rightarrow> bool" where
  "counted packet before after r =
     (case r of
        Inr (Some ((n, buf), dst)) \<Rightarrow>
          n \<le> length buf \<and> after TxPackets = before TxPackets + 1
          \<and> after TxBytes = before TxBytes + of_nat (length packet)
      | _ \<Rightarrow> after TxPackets = before TxPackets \<and> after TxBytes = before TxBytes)"

lemma seal_under_counted:
  assumes "seal_under C N S E packet sealed frame push rec s t = (r, t')"
  shows "counted packet (tu_stats t) (tu_stats t') r"
  using assms
  by (auto simp: seal_under_def counted_def Let_def split: sum.splits prod.splits option.splits dest: wire_data_written)

lemma seal_into_counted:
  assumes "seal_into C N S E packet sealed frame push rec t = (r, t')"
  shows "counted packet (tu_stats t) (tu_stats t') r"
proof -
  define st1 where "st1 = (if (case ps_session (tu_state t) of None \<Rightarrow> True | Some s \<Rightarrow> is_expired s (en_now E))
    then confirm (tu_state t) else tu_state t)"
  define t2 where "t2 = send_cover S E (set_state st1 t)"
  have kept: "tu_stats t2 = tu_stats t"
    by (simp add: t2_def)
  have "counted packet (tu_stats t) (tu_stats u) r" if "seal_under C N S E packet sealed frame push rec s t2 = (r, u)" for s r u
    using seal_under_counted [OF that] by (simp only: kept)
  moreover have "counted packet st st' (Inr None)" if "st' TxPackets = st TxPackets" "st' TxBytes = st TxBytes" for st st'
    using that by (simp add: counted_def)
  ultimately show ?thesis
    using assms kept unfolding seal_into_def Let_def st1_def [symmetric] t2_def [symmetric]
    by (auto split: if_splits option.splits)
qed

lemma seal_burst_counted:
  assumes "seal_burst C N S E packets t = (ready, t')"
  shows "tu_stats t' TxPackets = tu_stats t TxPackets + of_nat (length ready) \<and>
    tu_stats t' TxBytes = tu_stats t TxBytes + of_nat (sum_list (map (fst \<circ> snd) ready)) \<and>
    list_all (\<lambda>r. fst r \<noteq> None) ready"
  using assms
proof (induction packets arbitrary: t ready t')
  case (Cons p rest)
  obtain packet rec where p: "p = (packet, rec)"
    by fastforce
  obtain r t1 where r: "seal_into C N S E packet (replicate (MAX_INNER + OVERHEAD) 0) (replicate MAX_TIMER_FRAME 0)
      (rest = []) rec t = (r, t1)"
    by fastforce
  note c = seal_into_counted [OF r]
  consider (err) e where "r = Inl e" | (none) "r = Inr None"
    | (frame) n buf dst where "r = Inr (Some ((n, buf), dst))"
    by (metis not_None_eq prod.exhaust sumE)
  then show ?case
  proof cases
    case err
    then show ?thesis
      using Cons.prems Cons.IH [of "note_outbound t1" ready t'] c r by (simp add: p counted_def note_outbound_def)
  next
    case none
    then show ?thesis
      using Cons.prems Cons.IH [of t1 ready t'] c r by (simp add: p counted_def)
  next
    case frame
    obtain ready' t2 where b: "seal_burst C N S E rest t1 = (ready', t2)"
      by fastforce
    then show ?thesis
      using Cons.prems frame c r Cons.IH [OF b]
      by (auto simp: p counted_def get_range_def algebra_simps)
  qed
qed simp

lemma saturating_take_back:
  assumes "unat (a :: 'a::len word) + k < 2 ^ LENGTH('a)" and "m \<le> k"
  shows "saturating_sub (a + of_nat k) (of_nat m) = a + of_nat (k - m)"
proof -
  have "unat (of_nat k :: 'a word) = k" "unat (of_nat m :: 'a word) = m"
    using assms by (simp_all add: unsigned_of_nat take_bit_eq_mod)
  then have "unat (a + of_nat k) = unat a + k"
    using assms(1) unat_add_lem [of a "of_nat k"] by simp
  then have "of_nat m \<le> a + of_nat k"
    using \<open>unat (of_nat m :: 'a word) = m\<close> assms(2) by (simp add: word_le_nat_alt)
  from leD [OF this] show ?thesis
    using assms(2) by (simp add: saturating_sub_def of_nat_diff)
qed

lemma map_filter_total: "list_all (\<lambda>r. fst r \<noteq> None) rs \<Longrightarrow> List.map_filter fst rs = map (the \<circ> fst) rs"
  by (induction rs) (auto simp: map_filter_def)

abbreviation frames_of :: "sealed_frame list \<Rightarrow> (bytes \<times> ipv4) list" where
  "frames_of \<equiv> map (\<lambda>r. (the (fst r), snd (snd r)))"

abbreviation inner_total :: "sealed_frame list \<Rightarrow> nat" where
  "inner_total rs \<equiv> sum_list (map (fst \<circ> snd) rs)"

end
