(* ===== verification/Conversation.thy ===== *)
theory Conversation
  imports Endpoint
begin

text \<open>
  Whole conversations of one endpoint (\<open>paqetz-tcpwire/src/endpoint.rs\<close>): its operations as the steps
  of a state machine whose events are the segments sent and received, the invariants of every run,
  the chain of TLS record lengths an observer follows, the acknowledgements owed, and the window.
\<close>

section \<open>The observer of the record layer\<close>

text \<open>An observer walking the stream: with \<open>left\<close> bytes of the current record to come it skips them,
  and at a boundary it expects the header of an application-data record.  \<open>None\<close> is a broken chain.\<close>

function observe :: "nat \<Rightarrow> bytes \<Rightarrow> nat option" where
  "observe left bs =
     (if length bs \<le> left then Some (left - length bs)
      else case drop left bs of
          knd # major # minor # hi # lo # rest \<Rightarrow>
            if knd = APPLICATION_DATA \<and> major = 0x03 \<and> minor = 0x03
            then observe (unat (from_be_bytes [hi, lo] :: u16)) rest else None
        | _ \<Rightarrow> None)"
  by pat_completeness auto
termination
proof (relation "measure (\<lambda>(left, bs). length bs)", goal_cases)
  case 1
  then show ?case by simp
next
  case (2 left bs knd l1 major l2 minor l3 hi l4 lo rest)
  then have "length rest < length (drop left bs)" by simp
  then show ?case by simp
qed

declare observe.simps [simp del]

lemma observe_within: "length bs \<le> left \<Longrightarrow> observe left bs = Some (left - length bs)"
  by (simp add: observe.simps)

lemma observe_header:
  assumes "record_header n = Some h" and "length payload \<le> n"
  shows "observe 0 (h @ payload) = Some (n - length payload)"
proof -
  from assms(1) have n: "n < 65536" and h: "h = [APPLICATION_DATA, 0x03, 0x03] @ to_be_bytes 2 (of_nat n :: u16)"
    by (auto simp: record_header_def split: if_splits)
  have "observe 0 (h @ payload) = observe (unat (of_nat n :: u16)) payload"
    using n by (subst observe.simps) (simp add: h to_be_bytes_2)
  then show ?thesis using n assms(2) by (simp add: observe_within)
qed

section \<open>Runs\<close>

text \<open>What a run shows from outside: a segment that went out, one that was folded in, one that was
  taken up after a stateless answer, or nothing.\<close>

datatype event = Sent segment | Received segment | Rejoined segment | Quiet

fun sent_event :: "segment option \<Rightarrow> event" where
  "sent_event None = Quiet"
| "sent_event (Some seg) = Sent seg"

definition open_event :: "wire_error + (nat \<times> bytes) option \<Rightarrow> event" where
  "open_event r = (case r of Inr (Some v) \<Rightarrow> sent_event (on_wire (Inr v)) | _ \<Rightarrow> Quiet)"

text \<open>One call on an endpoint, whatever its outcome.  \<open>answer\<close> is called by a responder whose
  peer opened with a fake handshake, and nowhere else.\<close>

inductive ep_step :: "endpoint \<Rightarrow> event \<Rightarrow> endpoint \<Rightarrow> bool" where
  Open: "handshake e out now = (r, e') \<Longrightarrow> ep_step e (open_event r) e'"
| Data: "data e payload out now push rec = (r, e') \<Longrightarrow> ep_step e (sent_event (on_wire r)) e'"
| Bare: "bare e payload out now push = (r, e') \<Longrightarrow> ep_step e (sent_event (on_wire r)) e'"
| Ack: "ack e out now = (r, e') \<Longrightarrow> ep_step e (sent_event (on_wire r)) e'"
| Close: "close e out now = (r, e') \<Longrightarrow> ep_step e (sent_event (on_wire r)) e'"
| Answer: "e_carrier e = FakeHandshake \<Longrightarrow> e_role e = Responder \<Longrightarrow> answer e a out now = (r, e') \<Longrightarrow>
    ep_step e (sent_event (on_wire r)) e'"
| Receive: "on_receive e seg = (d, e') \<Longrightarrow> ep_step e (Received seg) e'"
| Remote: "set_remote e remote = e' \<Longrightarrow> ep_step e Quiet e'"
| Number: "number_syn e now isn_for = e' \<Longrightarrow> ep_step e Quiet e'"
| Rejoin: "e_role e = Responder \<Longrightarrow> rejoin e seg clock = e' \<Longrightarrow> ep_step e (Rejoined seg) e'"

inductive ep_run :: "endpoint \<Rightarrow> event list \<Rightarrow> endpoint \<Rightarrow> bool" where
  Start: "ep_run e [] e"
| Step: "ep_run e tr e' \<Longrightarrow> ep_step e' ev e'' \<Longrightarrow> ep_run e (tr @ [ev]) e''"

inductive_cases ep_stepE: "ep_step e ev e'"

section \<open>What one step does\<close>

text \<open>The fields every step but a few leaves alone, as one tuple.\<close>

definition fixed_part :: "endpoint \<Rightarrow> role \<times> carrier_mode \<times> sequencing" where
  "fixed_part e = (e_role e, e_carrier e, e_sequencing e)"

definition open_part :: "endpoint \<Rightarrow> u32 option \<times> u32 \<times> phase" where
  "open_part e = (e_syn_seq e, e_local_isn e, e_phase e)"

lemma is_ready_parts:
  "fixed_part a = fixed_part b \<Longrightarrow> open_part a = open_part b \<Longrightarrow> is_ready a = is_ready b"
  by (simp add: fixed_part_def open_part_def is_ready_def is_established_def
      split: carrier_mode.split role.split)

text \<open>A segment that is not part of the opening: it changes neither part, and carries payload only
  when the endpoint is ready.\<close>

definition plain_send :: "endpoint \<Rightarrow> segment option \<Rightarrow> endpoint \<Rightarrow> bool" where
  "plain_send e seg e' \<longleftrightarrow> fixed_part e' = fixed_part e \<and> open_part e' = open_part e \<and>
     (case seg of None \<Rightarrow> True | Some g \<Rightarrow> \<not> has g SYN \<and> (g_payload g = [] \<or> is_ready e))"

lemma plain_emit:
  assumes "endpoint_emit_parts e k parts out now push = (r, e')" and "k \<in> {Ack, Data, Fin}"
    and "concat parts = [] \<or> is_ready e"
  shows "plain_send e (on_wire r) e'"
  using assms(1)
proof (cases rule: endpoint_emit_parts_cases)
  case (1 err)
  then show ?thesis by (simp add: plain_send_def)
next
  case (2 v)
  then show ?thesis using assms(2,3) by (auto simp: plain_send_def fixed_part_def open_part_def)
qed

lemma plain_send_cong:
  "plain_send e seg e' \<Longrightarrow> fixed_part e1 = fixed_part e \<Longrightarrow> open_part e1 = open_part e \<Longrightarrow>
     fixed_part e2 = fixed_part e' \<Longrightarrow> open_part e2 = open_part e' \<Longrightarrow> plain_send e1 seg e2"
  using is_ready_parts [of e1 e] by (auto simp: plain_send_def split: option.splits)

lemma count_sent_result:
  assumes "count_sent n (r0, e0) = (r, e')"
  shows "fixed_part e' = fixed_part e0" "open_part e' = open_part e0" "on_wire r = None \<or> r = r0"
  using assms by (auto simp: count_sent_def fixed_part_def open_part_def split: sum.splits if_splits)

lemma plain_send_None: "plain_send e seg e' \<Longrightarrow> plain_send e None e'"
  by (simp add: plain_send_def)

lemma plain_counted:
  assumes "count_sent n (endpoint_emit_parts e k parts out now push) = (r, e')"
    and "k \<in> {Ack, Data, Fin}" and "concat parts = [] \<or> is_ready e"
  shows "plain_send e (on_wire r) e'"
proof (cases "endpoint_emit_parts e k parts out now push")
  case (Pair r0 e0)
  note p = plain_emit [OF Pair assms(2,3)]
  note c = count_sent_result [OF assms(1) [unfolded Pair]]
  show ?thesis
    using c(3) plain_send_cong [OF p refl refl c(1,2)] plain_send_cong [OF plain_send_None [OF p] refl refl c(1,2)]
    by auto
qed

lemma plain_data:
  assumes "data e payload out now push rec = (r, e')"
  shows "plain_send e (on_wire r) e'"
proof (cases "is_ready e")
  case False
  then show ?thesis using assms by (auto simp: data_def plain_send_def)
next
  case True
  let ?e1 = "e\<lparr>e_record_left := record_after e (length payload) rec\<rparr>"
  have part: "fixed_part ?e1 = fixed_part e" "open_part ?e1 = open_part e"
    by (simp_all add: fixed_part_def open_part_def)
  then have ready: "is_ready ?e1" using True is_ready_parts by blast
  have sends: "plain_send e (on_wire r) e'"
    if "count_sent m (endpoint_emit_parts ?e1 Data parts out now push) = (r, e')" for m parts
    using plain_send_cong [OF plain_counted [OF that] part [symmetric] refl refl] ready by simp
  have "plain_send e None e" by (simp add: plain_send_def)
  then show ?thesis
    using assms data_unfold [OF True, of payload out now push rec] sends
    by (auto simp: Let_def split: if_splits option.splits)
qed

text \<open>Everything a step may do, by what it shows.\<close>

definition step_effect :: "endpoint \<Rightarrow> event \<Rightarrow> endpoint \<Rightarrow> bool" where
  "step_effect e ev e' \<longleftrightarrow> fixed_part e' = fixed_part e \<and>
     (case ev of
        Sent g \<Rightarrow>
          if has g SYN \<and> \<not> has g ACK
          then e_role e = Initiator \<and> opens (e_carrier e) \<and> g_payload g = [] \<and>
            e_syn_seq e' = Some (g_seq g) \<and> e_local_isn e' = e_local_isn e \<and>
            (if e_carrier e = Handshake
             then e_phase e \<in> {Idle, SynSent} \<and> e_phase e' = SynSent \<and> g_seq g = e_local_isn e
             else e_syn_seq e = None)
          else e_syn_seq e' = e_syn_seq e \<and> e_local_isn e' = e_local_isn e \<and>
            e_phase e' \<in> {e_phase e, Closed} \<and> (g_payload g = [] \<or> is_ready e) \<and>
            \<not> (has g SYN \<and> (e_role e = Initiator \<or> e_carrier e = Midstream))
      | Received g \<Rightarrow> e_syn_seq e' = e_syn_seq e \<and> e_local_isn e' = e_local_isn e
      | Rejoined g \<Rightarrow> e_role e = Responder
      | Quiet \<Rightarrow> e_syn_seq e' = e_syn_seq e \<and> e_phase e' = e_phase e \<and>
          (e_syn_seq e = None \<or> e_local_isn e' = e_local_isn e))"

lemma plain_effect: "plain_send e seg e' \<Longrightarrow> step_effect e (sent_event seg) e'"
  by (cases seg) (auto simp: plain_send_def step_effect_def open_part_def)

lemma quiet_effect:
  "fixed_part e' = fixed_part e \<Longrightarrow> open_part e' = open_part e \<Longrightarrow> step_effect e Quiet e'"
  by (auto simp: step_effect_def open_part_def)

lemma close_effect:
  assumes "close e out now = (r, e')"
  shows "step_effect e (sent_event (on_wire r)) e'"
proof (cases "emit_raw e Fin [] out now True")
  case (Pair r0 e0)
  show ?thesis
  proof (cases rule: endpoint_emit_parts_cases [OF Pair [unfolded emit_raw_def]])
    case (1 err)
    then have "r = Inl err" "e' = e" using assms Pair by (auto simp: close_def)
    then show ?thesis by (simp add: quiet_effect)
  next
    case (2 v)
    then show ?thesis
      using assms Pair by (auto simp: close_def step_effect_def fixed_part_def)
  qed
qed

lemma answer_effect:
  assumes "answer e a out now = (r, e')" and "e_carrier e = FakeHandshake" "e_role e = Responder"
  shows "step_effect e (sent_event (on_wire r)) e'"
proof -
  let ?f = "(endpoint_fields e SynAck now False)\<lparr>f_seq := next_seq e - 1, f_ack := a\<rparr>"
  show ?thesis
  proof (cases "emit_parts SynAck (e_profile e) ?f [[]] out")
    case (Inl err)
    then have "r = Inl err" "e' = e" using assms by (auto simp: answer_def emit_def)
    then show ?thesis by (simp add: quiet_effect)
  next
    case (Inr v)
    then show ?thesis
      using assms emit_parts_on_wire [OF Inr]
      by (auto simp: answer_def emit_def step_effect_def fixed_part_def)
  qed
qed

lemma syn_effect:
  assumes "syn e sq out now = (r, e0)"
  shows "(\<exists>err. r = Inl err \<and> fixed_part e0 = fixed_part e \<and> open_part e0 = open_part e) \<or>
    (\<exists>v g. r = Inr v \<and> on_wire r = Some g \<and> has g SYN \<and> \<not> has g ACK \<and> g_payload g = [] \<and>
      g_seq g = sq \<and> fixed_part e0 = fixed_part e \<and> e_syn_seq e0 = Some sq \<and>
      e_local_isn e0 = e_local_isn e \<and> e_phase e0 = e_phase e)"
  using assms
  by (cases rule: syn_cases) (auto simp: fixed_part_def open_part_def)

lemma handshake_effect:
  assumes "handshake e out now = (r, e')"
  shows "step_effect e (open_event r) e'"
proof -
  consider (fake) "e_carrier e = FakeHandshake" "e_role e = Initiator" "e_syn_seq e = None"
    | (real) "e_carrier e = Handshake" "e_role e = Initiator" "e_phase e \<in> {Idle, SynSent}"
    | (resp) "e_carrier e = Handshake" "e_role e = Responder" "e_phase e = SynReceived"
    | (none) "\<not> (e_carrier e = FakeHandshake \<and> e_role e = Initiator \<and> e_syn_seq e = None)"
      "\<not> (e_carrier e = Handshake \<and> e_role e = Initiator \<and> e_phase e \<in> {Idle, SynSent})"
      "\<not> (e_carrier e = Handshake \<and> e_role e = Responder \<and> e_phase e = SynReceived)"
    by argo
  then show ?thesis
  proof cases
    case fake
    then have h: "(r, e') = map_some (syn e (next_seq e - 1) out now)"
      using assms by (simp add: handshake_def)
    obtain r0 e0 where s: "syn e (next_seq e - 1) out now = (r0, e0)" by fastforce
    show ?thesis
      using syn_effect [OF s] h s fake
      by (auto simp: map_some_def open_event_def step_effect_def opens_def open_part_def)
  next
    case real
    obtain r0 e0 where s: "syn e (e_local_isn e) out now = (r0, e0)" by fastforce
    have h: "(r, e') = (case (r0, e0) of
        (Inl err, e1) \<Rightarrow> (Inl err, e1) | (Inr r, e1) \<Rightarrow> (Inr (Some r), e1\<lparr>e_phase := SynSent\<rparr>))"
      using assms real s by (auto simp: handshake_def)
    show ?thesis
      using syn_effect [OF s] h real
      by (auto simp: open_event_def step_effect_def opens_def fixed_part_def open_part_def)
  next
    case resp
    then have h: "(r, e') = map_some (emit_raw e SynAck [] out now False)"
      using assms by (simp add: handshake_def)
    obtain r0 e0 where s: "endpoint_emit_parts e SynAck [[]] out now False = (r0, e0)" by fastforce
    show ?thesis
      using h s resp
      by (cases rule: endpoint_emit_parts_cases [OF s])
        (auto simp: map_some_def emit_raw_def open_event_def quiet_effect step_effect_def fixed_part_def)
  next
    case none
    then have "handshake e out now = (Inr None, e)" unfolding handshake_def by (simp only: if_False)
    then show ?thesis using assms by (simp add: open_event_def quiet_effect)
  qed
qed

lemma ep_step_effect: "ep_step e ev e' \<Longrightarrow> step_effect e ev e'"
proof (induction rule: ep_step.induct)
  case (Open e out now r e')
  then show ?case by (rule handshake_effect)
next
  case (Data e payload out now push rec r e')
  then show ?case by (intro plain_effect plain_data)
next
  case (Bare e payload out now push r e')
  then show ?case
    using plain_counted [of "length payload" e kind.Data "[payload]" out now push r e']
    by (cases "is_ready e") (auto simp: bare_def emit_raw_def intro: plain_effect quiet_effect)
next
  case (Ack e out now r e')
  then show ?case
    using plain_emit [of e kind.Ack "[[]]" out now False r e'] by (simp add: ack_def emit_raw_def plain_effect)
next
  case (Close e out now r e')
  then show ?case by (rule close_effect)
next
  case (Answer e a out now r e')
  then show ?case by (intro answer_effect)
next
  case (Receive e seg d e')
  then show ?case using on_receive_keeps [of e seg] by (simp add: step_effect_def fixed_part_def)
next
  case (Remote e remote e')
  then show ?case
    by (intro quiet_effect) (auto simp: set_remote_def Let_def fixed_part_def open_part_def)
next
  case (Number e now isn_for e')
  then show ?case by (auto simp: number_syn_def Let_def step_effect_def fixed_part_def split: if_splits)
next
  case (Rejoin e seg clock e')
  then show ?case
    by (auto simp: rejoin_def Let_def step_effect_def fixed_part_def split: option.splits)
qed

lemma run_fixed: "ep_run e tr e' \<Longrightarrow> fixed_part e' = fixed_part e"
  by (induction rule: ep_run.induct) (auto dest!: ep_step_effect simp: step_effect_def)

lemma run_fixed_sel:
  "ep_run e tr e' \<Longrightarrow> e_role e' = e_role e" "ep_run e tr e' \<Longrightarrow> e_carrier e' = e_carrier e"
  by (auto dest!: run_fixed simp: fixed_part_def)

section \<open>Events of interest\<close>

fun is_syn_out :: "event \<Rightarrow> bool" where
  "is_syn_out (Sent g) = has g SYN"
| "is_syn_out _ = False"

fun carries_payload :: "event \<Rightarrow> bool" where
  "carries_payload (Sent g) = (g_payload g \<noteq> [])"
| "carries_payload _ = False"

text \<open>The arrival of a SYN+ACK that acknowledges the SYN numbered \<open>ours\<close>.\<close>

fun answers :: "u32 \<Rightarrow> event \<Rightarrow> bool" where
  "answers ours (Received g) = (has g SYN \<and> has g ACK \<and> g_ack g = ours + 1)"
| "answers ours _ = False"

section \<open>Properties of runs\<close>

text \<open>Under the default carrier no run of operations, in any order and against any inbound
  segments, ever puts a SYN on the wire.\<close>

theorem midstream_never_syn:
  assumes "ep_run (endpoint_new cfg) tr e" and "cf_carrier cfg = Midstream"
  shows "filter is_syn_out tr = []"
  using assms
proof (induction "endpoint_new cfg" tr e rule: ep_run.induct)
  case Start
  then show ?case by simp
next
  case (Step tr e' ev e'')
  have "e_carrier e' = Midstream"
    using run_fixed_sel(2) [OF Step(1)] Step.prems by (simp add: endpoint_new_def Let_def)
  then have "\<not> is_syn_out ev"
    using ep_step_effect [OF Step(3)]
    by (cases ev) (auto simp: step_effect_def opens_def split: if_splits)
  then show ?case using Step by simp
qed

text \<open>A fake handshake announces itself once: in every run of its initiator at most one SYN goes
  out, and no payload goes out before it.\<close>

theorem fake_handshake_single_syn:
  assumes "ep_run (endpoint_new cfg) tr e" and "cf_carrier cfg = FakeHandshake" "cf_role cfg = Initiator"
  shows "length (filter is_syn_out tr) \<le> 1 \<and>
    filter carries_payload (takeWhile (\<lambda>ev. \<not> is_syn_out ev) tr) = []"
proof -
  have "(e_syn_seq e = None \<longleftrightarrow> filter is_syn_out tr = []) \<and> length (filter is_syn_out tr) \<le> 1 \<and>
    filter carries_payload (takeWhile (\<lambda>ev. \<not> is_syn_out ev) tr) = []"
    using assms
  proof (induction "endpoint_new cfg" tr e rule: ep_run.induct)
    case Start
    then show ?case by (simp add: endpoint_new_def Let_def)
  next
    case (Step tr e' ev e'')
    have c: "e_carrier e' = FakeHandshake" "e_role e' = Initiator"
      using run_fixed_sel [OF Step(1)] Step.prems by (simp_all add: endpoint_new_def Let_def)
    have IH: "(e_syn_seq e' = None \<longleftrightarrow> filter is_syn_out tr = [])" "length (filter is_syn_out tr) \<le> 1"
      "filter carries_payload (takeWhile (\<lambda>ev. \<not> is_syn_out ev) tr) = []"
      using Step(2) Step.prems by blast+
    note eff = ep_step_effect [OF Step(3)]
    have syn: "if is_syn_out ev then e_syn_seq e' = None \<and> e_syn_seq e'' \<noteq> None
        else e_syn_seq e'' = e_syn_seq e'"
      using eff c by (cases ev) (auto simp: step_effect_def split: if_splits)
    have pay: "carries_payload ev \<Longrightarrow> e_syn_seq e' \<noteq> None"
      using eff c by (cases ev) (auto simp: step_effect_def is_ready_def split: if_splits)
    show ?case
    proof (cases "filter is_syn_out tr = []")
      case True
      then have "takeWhile (\<lambda>ev. \<not> is_syn_out ev) tr = tr" by (simp add: filter_empty_conv takeWhile_eq_all_conv)
      then have "filter carries_payload tr = []" using IH(3) by (simp only:)
      moreover have "takeWhile (\<lambda>ev. \<not> is_syn_out ev) (tr @ [ev]) = tr @ (if is_syn_out ev then [] else [ev])"
        using True by (subst takeWhile_append2) (auto simp: filter_empty_conv)
      ultimately show ?thesis using True IH syn pay by (auto split: if_splits)
    next
      case False
      then have "takeWhile (\<lambda>ev. \<not> is_syn_out ev) (tr @ [ev]) = takeWhile (\<lambda>ev. \<not> is_syn_out ev) tr"
        by (auto simp: filter_empty_conv intro: takeWhile_append1)
      then show ?thesis using False IH syn by (auto split: if_splits)
    qed
  qed
  then show ?thesis by blast
qed

text \<open>The invariant of a real handshake's initiator over the events so far.\<close>

definition syn_numbered :: "u32 \<Rightarrow> event \<Rightarrow> bool" where
  "syn_numbered ours ev \<longleftrightarrow> (case ev of Sent g \<Rightarrow> \<not> has g SYN \<or> g_seq g = ours | _ \<Rightarrow> True)"

definition waits_inv :: "event list \<Rightarrow> endpoint \<Rightarrow> bool" where
  "waits_inv tr e \<longleftrightarrow>
     (case e_syn_seq e of
        None \<Rightarrow> e_phase e \<in> {Idle, Closed} \<and> filter carries_payload tr = [] \<and> filter is_syn_out tr = []
      | Some ours \<Rightarrow> e_local_isn e = ours \<and> e_phase e \<noteq> SynReceived \<and> list_all (syn_numbered ours) tr \<and>
          filter carries_payload (takeWhile (\<lambda>ev. \<not> answers ours ev) tr) = [] \<and>
          (e_phase e = Established \<longrightarrow> list_ex (answers ours) tr))"

lemma receive_phase:
  assumes "e_role e = Initiator" and "e_phase e \<noteq> SynReceived"
  shows "e_phase (snd (on_receive e g)) \<in> {e_phase e, Closed} \<or>
    (e_phase (snd (on_receive e g)) = Established \<and>
     (\<exists>ours. e_syn_seq e = Some ours \<and> answers ours (Received g)))"
  using assms by (auto simp: on_receive_def Let_def split: option.split)

lemma not_received: "Received g \<noteq> sent_event x" "Received g \<noteq> open_event r"
proof -
  show "Received g \<noteq> sent_event x" for x by (cases x) simp_all
  then show "Received g \<noteq> open_event r" by (simp add: open_event_def split: sum.split option.split)
qed

lemma received_step: "ep_step e (Received g) e' \<Longrightarrow> e' = snd (on_receive e g)"
  by (erule ep_stepE) (auto simp: not_received)

lemma prefix_unchanged:
  "list_ex P tr \<Longrightarrow> takeWhile (\<lambda>ev. \<not> P ev) (tr @ [ev]) = takeWhile (\<lambda>ev. \<not> P ev) tr"
  by (auto simp: list_ex_iff intro: takeWhile_append1)

lemma prefix_no_payload:
  assumes "filter Q (takeWhile P tr) = []" and "\<not> Q ev"
  shows "filter Q (takeWhile P (tr @ [ev])) = []"
proof (cases "\<forall>x\<in>set tr. P x")
  case True
  then have "takeWhile P tr = tr" by (simp add: takeWhile_eq_all_conv)
  then have "filter Q tr = []" using assms(1) by (simp only:)
  then show ?thesis using True assms(2) by (simp add: takeWhile_append)
next
  case False
  then show ?thesis using assms(1) takeWhile_append1 by (metis (no_types, lifting))
qed

lemma waits_inv_step:
  assumes inv: "waits_inv tr e" and step: "ep_step e ev e'"
    and role: "e_role e = Initiator" "e_carrier e = Handshake"
  shows "waits_inv (tr @ [ev]) e'"
proof (cases ev)
  case (Received g)
  have e': "e' = snd (on_receive e g)" using step received_step by (simp add: Received)
  have keep: "e_syn_seq e' = e_syn_seq e" "e_local_isn e' = e_local_isn e"
    by (simp_all add: e' on_receive_keeps)
  have no: "e_phase e \<noteq> SynReceived" "\<not> carries_payload ev" "\<not> is_syn_out ev" "syn_numbered ours ev" for ours
    using inv by (auto simp: waits_inv_def Received syn_numbered_def split: option.splits)
  note ph = receive_phase [OF role(1) no(1), of g, folded e' Received]
  show ?thesis
    using inv ph no(2-) prefix_no_payload [of carries_payload "\<lambda>ev. \<not> answers (the (e_syn_seq e)) ev" tr ev]
    by (auto simp: waits_inv_def keep split: option.splits)
next
  case Quiet
  have eff: "e_syn_seq e' = e_syn_seq e" "e_phase e' = e_phase e" "e_syn_seq e = None \<or> e_local_isn e' = e_local_isn e"
    using ep_step_effect [OF step] by (simp_all add: step_effect_def Quiet)
  show ?thesis
    using inv eff prefix_no_payload [of carries_payload "\<lambda>ev. \<not> answers (the (e_syn_seq e)) ev" tr ev]
    by (auto simp: waits_inv_def Quiet syn_numbered_def split: option.splits)
next
  case (Rejoined g)
  then show ?thesis using ep_step_effect [OF step] role by (simp add: step_effect_def)
next
  case (Sent g)
  note eff = ep_step_effect [OF step]
  show ?thesis
  proof (cases "has g SYN \<and> \<not> has g ACK")
    case True
    then have s: "g_payload g = []" "e_syn_seq e' = Some (g_seq g)" "e_local_isn e' = e_local_isn e"
      "e_phase e' = SynSent" "g_seq g = e_local_isn e"
      using eff role by (simp_all add: step_effect_def Sent split: if_splits)
    have nopay: "\<not> carries_payload ev" using s by (simp add: Sent)
    have "list_all (syn_numbered (g_seq g)) tr" "filter carries_payload (takeWhile (\<lambda>ev. \<not> answers (g_seq g) ev) tr) = []"
      using inv s(5)
      by (auto simp: waits_inv_def syn_numbered_def list_all_iff filter_empty_conv
          split: option.splits event.splits dest: set_takeWhileD)
    then show ?thesis
      using s nopay prefix_no_payload [of carries_payload "\<lambda>ev. \<not> answers (g_seq g) ev" tr ev]
      by (simp add: waits_inv_def Sent syn_numbered_def)
  next
    case False
    then have s: "e_syn_seq e' = e_syn_seq e" "e_local_isn e' = e_local_isn e" "\<not> has g SYN"
      "e_phase e' \<in> {e_phase e, Closed}" "g_payload g = [] \<or> is_ready e"
      using eff role by (auto simp: step_effect_def Sent split: if_splits)
    have "filter carries_payload (takeWhile (\<lambda>ev. \<not> answers ours ev) (tr @ [ev])) = []"
      if "e_syn_seq e = Some ours" for ours
    proof (cases "carries_payload ev")
      case True
      then have "list_ex (answers ours) tr"
        using that s(5) inv role by (auto simp: Sent is_ready_def is_established_def waits_inv_def)
      then show ?thesis using that inv by (simp add: prefix_unchanged waits_inv_def)
    next
      case False
      have "filter carries_payload (takeWhile (\<lambda>ev. \<not> answers ours ev) tr) = []"
        using that inv by (simp add: waits_inv_def)
      from prefix_no_payload [of carries_payload, OF this False] show ?thesis .
    qed
    moreover have "\<not> carries_payload ev" if "e_syn_seq e = None"
      using that s(5) inv role by (auto simp: Sent is_ready_def is_established_def waits_inv_def)
    ultimately show ?thesis
      using inv s by (auto simp: waits_inv_def Sent syn_numbered_def split: option.splits)
  qed
qed

text \<open>A real handshake is waited for: in every run of its initiator all SYNs carry one number, and
  payload goes out only after a SYN+ACK acknowledging that number has arrived.\<close>

theorem handshake_initiator_waits:
  assumes "ep_run (endpoint_new cfg) tr e" and "cf_carrier cfg = Handshake" "cf_role cfg = Initiator"
  shows "(case e_syn_seq e of
       None \<Rightarrow> filter carries_payload tr = [] \<and> filter is_syn_out tr = []
     | Some ours \<Rightarrow> list_all (syn_numbered ours) tr \<and>
         filter carries_payload (takeWhile (\<lambda>ev. \<not> answers ours ev) tr) = [])"
proof -
  have "waits_inv tr e"
    using assms
  proof (induction "endpoint_new cfg" tr e rule: ep_run.induct)
    case Start
    then show ?case by (simp add: endpoint_new_def Let_def waits_inv_def)
  next
    case (Step tr e' ev e'')
    have "e_role e' = Initiator" "e_carrier e' = Handshake"
      using run_fixed_sel [OF Step(1)] Step.prems by (simp_all add: endpoint_new_def Let_def)
    then show ?case using Step waits_inv_step by blast
  qed
  then show ?thesis by (auto simp: waits_inv_def split: option.splits)
qed

text \<open>A short run of each carrier, for the witnesses: an attempted opening and one data segment.\<close>

definition sample_run :: "carrier_mode \<Rightarrow> event list \<times> endpoint" where
  "sample_run car =
     (let e = endpoint_new (sample_config Initiator car Stream False);
          (r1, e1) = handshake e (replicate 200 0) 5;
          (r2, e2) = data e1 [1, 2] (replicate 200 0) 6 True None
      in ([open_event r1, sent_event (on_wire r2)], e2))"

lemma sample_run_runs:
  "ep_run (endpoint_new (sample_config Initiator car Stream False)) (fst (sample_run car)) (snd (sample_run car))"
proof -
  let ?e = "endpoint_new (sample_config Initiator car Stream False)"
  obtain r1 e1 where 1: "handshake ?e (replicate 200 0) 5 = (r1, e1)" by fastforce
  obtain r2 e2 where 2: "data e1 [1, 2] (replicate 200 0) 6 True None = (r2, e2)" by fastforce
  have "ep_run ?e ([] @ [open_event r1]) e1" using ep_run.Start ep_step.Open [OF 1] ep_run.Step by blast
  then have "ep_run ?e (([] @ [open_event r1]) @ [sent_event (on_wire r2)]) e2"
    using ep_step.Data [OF 2] ep_run.Step by blast
  then show ?thesis by (simp add: sample_run_def 1 2 Let_def)
qed

theorem midstream_never_syn_witness: "filter is_syn_out (fst (sample_run Midstream)) = []"
  by (rule midstream_never_syn [OF sample_run_runs]) simp

theorem fake_handshake_single_syn_witness:
  "length (filter is_syn_out (fst (sample_run FakeHandshake))) \<le> 1"
  using fake_handshake_single_syn [OF sample_run_runs, of FakeHandshake] by simp

theorem handshake_initiator_waits_witness:
  "case e_syn_seq (snd (sample_run Handshake)) of
     None \<Rightarrow> filter carries_payload (fst (sample_run Handshake)) = []
   | Some ours \<Rightarrow> list_all (syn_numbered ours) (fst (sample_run Handshake))"
  using handshake_initiator_waits [OF sample_run_runs, of Handshake] by (auto split: option.splits)

section \<open>The chain of records\<close>

text \<open>The record layer stays readable as long as every payload fits the record it is written in:
  an observer that has followed the lengths up to a data segment follows them through it, and ends
  with exactly the bytes the endpoint believes are still to come.\<close>

theorem record_chain_continues:
  assumes "data e payload out now push rec = (Inr v, e')" and "e_records e"
    and "length payload \<le> (if e_record_left e = 0 then (case rec of Some n \<Rightarrow> n | None \<Rightarrow> length payload)
                           else e_record_left e)"
  shows "\<exists>seg. on_wire (Inr v) = Some seg \<and>
    observe (e_record_left e) (g_payload seg) = Some (e_record_left e')"
proof -
  note d = data_sent [OF assms(1)]
  have left: "e_record_left e' = record_after e (length payload) rec"
    using d(2) by simp
  have "observe (e_record_left e) (wire_payload e payload rec) = Some (e_record_left e')"
  proof (cases "e_record_left e = 0")
    case True
    then obtain h where "record_header (case rec of Some r \<Rightarrow> r | None \<Rightarrow> length payload) = Some h"
      using d(4) assms(2) by auto
    then show ?thesis
      using True assms(2,3) observe_header left by (simp add: wire_payload_def record_after_def)
  next
    case False
    then show ?thesis
      using assms(2,3) left by (simp add: wire_payload_def record_after_def observe_within)
  qed
  then show ?thesis using d(3) by simp
qed

theorem record_chain_continues_witness:
  "\<exists>v e' seg. data (fst (sample_pair True)) [1, 2, 3] (replicate 1500 0) 50 True (Some 10) = (Inr v, e') \<and>
     on_wire (Inr v) = Some seg \<and> observe 0 (g_payload seg) = Some (e_record_left e')"
proof -
  have "room_for (replicate 1500 0) (length ([1, 2, 3] :: bytes) + RECORD_HEADER)"
    by (simp add: room_for_def MAX_OVERHEAD_def segment_consts RECORD_HEADER_def)
  then obtain v s' where d: "data (fst (sample_pair True)) [1, 2, 3] (replicate 1500 0) 50 True (Some 10) = (Inr v, s')"
    using data_succeeds [of "fst (sample_pair True)" "replicate 1500 0" "[1, 2, 3]" "Some 10" 50 True]
    by (auto simp: sample_pair_def endpoint_new_def sample_config_def is_ready_def is_established_def
        ALL_profiles_def Let_def MAX_SPAN_def MAX_RECORD_def)
  from record_chain_continues [OF d] d show ?thesis
    by (auto simp: sample_pair_def endpoint_new_def sample_config_def Let_def)
qed

definition overrunning :: endpoint where
  "overrunning = (endpoint_new (sample_config Initiator Midstream Stream True))\<lparr>e_record_left := 3\<rparr>"

text \<open>A payload longer than what is left of the current record breaks the chain: the endpoint takes
  itself to be at a record boundary, while the observer finds bytes that are no header where the
  declared record ended.\<close>

theorem record_overrun_breaks_chain:
  "\<exists>v e' seg. data overrunning (replicate 20 0) (replicate 1500 0) 50 True None = (Inr v, e') \<and>
     on_wire (Inr v) = Some seg \<and> at_record_boundary e' \<and>
     observe (e_record_left overrunning) (g_payload seg) = None"
proof -
  have room: "room_for (replicate 1500 0) (length (replicate 20 0 :: bytes) + RECORD_HEADER)"
    by (simp add: room_for_def MAX_OVERHEAD_def segment_consts RECORD_HEADER_def)
  obtain v e' where d: "data overrunning (replicate 20 0) (replicate 1500 0) 50 True None = (Inr v, e')"
    using data_succeeds [OF _ _ room, of overrunning None 50 True]
    by (auto simp: overrunning_def endpoint_new_def sample_config_def is_ready_def is_established_def
        ALL_profiles_def Let_def)
  have w: "wire_payload overrunning (replicate 20 0) None = replicate 20 0" "e_record_left overrunning = 3"
    "record_after overrunning 20 None = 0"
    by (simp_all add: overrunning_def wire_payload_def record_after_def endpoint_new_def
        sample_config_def Let_def)
  have "observe 3 (replicate 20 0) = None" by code_simp
  then show ?thesis
    using d data_sent(2,3) [OF d] w by (auto simp: at_record_boundary_def)
qed

section \<open>Acknowledging like a receiver\<close>

text \<open>An acknowledgement is owed exactly when at least two payload-bearing segments have arrived
  since this end last sent anything, whatever else arrived between them.\<close>

theorem owes_ack_after_two:
  assumes "e_unacked e = 0" and "length segs < 65535"
  shows "owes_ack (foldl (\<lambda>e seg. snd (on_receive e seg)) e segs) \<longleftrightarrow>
    2 \<le> length (filter (\<lambda>seg. g_payload seg \<noteq> []) segs)"
proof -
  have count: "unat (e_unacked (foldl (\<lambda>e seg. snd (on_receive e seg)) e segs)) =
      unat (e_unacked e) + length (filter (\<lambda>seg. g_payload seg \<noteq> []) segs)"
    if "unat (e_unacked e) + length segs < 65535" for e
    using that
  proof (induction segs arbitrary: e)
    case Nil
    then show ?case by simp
  next
    case (Cons seg segs)
    let ?e1 = "snd (on_receive e seg)"
    have "unat (saturating_incr (e_unacked e)) = unat (e_unacked e) + 1"
    proof -
      have "unat (e_unacked e) \<noteq> unat (0xFFFF :: u16)" using Cons.prems by simp
      then have "e_unacked e \<noteq> 0xFFFF" by metis
      then show ?thesis using Cons.prems by (simp add: saturating_incr_def unat_word_ariths)
    qed
    then have step: "unat (e_unacked ?e1) = unat (e_unacked e) + (if g_payload seg \<noteq> [] then 1 else 0)"
      by (simp add: on_receive_keeps)
    then have "unat (e_unacked ?e1) + length segs < 65535" using Cons.prems by (simp split: if_splits)
    from Cons.IH [OF this] show ?case using step by simp
  qed
  show ?thesis
    using count [of e] assms by (simp add: owes_ack_def ACK_EVERY_def word_le_nat_alt)
qed

theorem owes_ack_after_two_witness:
  "owes_ack (foldl (\<lambda>e seg. snd (on_receive e seg)) (fst (sample_pair False))
     (replicate 2 (read_back Data LINUX_6 sample_fields [7])))"
proof -
  have "e_unacked (fst (sample_pair False)) = 0" by (simp add: sample_pair_def endpoint_new_def Let_def)
  from owes_ack_after_two [OF this, of "replicate 2 (read_back Data LINUX_6 sample_fields [7])"]
  show ?thesis by (simp del: foldl_Cons replicate_Suc)
qed

section \<open>The window\<close>

lemma scaled_window_range:
  assumes "e_profile e \<in> set ALL_profiles"
  shows "8 \<le> unat (scaled_window e) \<and> unat (scaled_window e) \<le> 65535 \<and>
    (e_carrier e = Midstream \<longrightarrow> 64240 \<le> unat (scaled_window e))"
proof -
  have "list_all (\<lambda>p. 8 \<le> unat (drop_bit (case p_window_scale p of None \<Rightarrow> 0 | Some s \<Rightarrow> unat s) (p_window p)) \<and>
      unat (drop_bit (case p_window_scale p of None \<Rightarrow> 0 | Some s \<Rightarrow> unat s) (p_window p)) \<le> 65535 \<and>
      64240 \<le> unat (min (p_window p) 0xFFFF) \<and> unat (min (p_window p) 0xFFFF) \<le> 65535) ALL_profiles"
    by (simp add: profile_defs)
  then show ?thesis
    using assms by (cases "opens (e_carrier e)") (auto simp: list_all_iff scaled_window_def opens_def)
qed

text \<open>The advertised window of every segment but a SYN lies in the eighth below the profile's
  window, scaled when the connection opens with a SYN and literal when it does not: it is never
  above it, never zero, and never the scaled value under the default carrier.\<close>

theorem window_band:
  assumes "e_profile e \<in> set ALL_profiles" and "k \<notin> {Syn, SynAck}"
  shows "7 * unat (scaled_window e) \<le> 8 * unat (window e k) \<and>
    unat (window e k) \<le> unat (scaled_window e) \<and> 0 < unat (window e k) \<and>
    (e_carrier e = Midstream \<longrightarrow> 56210 \<le> unat (window e k))"
proof -
  note r = scaled_window_range [OF assms(1)]
  define n where "n = unat (scaled_window e)"
  define off where "off = unat (e_counter e * 0x9E3779B9) div 2 ^ 8 mod (max (n div 8) 1 + 1)"
  have "off < max (n div 8) 1 + 1" unfolding off_def by (intro mod_less_divisor) simp
  then have off: "8 * off \<le> n" using r by (simp add: n_def max_def split: if_splits)
  have "window e k = of_nat (min (max (n - off) 1) 65535)"
    using assms(2) by (simp add: window_def is_syn_def n_def off_def Let_def)
  moreover have "min (max (n - off) 1) 65535 = n - off" using off r by (auto simp: n_def min_def max_def)
  moreover have "n - off < 65536" using r by (auto simp: n_def)
  ultimately have "unat (window e k) = n - off" by (simp only: unat_of_nat_16)
  then show ?thesis using off r by (auto simp: n_def)
qed

theorem window_band_witness:
  "56210 \<le> unat (window (fst (sample_pair False)) Data)"
proof -
  have "e_profile (fst (sample_pair False)) \<in> set ALL_profiles" "e_carrier (fst (sample_pair False)) = Midstream"
    by (simp_all add: sample_pair_def endpoint_new_def sample_config_def ALL_profiles_def Let_def)
  then show ?thesis using window_band [of "fst (sample_pair False)" Data] by simp
qed

end
