(* ===== verification/Delivery.thy ===== *)
theory Delivery
  imports Runs Outbound Conversation
begin

text \<open>
  Two tunnels, one packet: what \<open>send_inner\<close> puts on the network of one end, \<open>receive_batch\<close> writes to the
  device of the other; and what a burst counts and announces.
\<close>

section \<open>Sealing on one side, opening on the other\<close>

lemma sealed_opens:
  assumes C: "crypto_ok C" and pair: "transports_paired N (s_transport s) (s_transport r)"
    and match: "s_mask r = s_mask s" "s_local_index r = s_remote_index s"
    and room: "length pt + OVERHEAD \<le> length out" "length pt + 16 \<le> 65535"
    and live: "\<not> is_expired s now" "s_send_counter s < REJECT_AFTER_MESSAGES"
  obtains out' where
    "seal C N s pt out now = (Inr (length pt + OVERHEAD, out'), s\<lparr>s_send_counter := s_send_counter s + 1\<rparr>)"
    "length pt + OVERHEAD \<le> length out'"
    "\<And>n now'. length pt \<le> n \<Longrightarrow> \<not> is_expired r now' \<Longrightarrow> check (s_replay r) (s_send_counter s) \<Longrightarrow>
       open_packet C N r (take (length pt + OVERHEAD) out') n now' =
         (Inr pt, r\<lparr>s_replay := commit (s_replay r) (s_send_counter s)\<rparr>)"
proof -
  have "length pt + 16 \<le> length out - HEADER_LEN"
    using room(1) by (simp add: framing_consts)
  then obtain body where
    w: "tr_write N (s_transport s) (s_send_counter s) pt (length out - HEADER_LEN) = Some body"
    and len: "length body = length pt + 16"
    and rd: "\<And>cap'. length pt \<le> cap' \<Longrightarrow> tr_read N (s_transport r) (s_send_counter s) body cap' = Some pt"
    using transports_pairedE [OF pair _ room(2)] by metis
  have pkt: "length (packet_of C s body) = length pt + OVERHEAD"
    using len C by (simp add: length_packet_of framing_consts)
  show ?thesis
  proof (rule that [OF seal_ok [OF C room(1) live w len]])
    fix n now'
    assume "length pt \<le> n" "\<not> is_expired r now'" "check (s_replay r) (s_send_counter s)"
    then show "open_packet C N r (take (length pt + OVERHEAD) (packet_of C s body @ drop (length pt + OVERHEAD) out)) n now' =
        (Inr pt, r\<lparr>s_replay := commit (s_replay r) (s_send_counter s)\<rparr>)"
      using open_packet_of [OF C _ match, of now' body N n] rd len pkt by simp
  qed (simp add: pkt)
qed

lemma wire_data_own_record: "wire_data w p out now push (Some (length p)) = wire_data w p out now push None"
  by (cases w) (simp_all add: data_def)

lemma sent_reads:
  assumes suits: "wire_suits cfg ours w" and len: "length payload \<le> wire_limit w"
    and room: "wire_overhead w + length payload \<le> length out"
  obtains n buf w' seg where "wire_data w payload out now push (Some (length payload)) = (Inr (n, buf), w')"
    "n \<le> length buf" "tunnel_parse cfg ours (captured (take n buf)) = Some seg" "g_payload seg = payload"
    "\<not> has seg SYN" "fst (wire_remote w') = fst (wire_remote w)"
proof -
  from wire.send_recv [OF suits len room, of now push]
  obtain n buf w' where d: "wire_data w payload out now push None = (Inr (n, buf), w')"
    "n \<le> wire_overhead w + length payload" "length buf = length out"
    "read_payload cfg ours (take n buf) = Some payload"
    by auto
  then obtain seg where seg: "tunnel_parse cfg ours (captured (take n buf)) = Some seg" "g_payload seg = payload"
    by (auto simp: read_payload_def)
  have "\<not> has seg SYN \<and> fst (wire_remote w') = fst (wire_remote w)"
  proof (cases w)
    case (WTcp e)
    obtain m where shape: "tc_shape cfg = ShapeTcp m"
      using suits WTcp by (auto simp: wire_suits_def split: shape.splits)
    obtain e' where e': "data e payload out now push None = (Inr (n, buf), e')" "w' = WTcp e'"
      using d(1) WTcp by (cases "data e payload out now push None") auto
    have "g_flags seg = segment_flags Data (endpoint_fields e Data now push)"
      using seg(1) shape data_on_wire_bytes(1) [OF e'(1)]
      by (auto simp: tunnel_parse_def segment_parse_ethernet_def read_back_def split: option.splits if_splits)
    then have "\<not> has seg SYN"
      by (simp add: has_def segment_flags_def ACK_def PSH_def SYN_def)
    then show ?thesis
      using e' WTcp data_sent(2) [OF e'(1)] by simp
  next
    case (WRaw c)
    then have "tc_shape cfg = ShapeRaw (rw_shell c)"
      using suits by (auto simp: wire_suits_def split: shape.splits)
    then have "g_flags seg = 0"
      using seg(1) by (auto simp: tunnel_parse_def bind_eq_Some_conv split: if_splits)
    moreover have "rw_remote (snd (raw_data c payload out)) = rw_remote c"
      by (simp add: raw_data_eq Let_def)
    ultimately show ?thesis
      using d(1) WRaw by (cases "raw_data c payload out") (auto simp: has_def)
  qed
  then show ?thesis
    using that [of n buf w' seg] d seg room by (simp add: wire_data_own_record)
qed

section \<open>Sending\<close>

lemma send_inner_sends:
  assumes "ps_session (tu_state t) = Some s" and "\<not> is_expired s (en_now E)"
    and "ps_carrier (tu_state t) = Some w" and "wire_is_ready w" and "se_spoof_sni S = None" and "worth_carrying packet"
    and "seal C N s packet sealed (en_now E) = (Inr (length packet + OVERHEAD, out), s')"
    and "length packet + OVERHEAD \<le> length out"
    and "wire_data w (take (length packet + OVERHEAD) out) frame (en_now E) True (Some (length packet + OVERHEAD)) = (Inr (n, buf), w')"
    and "n \<le> length buf" and "en_tx E (take n buf) (fst (wire_remote w'))"
  shows "\<exists>t'. send_inner C N S E packet sealed frame t = (Inr (), t') \<and>
    tu_out t' = tu_out t @ [(take n buf, fst (wire_remote w'))] \<and> ps_carrier (tu_state t') = Some w' \<and>
    ps_session (tu_state t') = Some s'"
proof -
  have cover: "send_cover S E t = t"
    using assms(5) by (simp add: send_cover_def)
  show ?thesis
    using assms
    by (simp add: cover send_inner_def seal_into_def seal_under_def Let_def get_range_def send_or_fail_def transmit_def
        note_sent_def carried_def)
qed

section \<open>Receiving\<close>

lemma handled_elsewhere [simp]:
  "tu_device (snd (seal_into C N S E packet sealed frame push rec t)) = tu_device t"
  "tu_coalescer (snd (seal_into C N S E packet sealed frame push rec t)) = tu_coalescer t"
proof -
  have flight: "tu_device (snd (send_flight fuel E chunk dst rest w u)) = tu_device u"
    "tu_coalescer (snd (send_flight fuel E chunk dst rest w u)) = tu_coalescer u"
    for fuel chunk dst rest w and u :: "('a, 'b) tunnel"
    by (induction fuel arbitrary: rest w u)
      (simp_all add: Let_def transmit_def case_prod_beta split: sum.split option.split)
  have cover: "tu_device (send_cover S E u) = tu_device u" "tu_coalescer (send_cover S E u) = tu_coalescer u"
    for u :: "('a, 'b) tunnel"
    by (simp_all add: send_cover_def Let_def case_prod_beta flight split: option.split)
  have under: "tu_device (snd (seal_under C N S E packet sealed frame push rec s u)) = tu_device u"
    "tu_coalescer (snd (seal_under C N S E packet sealed frame push rec s u)) = tu_coalescer u"
    for s and u :: "('a, 'b) tunnel"
    by (simp_all add: seal_under_def Let_def case_prod_beta split: sum.split option.split)
  show "tu_device (snd (seal_into C N S E packet sealed frame push rec t)) = tu_device t"
    "tu_coalescer (snd (seal_into C N S E packet sealed frame push rec t)) = tu_coalescer t"
    by (simp_all add: seal_into_def Let_def under cover split: option.split)
qed

lemma send_inner_elsewhere [simp]:
  "tu_device (snd (send_inner C N S E packet sealed frame t)) = tu_device t"
  "tu_coalescer (snd (send_inner C N S E packet sealed frame t)) = tu_coalescer t"
  by (simp_all add: send_inner_def send_or_fail_def transmit_def case_prod_beta split: sum.split option.split)

lemma ask_for_elsewhere [simp]:
  "tu_device (ask_for C N S E counters t) = tu_device t"
  "tu_coalescer (ask_for C N S E counters t) = tu_coalescer t"
  by (simp_all add: ask_for_def case_prod_beta split: sum.split option.split)

lemma acceptable_not_control:
  assumes "acceptable S packet"
  shows "control_parse packet = None" "packet \<noteq> []"
proof -
  have first: "map_option (drop_bit 4) (get packet 0) \<in> {Some 4, Some (6 :: u8)}"
    using assms by (auto simp: acceptable_def inner_source_def split: if_splits)
  then show "packet \<noteq> []"
    by auto
  have "drop_bit 4 MARKER \<noteq> (4 :: u8)" "drop_bit 4 MARKER \<noteq> (6 :: u8)"
    by (simp_all add: MARKER_def)
  then show "control_parse packet = None"
    using first by (auto simp: control_parse_def split: list.splits)
qed

text \<open>What the device is handed for a packet: the packet, or with grouping on and a payload to group, the datagram its
  header describes behind an empty header that asks for no splitting.\<close>

definition device_form :: "coalescer option \<Rightarrow> bytes \<Rightarrow> device_write" where
  "device_form co packet =
     (case (co, gso_parse packet) of
        (Some _, Some p) \<Rightarrow>
          if gp_payload p = [] then WriteOne packet
          else WriteHeld (replicate VNET_HDR_LEN 0) (gp_ip p @ gp_l4 p @ gp_payload p)
      | _ \<Rightarrow> WriteOne packet)"

definition idle_coalescer :: "coalescer option \<Rightarrow> bool" where
  "idle_coalescer co = (case co of None \<Rightarrow> True | Some c \<Rightarrow> holding c [])"

text \<open>A batch that delivers one packet writes it once and leaves nothing held.\<close>

lemma deliver_flushed:
  assumes "acceptable S packet" and "idle_coalescer (tu_coalescer t)"
    and "en_device E (device_form (tu_coalescer t) packet) = Written"
  shows "\<exists>t'. deliver S E packet t = (Inr (), t') \<and>
    (\<exists>t''. flush_inner E t' = (Inr (), t'') \<and> tu_device t'' = tu_device t @ [device_form (tu_coalescer t) packet])"
proof -
  have written: "deliver S E packet t = write_inner E packet t"
    using assms(1) by (auto simp: deliver_def deliver6_def acceptable_def split: if_splits option.splits)
  show ?thesis
  proof (cases "tu_coalescer t")
    case None
    then show ?thesis
      using assms(3)
      by (simp add: written write_inner_def write_one_def device_put_def note_write_def device_form_def flush_inner_def)
  next
    case (Some co)
    then have co: "co_run co = None" "\<not> co_pending co"
      using assms(2) by (simp_all add: idle_coalescer_def holding_def)
    show ?thesis
    proof (cases "can_hold packet")
      case True
      then obtain p where p: "gso_parse packet = Some p" "gp_payload p \<noteq> []"
        by (auto simp: can_hold_def split: option.splits)
      then have "joins co packet"
        using co by (simp add: joins_def)
      then show ?thesis
        using assms(3) co p True Some
        by (simp add: written write_inner_def flush_inner_def tunnel_write_held_def take_held_def hold_def Let_def
            device_put_def note_write_def device_form_def)
    next
      case False
      then have "\<not> joins co packet" "device_form (tu_coalescer t) packet = WriteOne packet"
        using co Some by (auto simp: joins_def can_hold_def device_form_def split: option.splits)
      then show ?thesis
        using assms(3) co False Some
        by (simp add: written write_inner_def write_one_def flush_inner_def tunnel_write_held_def take_held_def
            device_put_def note_write_def)
    qed
  qed
qed

text \<open>A carrier that would announce its connection to a peer that has moved can: its profile is one of the known
  ones and the network takes what it sends.\<close>

definition can_announce :: "environment \<Rightarrow> wire \<Rightarrow> bool" where
  "can_announce E w =
     (case w of
        WTcp e \<Rightarrow> e_carrier e = FakeHandshake \<longrightarrow> e_profile e \<in> set ALL_profiles \<and> en_tx E = (\<lambda>_ _. True)
      | WRaw c \<Rightarrow> True)"

lemma answer_succeeds:
  assumes "e_profile e \<in> set ALL_profiles"
  shows "\<exists>r e'. answer e ak (replicate MAX_OVERHEAD 0) now = (Inr r, e')"
proof -
  define f where "f = (endpoint_fields e SynAck now False)\<lparr>f_seq := next_seq e - 1, f_ack := ak\<rparr>"
  have "room_for (replicate MAX_OVERHEAD (0 :: u8)) (length (concat [[] :: bytes]))"
    by (simp add: room_for_def)
  from emit_parts_succeeds [OF assms this, of SynAck f] obtain r where
    "emit SynAck (e_profile e) f [] (replicate MAX_OVERHEAD 0) = Inr r"
    unfolding emit_def by blast
  then show ?thesis
    by (simp add: answer_def f_def Let_def)
qed

lemma take_up_succeeds:
  assumes "can_announce E w"
  shows "\<exists>r w'. take_up C cfg w seg fresh (replicate MAX_OVERHEAD 0) now = (Inr r, w') \<and>
    (r = None \<or> en_tx E = (\<lambda>_ _. True))"
proof (cases w)
  case (WTcp e)
  show ?thesis
  proof (cases "fresh \<and> \<not> tc_is_initiator cfg \<and> e_carrier e = FakeHandshake")
    case True
    let ?e1 = "snd (on_receive (set_remote e (g_src seg)) seg)"
    have tx: "e_profile ?e1 \<in> set ALL_profiles" "en_tx E = (\<lambda>_ _. True)"
      using assms True WTcp by (simp_all add: can_announce_def on_receive_keeps set_remote_def)
    from answer_succeeds [OF tx(1)]
    obtain r e2 where "answer ?e1 (g_seq seg) (replicate MAX_OVERHEAD 0) now = (Inr r, e2)"
      by blast
    then show ?thesis
      using True WTcp tx(2) by (simp add: take_up_def)
  qed (use WTcp in \<open>auto simp: take_up_def Let_def\<close>)
qed (simp add: take_up_def)

lemma transport_heard_succeeds:
  assumes "ps_carrier (tu_state t) = Some w" and "can_announce E w"
  shows "\<exists>asking t'. transport_heard C S E seg hdr n t = (Inr asking, t') \<and>
    tu_device t' = tu_device t \<and> tu_coalescer t' = tu_coalescer t"
proof -
  define fresh where "fresh \<longleftrightarrow> wire_remote w \<noteq> g_src seg"
  obtain r w' where up: "take_up C (se_outer S) w seg fresh (replicate MAX_OVERHEAD 0) (en_now E) = (Inr r, w')"
      "r = None \<or> en_tx E = (\<lambda>_ _. True)"
    using take_up_succeeds [OF assms(2)] by blast
  then show ?thesis
    using assms(1)
    by (auto simp: transport_heard_def Let_def case_prod_beta fresh_def [symmetric] send_or_fail_def transmit_def
        split: option.split)
qed

definition handshake_sized :: "bool \<Rightarrow> nat \<Rightarrow> bool" where
  "handshake_sized initiates n =
     (if initiates then MSG2_LEN \<le> n \<and> n \<le> MSG2_MAX else MSG1_LEN \<le> n \<and> n \<le> MSG1_MAX)"

lemma acknowledge_elsewhere [simp]: "tu_device (acknowledge S E t) = tu_device t"
  by (simp add: acknowledge_def transmit_def Let_def case_prod_beta split: option.split)

lemma receive_delivers:
  assumes parsed: "tunnel_parse (se_outer S) (fst (tu_local t)) frame = Some seg" and "\<not> has seg SYN"
    and "g_payload seg \<noteq> []" and "se_spoof_sni S = None"
    and "\<not> handshake_sized (se_initiator S) (length (g_payload seg))"
    and opened: "peer_open C N (tu_state t) (g_payload seg) MAX_INNER (en_now E) = (Some (Inr packet), st)"
    and "ps_carrier st = Some w" and "can_announce E w"
    and ok: "acceptable S packet" "idle_coalescer (tu_coalescer t)"
      "en_device E (device_form (tu_coalescer t) packet) = Written"
  shows "tu_device (receive_batch C N S E [(E, frame)] t) = tu_device t @ [device_form (tu_coalescer t) packet]"
proof -
  define hdr where "hdr = Option.bind (peer_mask (tu_state t))
    (\<lambda>mask. case peek_header C mask (g_payload seg) of Inl _ \<Rightarrow> None | Inr h \<Rightarrow> Some h)"
  obtain asking t1 where heard: "transport_heard C S E seg hdr (length packet) (set_state st t) = (Inr asking, t1)"
    "tu_device t1 = tu_device t" "tu_coalescer t1 = tu_coalescer t"
    using transport_heard_succeeds [of "set_state st t" w E C S seg hdr "length packet"] assms(7,8) by auto
  define t2 where "t2 = bump_by RxBytes (of_nat (length packet)) (bump RxPackets t1)"
  define t3 where "t3 = (if asking \<noteq> [] then ask_for C N S E asking t2 else t2)"
  have t3: "tu_device t3 = tu_device t" "tu_coalescer t3 = tu_coalescer t"
    using heard(2,3) by (simp_all add: t3_def t2_def)
  have "handle_segment C N S E seg MAX_INNER reply t = handle_transport C N S E seg MAX_INNER t" for reply
    using assms(2-5) by (auto simp: handle_segment_def handle_cover_def handshake_sized_def Let_def)
  moreover have "handle_transport C N S E seg MAX_INNER t = deliver S E packet t3"
    using opened heard(1) acceptable_not_control [OF ok(1)]
    by (simp add: handle_transport_def hdr_def [symmetric] transport_control_def Let_def t3_def t2_def)
  moreover obtain t4 t5 where "deliver S E packet t3 = (Inr (), t4)" "flush_inner E t4 = (Inr (), t5)"
      "tu_device t5 = tu_device t @ [device_form (tu_coalescer t) packet]"
    using deliver_flushed [OF ok(1), of t3 E] ok(2,3) t3 by auto
  ultimately show ?thesis
    using parsed by (simp add: receive_batch_def end_batch_def receive_frame_def)
qed

text \<open>C1. End to end.  A packet handed to one tunnel is sealed, put into one frame to its peer, and written to
  the device of the peer's tunnel by the batch that captures that frame: for matched sessions, for every shape of
  carrier and every way of opening one, with or without record headers, with or without grouping of device writes,
  and whatever the state of repeating.  The conditions: the sender's carrier is ready and of the receiver's shape, at
  a record boundary; both sessions are live and the receiver has not seen the counter; there is room for the sealed
  packet and its frame; the packet passes the receiver's checks and its sealed length is not that of a handshake
  message; neither end plays the decoy handshake; the network and the device take what they are given; and the
  receiver holds nothing over from another batch.\<close>
theorem tunnel_delivers:
  assumes crypto: "crypto_ok C" "transports_paired N (s_transport s) (s_transport r)"
      "s_mask r = s_mask s" "s_local_index r = s_remote_index s"
    and sender: "ps_session (tu_state a) = Some s" "\<not> is_expired s (en_now Ea)"
      "s_send_counter s < REJECT_AFTER_MESSAGES" "ps_carrier (tu_state a) = Some w"
      "wire_suits (se_outer Sb) (fst (tu_local b)) w" "se_spoof_sni Sa = None" "worth_carrying packet"
      "en_tx Ea = (\<lambda>_ _. True)"
    and room: "length packet \<le> MAX_INNER" "length packet + OVERHEAD \<le> length sealed"
      "wire_overhead w + length packet + OVERHEAD \<le> length frame"
    and receiver: "ps_session (tu_state b) = Some r" "\<not> is_expired r (en_now Eb)"
      "check (s_replay r) (s_send_counter s)" "ps_carrier (tu_state b) = Some v" "can_announce Eb v"
      "se_spoof_sni Sb = None" "\<not> handshake_sized (se_initiator Sb) (length packet + OVERHEAD)"
      "acceptable Sb packet" "idle_coalescer (tu_coalescer b)"
      "en_device Eb (device_form (tu_coalescer b) packet) = Written"
  shows "\<exists>sent a'. send_inner C N Sa Ea packet sealed frame a = (Inr (), a') \<and>
    tu_out a' = tu_out a @ [(sent, fst (wire_remote w))] \<and>
    tu_device (receive_batch C N Sb Eb [(Eb, captured sent)] b) = tu_device b @ [device_form (tu_coalescer b) packet]"
proof -
  have "length packet + 16 \<le> 65535"
    using room(1) by (simp add: MAX_INNER_def)
  then obtain out where out: "seal C N s packet sealed (en_now Ea) =
        (Inr (length packet + OVERHEAD, out), s\<lparr>s_send_counter := s_send_counter s + 1\<rparr>)"
      "length packet + OVERHEAD \<le> length out"
      "open_packet C N r (take (length packet + OVERHEAD) out) MAX_INNER (en_now Eb) =
         (Inr packet, r\<lparr>s_replay := commit (s_replay r) (s_send_counter s)\<rparr>)"
    using sealed_opens [OF crypto room(2) _ sender(2,3)] room(1) receiver(2,3) by metis
  define payload where "payload = take (length packet + OVERHEAD) out"
  have payload: "length payload = length packet + OVERHEAD"
    using out(2) by (simp add: payload_def)
  have "shell_overhead sh \<le> 28" for sh
    by (cases sh) (simp_all add: shell_overhead_def raw_consts IPV4_LEN_def)
  from this [of "case w of WRaw c \<Rightarrow> rw_shell c | WTcp _ \<Rightarrow> Gre"] have "length payload \<le> wire_limit w"
    using room(1) payload
    by (simp add: wire_limit_def MAX_INNER_def MAX_SPAN_def MAX_RECORD_def framing_consts split: wire.splits)
  moreover have "wire_overhead w + length payload \<le> length frame"
    using room(3) payload by simp
  ultimately obtain n buf w' seg where sent: "wire_data w payload frame (en_now Ea) True (Some (length payload)) = (Inr (n, buf), w')"
      "n \<le> length buf" "tunnel_parse (se_outer Sb) (fst (tu_local b)) (captured (take n buf)) = Some seg"
      "g_payload seg = payload" "\<not> has seg SYN" "fst (wire_remote w') = fst (wire_remote w)"
    using sent_reads [OF sender(5)] by metis
  have "wire_is_ready w"
    using sender(5) by (cases w) (auto simp: wire_suits_def split: shape.splits)
  then have "\<exists>a'. send_inner C N Sa Ea packet sealed frame a = (Inr (), a') \<and>
      tu_out a' = tu_out a @ [(take n buf, fst (wire_remote w))]"
    using send_inner_sends [OF sender(1,2,4) _ sender(6,7) out(1,2), of frame n buf w'] sent sender(8) payload
    by (auto simp: payload_def)
  moreover have "tu_device (receive_batch C N Sb Eb [(Eb, captured (take n buf))] b) =
      tu_device b @ [device_form (tu_coalescer b) packet]"
  proof (rule receive_delivers [OF sent(3,5) _ receiver(6) _ _ _ receiver(5,8-10)])
    show "peer_open C N (tu_state b) (g_payload seg) MAX_INNER (en_now Eb) = (Some (Inr packet),
        (tu_state b)\<lparr>ps_session := Some (r\<lparr>s_replay := commit (s_replay r) (s_send_counter s)\<rparr>),
          ps_confirm_owed := False, ps_confirm_tries := 0\<rparr>)"
      using out(3) receiver(1) by (simp add: peer_open_def sent(4) payload_def not_this_one_def)
  qed (use sent(4) payload receiver in \<open>auto simp: framing_consts\<close>)
  ultimately show ?thesis
    by blast
qed

definition sample_end :: "bool \<Rightarrow> sock \<Rightarrow> sock \<Rightarrow> nat session \<Rightarrow> (toy_hs, nat) tunnel" where
  "sample_end initiates ours peer s =
     sample_start\<lparr>tu_state := (peer_new (Some peer) limits_off)\<lparr>ps_session := Some s,
        ps_carrier := Some (make_wire (se_outer (sample_settings (ShapeRaw Gre) initiates))
          (if initiates then Initiator else Responder) ours peer (0, 0, 0))\<rparr>,
      tu_local := ours, tu_coalescer := None\<rparr>"

definition sample_packet :: bytes where
  "sample_packet = [0x45, 0, 0, 20, 0, 0, 0, 0, 64, 1, 0, 0, 10, 7, 0, 5, 10, 7, 0, 1]"

lemma sample_packet_acceptable: "acceptable (sample_settings sh b) sample_packet" "worth_carrying sample_packet"
proof -
  have "inner_source sample_packet = Some (Ipv4 10 7 0 5)" "inner_addresses6 sample_packet = None"
    "get sample_packet 0 = Some 0x45"
    by code_simp+
  moreover have "in_network (Ipv4 10 7 0 5) (Ipv4 10 7 0 0) 24" "plausible_source (Ipv4 10 7 0 5)"
    "drop_bit 4 (0x45 :: u8) = 4"
    by code_simp+
  ultimately show "acceptable (sample_settings sh b) sample_packet" "worth_carrying sample_packet"
    by (simp_all add: acceptable_def worth_carrying_def permits_def sample_settings_def)
qed

theorem tunnel_delivers_witness:
  "\<exists>sent a'. send_inner toy_crypto toy_snow (sample_settings (ShapeRaw Gre) True) (sample_env 9) sample_packet
      (replicate 100 0) (replicate 200 0)
      (sample_end True (Ipv4 10 0 0 1, 0) (Ipv4 10 0 0 2, 0) (toy_session 4 9 True)) = (Inr (), a') \<and>
    tu_out a' = [(sent, Ipv4 10 0 0 2)] \<and>
    tu_device (receive_batch toy_crypto toy_snow (sample_settings (ShapeRaw Gre) False) (sample_env 9)
      [(sample_env 9, captured sent)]
      (sample_end False (Ipv4 10 0 0 2, 0) (Ipv4 10 0 0 1, 0) (toy_session 9 4 False))) = [WriteOne sample_packet]"
proof -
  let ?a = "sample_end True (Ipv4 10 0 0 1, 0) (Ipv4 10 0 0 2, 0) (toy_session 4 9 True)"
  let ?b = "sample_end False (Ipv4 10 0 0 2, 0) (Ipv4 10 0 0 1, 0) (toy_session 9 4 False)"
  let ?w = "make_wire (se_outer (sample_settings (ShapeRaw Gre) True)) Initiator (Ipv4 10 0 0 1, 0) (Ipv4 10 0 0 2, 0) (0, 0, 0)"
  have len: "length sample_packet = 20"
    by (simp add: sample_packet_def)
  have "\<exists>sent a'. send_inner toy_crypto toy_snow (sample_settings (ShapeRaw Gre) True) (sample_env 9) sample_packet
      (replicate 100 0) (replicate 200 0) ?a = (Inr (), a') \<and>
    tu_out a' = tu_out ?a @ [(sent, fst (wire_remote ?w))] \<and>
    tu_device (receive_batch toy_crypto toy_snow (sample_settings (ShapeRaw Gre) False) (sample_env 9)
      [(sample_env 9, captured sent)] ?b) = tu_device ?b @ [device_form (tu_coalescer ?b) sample_packet]"
  proof (rule tunnel_delivers [where s = "toy_session 4 9 True" and r = "toy_session 9 4 False"])
    show "wire_suits (se_outer (sample_settings (ShapeRaw Gre) False)) (fst (tu_local ?b)) ?w"
      by (simp add: wire_suits_def make_wire_def sample_settings_def sample_tunnel_def raw_new_def sample_end_def)
    show "can_announce (sample_env 9) (make_wire (se_outer (sample_settings (ShapeRaw Gre) False)) Responder (Ipv4 10 0 0 2, 0) (Ipv4 10 0 0 1, 0) (0, 0, 0))"
      by (simp add: can_announce_def make_wire_def sample_settings_def sample_tunnel_def)
    show "wire_overhead ?w + length sample_packet + OVERHEAD \<le> length (replicate 200 (0 :: u8))"
      by (simp add: len wire_overhead_def make_wire_def sample_settings_def sample_tunnel_def raw_new_def
          shell_overhead_def raw_consts IPV4_LEN_def framing_consts)
    show "\<not> handshake_sized (se_initiator (sample_settings (ShapeRaw Gre) False)) (length sample_packet + OVERHEAD)"
      by (simp add: len handshake_sized_def sample_settings_def sample_tunnel_def MSG1_LEN_def PAYLOAD_LEN_def MAC1_LEN_def
          framing_consts)
    show "check (s_replay (toy_session 9 4 False)) (s_send_counter (toy_session 4 9 True))"
      by code_simp
  qed (simp_all add: toy_paired toy_session_def sample_end_def sample_settings_def sample_env_def is_expired_def
      saturating_sub_def REJECT_AFTER_TIME_def reject_after_messages len framing_consts MAX_INNER_def
      idle_coalescer_def device_form_def sample_packet_acceptable [unfolded sample_settings_def])
  then show ?thesis
    by (simp add: device_form_def sample_end_def sample_start_def make_wire_def sample_settings_def sample_tunnel_def raw_new_def)
qed

section \<open>Bursts\<close>

text \<open>C32. What a burst counts.  The counters of packets and bytes sent grow by exactly the frames the kernel
  took, a prefix of the ones sealed; except that when the whole batch is refused, nothing has left and
  all of it stays counted as sent.\<close>
theorem burst_accounting:
  assumes "seal_burst C N S E (zip packets (record_opens (map length packets))) t = (ready, t1)"
    and "unat (tu_stats t TxPackets) + length ready < 2 ^ 64"
    and "unat (tu_stats t TxBytes) + inner_total ready < 2 ^ 64"
    and "left = (case outcome of None \<Rightarrow> ready | Some n \<Rightarrow> take n ready)"
  shows "tu_stats (tun_burst C N S E packets outcome t) TxPackets = tu_stats t TxPackets + of_nat (length left) \<and>
    tu_stats (tun_burst C N S E packets outcome t) TxBytes = tu_stats t TxBytes + of_nat (inner_total left) \<and>
    tu_out (tun_burst C N S E packets outcome t) =
      tu_out t1 @ (case outcome of None \<Rightarrow> [] | Some n \<Rightarrow> frames_of (take n ready))"
proof -
  note c = seal_burst_counted [OF assms(1)]
  have f: "List.map_filter fst ready = map (the \<circ> fst) ready"
    using c by (simp add: map_filter_total)
  have z: "zip (map (the \<circ> fst) (take n rs)) (map (snd \<circ> snd) rs) = frames_of (take n rs)"
    "zip (map (the \<circ> fst) rs) (map (snd \<circ> snd) rs) = frames_of rs" for n and rs :: "sealed_frame list"
    by (induction rs arbitrary: n) (simp_all add: take_Cons split: nat.split)
  show ?thesis
  proof (cases outcome)
    case None
    then show ?thesis
      using c assms(1,4) by (simp add: tun_burst_def send_burst_def note_outbound_def)
  next
    case (Some n)
    have "inner_total ready = inner_total (take n ready) + inner_total (drop n ready)"
      by (metis append_take_drop_id map_append sum_list_append)
    then have bytes: "saturating_sub (tu_stats t TxBytes + of_nat (inner_total ready)) (of_nat (inner_total (drop n ready)))
        = tu_stats t TxBytes + of_nat (inner_total (take n ready))"
      using saturating_take_back [of "tu_stats t TxBytes" "inner_total ready" "inner_total (drop n ready)"] assms(3)
      by simp
    have packets: "saturating_sub (tu_stats t TxPackets + of_nat (length ready)) (of_nat (length ready) - of_nat n)
        = tu_stats t TxPackets + of_nat n" if "n \<le> length ready"
      using saturating_take_back [of "tu_stats t TxPackets" "length ready" "length ready - n"] assms(2) that
      by (simp add: of_nat_diff)
    have sum: "sum_list (map (\<lambda>r. of_nat (fst (snd r))) rs) = (of_nat (inner_total rs) :: u64)" for rs :: "sealed_frame list"
      by (induction rs) simp_all
    show ?thesis
      using c assms(1,4) Some
      by (auto simp: tun_burst_def send_burst_def f z take_map sum bytes packets min_def Let_def)
  qed
qed

lemma seal_burst_bound:
  assumes "seal_burst C N S E packets t = (ready, t')"
  shows "length ready \<le> length packets \<and> inner_total ready \<le> sum_list (map (length \<circ> fst) packets)"
  using assms
  by (induction C N S E packets t arbitrary: ready t' rule: seal_burst.induct)
    (fastforce split: prod.splits sum.splits option.splits)+

theorem burst_accounting_witness:
  "\<exists>ready t1. seal_burst toy_crypto toy_snow (sample_settings (ShapeRaw Gre) True) (sample_env 9)
      (zip [sample_packet, sample_packet] (record_opens (map length [sample_packet, sample_packet])))
      (sample_end True (Ipv4 10 0 0 1, 0) (Ipv4 10 0 0 2, 0) (toy_session 4 9 True)) = (ready, t1) \<and>
    tu_stats (tun_burst toy_crypto toy_snow (sample_settings (ShapeRaw Gre) True) (sample_env 9)
      [sample_packet, sample_packet] (Some 1)
      (sample_end True (Ipv4 10 0 0 1, 0) (Ipv4 10 0 0 2, 0) (toy_session 4 9 True))) TxPackets
    = of_nat (length (take 1 ready))"
proof -
  let ?t = "sample_end True (Ipv4 10 0 0 1, 0) (Ipv4 10 0 0 2, 0) (toy_session 4 9 True)"
  let ?b = "zip [sample_packet, sample_packet] (record_opens (map length [sample_packet, sample_packet]))"
  obtain ready t1 where r: "seal_burst toy_crypto toy_snow (sample_settings (ShapeRaw Gre) True) (sample_env 9) ?b ?t = (ready, t1)"
    by fastforce
  have z: "tu_stats ?t c = 0" for c
    by (simp add: sample_end_def sample_start_def)
  have "length ?b \<le> 2" "sum_list (map (length \<circ> fst) ?b) \<le> 100"
    by (simp_all add: sample_packet_def zip_Cons split: list.split)
  then have "length ready \<le> 2" "inner_total ready \<le> 100"
    using seal_burst_bound [OF r] by linarith+
  then show ?thesis
    using burst_accounting [OF r, of "take 1 ready" "Some 1"] r by (simp add: z)
qed


definition sample_records :: settings where
  "sample_records = (sample_settings (ShapeTcp Midstream) True)\<lparr>se_outer := sample_tunnel (ShapeTcp Midstream) True True\<rparr>"

definition sample_writer :: "(toy_hs, nat) tunnel" where
  "sample_writer = sample_start\<lparr>tu_state := (peer_new (Some (Ipv4 10 0 0 2, 443)) limits_off)
     \<lparr>ps_session := Some (toy_session 4 9 True),
      ps_carrier := Some (make_wire (se_outer sample_records) Initiator (Ipv4 10 0 0 1, 4000) (Ipv4 10 0 0 2, 443) (1, 2, 3))\<rparr>\<rparr>"

definition sample_report :: bytes where
  "sample_report = [0x60, 0, 0, 0, 0, 0, 0, 1] @ [0xFE, 0x80] @ replicate 14 0 @ [0xFF, 2] @ replicate 13 0 @ [0x16]"



end
