(* ===== verification/Idle.thy ===== *)
theory Idle
  imports Delivery
begin

text \<open>
  A tunnel that carries no data (\<open>timers\<close>, \<open>maybe_keepalive\<close> and \<open>handle_transport\<close> of \<^verbatim>\<open>paqetz/src/tunnel.rs\<close>): how
  many empty packets it sends between handshakes.
\<close>

section \<open>What is owed\<close>

text \<open>How many empty packets a state may still send: the confirmations left, or one keepalive for data
  that arrived and was not answered.  It depends on the clocks of \<open>pulse\<close> alone.\<close>

definition quota :: "('hs, 'tr) peer_state \<Rightarrow> nat" where
  "quota st = (if ps_confirm_owed st then max 1 (4 - unat (ps_confirm_tries st))
               else if ps_last_data_receive st \<noteq> None \<and> last_spoke st < the (ps_last_data_receive st) then 1 else 0)"

definition pulse :: "('hs, 'tr) peer_state \<Rightarrow> bool \<times> u8 \<times> Millis option \<times> Millis option \<times> Millis option" where
  "pulse st = (ps_confirm_owed st, ps_confirm_tries st, ps_last_data_receive st, ps_last_send st, ps_last_keepalive st)"

lemma pulse_sel:
  assumes "pulse st = pulse st'"
  shows "ps_confirm_owed st = ps_confirm_owed st'" "ps_confirm_tries st = ps_confirm_tries st'"
    "ps_last_data_receive st = ps_last_data_receive st'" "ps_last_send st = ps_last_send st'"
    "ps_last_keepalive st = ps_last_keepalive st'"
  using assms by (simp_all add: pulse_def)

lemma pulse_quota: "pulse st = pulse st' \<Longrightarrow> quota st = quota st'"
  by (simp add: quota_def last_spoke_def pulse_sel [of st st'])

lemma pulse_confirm [simp]: "pulse (confirm st) = pulse st"
  by (simp add: confirm_def pulse_def split: option.split)

lemma pulse_retire [simp]: "pulse (retire_expired st now) = pulse st"
  by (simp add: retire_expired_def pulse_def Let_def)

lemma seal_under_empty:
  "pulse (tu_state (snd (seal_under C N S E [] sealed frame push rec s t))) = pulse (tu_state t)"
  "tu_out (snd (seal_under C N S E [] sealed frame push rec s t)) = tu_out t"
  by (simp_all add: seal_under_def Let_def pulse_def note_sent_def carried_def case_prod_beta split: sum.split option.split)

lemma seal_into_empty:
  assumes "se_spoof_sni S = None"
  shows "pulse (tu_state (snd (seal_into C N S E [] sealed frame push rec t))) = pulse (tu_state t)"
    and "tu_out (snd (seal_into C N S E [] sealed frame push rec t)) = tu_out t"
proof -
  have wants: "pulse (wants_to_send st) = pulse st" for st :: "('a, 'b) peer_state"
    by (simp add: wants_to_send_def pulse_def)
  have cover: "send_cover S E u = u" for u :: "('a, 'b) tunnel"
    using assms by (simp add: send_cover_def)
  show "pulse (tu_state (snd (seal_into C N S E [] sealed frame push rec t))) = pulse (tu_state t)"
    "tu_out (snd (seal_into C N S E [] sealed frame push rec t)) = tu_out t"
    by (simp_all add: seal_into_def Let_def cover wants seal_under_empty split: option.split)
qed

lemma send_inner_empty:
  assumes "se_spoof_sni S = None" and "send_inner C N S E [] sealed frame t = (r, t')"
  shows "pulse (tu_state t') = pulse (tu_state t)"
    and "length (tu_out t') \<le> length (tu_out t) + (if isl r then 0 else 1)"
proof -
  obtain x u where u: "seal_into C N S E [] sealed frame True (Some (length ([] :: bytes) + OVERHEAD)) t = (x, u)"
    by fastforce
  then have keep: "pulse (tu_state u) = pulse (tu_state t)" "tu_out u = tu_out t"
    using seal_into_empty [OF assms(1), of C N E sealed frame True "Some (length ([] :: bytes) + OVERHEAD)" t] by simp_all
  then show "pulse (tu_state t') = pulse (tu_state t)"
      "length (tu_out t') \<le> length (tu_out t) + (if isl r then 0 else 1)"
    using assms(2) u
    by (auto simp: send_inner_def send_or_fail_def transmit_def split: sum.splits option.splits prod.splits if_splits)
qed


text \<open>An empty packet that goes out when one is owed uses up a part of the quota.\<close>

lemma note_keepalive_quota:
  assumes "owes_empty st now ka None" and "\<forall>heard. ps_last_data_receive st = Some heard \<longrightarrow> heard \<le> now"
  shows "1 + quota (note_keepalive st now) \<le> quota st"
proof -
  let ?st = "note_keepalive st now"
  have spoke: "ps_last_keepalive ?st = Some now" "ps_last_send ?st = ps_last_send st"
    "ps_last_data_receive ?st = ps_last_data_receive st"
    by (simp_all add: note_keepalive_def Let_def)
  have "now \<le> last_spoke ?st"
    using spoke by (auto simp: last_spoke_def split: option.split)
  then have answered: "\<not> (ps_last_data_receive ?st \<noteq> None \<and> last_spoke ?st < the (ps_last_data_receive ?st))"
    using assms(2) spoke(3) by (cases "ps_last_data_receive st") (auto simp: not_less intro: order_trans)
  show ?thesis
  proof (cases "ps_confirm_owed st")
    case True
    let ?tries = "saturating_add (ps_confirm_tries st) 1"
    have "ps_confirm_tries ?st = ?tries" "ps_confirm_owed ?st = (?tries < CONFIRM_TRIES)"
      using True by (simp_all add: note_keepalive_def Let_def)
    moreover have "unat ?tries = min (unat (ps_confirm_tries st) + 1) 255"
      by (simp add: unat_saturating_add)
    ultimately show ?thesis
      using True answered by (auto simp: quota_def CONFIRM_TRIES_def word_less_nat_alt)
  next
    case False
    then have "owes_keepalive st now" "\<not> ps_confirm_owed ?st"
      using assms(1) by (auto simp: owes_empty_def note_keepalive_def Let_def)
    then show ?thesis
      using False answered by (auto simp: quota_def owes_keepalive_def split: option.splits)
  qed
qed

text \<open>The clock has not gone back behind the last data heard.\<close>

definition clock_ok :: "environment \<Rightarrow> ('hs, 'tr) tunnel \<Rightarrow> bool" where
  "clock_ok E t = (case ps_last_data_receive (tu_state t) of None \<Rightarrow> True | Some heard \<Rightarrow> heard \<le> en_now E)"

lemma owes_empty_pulse:
  assumes "pulse st = pulse st'"
  shows "owes_empty st now ka p = owes_empty st' now ka p"
proof -
  have "last_spoke st = last_spoke st'"
    by (simp add: last_spoke_def pulse_sel [OF assms])
  then show ?thesis
    by (simp add: owes_empty_def owes_keepalive_def owes_persistent_def pulse_sel [OF assms] cong: option.case_cong)
qed

lemma maybe_keepalive_quota:
  assumes "se_spoof_sni S = None" "se_persistent_keepalive S = None" and "clock_ok E t"
    and "maybe_keepalive C N S E sealed frame t = (r, t')"
  shows "length (tu_out t') + quota (tu_state t') \<le> length (tu_out t) + quota (tu_state t)"
    and "ps_last_send (tu_state t') = ps_last_send (tu_state t)"
    and "ps_last_data_receive (tu_state t') = ps_last_data_receive (tu_state t)"
proof -
  have "length (tu_out t') + quota (tu_state t') \<le> length (tu_out t) + quota (tu_state t) \<and>
    ps_last_send (tu_state t') = ps_last_send (tu_state t) \<and>
    ps_last_data_receive (tu_state t') = ps_last_data_receive (tu_state t)"
  proof (cases "ps_session (tu_state t) \<noteq> None \<and> owes_empty (tu_state t) (en_now E) (se_keepalive S) None")
    case False
    then show ?thesis
      using assms(4) unfolding maybe_keepalive_def assms(2) by (auto split: if_splits)
  next
    case True
    obtain x u where u: "send_inner C N S E [] sealed frame t = (x, u)"
      by fastforce
    note sent = send_inner_empty [OF assms(1) u]
    have t': "t' = (if isl x then u else set_state (note_keepalive (tu_state u) (en_now E)) u)"
      using assms(4) True u unfolding maybe_keepalive_def assms(2) by (auto split: sum.splits)
    have "\<not> isl x \<Longrightarrow> 1 + quota (note_keepalive (tu_state u) (en_now E)) \<le> quota (tu_state u)"
      using note_keepalive_quota [of "tu_state u" "en_now E" "se_keepalive S"] True assms(3)
        owes_empty_pulse [OF sent(1)] pulse_sel(3) [OF sent(1)]
      by (auto simp: clock_ok_def split: option.splits)
    then show ?thesis
      using sent(2) pulse_quota [OF sent(1)] pulse_sel(3,4) [OF sent(1)]
      by (auto simp: t' note_keepalive_def Let_def split: if_splits)
  qed
  then show "length (tu_out t') + quota (tu_state t') \<le> length (tu_out t) + quota (tu_state t)"
    "ps_last_send (tu_state t') = ps_last_send (tu_state t)"
    "ps_last_data_receive (tu_state t') = ps_last_data_receive (tu_state t)"
    by blast+
qed

section \<open>Rounds and arrivals\<close>

text \<open>A round in which nothing else is due: no handshake, no move to another port or standby for one, and no
  connection to open.  An end that waits has none of these.\<close>

definition settled :: "settings \<Rightarrow> environment \<Rightarrow> ('hs, 'tr) tunnel \<Rightarrow> bool" where
  "settled S E t \<longleftrightarrow>
     (if se_initiator S
      then
        let st = retire_expired (tu_state t) (en_now E); ro = se_rotation S in
        \<not> wants_handshake st (en_now E) \<and>
        (ro_enabled ro \<and> shape_rotates (tc_shape (se_outer S)) \<and> 2 \<le> length (se_ports S) \<longrightarrow>
          fst (move_due st (en_now E) ro (en_first_rotate E)) = None \<and>
          (tunnel_opening (se_outer S) \<noteq> Some Handshake \<or> ps_standby st \<noteq> None \<or> \<not> move_near st (en_now E) ro)) \<and>
        (case Option.bind (ps_carrier (tu_state t)) wire_tcp of None \<Rightarrow> True | Some e \<Rightarrow> \<not> wants_opening e)
      else True)"

lemma move_due_pulse: "pulse (snd (move_due st now ro rnd)) = pulse st \<and> ps_carrier (snd (move_due st now ro rnd)) = ps_carrier st"
  by (simp add: move_due_def pulse_def Let_def)

lemma settled_rotate:
  assumes "settled S E t" and "se_initiator S" and u: "u = set_state (retire_expired (tu_state t) (en_now E)) t"
  shows "\<exists>st. maybe_rotate C N S E sealed frame u = set_state st u \<and> pulse st = pulse (tu_state u) \<and>
    ps_carrier st = ps_carrier (tu_state u)"
proof (cases "\<not> ro_enabled (se_rotation S) \<or> \<not> shape_rotates (tc_shape (se_outer S)) \<or> length (se_ports S) < 2")
  case True
  then show ?thesis
    by (intro exI [of _ "tu_state u"]) (simp add: maybe_rotate_def Let_def)
next
  case False
  let ?m = "move_due (tu_state u) (en_now E) (se_rotation S) (en_first_rotate E)"
  have st: "tu_state u = retire_expired (tu_state t) (en_now E)"
    by (simp add: u)
  obtain st where m: "?m = (None, st)"
    using assms(1,2) False unfolding settled_def st by (cases ?m) (auto simp: st Let_def)
  have "\<not> (tunnel_opening (se_outer S) = Some Handshake \<and> ps_session (tu_state u) \<noteq> None \<and> ps_standby (tu_state u) = None \<and>
      (case ps_carrier (tu_state u) of None \<Rightarrow> False | Some w \<Rightarrow> wire_is_ready w) \<and> move_near (tu_state u) (en_now E) (se_rotation S))"
    using assms(1,2) False unfolding settled_def st by (auto simp: Let_def)
  then have "maybe_rotate C N S E sealed frame u = set_state st u"
    using False m by (auto simp: maybe_rotate_def Let_def)
  then show ?thesis
    using move_due_pulse [of "tu_state u" "en_now E" "se_rotation S" "en_first_rotate E"] m by auto
qed

lemma settled_round:
  assumes "settled S E t"
  shows "\<exists>u. timer_round C N S E t =
      snd (maybe_keepalive C N S E (replicate (MAX_INNER + OVERHEAD) 0) (replicate MAX_TIMER_FRAME 0) u) \<and>
    pulse (tu_state u) = pulse (tu_state t) \<and> tu_out u = tu_out t"
proof (cases "se_initiator S")
  case False
  then show ?thesis
    by (auto simp: timer_round_def Let_def)
next
  case True
  define u where "u = set_state (retire_expired (tu_state t) (en_now E)) t"
  have handshake: "maybe_handshake C N S E frame t = (Inr (), u)" for frame
    using assms True by (simp add: maybe_handshake_def settled_def u_def Let_def)
  obtain st where st: "maybe_rotate C N S E (replicate (MAX_INNER + OVERHEAD) 0) (replicate MAX_TIMER_FRAME 0) u = set_state st u"
      "pulse st = pulse (tu_state u)" "ps_carrier st = ps_carrier (tu_state u)"
    using settled_rotate [OF assms True u_def] by blast
  have "ps_carrier (tu_state u) = ps_carrier (tu_state t)" "pulse (tu_state u) = pulse (tu_state t)"
    by (simp_all add: u_def retire_expired_def pulse_def Let_def)
  note same = st(2,3) [unfolded this]
  have "knock C S E frame (set_state st u) = (Inr False, set_state st u)" for frame
    using assms True same(2) by (auto simp: knock_def settled_def Let_def split: option.splits)
  then have "maybe_open C S E frame (set_state st u) = (Inr (), set_state st u)" for frame
    by (simp add: maybe_open_def)
  moreover have "tu_out u = tu_out t"
    by (simp add: u_def)
  ultimately show ?thesis
    using True same(1) by (intro exI [of _ "set_state st u"]) (simp add: timer_round_def Let_def handshake st(1))
qed

text \<open>An empty packet of the peer comes in, from the address it is known to have.\<close>

definition hears_empty ::
  "crypto \<Rightarrow> ('hs, 'tr) snow \<Rightarrow> settings \<Rightarrow> environment \<Rightarrow> bytes \<Rightarrow> ('hs, 'tr) tunnel \<Rightarrow> bool" where
  "hears_empty C N S E frame t =
     (case tunnel_parse (se_outer S) (fst (tu_local t)) frame of
        None \<Rightarrow> False
      | Some seg \<Rightarrow> \<not> has seg SYN \<and> g_payload seg \<noteq> [] \<and>
          \<not> handshake_sized (se_initiator S) (length (g_payload seg)) \<and>
          fst (peer_open C N (tu_state t) (g_payload seg) MAX_INNER (en_now E)) = Some (Inr []) \<and>
          (case ps_carrier (tu_state t) of None \<Rightarrow> True | Some w \<Rightarrow> wire_remote w = g_src seg))"

lemma peer_open_pulse:
  assumes "peer_open C N st packet n now = (r, st')"
  shows "ps_last_data_receive st' = ps_last_data_receive st" "ps_last_send st' = ps_last_send st"
    "quota st' \<le> quota st" "ps_carrier st' = ps_carrier st"
proof -
  have waiting: "pulse (snd (open_waiting C N u packet n now tried)) = pulse u \<and>
      ps_carrier (snd (open_waiting C N u packet n now tried)) = ps_carrier u" for u tried
    by (auto simp: open_waiting_def pulse_def confirm_def split: option.split sum.split prod.split)
  have pulse_session: "pulse (u\<lparr>ps_session := x\<rparr>) = pulse u" "pulse (u\<lparr>ps_previous := y\<rparr>) = pulse u"
    for u :: "('a, 'b) peer_state" and x y
    by (simp_all add: pulse_def)
  have previous: "pulse (snd (open_previous C N u packet n now tried)) = pulse u \<and>
      ps_carrier (snd (open_previous C N u packet n now tried)) = ps_carrier u" for u tried
    using waiting by (auto simp: open_previous_def pulse_session Let_def split: option.split prod.split)
  have either: "(pulse st' = pulse st \<or> pulse st' = pulse (st\<lparr>ps_confirm_owed := False, ps_confirm_tries := 0\<rparr>)) \<and>
      ps_carrier st' = ps_carrier st"
  proof (cases "ps_session st")
    case None
    then show ?thesis
      using assms previous [of st None] by (simp add: peer_open_def)
  next
    case (Some current)
    obtain q s' where q: "open_packet C N current packet n now = (q, s')"
      by fastforce
    show ?thesis
    proof (cases "not_this_one q")
      case True
      then have "st' = snd (open_previous C N (st\<lparr>ps_session := Some s'\<rparr>) packet n now (Some q))"
        using assms Some q by (simp add: peer_open_def)
      then show ?thesis
        using previous [of "st\<lparr>ps_session := Some s'\<rparr>" "Some q"] by (simp add: pulse_session)
    next
      case False
      then show ?thesis
        using assms Some q by (auto simp: peer_open_def pulse_def Let_def split: if_splits)
    qed
  qed
  have less: "quota (st\<lparr>ps_confirm_owed := False, ps_confirm_tries := 0\<rparr>) \<le> quota st"
    by (simp add: quota_def last_spoke_def)
  show "quota st' \<le> quota st"
    using either less pulse_quota [of st' st] pulse_quota [of st' "st\<lparr>ps_confirm_owed := False, ps_confirm_tries := 0\<rparr>"] by auto
  show "ps_last_data_receive st' = ps_last_data_receive st" "ps_last_send st' = ps_last_send st" "ps_carrier st' = ps_carrier st"
    using either by (auto simp: pulse_def)
qed

lemma transport_heard_empty:
  assumes "l_capacity (se_repeat S) = 0"
    and "case ps_carrier (tu_state t) of None \<Rightarrow> True | Some w \<Rightarrow> wire_remote w = g_src seg"
  shows "\<exists>t'. transport_heard C S E seg hdr 0 t = (Inr [], t') \<and> pulse (tu_state t') = pulse (tu_state t) \<and> tu_out t' = tu_out t"
proof -
  have quiet: "fst (take_up C cfg w seg False out now) = Inr None" for cfg w out now
    by (cases w) (simp_all add: take_up_def Let_def)
  show ?thesis
    using assms
    by (auto simp: transport_heard_def Let_def case_prod_beta quiet note_received_def carried_def pulse_def
        split: option.splits)
qed

lemma hears_empty_quota:
  assumes "se_spoof_sni S = None" and "l_capacity (se_repeat S) = 0" and "hears_empty C N S E frame t"
  defines "t' \<equiv> receive_frame C N S E frame t"
  shows "tu_out t' = tu_out t" "quota (tu_state t') \<le> quota (tu_state t)"
    "ps_last_send (tu_state t') = ps_last_send (tu_state t)"
proof -
  obtain seg st where seg: "tunnel_parse (se_outer S) (fst (tu_local t)) frame = Some seg" "\<not> has seg SYN" "g_payload seg \<noteq> []"
      "\<not> handshake_sized (se_initiator S) (length (g_payload seg))"
      "peer_open C N (tu_state t) (g_payload seg) MAX_INNER (en_now E) = (Some (Inr []), st)"
      "case ps_carrier (tu_state t) of None \<Rightarrow> True | Some w \<Rightarrow> wire_remote w = g_src seg"
    using assms(3) by (auto simp: hears_empty_def prod_eq_iff split: option.splits)
  note opened = peer_open_pulse [OF seg(5)]
  define hdr where "hdr = Option.bind (peer_mask (tu_state t))
    (\<lambda>mask. case peek_header C mask (g_payload seg) of Inl _ \<Rightarrow> None | Inr h \<Rightarrow> Some h)"
  obtain t1 where t1: "transport_heard C S E seg hdr 0 (set_state st t) = (Inr [], t1)" "pulse (tu_state t1) = pulse st"
      "tu_out t1 = tu_out t"
    using transport_heard_empty [OF assms(2), where t = "set_state st t" and seg = seg and C = C and E = E and hdr = hdr] seg(6) opened(4) by auto
  have "handle_segment C N S E seg MAX_INNER reply t = handle_transport C N S E seg MAX_INNER t" for reply
    using seg(2-4) assms(1) by (auto simp: handle_segment_def handle_cover_def handshake_sized_def Let_def)
  moreover have "handle_transport C N S E seg MAX_INNER t = (Inr (), bump_by RxBytes 0 (bump RxPackets t1))"
    using seg(5) t1(1)
    by (simp add: handle_transport_def hdr_def [symmetric] transport_control_def control_parse_def deliver_def inner_source_def Let_def)
  ultimately have "t' = bump_by RxBytes 0 (bump RxPackets t1)"
    unfolding t'_def using seg(1) by (simp add: receive_frame_def)
  then show "tu_out t' = tu_out t" "quota (tu_state t') \<le> quota (tu_state t)"
      "ps_last_send (tu_state t') = ps_last_send (tu_state t)"
    using t1 opened pulse_quota [OF t1(2)] pulse_sel(4) [OF t1(2)] by simp_all
qed

section \<open>An idle tunnel\<close>

text \<open>Runs in which the tunnel carries no data: rounds of its timer in which no handshake, move or opening is due, and
  empty packets of the peer, in any order.\<close>

inductive idle_run :: "crypto \<Rightarrow> ('hs, 'tr) snow \<Rightarrow> settings \<Rightarrow> ('hs, 'tr) tunnel \<Rightarrow> ('hs, 'tr) tunnel \<Rightarrow> bool"
  for C N S t where
  idle_start: "idle_run C N S t t"
| idle_round: "idle_run C N S t u \<Longrightarrow> settled S E u \<Longrightarrow> clock_ok E u \<Longrightarrow> idle_run C N S t (timer_round C N S E u)"
| idle_heard: "idle_run C N S t u \<Longrightarrow> hears_empty C N S E frame u \<Longrightarrow> idle_run C N S t (receive_frame C N S E frame u)"

lemma idle_run_quota:
  assumes "idle_run C N S t u" and "se_spoof_sni S = None" "se_persistent_keepalive S = None" "l_capacity (se_repeat S) = 0"
  shows "length (tu_out u) + quota (tu_state u) \<le> length (tu_out t) + quota (tu_state t) \<and>
    ps_last_send (tu_state u) = ps_last_send (tu_state t)"
  using assms(1)
proof (induction rule: idle_run.induct)
  case (idle_round u E)
  obtain v sealed frame where v: "timer_round C N S E u = snd (maybe_keepalive C N S E sealed frame v)"
      "pulse (tu_state v) = pulse (tu_state u)" "tu_out v = tu_out u"
    using settled_round [OF idle_round(2)] by metis
  obtain r w where w: "maybe_keepalive C N S E sealed frame v = (r, w)"
    by fastforce
  have "clock_ok E v"
    using idle_round(3) pulse_sel(3) [OF v(2)] by (simp add: clock_ok_def)
  from maybe_keepalive_quota [OF assms(2,3) this w] show ?case
    using idle_round(4) v(1,3) w pulse_quota [OF v(2)] pulse_sel(4) [OF v(2)] by simp
next
  case (idle_heard u E frame)
  then show ?case
    using hears_empty_quota [OF assms(2,4) idle_heard(2)] by simp
qed simp


lemma rounds_idle:
  assumes "se_spoof_sni S = None" "se_persistent_keepalive S = None" "\<not> se_initiator S"
    and "ps_last_data_receive (tu_state t) = None"
  shows "idle_run C N S t (fold (timer_round C N S) es t) \<and> ps_last_data_receive (tu_state (fold (timer_round C N S) es t)) = None"
proof (induction es rule: rev_induct)
  case Nil
  then show ?case
    using assms(4) by (simp add: idle_start)
next
  case (snoc E es)
  let ?u = "fold (timer_round C N S) es t"
  have ok: "settled S E ?u" "clock_ok E ?u"
    using assms(3) snoc by (simp_all add: settled_def clock_ok_def)
  obtain v sealed frame where v: "timer_round C N S E ?u = snd (maybe_keepalive C N S E sealed frame v)"
      "pulse (tu_state v) = pulse (tu_state ?u)"
    using settled_round [OF ok(1)] by metis
  obtain r w where w: "maybe_keepalive C N S E sealed frame v = (r, w)"
    by fastforce
  have "clock_ok E v"
    using ok(2) pulse_sel(3) [OF v(2)] by (simp add: clock_ok_def)
  from maybe_keepalive_quota(3) [OF assms(1,2) this w]
  have none: "ps_last_data_receive (tu_state (timer_round C N S E ?u)) = None"
    using snoc v(1) w pulse_sel(3) [OF v(2)] by simp
  have "idle_run C N S t (timer_round C N S E ?u)"
    by (rule idle_round [OF conjunct1 [OF snoc] ok])
  with none show ?case
    by simp
qed


end
