(* ===== verification/Dns.thy ===== *)
theory Dns
  imports Segment
begin

text \<open>
  The resolver of the SOCKS5 front end (\<open>paqetz-net4/src/dns.rs\<close>): building one question, stepping over
  names with compression, reading the addresses of a reply, and the order of attempts over UDP and TCP.
  A host name is its bytes.  What the network answers comes from a record of functions; every query that
  leaves is logged with the mark and the device of the socket it left by.
\<close>

section \<open>Errors\<close>

text \<open>The kinds of \<open>std::io::Error\<close> the crate raises or looks at; the texts are left out.\<close>

datatype io_kind =
    InvalidInput | InvalidData | NotFound | TimedOut | Unsupported | ConnectionRefused | HostUnreachable
  | NetworkUnreachable | PermissionDenied | UnexpectedEof | OtherError

section \<open>The question\<close>

definition MAX_REPLY :: nat where "MAX_REPLY = 1232"
definition MAX_JUMPS :: nat where "MAX_JUMPS = 16"
definition ATTEMPTS :: nat where "ATTEMPTS = 2"
definition TYPE_A :: u16 where "TYPE_A = 1"
definition CLASS_IN :: u16 where "CLASS_IN = 1"

text \<open>\<open>str::split\<close> on one character: always at least one piece.\<close>

fun split_on :: "'a \<Rightarrow> 'a list \<Rightarrow> 'a list list" where
  "split_on d [] = [[]]"
| "split_on d (x # xs) =
     (if x = d then [] # split_on d xs
      else case split_on d xs of p # ps \<Rightarrow> (x # p) # ps | [] \<Rightarrow> [[x]])"

definition strip_dot :: "bytes \<Rightarrow> bytes" where
  "strip_dot host = (if host \<noteq> [] \<and> last host = 46 then butlast host else host)"

fun encode_labels :: "bytes list \<Rightarrow> io_kind + bytes" where
  "encode_labels [] = Inr []"
| "encode_labels (label # labels) =
     (if 1 \<le> length label \<and> length label \<le> 63
      then rbind (encode_labels labels) (\<lambda>rest. Inr (of_nat (length label) # label @ rest))
      else Inl InvalidInput)"

definition encode_query :: "u16 \<Rightarrow> bytes \<Rightarrow> io_kind + bytes" where
  "encode_query ident host =
     (let h = strip_dot host in
      if h = [] \<or> length h > 253 then Inl InvalidInput
      else rbind (encode_labels (split_on 46 h)) (\<lambda>labels.
        Inr (to_be_bytes 2 ident @ to_be_bytes 2 (0x0100 :: u16) @ to_be_bytes 2 (1 :: u16)
             @ to_be_bytes 2 (0 :: u16) @ to_be_bytes 2 (0 :: u16) @ to_be_bytes 2 (0 :: u16)
             @ labels @ [0] @ to_be_bytes 2 TYPE_A @ to_be_bytes 2 CLASS_IN)))"

section \<open>The reply\<close>

definition truncated :: "bytes \<Rightarrow> bool" where
  "truncated msg = (case get msg 2 of None \<Rightarrow> False | Some flags \<Rightarrow> flags AND 0x02 \<noteq> 0)"

text \<open>The loop of \<open>skip_name\<close>: a jump uses up one of a bounded number, a label moves forward.\<close>

function skip_from :: "bytes \<Rightarrow> nat \<Rightarrow> nat \<Rightarrow> nat option \<Rightarrow> nat option" where
  "skip_from msg pos jumps fin =
     (case get msg pos of
        None \<Rightarrow> None
      | Some len \<Rightarrow>
          if len AND 0xC0 = 0xC0
          then (case get msg (pos + 1) of
                  None \<Rightarrow> None
                | Some lo \<Rightarrow>
                    (let target = unat (from_be_bytes [len AND 0x3F, lo] :: u16) in
                     if jumps + 1 > MAX_JUMPS \<or> target \<ge> length msg then None
                     else skip_from msg target (jumps + 1)
                            (case fin of Some f \<Rightarrow> Some f | None \<Rightarrow> Some (pos + 2))))
          else if len AND 0xC0 = 0
          then (if len = 0 then Some (case fin of Some f \<Rightarrow> f | None \<Rightarrow> pos + 1)
                else let pos' = pos + (unat len + 1) in
                  if pos' > length msg then None else skip_from msg pos' jumps fin)
          else None)"
  by pat_completeness auto

termination
  by (relation "measures [\<lambda>(msg, pos, jumps, fin). MAX_JUMPS - jumps, \<lambda>(msg, pos, jumps, fin). length msg - pos]")
    (auto simp: get_def split: if_splits)

declare skip_from.simps [simp del]

definition skip_name :: "bytes \<Rightarrow> nat \<Rightarrow> nat option" where
  "skip_name msg pos = skip_from msg pos 0 None"

fun skip_questions :: "bytes \<Rightarrow> nat \<Rightarrow> nat \<Rightarrow> io_kind + nat" where
  "skip_questions msg 0 pos = Inr pos"
| "skip_questions msg (Suc n) pos =
     rbind (ok_or (skip_name msg pos) InvalidData) (\<lambda>p.
       if p + 4 \<le> length msg then skip_questions msg n (p + 4) else Inl InvalidData)"

text \<open>One record from \<open>pos\<close>: the address if it is one, and where the next record starts.\<close>

definition read_record :: "bytes \<Rightarrow> nat \<Rightarrow> io_kind + ipv4 option \<times> nat" where
  "read_record msg pos =
     rbind (ok_or (skip_name msg pos) InvalidData) (\<lambda>p.
     rbind (ok_or (be16_at msg p) InvalidData) (\<lambda>rtype.
     rbind (ok_or (be16_at msg (p + 2)) InvalidData) (\<lambda>cls.
     rbind (ok_or (be16_at msg (p + 8)) InvalidData) (\<lambda>rdlen16.
       let rdlen = unat rdlen16; rdata = p + 10; nxt = rdata + rdlen in
       if nxt > length msg then Inl InvalidData
       else if rtype = TYPE_A \<and> cls = CLASS_IN \<and> rdlen = 4
       then rbind (ok_or (get_range msg rdata nxt) InvalidData)
              (\<lambda>os. Inr (case os of [a, b, c, d] \<Rightarrow> Some (Ipv4 a b c d) | _ \<Rightarrow> None, nxt))
       else Inr (None, nxt)))))"

fun read_records :: "bytes \<Rightarrow> nat \<Rightarrow> nat \<Rightarrow> ipv4 list \<Rightarrow> io_kind + ipv4 list" where
  "read_records msg 0 pos found = Inr found"
| "read_records msg (Suc n) pos found =
     rbind (read_record msg pos) (\<lambda>(address, nxt).
       read_records msg n nxt (case address of Some a \<Rightarrow> found @ [a] | None \<Rightarrow> found))"

definition parse_answers :: "bytes \<Rightarrow> u16 \<Rightarrow> io_kind + ipv4 list" where
  "parse_answers msg ident =
     rbind (ok_or (get_range msg 0 12) InvalidData) (\<lambda>hdr.
     rbind (ok_or (be16_at hdr 0) InvalidData) (\<lambda>got.
       if got \<noteq> ident then Inl InvalidData
       else
         rbind (ok_or (be16_at hdr 2) InvalidData) (\<lambda>flags.
           if flags AND 0x8000 = 0 then Inl InvalidData
           else if flags AND 0x000F = 3 then Inl NotFound
           else if flags AND 0x000F \<noteq> 0 then Inl InvalidData
           else
             rbind (ok_or (be16_at hdr 4) InvalidData) (\<lambda>questions.
             rbind (ok_or (be16_at hdr 6) InvalidData) (\<lambda>answers.
             rbind (skip_questions msg (unat questions) 12) (\<lambda>pos.
               read_records msg (unat answers) pos []))))))"

section \<open>Asking\<close>

record resolver =
  rs_server :: "ipv4 \<times> u16"
  rs_mark :: u32
  rs_device :: "bytes option"

datatype dns_reply = Whole bytes | Truncated

text \<open>A query on its way: the mark and the device of its socket, over UDP or TCP.\<close>

datatype query_sent = OverUdp u32 "bytes option" bytes | OverTcp u32 "bytes option" bytes

text \<open>What the network does: whether the UDP socket can be made and each query sent, what each wait for a
  reply yields (an error, or a datagram and where it came from), whether the TCP connection is made, and
  the bytes read from it.\<close>

record dns_net =
  net_bind :: "io_kind option"
  net_send :: "nat \<Rightarrow> io_kind option"
  net_recv :: "nat \<Rightarrow> io_kind + bytes \<times> (ipv4 \<times> u16)"
  net_connect :: "io_kind option"
  net_stream :: "io_kind + bytes"

fun ask_loop :: "resolver \<Rightarrow> dns_net \<Rightarrow> bytes \<Rightarrow> nat \<Rightarrow> nat \<Rightarrow> io_kind \<Rightarrow> (io_kind + dns_reply) \<times> query_sent list" where
  "ask_loop R W query 0 i failure = (Inl failure, [])"
| "ask_loop R W query (Suc n) i failure =
     (case net_send W i of
        Some e \<Rightarrow> (Inl e, [])
      | None \<Rightarrow>
          (let (r, log) =
             (case net_recv W i of
                Inl e \<Rightarrow> ask_loop R W query n (i + 1) e
              | Inr (datagram, from) \<Rightarrow>
                  if from = rs_server R
                  then (Inr (let bs = take MAX_REPLY datagram in if truncated bs then Truncated else Whole bs), [])
                  else ask_loop R W query n (i + 1) failure)
           in (r, OverUdp (rs_mark R) (rs_device R) query # log)))"

definition ask_udp :: "resolver \<Rightarrow> dns_net \<Rightarrow> bytes \<Rightarrow> (io_kind + dns_reply) \<times> query_sent list" where
  "ask_udp R W query =
     (case net_bind W of
        Some e \<Rightarrow> (Inl e, [])
      | None \<Rightarrow> ask_loop R W query ATTEMPTS 0 TimedOut)"

text \<open>\<open>TcpStream::connect_timeout\<close> makes a socket of its own: no mark, no device.\<close>

definition ask_tcp :: "resolver \<Rightarrow> dns_net \<Rightarrow> bytes \<Rightarrow> (io_kind + bytes) \<times> query_sent list" where
  "ask_tcp R W query =
     (case net_connect W of
        Some e \<Rightarrow> (Inl e, [])
      | None \<Rightarrow>
          if length query \<ge> 65536 then (Inl InvalidInput, [])
          else
            (rbind (net_stream W) (\<lambda>stream.
               rbind (ok_or (split_first_chunk 2 stream) UnexpectedEof) (\<lambda>(prefix, rest).
                 let n = unat (from_be_bytes prefix :: u16) in
                 if n = 0 \<or> n > MAX_REPLY then Inl InvalidData
                 else rbind (ok_or (split_first_chunk n rest) UnexpectedEof) (\<lambda>(reply, _). Inr reply))),
             [OverTcp 0 None (to_be_bytes 2 (of_nat (length query) :: u16) @ query)]))"

definition lookup :: "resolver \<Rightarrow> dns_net \<Rightarrow> u16 \<Rightarrow> bytes \<Rightarrow> u16 \<Rightarrow> (io_kind + (ipv4 \<times> u16) list) \<times> query_sent list" where
  "lookup R W ident host port =
     (case encode_query ident host of
        Inl e \<Rightarrow> (Inl e, [])
      | Inr query \<Rightarrow>
          (let (r, log) = ask_udp R W query;
               (reply, log') =
                 (case r of
                    Inl e \<Rightarrow> (Inl e, log)
                  | Inr (Whole bs) \<Rightarrow> (Inr bs, log)
                  | Inr Truncated \<Rightarrow> (let (r', more) = ask_tcp R W query in (r', log @ more)))
           in (rbind reply (\<lambda>bs. rbind (parse_answers bs ident) (\<lambda>addresses.
                 if addresses = [] then Inl NotFound else Inr (map (\<lambda>a. (a, port)) addresses))),
               log')))"

section \<open>Names\<close>

lemma skip_from_bounds:
  "skip_from msg pos jumps fin = Some q \<Longrightarrow>
     (case fin of Some f \<Rightarrow> q = f | None \<Rightarrow> pos < q \<and> q \<le> length msg)"
proof (induction msg pos jumps fin arbitrary: q rule: skip_from.induct)
  case (1 msg pos jumps fin)
  note e = "1.prems" [unfolded skip_from.simps [of msg pos jumps fin]]
  then obtain len where len: "get msg pos = Some len"
    by (auto split: option.splits)
  then have pos: "pos < length msg"
    by (auto simp: get_def split: if_splits)
  show ?case
  proof (cases "len AND 0xC0 = 0xC0")
    case True
    then obtain lo where lo: "get msg (pos + 1) = Some lo"
      using e len by (auto split: option.splits)
    then have "pos + 2 \<le> length msg"
      by (auto simp: get_def split: if_splits)
    then show ?thesis
      using e len True lo "1.IH"(1) [OF len True lo refl, of q]
      by (auto simp: Let_def split: if_splits option.splits)
  next
    case False
    then show ?thesis
      using e len pos "1.IH"(2) [OF len False _ _ refl, of q]
      by (auto simp: Let_def split: if_splits option.splits)
  qed
qed

text \<open>C39. Stepping over a name always ends, whatever the message says, and ends inside it and further on: the
  reader of a reply cannot be held up or sent backwards by compression pointers.\<close>
theorem skip_name_bounds:
  "case skip_name msg pos of None \<Rightarrow> True | Some q \<Rightarrow> pos < q \<and> q \<le> length msg"
  using skip_from_bounds [of msg pos 0 None] by (auto simp: skip_name_def split: option.split)

lemma small_label: "unat w < 64 \<Longrightarrow> w AND 0xC0 = (0 :: u8)"
proof -
  assume small: "unat w < 64"
  have "unat (take_bit 6 w) = unat w mod 2 ^ 6"
    by (rule trans [OF unsigned_take_bit_eq take_bit_eq_mod])
  then have "take_bit 6 w = w"
    using small by (intro word_unat_eq_iff [THEN iffD2]) simp
  then have "w = w AND 0x3F"
    by (simp add: take_bit_eq_mask mask_eq_exp_minus_1)
  then have "w AND 0xC0 = w AND (0x3F AND 0xC0)"
    by (metis and.assoc)
  then show ?thesis
    by simp
qed

lemma pointer_bits: "(0 :: u8) \<noteq> 0xC0"
  by simp

lemma skip_from_root:
  assumes "get msg pos = Some 0"
  shows "skip_from msg pos jumps fin = Some (case fin of Some f \<Rightarrow> f | None \<Rightarrow> pos + 1)"
  using assms pointer_bits by (subst skip_from.simps) simp

lemma skip_from_label:
  assumes "get msg pos = Some len" and "len AND 0xC0 = 0" and "len \<noteq> 0" and "pos + (unat len + 1) \<le> length msg"
  shows "skip_from msg pos jumps fin = skip_from msg (pos + (unat len + 1)) jumps fin"
  using assms pointer_bits by (subst skip_from.simps) (simp add: Let_def)

lemma skip_from_pointer:
  assumes "get msg pos = Some 0xC0" and "get msg (pos + 1) = Some lo" and "jumps < MAX_JUMPS" and "unat lo < length msg"
  shows "skip_from msg pos jumps None = skip_from msg (unat lo) (jumps + 1) (Some (pos + 2))"
proof -
  have "(from_be_bytes [0, lo] :: u16) = ucast lo"
    by (simp add: from_be_bytes_def)
  moreover have "unat (ucast lo :: u16) = unat lo"
    using unat_bounds(1) [of lo] by (simp add: unat_ucast_mod)
  moreover have "(0xC0 :: u8) AND 0xC0 = 0xC0" "(0xC0 :: u8) AND 0x3F = 0"
    by simp_all
  ultimately show ?thesis
    using assms by (subst skip_from.simps) (simp add: Let_def)
qed

lemma skip_labels:
  assumes "encode_labels labels = Inr bs"
  shows "skip_from (pre @ bs @ 0 # post) (length pre) jumps fin =
    Some (case fin of Some f \<Rightarrow> f | None \<Rightarrow> length pre + length bs + 1)"
  using assms
proof (induction labels arbitrary: bs pre)
  case Nil
  then show ?case
    by (cases fin) (auto simp: skip_from_root get_append_right)
next
  case (Cons label labels)
  then obtain rest where rest: "encode_labels labels = Inr rest" "1 \<le> length label" "length label \<le> 63"
      "bs = of_nat (length label) # label @ rest"
    by (auto simp: rbind_eq_Inr split: if_splits)
  define w :: u8 where "w = of_nat (length label)"
  have len: "unat w = length label"
    using rest(3) by (simp add: w_def unsigned_of_nat take_bit_eq_mod)
  then have "w AND 0xC0 = 0" "w \<noteq> 0"
    using rest(2,3) small_label [of w] by auto
  moreover have "get (pre @ bs @ 0 # post) (length pre) = Some w"
    by (simp add: rest(4) get_append_right w_def)
  ultimately have "skip_from (pre @ bs @ 0 # post) (length pre) jumps fin =
      skip_from (pre @ bs @ 0 # post) (length pre + (unat w + 1)) jumps fin"
    by (intro skip_from_label) (simp_all add: len rest(4))
  also have "\<dots> = skip_from ((pre @ w # label) @ rest @ 0 # post) (length (pre @ w # label)) jumps fin"
    by (simp add: rest(4) w_def [symmetric] len)
  also have "\<dots> = Some (case fin of Some f \<Rightarrow> f | None \<Rightarrow> length pre + length bs + 1)"
    unfolding Cons.IH [OF rest(1)] by (simp add: rest(4) split: option.split)
  finally show ?case .
qed

section \<open>A question and its answer\<close>

text \<open>The reply of a resolver to a question: the question echoed, and one record per address that names it
  by a pointer.\<close>

definition answer_record :: "ipv4 \<Rightarrow> bytes" where
  "answer_record a = [0xC0, 12] @ to_be_bytes 2 TYPE_A @ to_be_bytes 2 CLASS_IN @ [0, 0, 1, 44] @ [0, 4] @ octets a"

definition answer_to :: "u16 \<Rightarrow> bytes \<Rightarrow> ipv4 list \<Rightarrow> bytes" where
  "answer_to ident query addresses =
     to_be_bytes 2 ident @ [0x81, 0x80, 0, 1] @ to_be_bytes 2 (of_nat (length addresses) :: u16) @ [0, 0, 0, 0]
       @ drop 12 query @ concat (map answer_record addresses)"

lemma be16_at_append: "be16_at (pre @ xs) (length pre + k) = be16_at xs k"
  by (simp add: be16_at_def get_append_right)

lemma read_answer_record:
  assumes "skip_from msg 12 1 (Some (length pre + 2)) = Some (length pre + 2)" and "12 < length msg"
    and msg: "msg = pre @ answer_record a @ post"
  shows "read_record msg (length pre) = Inr (Some a, length pre + 16)"
proof -
  obtain o1 o2 o3 o4 where a: "a = Ipv4 o1 o2 o3 o4"
    by (cases a)
  have r: "answer_record a = [0xC0, 12, 0, 1, 0, 1, 0, 0, 1, 44, 0, 4, o1, o2, o3, o4]"
    by (simp add: answer_record_def a TYPE_A_def CLASS_IN_def to_be_bytes_2)
  have g: "get msg (length pre + k) = get (answer_record a @ post) k" for k
    by (simp add: msg get_append_right)
  define p where "p = length pre + 2"
  have p: "p + 2 = length pre + 4" "p + 8 = length pre + 10" "p + 10 = length pre + 12" "p + 10 + 4 = length pre + 16"
    by (simp_all add: p_def)
  have "skip_name msg (length pre) = Some p"
    unfolding skip_name_def using assms(1,2) g [of 0] g [of 1]
    by (subst skip_from_pointer [where lo = 12]) (simp_all add: r MAX_JUMPS_def p_def)
  moreover have "be16_at msg p = Some TYPE_A" "be16_at msg (p + 2) = Some CLASS_IN" "be16_at msg (p + 8) = Some 4"
    unfolding p unfolding p_def msg be16_at_append
    by (simp_all add: be16_at_def r TYPE_A_def CLASS_IN_def from_be_bytes_def)
  moreover have "get_range msg (p + 10) (p + 10 + 4) = Some [o1, o2, o3, o4]" "p + 10 + 4 \<le> length msg"
    unfolding p by (simp_all add: get_range_def msg r)
  ultimately show ?thesis
    unfolding read_record_def by (simp add: Let_def a p(4) [symmetric])
qed

lemma read_answer_records:
  assumes "\<And>f. skip_from msg 12 1 (Some f) = Some f" and "12 < length msg"
    and "msg = pre @ concat (map answer_record addresses)"
  shows "read_records msg (length addresses) (length pre) found = Inr (found @ addresses)"
  using assms(3)
proof (induction addresses arbitrary: pre found)
  case (Cons a addresses)
  have "length (answer_record a) = 16"
    by (cases a) (simp add: answer_record_def)
  then have "read_records msg (length addresses) (length pre + 16) (found @ [a]) = Inr ((found @ [a]) @ addresses)"
    using Cons.IH [of "pre @ answer_record a" "found @ [a]"] Cons.prems by simp
  moreover have "read_record msg (length pre) = Inr (Some a, length pre + 16)"
    using Cons.prems assms(1,2) by (intro read_answer_record) auto
  ultimately show ?case
    by simp
qed simp

text \<open>C24. A question that could be put is answered.  For every host name the encoder accepts, the reply that
  echoes the question and lists addresses under a pointer to it is read back as exactly those addresses,
  in order, and under no other identifier.\<close>
theorem answers_roundtrip:
  assumes "encode_query ident host = Inr query" and "length addresses < 65536"
  shows "parse_answers (answer_to ident query addresses) got =
    (if got = ident then Inr addresses else Inl InvalidData)"
proof -
  obtain labels bs where labels: "encode_labels labels = Inr bs" and query: "drop 12 query = bs @ 0 # [0, 1, 0, 1]"
    using assms(1)
    by (auto simp: encode_query_def rbind_eq_Inr Let_def TYPE_A_def CLASS_IN_def to_be_bytes_2 split: if_splits)
  define count :: u16 where "count = of_nat (length addresses)"
  define hdr where "hdr = to_be_bytes 2 ident @ [0x81, 0x80, 0, 1] @ to_be_bytes 2 count @ [0, 0, 0, 0]"
  define msg where "msg = answer_to ident query addresses"
  have hdr: "length hdr = 12"
    by (simp add: hdr_def)
  have msg: "msg = hdr @ bs @ 0 # ([0, 1, 0, 1] @ concat (map answer_record addresses))"
    by (simp add: msg_def answer_to_def hdr_def query count_def)
  have h: "hdr = [ucast (drop_bit 8 ident), ucast ident, 0x81, 0x80, 0, 1, ucast (drop_bit 8 count), ucast count, 0, 0, 0, 0]"
    by (simp add: hdr_def to_be_bytes_2)
  have count: "unat count = length addresses"
    using assms(2) by (simp add: count_def unsigned_of_nat take_bit_eq_mod)
  have skip: "skip_from msg 12 j fin = Some (case fin of Some f \<Rightarrow> f | None \<Rightarrow> 12 + length bs + 1)" for j fin
    using skip_labels [OF labels, of hdr, unfolded hdr] by (simp add: msg)
  then have "skip_questions msg 1 12 = Inr (12 + length bs + 1 + 4)"
    by (simp add: skip_name_def msg hdr)
  moreover have "read_records msg (length addresses) (12 + length bs + 1 + 4) [] = Inr addresses"
    using read_answer_records [of msg "hdr @ bs @ [0, 0, 1, 0, 1]" addresses "[]"] skip
    by (simp add: msg hdr)
  moreover have "get_range msg 0 12 = Some hdr"
    by (simp add: get_range_def msg hdr)
  moreover have "be16_at hdr 0 = Some ident" "be16_at hdr 2 = Some 0x8180" "be16_at hdr 4 = Some 1" "be16_at hdr 6 = Some count"
    by (simp_all add: h be16_at_def) (simp_all add: from_be_bytes_def)
  ultimately show ?thesis
    unfolding msg_def [symmetric] parse_answers_def by (simp add: count)
qed

definition sample_host :: bytes where "sample_host = [97, 46, 98, 99]"

theorem answers_roundtrip_witness:
  "\<exists>query. encode_query 7 sample_host = Inr query \<and>
     parse_answers (answer_to 7 query [Ipv4 1 2 3 4, Ipv4 5 6 7 8]) 7 = Inr [Ipv4 1 2 3 4, Ipv4 5 6 7 8]"
proof -
  have "\<not> isl (encode_query 7 sample_host)"
    by code_simp
  then obtain query where "encode_query 7 sample_host = Inr query"
    by (cases "encode_query 7 sample_host") auto
  with answers_roundtrip [OF this, of "[Ipv4 1 2 3 4, Ipv4 5 6 7 8]" 7] show ?thesis
    by simp
qed

section \<open>Where queries go and whose word is taken\<close>

lemma ask_loop_from_server:
  "fst (ask_loop R W query n i failure) = Inr r \<Longrightarrow>
     \<exists>k d. net_recv W k = Inr (d, rs_server R) \<and>
       r = (if truncated (take MAX_REPLY d) then Truncated else Whole (take MAX_REPLY d))"
proof (induction n arbitrary: i failure)
  case (Suc n)
  then have sent: "net_send W i = None"
    by (auto split: option.splits)
  show ?case
  proof (cases "\<exists>d. net_recv W i = Inr (d, rs_server R)")
    case True
    then show ?thesis
      using Suc.prems sent by (auto simp: Let_def intro!: exI [of _ i])
  next
    case False
    then obtain failure' where "fst (ask_loop R W query n (i + 1) failure') = Inr r"
      using Suc.prems sent by (auto simp: case_prod_beta split: sum.splits if_splits)
    then show ?thesis
      by (rule Suc.IH)
  qed
qed simp

text \<open>C25. Only the resolver's word is taken.  When a lookup yields addresses, they were read, under the
  identifier of this question, from a datagram that came from the configured server, or from the stream
  it was asked again over because its own datagram said it was truncated.\<close>
theorem lookup_trusts_server:
  assumes "lookup R W ident host port = (Inr targets, log)"
  shows "\<exists>k d reply addresses. net_recv W k = Inr (d, rs_server R) \<and>
    parse_answers reply ident = Inr addresses \<and> addresses \<noteq> [] \<and> targets = map (\<lambda>a. (a, port)) addresses \<and>
    (if truncated (take MAX_REPLY d)
     then \<exists>query. encode_query ident host = Inr query \<and> fst (ask_tcp R W query) = Inr reply
     else reply = take MAX_REPLY d)"
proof -
  obtain query where q: "encode_query ident host = Inr query"
    using assms by (cases "encode_query ident host") (auto simp: lookup_def)
  obtain r log1 where r: "ask_udp R W query = (r, log1)"
    by fastforce
  obtain reply addresses where reply: "(case r of Inl e \<Rightarrow> Inl e | Inr (Whole bs) \<Rightarrow> Inr bs | Inr Truncated \<Rightarrow> fst (ask_tcp R W query)) = Inr reply"
      and addresses: "parse_answers reply ident = Inr addresses" "addresses \<noteq> []" "targets = map (\<lambda>a. (a, port)) addresses"
    using assms q r
    by (auto simp: lookup_def rbind_eq_Inr case_prod_beta split: sum.splits dns_reply.splits if_splits)
  then obtain answer where answer: "r = Inr answer"
    by (cases r) auto
  then have "fst (ask_loop R W query ATTEMPTS 0 TimedOut) = Inr answer"
    using r by (auto simp: ask_udp_def split: option.splits)
  from ask_loop_from_server [OF this] obtain k d where d: "net_recv W k = Inr (d, rs_server R)"
      "answer = (if truncated (take MAX_REPLY d) then Truncated else Whole (take MAX_REPLY d))"
    by blast
  then show ?thesis
    using reply addresses q answer
    by - (rule exI [of _ k], rule exI [of _ d], rule exI [of _ reply], rule exI [of _ addresses], auto split: if_splits)
qed

definition sample_resolver :: resolver where
  "sample_resolver = \<lparr>rs_server = (Ipv4 9 9 9 9, 53), rs_mark = 7, rs_device = Some [116]\<rparr>"

definition sample_query :: bytes where
  "sample_query = (case encode_query 7 sample_host of Inr q \<Rightarrow> q | Inl _ \<Rightarrow> [])"

definition sample_net :: "bytes \<Rightarrow> dns_net" where
  "sample_net d = \<lparr>net_bind = None, net_send = (\<lambda>_. None), net_recv = (\<lambda>_. Inr (d, (Ipv4 9 9 9 9, 53))),
     net_connect = None, net_stream = Inl UnexpectedEof\<rparr>"

lemma sample_lookup:
  "fst (lookup sample_resolver (sample_net (answer_to 7 sample_query [Ipv4 1 2 3 4])) 7 sample_host 80) =
     Inr [(Ipv4 1 2 3 4, 80)]"
  by code_simp

theorem lookup_trusts_server_witness:
  "\<exists>reply addresses. parse_answers reply 7 = Inr addresses \<and> addresses \<noteq> [] \<and>
     [(Ipv4 1 2 3 4, 80 :: u16)] = map (\<lambda>a. (a, 80)) addresses"
proof -
  obtain log where "lookup sample_resolver (sample_net (answer_to 7 sample_query [Ipv4 1 2 3 4])) 7 sample_host 80 =
      (Inr [(Ipv4 1 2 3 4, 80)], log)"
    using sample_lookup by (metis prod.collapse)
  from lookup_trusts_server [OF this] show ?thesis
    by (elim exE conjE) (intro exI conjI)
qed

text \<open>C36. A truncated reply takes the question out of the tunnel.  The first question leaves by a socket with
  the configured mark and device; when the server's reply says it did not fit, the same question goes out
  again over a TCP connection whose socket has neither.\<close>
theorem truncated_reply_leaves_tunnel:
  assumes "encode_query ident host = Inr query" and "length query < 65536"
    and "net_bind W = None" and "net_send W 0 = None" and "net_recv W 0 = Inr (d, rs_server R)"
    and "truncated (take MAX_REPLY d)" and "net_connect W = None"
  shows "snd (lookup R W ident host port) =
    [OverUdp (rs_mark R) (rs_device R) query, OverTcp 0 None (to_be_bytes 2 (of_nat (length query) :: u16) @ query)]"
  using assms
  by (simp add: lookup_def ask_udp_def ask_tcp_def ATTEMPTS_def numeral_2_eq_2 Let_def)

theorem truncated_reply_leaves_tunnel_witness:
  "\<exists>query. encode_query 7 sample_host = Inr query \<and>
     snd (lookup sample_resolver (sample_net [0, 7, 2]) 7 sample_host 80) =
       [OverUdp 7 (Some [116]) query, OverTcp 0 None (to_be_bytes 2 (of_nat (length query) :: u16) @ query)]"
proof -
  have "encode_query 7 sample_host = Inr sample_query" "length sample_query < 65536" "truncated (take MAX_REPLY [0, 7, 2])"
    by code_simp+
  then show ?thesis
    using truncated_reply_leaves_tunnel [of 7 sample_host sample_query "sample_net [0, 7, 2]" "[0, 7, 2]" sample_resolver 80]
    by (simp add: sample_net_def sample_resolver_def)
qed

end
