(* ===== verification/Socks.thy ===== *)
theory Socks
  imports Dns
begin

text \<open>
  The SOCKS5 front end (\<open>paqetz-net4\<close>): the codec of \<open>protocol.rs\<close>, the choice of targets in \<open>dial.rs\<close> and
  the conversation of \<open>server.rs\<close> with one client, up to the relay.  A reader is the bytes still to come; a
  \<open>String\<close> is its bytes, which are valid UTF-8.  Making and connecting sockets is a parameter.
\<close>

section \<open>Text\<close>

text \<open>The first character of a byte string as the standard library decodes it: how many bytes it takes and
  whether they are well formed; an ill-formed start takes its longest well-formed prefix.\<close>

definition continuation :: "u8 \<Rightarrow> bool" where
  "continuation b \<longleftrightarrow> b AND 0xC0 = 0x80"

definition byte_at :: "bytes \<Rightarrow> nat \<Rightarrow> u8" where
  "byte_at bs i = (case get bs i of Some b \<Rightarrow> b | None \<Rightarrow> 0)"

definition second_of_three :: "u8 \<Rightarrow> u8 \<Rightarrow> bool" where
  "second_of_three b c \<longleftrightarrow>
     (b = 0xE0 \<and> 0xA0 \<le> c \<and> c \<le> 0xBF) \<or> (0xE1 \<le> b \<and> b \<le> 0xEC \<and> 0x80 \<le> c \<and> c \<le> 0xBF)
     \<or> (b = 0xED \<and> 0x80 \<le> c \<and> c \<le> 0x9F) \<or> (0xEE \<le> b \<and> b \<le> 0xEF \<and> 0x80 \<le> c \<and> c \<le> 0xBF)"

definition second_of_four :: "u8 \<Rightarrow> u8 \<Rightarrow> bool" where
  "second_of_four b c \<longleftrightarrow>
     (b = 0xF0 \<and> 0x90 \<le> c \<and> c \<le> 0xBF) \<or> (0xF1 \<le> b \<and> b \<le> 0xF3 \<and> 0x80 \<le> c \<and> c \<le> 0xBF)
     \<or> (b = 0xF4 \<and> 0x80 \<le> c \<and> c \<le> 0x8F)"

definition utf8_step :: "bytes \<Rightarrow> bool \<times> nat" where
  "utf8_step bs =
     (let b = byte_at bs 0; c1 = byte_at bs 1; c2 = byte_at bs 2; c3 = byte_at bs 3 in
      if b < 0x80 then (True, 1)
      else if 0xC2 \<le> b \<and> b \<le> 0xDF then (if continuation c1 then (True, 2) else (False, 1))
      else if 0xE0 \<le> b \<and> b \<le> 0xEF then
        (if \<not> second_of_three b c1 then (False, 1) else if \<not> continuation c2 then (False, 2) else (True, 3))
      else if 0xF0 \<le> b \<and> b \<le> 0xF4 then
        (if \<not> second_of_four b c1 then (False, 1) else if \<not> continuation c2 then (False, 2)
         else if \<not> continuation c3 then (False, 3) else (True, 4))
      else (False, 1))"

lemma utf8_step_moves: "0 < snd (utf8_step bs)"
  by (simp add: utf8_step_def Let_def)

text \<open>\<open>String::from_utf8\<close> accepts what is well formed throughout; \<open>from_utf8_lossy\<close> puts U+FFFD in place of
  each ill-formed piece.\<close>

function valid_utf8 :: "bytes \<Rightarrow> bool" where
  "valid_utf8 bs =
     (if bs = [] then True else let (ok, n) = utf8_step bs in ok \<and> valid_utf8 (drop n bs))"
  by pat_completeness auto

termination
proof (relation "measure length")
  fix bs :: bytes and x ok n
  assume "bs \<noteq> []" "x = utf8_step bs" "(ok, n) = x"
  then have "n = snd (utf8_step bs)"
    by (metis snd_conv)
  then show "(drop n bs, bs) \<in> measure length"
    using utf8_step_moves [of bs] \<open>bs \<noteq> []\<close> by simp
qed simp

function lossy :: "bytes \<Rightarrow> bytes" where
  "lossy bs =
     (if bs = [] then []
      else let (ok, n) = utf8_step bs
           in (if ok then take n bs else [0xEF, 0xBF, 0xBD]) @ lossy (drop n bs))"
  by pat_completeness auto

termination
proof (relation "measure length")
  fix bs :: bytes and x ok n
  assume "bs \<noteq> []" "x = utf8_step bs" "(ok, n) = x"
  then have "n = snd (utf8_step bs)"
    by (metis snd_conv)
  then show "(drop n bs, bs) \<in> measure length"
    using utf8_step_moves [of bs] \<open>bs \<noteq> []\<close> by simp
qed simp

declare valid_utf8.simps [simp del] lossy.simps [simp del]

section \<open>The codec\<close>

definition SOCKS_VERSION :: u8 where "SOCKS_VERSION = 5"
definition AUTH_NONE :: u8 where "AUTH_NONE = 0x00"
definition USER_PASS :: u8 where "USER_PASS = 0x02"
definition UNACCEPTABLE :: u8 where "UNACCEPTABLE = 0xFF"
definition USER_PASS_VERSION :: u8 where "USER_PASS_VERSION = 0x01"
definition CONNECT :: u8 where "CONNECT = 0x01"
definition UDP_ASSOCIATE :: u8 where "UDP_ASSOCIATE = 0x03"
definition SUCCESS :: u8 where "SUCCESS = 0x00"
definition GENERAL_FAILURE :: u8 where "GENERAL_FAILURE = 0x01"
definition NETWORK_UNREACHABLE :: u8 where "NETWORK_UNREACHABLE = 0x03"
definition HOST_UNREACHABLE :: u8 where "HOST_UNREACHABLE = 0x04"
definition CONNECTION_REFUSED :: u8 where "CONNECTION_REFUSED = 0x05"
definition COMMAND_NOT_SUPPORTED :: u8 where "COMMAND_NOT_SUPPORTED = 0x07"
definition ADDRESS_NOT_SUPPORTED :: u8 where "ADDRESS_NOT_SUPPORTED = 0x08"
definition ATYP_IPV4 :: u8 where "ATYP_IPV4 = 0x01"
definition ATYP_DOMAIN :: u8 where "ATYP_DOMAIN = 0x03"
definition ATYP_IPV6 :: u8 where "ATYP_IPV6 = 0x04"

lemmas socks_consts = SOCKS_VERSION_def AUTH_NONE_def USER_PASS_def UNACCEPTABLE_def USER_PASS_VERSION_def
  CONNECT_def UDP_ASSOCIATE_def SUCCESS_def GENERAL_FAILURE_def COMMAND_NOT_SUPPORTED_def
  ATYP_IPV4_def ATYP_DOMAIN_def ATYP_IPV6_def

text \<open>\<open>SocketAddr\<close>: an IPv6 address is its sixteen octets.\<close>

datatype socket_addr = V4 ipv4 u16 | V6 bytes u16
datatype address = Socket socket_addr | Domain bytes u16

definition read_exact :: "nat \<Rightarrow> bytes \<Rightarrow> io_kind + bytes \<times> bytes" where
  "read_exact n r = ok_or (split_first_chunk n r) UnexpectedEof"

definition socks_be16 :: "bytes \<Rightarrow> u16" where
  "socks_be16 b = from_be_bytes [byte_at b 0, byte_at b 1]"

definition read_address :: "bytes \<Rightarrow> io_kind + address \<times> bytes" where
  "read_address r =
     rbind (read_exact 1 r) (\<lambda>(knd, r1).
       if byte_at knd 0 = ATYP_IPV4 then
         rbind (read_exact 6 r1) (\<lambda>(buf, r2).
           Inr (Socket (V4 (Ipv4 (byte_at buf 0) (byte_at buf 1) (byte_at buf 2) (byte_at buf 3))
                  (socks_be16 (drop 4 buf))), r2))
       else if byte_at knd 0 = ATYP_IPV6 then
         rbind (read_exact 18 r1) (\<lambda>(buf, r2). Inr (Socket (V6 (take 16 buf) (socks_be16 (drop 16 buf))), r2))
       else if byte_at knd 0 = ATYP_DOMAIN then
         rbind (read_exact 1 r1) (\<lambda>(len, r2).
           if byte_at len 0 = 0 then Inl InvalidData
           else
             rbind (read_exact (unat (byte_at len 0)) r2) (\<lambda>(name, r3).
             rbind (read_exact 2 r3) (\<lambda>(port, r4).
               if valid_utf8 name then Inr (Domain name (socks_be16 port), r4) else Inl InvalidData)))
       else Inl InvalidData)"

fun write_address :: "address \<Rightarrow> bytes" where
  "write_address (Socket (V4 ip port)) = ATYP_IPV4 # octets ip @ to_be_bytes 2 port"
| "write_address (Socket (V6 ip port)) = ATYP_IPV6 # ip @ to_be_bytes 2 port"
| "write_address (Domain host port) =
     (let len = (if length host < 256 then length host else 0)
      in ATYP_DOMAIN # of_nat len # take len host @ to_be_bytes 2 port)"

definition read_greeting :: "bytes \<Rightarrow> io_kind + bytes \<times> bytes" where
  "read_greeting r =
     rbind (read_exact 2 r) (\<lambda>(hdr, r1).
       if byte_at hdr 0 \<noteq> SOCKS_VERSION then Inl InvalidData
       else if byte_at hdr 1 = 0 then Inr ([], r1)
       else read_exact (unat (byte_at hdr 1)) r1)"

definition write_method :: "u8 \<Rightarrow> bytes" where
  "write_method m = [SOCKS_VERSION, m]"

definition read_user_pass :: "bytes \<Rightarrow> io_kind + (bytes \<times> bytes) \<times> bytes" where
  "read_user_pass r =
     rbind (read_exact 2 r) (\<lambda>(hdr, r1).
       if byte_at hdr 0 \<noteq> USER_PASS_VERSION then Inl InvalidData
       else
         rbind (read_exact (unat (byte_at hdr 1)) r1) (\<lambda>(user, r2).
         rbind (read_exact 1 r2) (\<lambda>(plen, r3).
         rbind (read_exact (unat (byte_at plen 0)) r3) (\<lambda>(pass, r4).
           Inr ((lossy user, lossy pass), r4)))))"

definition write_user_pass_result :: "bool \<Rightarrow> bytes" where
  "write_user_pass_result ok = [USER_PASS_VERSION, if ok then 0 else 1]"

record request =
  rq_command :: u8
  rq_address :: address

definition read_request :: "bytes \<Rightarrow> io_kind + request \<times> bytes" where
  "read_request r =
     rbind (read_exact 3 r) (\<lambda>(hdr, r1).
       if byte_at hdr 0 \<noteq> SOCKS_VERSION then Inl InvalidData
       else rbind (read_address r1) (\<lambda>(a, r2). Inr (\<lparr>rq_command = byte_at hdr 1, rq_address = a\<rparr>, r2)))"

definition write_reply :: "u8 \<Rightarrow> address \<Rightarrow> bytes" where
  "write_reply code bound = [SOCKS_VERSION, code, 0] @ write_address bound"

definition reply_code_for :: "io_kind \<Rightarrow> u8" where
  "reply_code_for e =
     (case e of
        ConnectionRefused \<Rightarrow> CONNECTION_REFUSED
      | HostUnreachable \<Rightarrow> HOST_UNREACHABLE
      | NotFound \<Rightarrow> HOST_UNREACHABLE
      | NetworkUnreachable \<Rightarrow> NETWORK_UNREACHABLE
      | Unsupported \<Rightarrow> ADDRESS_NOT_SUPPORTED
      | _ \<Rightarrow> GENERAL_FAILURE)"

definition parse_udp :: "bytes \<Rightarrow> io_kind + address \<times> bytes" where
  "parse_udp buf =
     rbind (ok_or (split_first_chunk 3 buf) UnexpectedEof) (\<lambda>(hdr, rest).
       if get hdr 2 \<noteq> Some 0 then Inl InvalidData
       else rbind (read_address rest) (\<lambda>(a, rest').
         let consumed = length rest - length rest' in
         rbind (ok_or (get_from buf (3 + consumed)) UnexpectedEof) (\<lambda>payload. Inr (a, payload))))"

definition build_udp :: "address \<Rightarrow> bytes \<Rightarrow> bytes" where
  "build_udp a payload = [0, 0, 0] @ write_address a @ payload"

section \<open>Choosing where to connect\<close>

text \<open>What is outside: the resolver reached through the tunnel, if one is configured, the system's own, and
  the outcome of making a marked socket and connecting it, with the local address it then has.\<close>

record dialer =
  dl_resolver :: "(bytes \<Rightarrow> u16 \<Rightarrow> io_kind + (ipv4 \<times> u16) list) option"
  dl_system :: "bytes \<Rightarrow> u16 \<Rightarrow> io_kind + socket_addr list"
  dl_connect :: "socket_addr \<Rightarrow> io_kind + socket_addr"

fun is_ipv4 :: "socket_addr \<Rightarrow> bool" where
  "is_ipv4 (V4 _ _) = True"
| "is_ipv4 (V6 _ _) = False"

fun dial_resolve :: "dialer \<Rightarrow> address \<Rightarrow> io_kind + socket_addr list" where
  "dial_resolve D (Socket a) = Inr [a]"
| "dial_resolve D (Domain host port) =
     (case dl_resolver D of
        Some lookup_host \<Rightarrow> rbind (lookup_host host port) (\<lambda>as. Inr (map (\<lambda>(ip, pt). V4 ip pt) as))
      | None \<Rightarrow> dl_system D host port)"

definition tunnelable :: "socket_addr list \<Rightarrow> io_kind + socket_addr list" where
  "tunnelable targets =
     (let v4 = filter is_ipv4 targets; dropped = filter (\<lambda>t. \<not> is_ipv4 t) targets in
      if v4 = [] \<and> dropped \<noteq> [] then Inl Unsupported else Inr v4)"

text \<open>The loop over the targets: the result, and the targets tried.\<close>

fun try_targets :: "dialer \<Rightarrow> socket_addr list \<Rightarrow> io_kind \<Rightarrow> (io_kind + socket_addr) \<times> socket_addr list" where
  "try_targets D [] failure = (Inl failure, [])"
| "try_targets D (t # ts) failure =
     (case dl_connect D t of
        Inr bound \<Rightarrow> (Inr bound, [t])
      | Inl e \<Rightarrow> (let (r, tried) = try_targets D ts e in (r, t # tried)))"

definition connect_tcp :: "dialer \<Rightarrow> address \<Rightarrow> (io_kind + socket_addr) \<times> socket_addr list" where
  "connect_tcp D a =
     (case rbind (dial_resolve D a) tunnelable of
        Inl e \<Rightarrow> (Inl e, [])
      | Inr targets \<Rightarrow> try_targets D targets NotFound)"

section \<open>One client\<close>

fun diff_of :: "bytes \<Rightarrow> bytes \<Rightarrow> u8 \<Rightarrow> u8" where
  "diff_of (x # xs) (y # ys) diff = diff_of xs ys (diff OR (x XOR y))"
| "diff_of _ _ diff = diff"

definition constant_time_eq :: "bytes \<Rightarrow> bytes \<Rightarrow> bool" where
  "constant_time_eq a b = (if length a \<noteq> length b then False else diff_of a b 0 = 0)"

text \<open>Method selection and authentication: the rest of the input or an error, and the bytes written.\<close>

definition negotiate :: "(bytes \<times> bytes) option \<Rightarrow> bytes \<Rightarrow> (io_kind + bytes) \<times> bytes" where
  "negotiate credentials r =
     (case read_greeting r of
        Inl e \<Rightarrow> (Inl e, [])
      | Inr (offered, r1) \<Rightarrow>
          (let wanted = (if credentials = None then AUTH_NONE else USER_PASS) in
           if wanted \<notin> set offered then (Inl PermissionDenied, write_method UNACCEPTABLE)
           else case credentials of
             None \<Rightarrow> (Inr r1, write_method wanted)
           | Some (user, pass) \<Rightarrow>
               (case read_user_pass r1 of
                  Inl e \<Rightarrow> (Inl e, write_method wanted)
                | Inr ((got_user, got_pass), r2) \<Rightarrow>
                    (let ok = (constant_time_eq got_user user \<and> constant_time_eq got_pass pass) in
                     (if ok then Inr r2 else Inl PermissionDenied,
                      write_method wanted @ write_user_pass_result ok)))))"

datatype conversation = Relaying socket_addr bytes | Associating | Ended io_kind

text \<open>A \<open>CONNECT\<close> request up to the relay; \<open>rest\<close> is what the client has sent beyond the request.\<close>

definition socks_connect :: "dialer \<Rightarrow> address \<Rightarrow> bytes \<Rightarrow> conversation \<times> bytes \<times> socket_addr list" where
  "socks_connect D a rest =
     (case connect_tcp D a of
        (Inl e, tried) \<Rightarrow> (Ended e, write_reply (reply_code_for e) (Socket (V4 (Ipv4 0 0 0 0) 0)), tried)
      | (Inr bound, tried) \<Rightarrow> (Relaying bound rest, write_reply SUCCESS (Socket bound), tried))"

text \<open>A connection up to its relay or association: what becomes of it, what was written to the client, and
  which targets were tried.  \<open>advertised\<close> is the outcome of binding the relay socket.\<close>

definition handle ::
  "(bytes \<times> bytes) option \<Rightarrow> dialer \<Rightarrow> io_kind + socket_addr \<Rightarrow> bytes
     \<Rightarrow> conversation \<times> bytes \<times> socket_addr list" where
  "handle credentials D advertised r =
     (case negotiate credentials r of
        (Inl e, out) \<Rightarrow> (Ended e, out, [])
      | (Inr r1, out) \<Rightarrow>
          (case read_request r1 of
             Inl e \<Rightarrow> (Ended e, out, [])
           | Inr (rq, r2) \<Rightarrow>
               if rq_command rq = CONNECT
               then (let (c, written, tried) = socks_connect D (rq_address rq) r2 in (c, out @ written, tried))
               else if rq_command rq = UDP_ASSOCIATE
               then (case advertised of
                       Inl e \<Rightarrow> (Ended e, out, [])
                     | Inr a \<Rightarrow> (Associating, out @ write_reply SUCCESS (Socket a), []))
               else (Ended Unsupported, out @ write_reply COMMAND_NOT_SUPPORTED (Socket (V4 (Ipv4 0 0 0 0) 0)), [])))"

section \<open>An association\<close>

definition forward_outbound :: "dialer \<Rightarrow> bytes \<Rightarrow> (socket_addr \<times> bytes) option" where
  "forward_outbound D datagram =
     (case parse_udp datagram of
        Inl _ \<Rightarrow> None
      | Inr (a, payload) \<Rightarrow>
          (case dial_resolve D a of
             Inl _ \<Rightarrow> None
           | Inr targets \<Rightarrow> map_option (\<lambda>t. (t, payload)) (find is_ipv4 targets)))"

definition forward_inbound :: "bytes \<Rightarrow> socket_addr \<Rightarrow> socket_addr option \<Rightarrow> (socket_addr \<times> bytes) option" where
  "forward_inbound datagram sender peer =
     map_option (\<lambda>client. (client, build_udp (Socket sender) datagram)) peer"

definition udp_step ::
  "dialer \<Rightarrow> socket_addr option \<Rightarrow> bytes \<times> socket_addr \<Rightarrow> (socket_addr \<times> bytes) option \<times> socket_addr option" where
  "udp_step D peer arrival =
     (let (datagram, sender) = arrival;
          (peer', from_client) = (case peer of None \<Rightarrow> (Some sender, True) | Some p \<Rightarrow> (peer, p = sender))
      in (if from_client then forward_outbound D datagram else forward_inbound datagram sender peer', peer'))"

fun udp_associate ::
  "dialer \<Rightarrow> socket_addr option \<Rightarrow> (bytes \<times> socket_addr) list \<Rightarrow> (socket_addr \<times> bytes) option list" where
  "udp_associate D peer [] = []"
| "udp_associate D peer (arrival # arrivals) =
     (let (sent, peer') = udp_step D peer arrival in sent # udp_associate D peer' arrivals)"

section \<open>Addresses there and back\<close>

fun well_formed :: "address \<Rightarrow> bool" where
  "well_formed (Socket (V4 _ _)) = True"
| "well_formed (Socket (V6 ip _)) = (length ip = 16)"
| "well_formed (Domain host _) = valid_utf8 host"

fun expressible :: "address \<Rightarrow> bool" where
  "expressible (Socket _) = True"
| "expressible (Domain host _) = (host \<noteq> [] \<and> length host < 256)"

lemma read_exact_append [simp]: "length xs = n \<Longrightarrow> read_exact n (xs @ ys) = Inr (xs, ys)"
  by (simp add: read_exact_def split_first_chunk_append)

lemma read_exact_1 [simp]: "read_exact (Suc 0) (x # ys) = Inr ([x], ys)"
  by (simp add: read_exact_def split_first_chunk_def)

lemma byte_at_Cons [simp]: "byte_at (x # xs) 0 = x" "byte_at (x # xs) (Suc i) = byte_at xs i"
  "byte_at (x # xs) (numeral k) = byte_at xs (pred_numeral k)"
  by (simp_all add: byte_at_def)

lemma socks_be16_roundtrip [simp]: "socks_be16 (to_be_bytes 2 p) = p"
  by (simp add: socks_be16_def to_be_bytes_2)

lemma read_written:
  assumes "well_formed a"
  shows "read_address (write_address a @ rest) = (if expressible a then Inr (a, rest) else Inl InvalidData)"
  using assms
proof (induction a rule: write_address.induct)
  case (1 ip port)
  have "read_exact 6 ((octets ip @ to_be_bytes 2 port) @ rest) = Inr (octets ip @ to_be_bytes 2 port, rest)"
    by (intro read_exact_append) (cases ip, simp)
  then show ?case
    by (cases ip) (simp add: read_address_def)
next
  case (2 ip port)
  have "read_exact 18 ((ip @ to_be_bytes 2 port) @ rest) = Inr (ip @ to_be_bytes 2 port, rest)"
    using 2 by (intro read_exact_append) simp
  then show ?case
    using 2 by (simp add: read_address_def socks_consts)
next
  case (3 host port)
  show ?case
  proof (cases "host \<noteq> [] \<and> length host < 256")
    case True
    have len: "unat (of_nat (length host) :: u8) = length host"
      using True by (simp add: unsigned_of_nat take_bit_eq_mod)
    then have "(of_nat (length host) :: u8) \<noteq> 0"
      using True by auto
    moreover have "read_exact (length host) (host @ to_be_bytes 2 port @ rest) = Inr (host, to_be_bytes 2 port @ rest)"
      by simp
    moreover have "read_exact 2 (to_be_bytes 2 port @ rest) = Inr (to_be_bytes 2 port, rest)"
      by simp
    ultimately show ?thesis
      using 3 True len by (simp add: read_address_def socks_consts Let_def)
  next
    case False
    then show ?thesis
      by (auto simp: read_address_def socks_consts Let_def)
  qed
qed

text \<open>What the relay wraps, the other end unwraps.  A datagram built for an address parses to that address
  and payload, whatever the kind of address; a name too long or empty to be written is refused by the
  reader rather than read as another destination.\<close>
theorem udp_roundtrip:
  assumes "well_formed a"
  shows "parse_udp (build_udp a payload) = (if expressible a then Inr (a, payload) else Inl InvalidData)"
proof -
  have split: "split_first_chunk 3 (build_udp a payload) = Some ([0, 0, 0], write_address a @ payload)"
    by (simp add: split_first_chunk_def build_udp_def)
  have "get_from (build_udp a payload) (3 + length (write_address a)) = Some payload"
    by (simp add: get_from_def build_udp_def numeral_3_eq_3)
  then show ?thesis
    using read_written [OF assms, of payload] by (simp add: parse_udp_def split Let_def)
qed

theorem udp_roundtrip_witness:
  "parse_udp (build_udp (Domain [97, 46, 98] 53) [1, 2]) = Inr (Domain [97, 46, 98] 53, [1, 2])"
proof -
  have "well_formed (Domain [97, 46, 98] 53)"
    by code_simp
  from udp_roundtrip [OF this, of "[1, 2]"] show ?thesis
    by simp
qed

section \<open>Credentials\<close>

lemma diff_of_zero: "length a = length b \<Longrightarrow> diff_of a b d = 0 \<longleftrightarrow> d = 0 \<and> a = b"
proof (induction a b d rule: diff_of.induct)
  case (1 x xs y ys diff)
  have "diff OR (x XOR y) = 0 \<longleftrightarrow> diff = 0 \<and> x = y"
    by (metis or_eq_0_iff xor_self_eq xor.right_neutral xor.assoc)
  then show ?case
    using 1 by auto
qed auto

lemma constant_time_eq_eq: "constant_time_eq a b \<longleftrightarrow> a = b"
  by (auto simp: constant_time_eq_def diff_of_zero)

lemma read_exact_Inr: "read_exact n r = Inr (xs, r') \<longleftrightarrow> r = xs @ r' \<and> length xs = n"
  by (auto simp: read_exact_def split_first_chunk_def ok_or_def split: option.splits if_splits)

lemma read_user_pass_Inr:
  assumes "read_user_pass r = Inr ((u, p), r')"
  obtains m n user pass where "r = [USER_PASS_VERSION, m] @ user @ [n] @ pass @ r'" "length user = unat m" "length pass = unat n"
    "u = lossy user" "p = lossy pass"
proof -
  obtain hdr user plen pass r1 r2 r3 where
      h: "r = hdr @ r1" "length hdr = 2" "byte_at hdr 0 = USER_PASS_VERSION"
      "r1 = user @ r2" "length user = unat (byte_at hdr 1)" "r2 = plen @ r3" "length plen = 1"
      "r3 = pass @ r'" "length pass = unat (byte_at plen 0)" "u = lossy user" "p = lossy pass"
    using assms by (auto simp: read_user_pass_def rbind_eq_Inr read_exact_Inr split: if_splits)
  obtain x y where "hdr = [x, y]"
    using h(2) by (auto simp: length_Suc_conv numeral_2_eq_2)
  moreover obtain n where "plen = [n]"
    using h(7) by (auto simp: length_Suc_conv)
  ultimately show ?thesis
    using h by (intro that [of y user n pass]) auto
qed

text \<open>C10. No way round the password.  With credentials configured, a connection is relayed or an association
  opened, and a target is tried at all, only for a client that sent that user name and that password in
  the form the protocol gives them.\<close>
theorem handle_requires_credentials:
  assumes "handle (Some (user, pass)) D advertised r = (c, out, tried)"
    and "tried \<noteq> [] \<or> (\<forall>e. c \<noteq> Ended e)"
  shows "\<exists>n methods m u k p rest. r = [SOCKS_VERSION, n] @ methods @ [USER_PASS_VERSION, m] @ u @ [k] @ p @ rest \<and>
    length methods = unat n \<and> USER_PASS \<in> set methods \<and> length u = unat m \<and> length p = unat k \<and>
    lossy u = user \<and> lossy p = pass"
proof -
  obtain rest where neg: "fst (negotiate (Some (user, pass)) r) = Inr rest"
    using assms by (cases "fst (negotiate (Some (user, pass)) r)") (auto simp: handle_def socks_connect_def Let_def split: prod.splits)
  then obtain offered r1 where g: "read_greeting r = Inr (offered, r1)" "USER_PASS \<in> set offered"
    by (auto simp: negotiate_def Let_def split: sum.splits if_splits)
  then obtain got_user got_pass where up: "read_user_pass r1 = Inr ((got_user, got_pass), rest)"
      "got_user = user" "got_pass = pass"
    using neg by (auto simp: negotiate_def Let_def constant_time_eq_eq split: sum.splits if_splits)
  obtain n where n: "r = [SOCKS_VERSION, n] @ offered @ r1" "length offered = unat n"
  proof -
    obtain hdr r0 where h: "r = hdr @ r0" "length hdr = 2" "byte_at hdr 0 = SOCKS_VERSION"
        "byte_at hdr 1 \<noteq> 0" "r0 = offered @ r1" "length offered = unat (byte_at hdr 1)"
      using g by (auto simp: read_greeting_def rbind_eq_Inr read_exact_Inr split: if_splits)
    obtain x y where "hdr = [x, y]"
      using h(2) by (auto simp: length_Suc_conv numeral_2_eq_2)
    then show ?thesis
      using h by (intro that [of y]) auto
  qed
  from read_user_pass_Inr [OF up(1)] obtain m k u p where
      "r1 = [USER_PASS_VERSION, m] @ u @ [k] @ p @ rest" "length u = unat m" "length p = unat k"
      "got_user = lossy u" "got_pass = lossy p"
    by metis
  then show ?thesis
    using n g(2) up(2,3) by (intro exI [of _ n] exI [of _ offered] exI [of _ m] exI [of _ u] exI [of _ k] exI [of _ p] exI [of _ rest]) simp
qed

definition sample_dialer :: dialer where
  "sample_dialer = \<lparr>dl_resolver = None, dl_system = (\<lambda>_ _. Inr [V6 (replicate 16 0) 1, V4 (Ipv4 1 2 3 4) 80]),
     dl_connect = (\<lambda>t. Inr (V4 (Ipv4 10 7 0 2) 999))\<rparr>"

definition sample_client :: bytes where
  "sample_client = [5, 2, 0, 2] @ [1, 1, 117, 1, 112] @ [5, 1, 0, 3, 1, 120, 0, 80]"

lemma sample_handle:
  "snd (snd (handle (Some ([117], [112])) sample_dialer (Inl OtherError) sample_client)) = [V4 (Ipv4 1 2 3 4) 80]"
  by code_simp

theorem handle_requires_credentials_witness:
  "\<exists>n methods m u k p rest. sample_client = [SOCKS_VERSION, n] @ methods @ [USER_PASS_VERSION, m] @ u @ [k] @ p @ rest \<and>
    length methods = unat n \<and> USER_PASS \<in> set methods \<and> length u = unat m \<and> length p = unat k \<and>
    lossy u = [117] \<and> lossy p = [112]"
proof -
  obtain c out where "handle (Some ([117], [112])) sample_dialer (Inl OtherError) sample_client = (c, out, [V4 (Ipv4 1 2 3 4) 80])"
    using sample_handle by (metis prod.collapse)
  then show ?thesis
    by (rule handle_requires_credentials) simp
qed

section \<open>Targets\<close>

lemma try_targets_prefix:
  "case try_targets D ts failure of (r, tried) \<Rightarrow> (\<exists>rest. ts = tried @ rest) \<and>
     (case r of
        Inr bound \<Rightarrow> tried \<noteq> [] \<and> dl_connect D (last tried) = Inr bound \<and> list_all (\<lambda>t. isl (dl_connect D t)) (butlast tried)
      | Inl e \<Rightarrow> tried = ts \<and> list_all (\<lambda>t. isl (dl_connect D t)) ts)"
proof (induction ts arbitrary: failure)
  case (Cons t ts)
  show ?case
  proof (cases "dl_connect D t")
    case (Inl e)
    obtain r tried where r: "try_targets D ts e = (r, tried)"
      by fastforce
    then show ?thesis
      using Cons.IH [of e] Inl by (auto split: sum.splits)
  qed simp
qed simp

text \<open>Nothing goes round the tunnel.  Every target a request makes the program try is an IPv4 address the
  request resolves to, tried in order until one connects; a destination reachable over IPv6 alone is
  refused before any socket is made, and the client told so.\<close>
theorem connects_inside_tunnel:
  "case connect_tcp D a of (r, tried) \<Rightarrow>
     list_all is_ipv4 tried \<and>
     (case dial_resolve D a of
        Inl e \<Rightarrow> r = Inl e \<and> tried = []
      | Inr targets \<Rightarrow>
          (\<exists>rest. filter is_ipv4 targets = tried @ rest) \<and>
          (case r of
             Inr bound \<Rightarrow> tried \<noteq> [] \<and> dl_connect D (last tried) = Inr bound
           | Inl e \<Rightarrow> tried = filter is_ipv4 targets \<and>
               (if tried = [] \<and> targets \<noteq> [] then reply_code_for e = ADDRESS_NOT_SUPPORTED else True)))"
proof (cases "dial_resolve D a")
  case (Inr targets)
  show ?thesis
  proof (cases "filter is_ipv4 targets = []")
    case True
    then show ?thesis
      using Inr by (cases targets) (auto simp: connect_tcp_def tunnelable_def reply_code_for_def filter_empty_conv)
  next
    case False
    obtain r tried where r: "try_targets D (filter is_ipv4 targets) NotFound = (r, tried)"
      by fastforce
    obtain rest where "filter is_ipv4 targets = tried @ rest"
      using try_targets_prefix [where D = D and ts = "filter is_ipv4 targets" and failure = NotFound] r by auto
    moreover have "list_all is_ipv4 (filter is_ipv4 targets)"
      by (simp add: list_all_iff)
    ultimately have "list_all is_ipv4 tried"
      by simp
    then show ?thesis
      using try_targets_prefix [where D = D and ts = "filter is_ipv4 targets" and failure = NotFound] Inr False r
      by (auto simp: connect_tcp_def tunnelable_def split: sum.splits)
  qed
qed (simp add: connect_tcp_def)

text \<open>C34. An association serves one client.  Whatever arrives at the relay socket, the sender of the first
  datagram is the client: its datagrams, and no one else's, are unwrapped and sent on, to IPv4
  destinations only; everything else is wrapped with its sender and goes to the client alone.\<close>
theorem association_serves_one_client:
  "udp_associate D None ((datagram, client) # arrivals) =
     map (\<lambda>(d, sender). if sender = client then forward_outbound D d else Some (client, build_udp (Socket sender) d))
       ((datagram, client) # arrivals) \<and>
   list_all (\<lambda>(d, sender). case forward_outbound D d of None \<Rightarrow> True | Some (target, _) \<Rightarrow> is_ipv4 target) arrivals"
proof -
  have "udp_associate D (Some client) arrivals =
      map (\<lambda>(d, sender). if sender = client then forward_outbound D d else Some (client, build_udp (Socket sender) d)) arrivals"
    by (induction arrivals) (auto simp: udp_step_def forward_inbound_def)
  moreover have "case forward_outbound D d of None \<Rightarrow> True | Some (target, _) \<Rightarrow> is_ipv4 target" for d
    by (auto simp: forward_outbound_def find_Some_iff split: sum.split option.split)
  ultimately show ?thesis
    by (auto simp: udp_step_def list_all_iff)
qed

end
