(* ===== verification/Neigh.thy ===== *)
theory Neigh
  imports Dns
begin

text \<open>
  Where a frame that bypasses the routing table is sent (\<open>paqetz-dp/src/neigh.rs\<close>): the next hop out of the
  text of \<open>/proc/net/route\<close>, and the hardware address out of the text of \<open>/proc/net/arp\<close>.  Texts are strings
  of bytes; the kernel writes them in ASCII.
\<close>

section \<open>Reading text\<close>

definition is_space :: "char \<Rightarrow> bool" where
  "is_space c \<longleftrightarrow> (let n = of_char c :: nat in 9 \<le> n \<and> n \<le> 13 \<or> n = 32)"

fun split_when :: "('a \<Rightarrow> bool) \<Rightarrow> 'a list \<Rightarrow> 'a list list" where
  "split_when P [] = [[]]"
| "split_when P (x # xs) =
     (if P x then [] # split_when P xs
      else case split_when P xs of p # ps \<Rightarrow> (x # p) # ps | [] \<Rightarrow> [[x]])"

definition split_whitespace :: "string \<Rightarrow> string list" where
  "split_whitespace s = filter (\<lambda>w. w \<noteq> []) (split_when is_space s)"

text \<open>\<open>str::lines\<close>: a line feed ends a line, with a carriage return before it if there is one; text after
  the last line feed is a line if it is not empty.\<close>

definition strip_cr :: "string \<Rightarrow> string" where
  "strip_cr l = (if l \<noteq> [] \<and> last l = CHR 0x0D then butlast l else l)"

definition lines_of :: "string \<Rightarrow> string list" where
  "lines_of s =
     (let ps = split_on (CHR 0x0A) s in
      map strip_cr (butlast ps) @ (if last ps = [] then [] else [last ps]))"

definition hex_digit :: "char \<Rightarrow> nat option" where
  "hex_digit c =
     (let n = of_char c :: nat in
      if 48 \<le> n \<and> n \<le> 57 then Some (n - 48)
      else if 97 \<le> n \<and> n \<le> 102 then Some (n - 87)
      else if 65 \<le> n \<and> n \<le> 70 then Some (n - 55)
      else None)"

fun hex_value :: "string \<Rightarrow> nat \<Rightarrow> nat option" where
  "hex_value [] acc = Some acc"
| "hex_value (c # cs) acc = (case hex_digit c of None \<Rightarrow> None | Some d \<Rightarrow> hex_value cs (16 * acc + d))"

text \<open>\<open>from_str_radix(_, 16)\<close> of an unsigned type of \<open>w\<close> bits: an optional plus sign, at least one digit,
  and no overflow.\<close>

definition from_hex :: "nat \<Rightarrow> string \<Rightarrow> nat option" where
  "from_hex w s =
     (let ds = (case s of CHR ''+'' # rest \<Rightarrow> rest | _ \<Rightarrow> s) in
      if ds = [] then None
      else case hex_value ds 0 of None \<Rightarrow> None | Some v \<Rightarrow> if v < 2 ^ w then Some v else None)"

section \<open>The next hop\<close>

record route =
  rt_destination :: u32
  rt_gateway :: u32
  rt_mask :: u32

definition swap_bytes :: "u32 \<Rightarrow> u32" where
  "swap_bytes w = from_be_bytes (to_le_bytes 4 w)"

definition hex_field :: "string list \<Rightarrow> nat \<Rightarrow> u32 option" where
  "hex_field fs i = do { f \<leftarrow> get fs i; v \<leftarrow> from_hex 32 f; Some (of_nat v) }"

definition parse_route :: "string \<Rightarrow> route option" where
  "parse_route line = do {
     let fs = split_whitespace line;
     iface \<leftarrow> get fs 0;
     destination \<leftarrow> hex_field fs 1;
     gateway \<leftarrow> hex_field fs 2;
     flags \<leftarrow> hex_field fs 3;
     mask \<leftarrow> hex_field fs 7;
     if flags AND 1 = 0 then None
     else Some \<lparr>rt_destination = swap_bytes destination, rt_gateway = swap_bytes gateway,
                rt_mask = swap_bytes mask\<rparr>
   }"

definition count_ones :: "u32 \<Rightarrow> nat" where
  "count_ones w = length (filter (bit w) [0..<32])"

definition covers :: "u32 \<Rightarrow> route \<Rightarrow> bool" where
  "covers target r \<longleftrightarrow> target AND rt_mask r = rt_destination r AND rt_mask r"

fun best_route :: "u32 \<Rightarrow> string list \<Rightarrow> route option \<Rightarrow> route option" where
  "best_route target [] best = best"
| "best_route target (line # rest) best =
     (case parse_route line of
        None \<Rightarrow> best_route target rest best
      | Some r \<Rightarrow>
          if \<not> covers target r then best_route target rest best
          else if (case best of None \<Rightarrow> True | Some b \<Rightarrow> count_ones (rt_mask r) > count_ones (rt_mask b))
          then best_route target rest (Some r)
          else best_route target rest best)"

fun ipv4_of_octets :: "bytes \<Rightarrow> ipv4 option" where
  "ipv4_of_octets [a, b, c, d] = Some (Ipv4 a b c d)"
| "ipv4_of_octets _ = None"

definition next_hop_from :: "string \<Rightarrow> ipv4 \<Rightarrow> ipv4 option" where
  "next_hop_from table dst =
     (case best_route (from_be_bytes (octets dst)) (drop 1 (lines_of table)) None of
        None \<Rightarrow> None
      | Some r \<Rightarrow> if rt_gateway r = 0 then Some dst else ipv4_of_octets (to_be_bytes 4 (rt_gateway r)))"

section \<open>The hardware address\<close>

definition decimal :: "u8 \<Rightarrow> string" where
  "decimal b =
     (let n = unat b; digit = (\<lambda>k. char_of (48 + k :: nat)) in
      (if n \<ge> 100 then [digit (n div 100)] else []) @ (if n \<ge> 10 then [digit (n div 10 mod 10)] else [])
        @ [digit (n mod 10)])"

fun show_ipv4 :: "ipv4 \<Rightarrow> string" where
  "show_ipv4 (Ipv4 a b c d) = decimal a @ ''.'' @ decimal b @ ''.'' @ decimal c @ ''.'' @ decimal d"

text \<open>\<open>trim_start_matches("0x")\<close> takes the prefix off as often as it is there.\<close>

fun trim_0x :: "string \<Rightarrow> string" where
  "trim_0x (a # b # s) = (if a = CHR ''0'' \<and> b = CHR ''x'' then trim_0x s else a # b # s)"
| "trim_0x s = s"

fun mac_octets :: "string list \<Rightarrow> bytes option" where
  "mac_octets [] = Some []"
| "mac_octets (p # ps) = do { v \<leftarrow> from_hex 8 p; rest \<leftarrow> mac_octets ps; Some (of_nat v # rest) }"

definition parse_mac :: "string \<Rightarrow> bytes option" where
  "parse_mac text = do {
     let parts = split_on (CHR '':'') text;
     mac \<leftarrow> (if length parts < 6 then None else mac_octets (take 6 parts));
     if length parts > 6 then None
     else if mac = replicate 6 0 then None else Some mac
   }"

fun find_neighbour :: "string \<Rightarrow> string list \<Rightarrow> bytes option" where
  "find_neighbour wanted [] = None"
| "find_neighbour wanted (line # rest) =
     (let fs = split_whitespace line in
      case get fs 0 of
        None \<Rightarrow> None
      | Some ip \<Rightarrow>
          if ip \<noteq> wanted then find_neighbour wanted rest
          else do {
            hw_type \<leftarrow> get fs 1;
            f \<leftarrow> get fs 2;
            flags \<leftarrow> from_hex 32 (trim_0x f);
            if (of_nat flags :: u32) AND 2 = 0 then find_neighbour wanted rest
            else do { text \<leftarrow> get fs 3; parse_mac text }
          })"

definition hardware_address_from :: "string \<Rightarrow> ipv4 \<Rightarrow> bytes option" where
  "hardware_address_from table addr = find_neighbour (show_ipv4 addr) (drop 1 (lines_of table))"

text \<open>The files are read afresh each time: a failed read is \<open>None\<close>, and \<open>reads k\<close> is what the \<open>k\<close>-th read
  of \<open>/proc/net/arp\<close> gives.\<close>

definition next_hop :: "string option \<Rightarrow> ipv4 \<Rightarrow> ipv4 option" where
  "next_hop table dst = (case table of None \<Rightarrow> None | Some t \<Rightarrow> next_hop_from t dst)"

definition hardware_address :: "string option \<Rightarrow> ipv4 \<Rightarrow> bytes option" where
  "hardware_address table addr = (case table of None \<Rightarrow> None | Some t \<Rightarrow> hardware_address_from t addr)"

fun poll_neighbour :: "(nat \<Rightarrow> string option) \<Rightarrow> ipv4 \<Rightarrow> nat \<Rightarrow> nat \<Rightarrow> bytes option" where
  "poll_neighbour reads addr k 0 = None"
| "poll_neighbour reads addr k (Suc n) =
     (case hardware_address (reads k) addr of
        Some mac \<Rightarrow> Some mac
      | None \<Rightarrow> poll_neighbour reads addr (Suc k) n)"

definition neigh_resolve :: "(nat \<Rightarrow> string option) \<Rightarrow> ipv4 \<Rightarrow> bytes option" where
  "neigh_resolve reads addr =
     (case hardware_address (reads 0) addr of
        Some mac \<Rightarrow> Some mac
      | None \<Rightarrow> poll_neighbour reads addr 1 20)"

section \<open>Longest prefix\<close>

definition usable :: "u32 \<Rightarrow> string list \<Rightarrow> route list" where
  "usable target ls = filter (covers target) (List.map_filter parse_route ls)"

abbreviation bits :: "route \<Rightarrow> nat" where
  "bits r \<equiv> count_ones (rt_mask r)"

fun longest :: "route list \<Rightarrow> route option \<Rightarrow> route option" where
  "longest [] best = best"
| "longest (r # rs) best =
     longest rs (case best of None \<Rightarrow> Some r | Some b \<Rightarrow> Some (if bits r > bits b then r else b))"

lemma best_route_longest: "best_route target ls best = longest (usable target ls) best"
  by (induction target ls best rule: best_route.induct)
    (auto simp: usable_def map_filter_def split: option.split)

lemma longest_wins:
  "\<exists>pre r post. longest rs (Some b) = Some r \<and> b # rs = pre @ r # post \<and>
     list_all (\<lambda>q. bits q < bits r) pre \<and> list_all (\<lambda>q. bits q \<le> bits r) post"
proof (induction rs arbitrary: b)
  case Nil
  show ?case
    by (rule exI [of _ "[]"]) simp
next
  case (Cons q rs)
  show ?case
  proof (cases "bits q > bits b")
    case True
    obtain pre r post where r: "longest rs (Some q) = Some r" "q # rs = pre @ r # post"
        "list_all (\<lambda>q. bits q < bits r) pre" "list_all (\<lambda>q. bits q \<le> bits r) post"
      using Cons.IH [of q] by blast
    then have "bits q \<le> bits r"
      by (cases pre) auto
    then have "list_all (\<lambda>q. bits q < bits r) (b # pre)"
      using True r(3) by simp
    moreover have "b # q # rs = (b # pre) @ r # post"
      using r(2) by simp
    moreover have "longest (q # rs) (Some b) = Some r"
      using True r(1) by simp
    ultimately show ?thesis
      using r(4) by blast
  next
    case False
    obtain pre r post where r: "longest rs (Some b) = Some r" "b # rs = pre @ r # post"
        "list_all (\<lambda>q. bits q < bits r) pre" "list_all (\<lambda>q. bits q \<le> bits r) post"
      using Cons.IH [of b] by blast
    show ?thesis
    proof (cases pre)
      case Nil
      then show ?thesis
        using False r by (intro exI [of _ "[]"] exI [of _ r] exI [of _ "q # post"]) simp
    next
      case (Cons b' pre')
      then show ?thesis
        using False r by (intro exI [of _ "b # q # pre'"] exI [of _ r] exI [of _ post]) auto
    qed
  qed
qed

text \<open>C35. The longest prefix wins.  The next hop is that of a route that is up and covers the destination,
  every such route before it in the table having a shorter prefix and every one after it none longer;
  a route without a gateway makes the destination its own next hop; and there is no next hop exactly when
  no route covers the destination.\<close>
theorem next_hop_longest_prefix:
  "case next_hop_from table dst of
     None \<Rightarrow> usable (from_be_bytes (octets dst)) (drop 1 (lines_of table)) = []
   | Some hop \<Rightarrow>
       \<exists>pre r post. usable (from_be_bytes (octets dst)) (drop 1 (lines_of table)) = pre @ r # post \<and>
         list_all (\<lambda>q. bits q < bits r) pre \<and> list_all (\<lambda>q. bits q \<le> bits r) post \<and>
         (if rt_gateway r = 0 then hop = dst else octets hop = to_be_bytes 4 (rt_gateway r))"
proof (cases "usable (from_be_bytes (octets dst)) (drop 1 (lines_of table))")
  case Nil
  then show ?thesis
    by (simp add: next_hop_from_def best_route_longest)
next
  case (Cons b rs)
  obtain pre r post where r: "longest rs (Some b) = Some r" "b # rs = pre @ r # post"
      "list_all (\<lambda>q. bits q < bits r) pre" "list_all (\<lambda>q. bits q \<le> bits r) post"
    using longest_wins [of rs b] by blast
  have "next_hop_from table dst =
      (if rt_gateway r = 0 then Some dst else ipv4_of_octets (to_be_bytes 4 (rt_gateway r)))"
    using Cons r(1) by (simp add: next_hop_from_def best_route_longest)
  then show ?thesis
    using Cons r(2-4) by (auto simp: to_be_bytes_4)
qed

section \<open>Only resolved neighbours\<close>

lemma parse_mac_usable: "parse_mac text = Some mac \<Longrightarrow> length mac = 6 \<and> mac \<noteq> replicate 6 0"
proof -
  have "mac_octets ps = Some m \<Longrightarrow> length m = length ps" for ps m
    by (induction ps arbitrary: m) (auto simp: bind_eq_Some_conv)
  then show "parse_mac text = Some mac \<Longrightarrow> length mac = 6 \<and> mac \<noteq> replicate 6 0"
    by (auto simp: parse_mac_def Let_def bind_eq_Some_conv split: if_splits)
qed

definition resolved_row :: "string \<Rightarrow> bytes \<Rightarrow> string \<Rightarrow> bool" where
  "resolved_row wanted mac line \<longleftrightarrow>
     (let fs = split_whitespace line in
      get fs 0 = Some wanted \<and> Option.bind (get fs 3) parse_mac = Some mac \<and>
      (case Option.bind (get fs 2) (\<lambda>f. from_hex 32 (trim_0x f)) of
         None \<Rightarrow> False | Some flags \<Rightarrow> (of_nat flags :: u32) AND 2 \<noteq> 0))"

lemma find_neighbour_row:
  "find_neighbour wanted ls = Some mac \<Longrightarrow> list_ex (resolved_row wanted mac) ls"
proof (induction ls)
  case (Cons line ls)
  let ?fs = "split_whitespace line"
  obtain ip where ip: "get ?fs 0 = Some ip"
    using Cons.prems by (cases "get ?fs 0") (simp_all add: Let_def)
  show ?case
  proof (cases "ip = wanted")
    case False
    then show ?thesis
      using Cons ip by (simp add: Let_def)
  next
    case True
    then obtain f flags where f: "get ?fs 2 = Some f" "from_hex 32 (trim_0x f) = Some flags"
      using Cons.prems ip by (auto simp: Let_def bind_eq_Some_conv)
    show ?thesis
    proof (cases "(of_nat flags :: u32) AND 2 = 0")
      case True
      then show ?thesis
        using Cons ip \<open>ip = wanted\<close> f by (auto simp: Let_def bind_eq_Some_conv)
    next
      case False
      then have "resolved_row wanted mac line"
        using Cons.prems ip \<open>ip = wanted\<close> f
        by (auto simp: resolved_row_def Let_def bind_eq_Some_conv)
      then show ?thesis
        by simp
    qed
  qed
qed simp

lemma find_neighbour_usable:
  "find_neighbour wanted ls = Some mac \<Longrightarrow> length mac = 6 \<and> mac \<noteq> replicate 6 0"
  using find_neighbour_row [of wanted ls mac] parse_mac_usable
  by (auto simp: list_ex_iff resolved_row_def Let_def bind_eq_Some_conv)

lemma poll_neighbour_find:
  "case poll_neighbour reads addr k n of
     None \<Rightarrow> list_all (\<lambda>j. hardware_address (reads j) addr = None) [k..<k + n]
   | Some mac \<Rightarrow> list_ex (\<lambda>j. hardware_address (reads j) addr = Some mac) [k..<k + n]"
proof (induction n arbitrary: k)
  case (Suc n)
  have range: "set [k..<k + Suc n] = insert k (set [Suc k..<Suc k + n])"
    by auto
  then show ?case
    using Suc.IH [of "Suc k"]
    by (cases "hardware_address (reads k) addr"; cases "poll_neighbour reads addr (Suc k) n")
      (simp_all only: poll_neighbour.simps option.case list_all_iff list_ex_iff range, auto)
qed simp

lemma neigh_resolve_poll: "neigh_resolve reads addr = poll_neighbour reads addr 0 21"
  by (simp add: neigh_resolve_def numeral_eq_Suc split: option.split)

lemma hardware_address_usable:
  assumes "hardware_address table addr = Some mac"
  shows "length mac = 6 \<and> mac \<noteq> replicate 6 0 \<and>
    list_ex (resolved_row (show_ipv4 addr) mac) (drop 1 (lines_of (the table)))"
  using assms find_neighbour_row find_neighbour_usable
  by (auto simp: hardware_address_def hardware_address_from_def simp del: length_greater_0_conv
      split: option.splits)

text \<open>An unresolved neighbour is never used.  Resolving fails only when none of the twenty-one reads of the
  neighbour table had a usable entry; the address it returns is six bytes long, not all zero, and one of
  the reads had it in a row that names the neighbour asked for and whose entry is complete.\<close>
theorem neighbour_is_resolved:
  "case neigh_resolve reads addr of
     None \<Rightarrow> list_all (\<lambda>k. hardware_address (reads k) addr = None) [0..<21]
   | Some mac \<Rightarrow> length mac = 6 \<and> mac \<noteq> replicate 6 0 \<and>
       list_ex (\<lambda>k. list_ex (resolved_row (show_ipv4 addr) mac) (drop 1 (lines_of (the (reads k))))) [0..<21]"
proof (cases "neigh_resolve reads addr")
  case None
  then show ?thesis
    using poll_neighbour_find [of reads addr 0 21] by (simp add: neigh_resolve_poll)
next
  case (Some mac)
  then obtain k where "k \<in> set [0..<21]" "hardware_address (reads k) addr = Some mac"
    using poll_neighbour_find [of reads addr 0 21] by (auto simp: neigh_resolve_poll list_ex_iff)
  then show ?thesis
    using Some hardware_address_usable [of "reads k" addr mac] by (auto simp: list_ex_iff)
qed

end
