(* ===== verification/Addrtext.thy ===== *)
theory Addrtext
  imports Neigh Tunnel
begin

text \<open>
  Addresses written as text, as the configuration holds them: the parser of \<open>std::net\<close> and the integer
  parser of the standard library that \<open>paqetz/src/config.rs\<close> calls, and its own readers on top of them
  (\<open>parse_cidr\<close>, \<open>parse_cidr6\<close>, \<open>mask_from_prefix\<close>, \<open>parse_resolver\<close>).  A parser takes the text that is
  left and gives a value with the text after it; it fails without having read anything.
\<close>

section \<open>The parser of the standard library\<close>

definition digit_of :: "nat \<Rightarrow> char \<Rightarrow> nat option" where
  "digit_of radix c = (case hex_digit c of None \<Rightarrow> None | Some d \<Rightarrow> if d < radix then Some d else None)"

fun read_digits :: "nat \<Rightarrow> string \<Rightarrow> nat list \<times> string" where
  "read_digits radix [] = ([], [])"
| "read_digits radix (c # cs) =
     (case digit_of radix c of
        None \<Rightarrow> ([], c # cs)
      | Some d \<Rightarrow> (let (ds, rest) = read_digits radix cs in (d # ds, rest)))"

definition digits_value :: "nat \<Rightarrow> nat list \<Rightarrow> nat" where
  "digits_value radix ds = foldl (\<lambda>v d. v * radix + d) 0 ds"

text \<open>\<open>read_number\<close>: at most so many digits, perhaps no leading zero, and a value of \<open>w\<close> bits.\<close>

definition read_number :: "nat \<Rightarrow> nat option \<Rightarrow> bool \<Rightarrow> nat \<Rightarrow> string \<Rightarrow> (nat \<times> string) option" where
  "read_number radix max_digits allow_zero_prefix w s =
     (let (ds, rest) = read_digits radix s in
      if ds = [] then None
      else if (case max_digits of None \<Rightarrow> False | Some m \<Rightarrow> length ds > m) then None
      else if \<not> allow_zero_prefix \<and> hd ds = 0 \<and> length ds > 1 then None
      else if digits_value radix ds < 2 ^ w then Some (digits_value radix ds, rest) else None)"

definition read_given :: "char \<Rightarrow> string \<Rightarrow> string option" where
  "read_given c s = (case s of [] \<Rightarrow> None | d # rest \<Rightarrow> if d = c then Some rest else None)"

definition read_separator :: "char \<Rightarrow> nat \<Rightarrow> (string \<Rightarrow> ('a \<times> string) option) \<Rightarrow> string \<Rightarrow> ('a \<times> string) option" where
  "read_separator sep i inner s =
     (if i = 0 then inner s else do { rest \<leftarrow> read_given sep s; inner rest })"

definition read_octet :: "nat \<Rightarrow> string \<Rightarrow> (nat \<times> string) option" where
  "read_octet i = read_separator (CHR ''.'') i (read_number 10 (Some 3) False 8)"

definition read_ipv4 :: "string \<Rightarrow> (ipv4 \<times> string) option" where
  "read_ipv4 s = do {
     (a, s1) \<leftarrow> read_octet 0 s;
     (b, s2) \<leftarrow> read_octet 1 s1;
     (c, s3) \<leftarrow> read_octet 2 s2;
     (d, s4) \<leftarrow> read_octet 3 s3;
     Some (Ipv4 (of_nat a) (of_nat b) (of_nat c) (of_nat d), s4)
   }"

text \<open>A run of at most \<open>n\<close> groups, the \<open>i\<close>-th next; an IPv4 address may end it if it fits.\<close>

fun read_groups :: "nat \<Rightarrow> nat \<Rightarrow> string \<Rightarrow> u16 list \<times> bool \<times> string" where
  "read_groups 0 i s = ([], False, s)"
| "read_groups (Suc n) i s =
     (case (if n > 0 then read_separator (CHR '':'') i read_ipv4 s else None) of
        Some (Ipv4 a b c d, rest) \<Rightarrow> ([from_be_bytes [a, b], from_be_bytes [c, d]], True, rest)
      | None \<Rightarrow>
          (case read_separator (CHR '':'') i (read_number 16 (Some 4) True 16) s of
             None \<Rightarrow> ([], False, s)
           | Some (g, rest) \<Rightarrow>
               (let (gs, v4, rest') = read_groups n (Suc i) rest in (of_nat g # gs, v4, rest'))))"

definition ipv6_of_groups :: "u16 list \<Rightarrow> ipv6" where
  "ipv6_of_groups gs = from_be_bytes (concat (map (to_be_bytes 2) gs))"

definition read_ipv6 :: "string \<Rightarrow> (ipv6 \<times> string) option" where
  "read_ipv6 s =
     (let (front, v4, rest) = read_groups 8 0 s in
      if length front = 8 then Some (ipv6_of_groups front, rest)
      else if v4 then None
      else do {
        r1 \<leftarrow> read_given (CHR '':'') rest;
        r2 \<leftarrow> read_given (CHR '':'') r1;
        let (rear, _, r3) = read_groups (8 - (length front + 1)) 0 r2;
        Some (ipv6_of_groups (front @ replicate (8 - length front - length rear) 0 @ rear), r3)
      })"

text \<open>\<open>from_str\<close>: the whole text has to be read.\<close>

definition whole :: "('a \<times> string) option \<Rightarrow> 'a option" where
  "whole r = (case r of Some (v, []) \<Rightarrow> Some v | _ \<Rightarrow> None)"

definition parse_ipv4 :: "string \<Rightarrow> ipv4 option" where
  "parse_ipv4 s = (if length s > 15 then None else whole (read_ipv4 s))"

definition parse_ipv6 :: "string \<Rightarrow> ipv6 option" where
  "parse_ipv6 s = whole (read_ipv6 s)"

definition read_port :: "string \<Rightarrow> (u16 \<times> string) option" where
  "read_port s = do {
     r1 \<leftarrow> read_given (CHR '':'') s;
     (v, r2) \<leftarrow> read_number 10 None True 16 r1;
     Some (of_nat v, r2)
   }"

definition read_socket_v4 :: "string \<Rightarrow> (sock \<times> string) option" where
  "read_socket_v4 s = do { (ip, r1) \<leftarrow> read_ipv4 s; (port, r2) \<leftarrow> read_port r1; Some ((ip, port), r2) }"

definition parse_socket_v4 :: "string \<Rightarrow> sock option" where
  "parse_socket_v4 s = whole (read_socket_v4 s)"

datatype listen_addr = Listen4 sock | Listen6 ipv6 u32 u16

definition read_scope :: "string \<Rightarrow> u32 \<times> string" where
  "read_scope s =
     (case do { r1 \<leftarrow> read_given (CHR ''%'') s; read_number 10 None True 32 r1 } of
        None \<Rightarrow> (0, s)
      | Some (v, rest) \<Rightarrow> (of_nat v, rest))"

definition read_socket_v6 :: "string \<Rightarrow> (listen_addr \<times> string) option" where
  "read_socket_v6 s = do {
     r1 \<leftarrow> read_given (CHR ''['') s;
     (ip, r2) \<leftarrow> read_ipv6 r1;
     let (scope, r3) = read_scope r2;
     r4 \<leftarrow> read_given (CHR '']'') r3;
     (port, r5) \<leftarrow> read_port r4;
     Some (Listen6 ip scope port, r5)
   }"

definition parse_socket :: "string \<Rightarrow> listen_addr option" where
  "parse_socket s =
     whole (case read_socket_v4 s of Some (a, rest) \<Rightarrow> Some (Listen4 a, rest) | None \<Rightarrow> read_socket_v6 s)"

text \<open>\<open>u8::from_str\<close>: an optional plus sign, digits to the end, no overflow.\<close>

definition parse_u8 :: "string \<Rightarrow> u8 option" where
  "parse_u8 s =
     (let ds = (case s of CHR ''+'' # rest \<Rightarrow> rest | _ \<Rightarrow> s) in
      map_option of_nat (whole (read_number 10 None True 8 ds)))"

fun split_once :: "char \<Rightarrow> string \<Rightarrow> (string \<times> string) option" where
  "split_once c [] = None"
| "split_once c (x # xs) =
     (if x = c then Some ([], xs) else map_option (\<lambda>(a, b). (x # a, b)) (split_once c xs))"

definition str_trim :: "string \<Rightarrow> string" where
  "str_trim s = rev (dropWhile is_space (rev (dropWhile is_space s)))"

fun show_nat :: "nat \<Rightarrow> string" where
  "show_nat n = (if n < 10 then [char_of (48 + n)] else show_nat (n div 10) @ [char_of (48 + n mod 10)])"

declare show_nat.simps [simp del]

section \<open>The readers of the configuration\<close>

definition parse_cidr :: "string \<Rightarrow> (ipv4 \<times> u8) option" where
  "parse_cidr s = do {
     (addr_text, prefix_text) \<leftarrow> split_once (CHR ''/'') s;
     addr \<leftarrow> parse_ipv4 addr_text;
     prefix \<leftarrow> parse_u8 prefix_text;
     if prefix > 32 then None else Some (addr, prefix)
   }"

definition parse_cidr6 :: "string \<Rightarrow> (ipv6 \<times> u8) option" where
  "parse_cidr6 s = do {
     (addr_text, prefix_text) \<leftarrow> split_once (CHR ''/'') s;
     addr \<leftarrow> parse_ipv6 addr_text;
     prefix \<leftarrow> parse_u8 prefix_text;
     if prefix > 128 then None else Some (addr, prefix)
   }"

definition mask_from_prefix :: "u8 \<Rightarrow> u32" where
  "mask_from_prefix prefix =
     (if prefix = 0 then 0
      else let shift = 32 - unat (min prefix 32) in if shift < 32 then push_bit shift (- 1) else 0)"

definition parse_resolver :: "string \<Rightarrow> sock option" where
  "parse_resolver text =
     (case parse_socket_v4 text of
        Some addr \<Rightarrow> Some addr
      | None \<Rightarrow> map_option (\<lambda>ip. (ip, 53)) (parse_ipv4 text))"

section \<open>There and back\<close>

lemma u8_bound: "unat (a :: u8) < 256"
proof -
  have "unat a < 2 ^ LENGTH(8)"
    by (rule unsigned_less)
  then show ?thesis
    by simp
qed

lemma digit_of_char: "k < 10 \<Longrightarrow> digit_of 10 (char_of (48 + k)) = Some k"
  by (simp add: digit_of_def hex_digit_def)

definition ends_number :: "string \<Rightarrow> bool" where
  "ends_number rest \<longleftrightarrow> (case rest of [] \<Rightarrow> True | c # _ \<Rightarrow> digit_of 10 c = None)"

lemma read_digits_end: "ends_number rest \<Longrightarrow> read_digits 10 rest = ([], rest)"
  by (cases rest) (auto simp: ends_number_def)

lemma read_number_decimal:
  assumes "ends_number rest" and "max_digits = None \<or> max_digits = Some 3"
  shows "read_number 10 max_digits z 8 (decimal a @ rest) = Some (unat a, rest)"
proof -
  define n where "n = unat a"
  have n: "n < 256"
    using u8_bound [of a] by (simp add: n_def)
  consider "n < 10" | "10 \<le> n" "n < 100" | "100 \<le> n"
    by linarith
  then show ?thesis
  proof cases
    case 1
    then have "decimal a = [char_of (48 + n)]"
      by (simp add: decimal_def n_def Let_def)
    then show ?thesis
      using assms 1 n by (auto simp: read_number_def digit_of_char read_digits_end digits_value_def n_def)
  next
    case 2
    then have "decimal a = [char_of (48 + n div 10), char_of (48 + n mod 10)]"
      by (simp add: decimal_def n_def [symmetric] Let_def)
    then show ?thesis
      using assms 2 n by (auto simp: read_number_def digit_of_char read_digits_end digits_value_def n_def)
  next
    case 3
    then have d: "decimal a = [char_of (48 + n div 100), char_of (48 + n div 10 mod 10), char_of (48 + n mod 10)]"
      by (simp add: decimal_def n_def [symmetric] Let_def)
    have "n div 100 < 10" "n div 100 \<noteq> 0"
      using 3 n by auto
    moreover have "(n div 100 * 10 + n div 10 mod 10) * 10 + n mod 10 = n"
    proof -
      have "n div 100 = n div 10 div 10"
        by (simp add: div_mult2_eq [symmetric])
      then show ?thesis
        by (simp only: div_mult_mod_eq)
    qed
    ultimately show ?thesis
      using assms n unfolding d
      by (auto simp: read_number_def digit_of_char read_digits_end digits_value_def n_def)
  qed
qed

lemma read_ipv4_show:
  assumes "ends_number rest"
  shows "read_ipv4 (show_ipv4 a @ rest) = Some (a, rest)"
proof (cases a)
  case (Ipv4 w x y z)
  have dot: "ends_number (CHR ''.'' # s)" for s
    by (simp add: ends_number_def digit_of_def hex_digit_def)
  show ?thesis
    using assms dot
    by (simp add: Ipv4 read_ipv4_def read_octet_def read_separator_def read_given_def read_number_decimal)
qed

lemma decimal_digits: "c \<in> set (decimal a) \<Longrightarrow> digit_of 10 c \<noteq> None"
  using u8_bound [of a] by (auto simp: decimal_def Let_def digit_of_char split: if_splits)

lemma length_decimal: "length (decimal a) \<le> 3"
  by (simp add: decimal_def Let_def)

lemma show_ipv4_chars: "c \<in> set (show_ipv4 a) \<Longrightarrow> c = CHR ''.'' \<or> digit_of 10 c \<noteq> None"
  by (cases a) (auto dest: decimal_digits)

lemma split_once_append: "c \<notin> set xs \<Longrightarrow> split_once c (xs @ c # ys) = Some (xs, ys)"
  by (induction xs) auto

lemma parse_ipv4_show: "parse_ipv4 (show_ipv4 a) = Some a"
proof -
  obtain w x y z where a: "a = Ipv4 w x y z"
    by (cases a)
  have "length (show_ipv4 a) \<le> 15"
    using length_decimal [of w] length_decimal [of x] length_decimal [of y] length_decimal [of z] by (simp add: a)
  then show ?thesis
    using read_ipv4_show [of "[]" a] by (simp add: parse_ipv4_def whole_def ends_number_def)
qed

text \<open>An address and its prefix are read back as they are written: any IPv4 address in dotted form with any
  prefix length up to 32, and a longer prefix is refused.\<close>
theorem cidr_roundtrip:
  "parse_cidr (show_ipv4 a @ ''/'' @ decimal prefix) = (if prefix \<le> 32 then Some (a, prefix) else None)"
proof -
  have "CHR ''/'' \<notin> set (show_ipv4 a)"
    using show_ipv4_chars [of "CHR ''/''" a] by (auto simp: digit_of_def hex_digit_def)
  then have "split_once (CHR ''/'') (show_ipv4 a @ ''/'' @ decimal prefix) = Some (show_ipv4 a, decimal prefix)"
    using split_once_append by simp
  moreover have "parse_u8 (decimal prefix) = Some prefix"
  proof -
    have "CHR ''+'' \<notin> set (decimal prefix)"
      using decimal_digits [of "CHR ''+''" prefix] by (auto simp: digit_of_def hex_digit_def)
    then have "(case decimal prefix of CHR ''+'' # rest \<Rightarrow> rest | _ \<Rightarrow> decimal prefix) = decimal prefix"
      by (cases "decimal prefix") (auto split: char.split bool.split)
    then show ?thesis
      using read_number_decimal [of "[]" None True prefix] by (simp add: parse_u8_def whole_def ends_number_def)
  qed
  ultimately show ?thesis
    by (simp add: parse_cidr_def parse_ipv4_show linorder_not_less [symmetric])
qed

end
