(* ===== verification/Config.thy ===== *)
theory Config
  imports Addrtext Bpf Complex_Main
begin

text \<open>
  The configuration (\<open>paqetz/src/config.rs\<close>): from the sections of the file, as the TOML library
  deserializes them, to the settings of the tunnels, with every check on the way, in the order the code
  makes them.  An error is the field it names; the texts of errors and notes are left out, a note being
  its label.  Keys are decoded and derived by given functions (the base64 engine, X25519).
\<close>

section \<open>Sizes\<close>

definition unwrap_or :: "'a option \<Rightarrow> 'a \<Rightarrow> 'a" where
  "unwrap_or x d = (case x of Some v \<Rightarrow> v | None \<Rightarrow> d)"

definition FRAGMENT_FREE_OUTER :: nat where "FRAGMENT_FREE_OUTER = 1280"
definition DEFAULT_MTU :: u32 where "DEFAULT_MTU = 1400"

datatype guarding = GuardPorts | GuardIcmpIds | GuardProtocol

fun shape_guarding :: "shape \<Rightarrow> guarding" where
  "shape_guarding (ShapeTcp m) = GuardPorts"
| "shape_guarding (ShapeRaw sh) = (if sh = Icmp then GuardIcmpIds else GuardProtocol)"

definition fragment_free_mtu :: "shape \<Rightarrow> bool \<Rightarrow> u32" where
  "fragment_free_mtu sh recs = of_nat (FRAGMENT_FREE_OUTER - shape_overhead sh recs - OVERHEAD)"

definition default_mtu :: "shape \<Rightarrow> bool \<Rightarrow> u32" where
  "default_mtu sh recs =
     (let taken_off = (if recs then of_nat RECORD_HEADER else 0) in
      case sh of
        ShapeTcp _ \<Rightarrow> DEFAULT_MTU - taken_off
      | ShapeRaw _ \<Rightarrow> DEFAULT_MTU + of_nat (MAX_OVERHEAD - shape_overhead sh False) - taken_off)"

text \<open>\<open>carrier_mss\<close> of an interface with this MTU, record framing and profile.\<close>

definition MSS_FLOOR :: u16 where "MSS_FLOOR = 536"

definition carrier_mss :: "u32 \<Rightarrow> bool \<Rightarrow> os_profile \<Rightarrow> u16" where
  "carrier_mss mtu recs p =
     (let payload = mtu + of_nat OVERHEAD + (if recs then of_nat RECORD_HEADER else 0);
          options = of_nat (option_len Data p) :: u32;
          total = (if unat payload + unat options < 2 ^ 32 then payload + options else - 1);
          mss = (if total < 2 ^ 16 then ucast total else - 1) :: u16
      in if mss < MSS_FLOOR then MSS_FLOOR else if mss > p_mss p then p_mss p else mss)"

section \<open>The file\<close>

datatype f64 = Finite rat | NotFinite
datatype seconds = Whole_s u64 | Fraction f64
datatype raw_retransmit = On bool | Buffer nat

record raw_lane =
  rl_class :: u8
  rl_mark :: "u32 option"
  rl_egress :: "string option"
  rl_table :: "u32 option"

record raw_socks5 =
  r5_listen :: string
  r5_mark :: "u32 option"
  r5_table :: "u32 option"
  r5_username :: "string option"
  r5_password :: "string option"
  r5_dns :: "string option"

record raw_interface =
  ri_private_key :: string
  ri_address :: string
  ri_address6 :: "string option"
  ri_mtu :: "u32 option"
  ri_listen_port :: "u16 option"
  ri_device :: "string option"
  ri_profile :: "string option"
  ri_carrier :: "string option"
  ri_sequencing :: "string option"
  ri_spoof_sni :: "string option"
  ri_spoof_records :: "bool option"
  ri_acknowledge :: "bool option"
  ri_coalesce :: "bool option"
  ri_manage_firewall :: "bool option"
  ri_datapath :: "string option"
  ri_transmit :: "string option"
  ri_keepalive :: "bool option"
  ri_persistent_keepalive :: "u64 option"
  ri_retransmit :: "raw_retransmit option"
  ri_retransmit_buffer :: "nat option"
  ri_retransmit_deadline :: "u64 option"
  ri_retransmit_asks :: "u8 option"
  ri_retransmit_reorder :: "u64 option"
  ri_carrier_protocol :: "u8 option"
  ri_fragment :: "string option"
  ri_rotate :: "bool option"
  ri_rotate_after :: "seconds option"
  ri_rotate_jitter :: "seconds option"
  ri_rotate_ports :: "nat option"
  ri_rotate_after_unanswered :: "u32 option"
  ri_rotate_after_packets :: "u64 option"
  ri_rotate_after_bytes :: "u64 option"
  ri_rotate_after_silence :: "u64 option"
  ri_log :: "string option"
  ri_health_interval :: "u64 option"
  ri_gateway :: "bool option"
  ri_route_all :: "bool option"
  ri_route_marked :: "u32 option"
  ri_route_table :: "u32 option"
  ri_egress :: "string option"
  ri_egress_table :: "u32 option"

record raw_peer =
  rp_public_key :: string
  rp_tunnel_address :: string
  rp_tunnel_address6 :: "string option"
  rp_endpoint :: "string option"
  rp_allowed_ips :: "string list option"

record raw_tunnel =
  rt_name :: "string option"
  rt_interface :: raw_interface
  rt_peer :: raw_peer
  rt_socks5 :: "raw_socks5 option"
  rt_lane :: "raw_lane list"

record file_config =
  rc_log :: "string option"
  rc_health_interval :: "u64 option"
  rc_manage_firewall :: "bool option"
  rc_interface :: "raw_interface option"
  rc_peer :: "raw_peer option"
  rc_socks5 :: "raw_socks5 option"
  rc_lane :: "raw_lane list"
  rc_tunnel :: "raw_tunnel list option"

section \<open>The settings\<close>

datatype cfg_error = Invalid string

datatype datapath = Simple | Batched
datatype transmit_path = RawSocket | AfPacket
datatype fragment = Never | Path

record lane =
  la_class :: u8
  la_mark :: "u32 option"
  la_egress :: "string option"
  la_table :: "u32 option"

record socks5 =
  s5_listen :: listen_addr
  s5_mark :: u32
  s5_table :: u32
  s5_credentials :: "(string \<times> string) option"
  s5_dns :: "sock option"

text \<open>What the outer packets look like: the fields of \<open>Interface\<close> the carrier section settles.\<close>

record outer =
  ou_profile :: os_profile
  ou_shape :: shape
  ou_fragment :: fragment
  ou_spoof_sni :: "string option"
  ou_sequencing :: sequencing
  ou_spoof_records :: bool
  ou_acknowledge :: bool
  ou_coalesce :: bool
  ou_notes :: "string list"
  ou_mtu :: u32

record interface = outer +
  if_private_key :: private_key
  if_address :: ipv4
  if_netmask :: u32
  if_address6 :: "(ipv6 \<times> u8) option"
  if_listen_port :: u16
  if_device :: string
  if_datapath :: datapath
  if_transmit :: transmit_path
  if_repeat :: limits
  if_keepalive :: bool
  if_persistent_keepalive :: "Millis option"
  if_rotation :: rotation
  if_gateway :: bool
  if_route_all :: bool
  if_route_marked :: "u32 option"
  if_route_table :: u32
  if_egress :: "string option"
  if_egress_table :: u32

record peer_cfg =
  pe_public_key :: public_key
  pe_endpoint :: "sock option"
  pe_allowed_ips :: "(ipv4 \<times> u8) list"
  pe_allowed_ips6 :: "(ipv6 \<times> u8) list"
  pe_tunnel_address :: ipv4
  pe_tunnel_address6 :: "ipv6 option"

record tunnel_cfg =
  tg_name :: string
  tg_interface :: interface
  tg_socks5 :: "socks5 option"
  tg_peer :: peer_cfg
  tg_lanes :: "lane list"

section \<open>Lanes and tables\<close>

definition LANE_MARK_BASE :: u32 where "LANE_MARK_BASE = 0x100"
definition LANE_MARKS_PER_TUNNEL :: u32 where "LANE_MARKS_PER_TUNNEL = 64"
definition FALLBACK_TABLE :: u32 where "FALLBACK_TABLE = 51"
definition LANE_CLASSES :: "u8 \<Rightarrow> bool" where "LANE_CLASSES c \<longleftrightarrow> 1 \<le> c \<and> c \<le> 63"

definition lane_mark :: "u32 \<Rightarrow> u8 \<Rightarrow> u32" where
  "lane_mark slot cls = LANE_MARK_BASE + slot * LANE_MARKS_PER_TUNNEL + ucast cls"

definition lane_of :: "raw_lane \<Rightarrow> lane" where
  "lane_of entry =
     \<lparr>la_class = rl_class entry, la_mark = rl_mark entry, la_egress = rl_egress entry, la_table = rl_table entry\<rparr>"

text \<open>The checks on one entry, given the lanes before it.\<close>

definition check_lane :: "u32 option \<Rightarrow> socks5 option \<Rightarrow> lane list \<Rightarrow> raw_lane \<Rightarrow> cfg_error + lane" where
  "check_lane route_marked s5 before entry =
     (if \<not> LANE_CLASSES (rl_class entry) then Inl (Invalid ''tunnel.lane.class'')
      else if rl_mark entry = None \<and> rl_egress entry = None then Inl (Invalid ''tunnel.lane'')
      else if (case rl_mark entry of
                 None \<Rightarrow> False
               | Some mark \<Rightarrow> mark = 0 \<or> route_marked = Some mark \<or>
                   (case s5 of None \<Rightarrow> False | Some s \<Rightarrow> s5_mark s = mark))
      then Inl (Invalid ''tunnel.lane.mark'')
      else if list_ex (\<lambda>l. la_class l = rl_class entry) before then Inl (Invalid ''tunnel.lane.class'')
      else if (case rl_mark entry of None \<Rightarrow> False | Some mark \<Rightarrow> list_ex (\<lambda>l. la_mark l = Some mark) before)
      then Inl (Invalid ''tunnel.lane.mark'')
      else Inr (lane_of entry))"

fun lanes_from :: "u32 option \<Rightarrow> socks5 option \<Rightarrow> lane list \<Rightarrow> raw_lane list \<Rightarrow> cfg_error + lane list" where
  "lanes_from route_marked s5 before [] = Inr before"
| "lanes_from route_marked s5 before (entry # rest) =
     rbind (check_lane route_marked s5 before entry) (\<lambda>l. lanes_from route_marked s5 (before @ [l]) rest)"

definition lanes :: "raw_lane list \<Rightarrow> u32 option \<Rightarrow> socks5 option \<Rightarrow> cfg_error + lane list" where
  "lanes raw route_marked s5 = lanes_from route_marked s5 [] raw"

definition policy_table :: "string \<Rightarrow> u32 option \<Rightarrow> u32 option \<Rightarrow> cfg_error + u32" where
  "policy_table field written mark =
     (let table = unwrap_or written (unwrap_or mark FALLBACK_TABLE) in
      if table \<in> {0, 253, 254, 255} then Inl (Invalid field) else Inr table)"

section \<open>Names\<close>

definition IFNAME_MAX :: nat where "IFNAME_MAX = 15"

definition is_ascii_alphanumeric :: "char \<Rightarrow> bool" where
  "is_ascii_alphanumeric c \<longleftrightarrow>
     (let n = of_char c :: nat in 48 \<le> n \<and> n \<le> 57 \<or> 65 \<le> n \<and> n \<le> 90 \<or> 97 \<le> n \<and> n \<le> 122)"

definition interface_name :: "string \<Rightarrow> string \<Rightarrow> cfg_error + unit" where
  "interface_name field name =
     (if name = [] then Inl (Invalid field)
      else if length name > IFNAME_MAX then Inl (Invalid field)
      else if name = ''.'' \<or> name = ''..'' then Inl (Invalid field)
      else if list_ex (\<lambda>c. \<not> (is_ascii_alphanumeric c \<or> c \<in> {CHR ''_'', CHR ''-'', CHR ''.''})) name
      then Inl (Invalid field)
      else Inr ())"

definition good_label :: "string \<Rightarrow> bool" where
  "good_label label \<longleftrightarrow>
     label \<noteq> [] \<and> length label \<le> 63 \<and> list_all (\<lambda>c. is_ascii_alphanumeric c \<or> c = CHR ''-'') label \<and>
     hd label \<noteq> CHR ''-'' \<and> last label \<noteq> CHR ''-''"

definition spoof_sni :: "string option \<Rightarrow> shape \<Rightarrow> cfg_error + string option" where
  "spoof_sni name sh =
     (case name of
        None \<Rightarrow> Inr None
      | Some n \<Rightarrow>
          if \<not> shape_has_ports sh then Inl (Invalid ''interface.spoof_sni'')
          else if n = [] \<or> length n > MAX_NAME then Inl (Invalid ''interface.spoof_sni'')
          else if list_all good_label (split_on (CHR ''.'') n) \<and> parse_ipv4 n = None then Inr (Some n)
          else Inl (Invalid ''interface.spoof_sni''))"

definition carrier_protocol :: "u8 \<Rightarrow> cfg_error + unit" where
  "carrier_protocol proto =
     (if proto \<in> {0, 1, 6, 17, 47} then Inl (Invalid ''interface.carrier_protocol'') else Inr ())"

section \<open>Times\<close>

definition MIN_ROTATE_AFTER :: u64 where "MIN_ROTATE_AFTER = 1"
definition MAX_ROTATE_AFTER :: u64 where "MAX_ROTATE_AFTER = 24 * 60 * 60"
definition MIN_ROTATE_PORTS :: nat where "MIN_ROTATE_PORTS = 2"
definition MAX_ROTATE_PORTS :: nat where "MAX_ROTATE_PORTS = MAX_PORTS"
definition MIN_ROTATE_SILENCE :: u64 where "MIN_ROTATE_SILENCE = 200"
definition MAX_ROTATE_SILENCE :: u64 where "MAX_ROTATE_SILENCE = 60000"
definition MAX_ROTATE_UNANSWERED :: u32 where "MAX_ROTATE_UNANSWERED = 16"
definition DEFAULT_BUFFER :: nat where "DEFAULT_BUFFER = 1024"
definition MAX_RETRANSMIT :: nat where "MAX_RETRANSMIT = 8192"
definition MIN_DEADLINE :: u64 where "MIN_DEADLINE = 50"
definition MAX_DEADLINE :: u64 where "MAX_DEADLINE = 5000"
definition MAX_ASKS :: u8 where "MAX_ASKS = 8"
definition MIN_REORDER :: u64 where "MIN_REORDER = 1"
definition MAX_REORDER :: u64 where "MAX_REORDER = 16"

text \<open>A product of doubles is the exact one rounded to 53 significant bits, ties to even.  From a quarter
  to \<open>2 ^ 28\<close> the unit of the last place is searched for; a product below a quarter is left exact, since
  rounded or not it is nearest to no millisecond at all.\<close>

definition round_half_even :: "rat \<Rightarrow> int" where
  "round_half_even x =
     (let f = \<lfloor>x\<rfloor>; d = x - of_int f in
      if d < 1 / 2 then f else if d > 1 / 2 then f + 1 else if even f then f else f + 1)"

definition f64_round :: "rat \<Rightarrow> rat" where
  "f64_round x =
     (case find (\<lambda>e. 2 ^ e \<le> 4 * x) (rev [0..<30]) of
        None \<Rightarrow> x
      | Some e \<Rightarrow> (let u = 2 ^ e / (4 * 2 ^ 52) in of_int (round_half_even (x / u)) * u))"

fun seconds_millis :: "seconds \<Rightarrow> Millis option" where
  "seconds_millis (Whole_s s) = (if unat s * 1000 < 2 ^ 64 then Some (s * 1000) else None)"
| "seconds_millis (Fraction (Finite f)) =
     (if 0 \<le> f \<and> f \<le> of_nat (unat MAX_ROTATE_AFTER)
      then Some (of_int \<lfloor>f64_round (f * 1000) + 1 / 2\<rfloor>) else None)"
| "seconds_millis (Fraction NotFinite) = None"

section \<open>The outer packets\<close>

definition choose_shape :: "string option \<Rightarrow> os_profile \<Rightarrow> u8 option \<Rightarrow> cfg_error + shape" where
  "choose_shape carrier_name profile proto =
     (let name = unwrap_or carrier_name ''midstream'' in
      rbind
        (if name = ''midstream'' then Inr (ShapeTcp Midstream)
         else if name = ''midstream-fh'' then Inr (ShapeTcp FakeHandshake)
         else if name = ''handshake''
         then (if \<not> p_timestamps profile then Inl (Invalid ''interface.carrier'') else Inr (ShapeTcp Handshake))
         else if name = ''gre'' then Inr (ShapeRaw Gre)
         else if name = ''icmp'' then Inr (ShapeRaw Icmp)
         else if name = ''rawip''
         then (case proto of
                 None \<Rightarrow> Inl (Invalid ''interface.carrier_protocol'')
               | Some p \<Rightarrow> rbind (carrier_protocol p) (\<lambda>_. Inr (ShapeRaw (Bare p))))
         else Inl (Invalid ''interface.carrier''))
        (\<lambda>sh. if proto \<noteq> None \<and> (case sh of ShapeRaw (Bare _) \<Rightarrow> False | _ \<Rightarrow> True)
              then Inl (Invalid ''interface.carrier_protocol'') else Inr sh))"

definition wants_fragment :: "os_profile \<Rightarrow> fragment" where
  "wants_fragment p = (if p_dont_fragment p then Never else Path)"

definition choose_fragment :: "string option \<Rightarrow> os_profile \<Rightarrow> cfg_error + fragment" where
  "choose_fragment asked p =
     (case asked of
        None \<Rightarrow> Inr (wants_fragment p)
      | Some a \<Rightarrow>
          if a = ''never'' then Inr Never
          else if a = ''path'' then Inr Path
          else Inl (Invalid ''interface.fragment''))"

definition choose_sequencing :: "string option \<Rightarrow> shape \<Rightarrow> cfg_error + sequencing" where
  "choose_sequencing written sh =
     (let opening = (case sh of ShapeTcp c \<Rightarrow> opens c | ShapeRaw _ \<Rightarrow> False);
          name = unwrap_or written (if opening then ''stream'' else ''opaque'') in
      if name = ''opaque'' then Inr Opaque
      else if name = ''stream'' then Inr Stream
      else Inl (Invalid ''interface.sequencing''))"

definition asked_mtu :: "u32 option \<Rightarrow> shape \<Rightarrow> bool \<Rightarrow> fragment \<Rightarrow> u32" where
  "asked_mtu written sh recs frag =
     unwrap_or written (case frag of Never \<Rightarrow> default_mtu sh recs | Path \<Rightarrow> fragment_free_mtu sh recs)"

definition choose_mtu :: "u32 \<Rightarrow> u32 \<Rightarrow> fragment \<Rightarrow> bool \<Rightarrow> cfg_error + u32" where
  "choose_mtu asked cap frag ipv6_inside =
     (if \<not> (576 \<le> asked \<and> asked \<le> 9000) then Inl (Invalid ''interface.mtu'')
      else let mtu = (if frag = Path \<and> asked > cap then cap else asked) in
        if ipv6_inside \<and> mtu < 1280 then Inl (Invalid ''interface.mtu'') else Inr mtu)"

text \<open>The labels of the notes, in the order they are made.\<close>

definition outer_notes ::
  "raw_interface \<Rightarrow> os_profile \<Rightarrow> shape \<Rightarrow> fragment \<Rightarrow> string option \<Rightarrow> sequencing \<Rightarrow> string list" where
  "outer_notes ri profile sh frag sni seq0 =
     (if sni \<noteq> None \<and> seq0 \<noteq> Stream \<and> ri_sequencing ri \<noteq> None then [''sequencing''] else [])
     @ (if sni \<noteq> None \<and> sh \<noteq> ShapeTcp Handshake then [''carrier''] else [])
     @ (if ri_coalesce ri = Some True \<and> ri_datapath ri = Some ''simple'' then [''coalesce''] else [])
     @ (if frag \<noteq> wants_fragment profile then [''fragment'']
        else if ri_fragment ri = None \<and> frag = Path then [''fragment''] else [])"

text \<open>The sections of \<open>one\<close> from the profile to the MTU.\<close>

definition outer_of :: "raw_interface \<Rightarrow> bool \<Rightarrow> cfg_error + outer" where
  "outer_of ri ipv6_inside =
     rbind (ok_or (by_name (unwrap_or (ri_profile ri) ''linux-6'')) (Invalid ''interface.profile'')) (\<lambda>profile.
     rbind (choose_shape (ri_carrier ri) profile (ri_carrier_protocol ri)) (\<lambda>sh.
     rbind (choose_fragment (ri_fragment ri) profile) (\<lambda>frag.
     rbind (spoof_sni (ri_spoof_sni ri) sh) (\<lambda>sni.
     rbind (choose_sequencing (ri_sequencing ri) sh) (\<lambda>seq0.
       let records = unwrap_or (ri_spoof_records ri) (sni \<noteq> None) in
       if records \<and> sni = None then Inl (Invalid ''interface.spoof_records'')
       else
         rbind (choose_mtu (asked_mtu (ri_mtu ri) sh records frag) (fragment_free_mtu sh records) frag ipv6_inside)
           (\<lambda>mtu.
           Inr \<lparr>ou_profile = profile, ou_shape = sh, ou_fragment = frag, ou_spoof_sni = sni,
                ou_sequencing = (if sni \<noteq> None then Stream else seq0), ou_spoof_records = records,
                ou_acknowledge = unwrap_or (ri_acknowledge ri) (sni \<noteq> None),
                ou_coalesce = unwrap_or (ri_coalesce ri) False,
                ou_notes = outer_notes ri profile sh frag sni seq0, ou_mtu = mtu\<rparr>))))))"

section \<open>Limits\<close>

definition repeat_of :: "raw_interface \<Rightarrow> cfg_error + limits" where
  "repeat_of ri =
     (let (enabled, old) =
        (case ri_retransmit ri of
           None \<Rightarrow> (False, None)
         | Some (On on) \<Rightarrow> (on, None)
         | Some (Buffer n) \<Rightarrow> (n > 0, Some n)) in
      if old \<noteq> None \<and> ri_retransmit_buffer ri \<noteq> None then Inl (Invalid ''interface.retransmit'')
      else let size = (case old of Some n \<Rightarrow> Some n | None \<Rightarrow> ri_retransmit_buffer ri) in
      if (case size of Some n \<Rightarrow> n > MAX_RETRANSMIT | None \<Rightarrow> False)
      then Inl (Invalid ''interface.retransmit_buffer'')
      else if (case ri_retransmit_deadline ri of
                 Some ms \<Rightarrow> \<not> (MIN_DEADLINE \<le> ms \<and> ms \<le> MAX_DEADLINE) | None \<Rightarrow> False)
      then Inl (Invalid ''interface.retransmit_deadline'')
      else if (case ri_retransmit_asks ri of Some n \<Rightarrow> n = 0 \<or> n > MAX_ASKS | None \<Rightarrow> False)
      then Inl (Invalid ''interface.retransmit_asks'')
      else if (case ri_retransmit_reorder ri of
                 Some n \<Rightarrow> \<not> (MIN_REORDER \<le> n \<and> n \<le> MAX_REORDER) | None \<Rightarrow> False)
      then Inl (Invalid ''interface.retransmit_reorder'')
      else Inr \<lparr>l_capacity = (if enabled then unwrap_or size DEFAULT_BUFFER else 0),
                l_deadline = unwrap_or (ri_retransmit_deadline ri) (l_deadline limits_off),
                l_asks = unwrap_or (ri_retransmit_asks ri) (l_asks limits_off),
                l_reorder = unwrap_or (ri_retransmit_reorder ri) (l_reorder limits_off)\<rparr>)"

definition keepalive_of :: "u64 option \<Rightarrow> cfg_error + Millis option" where
  "keepalive_of given =
     (case given of
        None \<Rightarrow> Inr None
      | Some s \<Rightarrow>
          if \<not> (5 \<le> s \<and> s \<le> 600) then Inl (Invalid ''interface.persistent_keepalive'')
          else Inr (Some (s * 1000)))"

definition rotate_after_of :: "seconds option \<Rightarrow> cfg_error + Millis" where
  "rotate_after_of given =
     (case given of
        None \<Rightarrow> Inr (ro_after rotation_default)
      | Some s \<Rightarrow>
          (case seconds_millis s of
             None \<Rightarrow> Inl (Invalid ''interface.rotate_after'')
           | Some ms \<Rightarrow>
               if MIN_ROTATE_AFTER * 1000 \<le> ms \<and> ms \<le> MAX_ROTATE_AFTER * 1000 then Inr ms
               else Inl (Invalid ''interface.rotate_after'')))"

definition rotate_jitter_of :: "seconds option \<Rightarrow> Millis \<Rightarrow> cfg_error + Millis" where
  "rotate_jitter_of given after =
     (case given of
        None \<Rightarrow> Inr (after div 3)
      | Some s \<Rightarrow>
          (case seconds_millis s of
             None \<Rightarrow> Inl (Invalid ''interface.rotate_jitter'')
           | Some j \<Rightarrow> if j \<ge> after then Inl (Invalid ''interface.rotate_jitter'') else Inr j))"

definition limit_of :: "string \<Rightarrow> u64 option \<Rightarrow> cfg_error + u64 option" where
  "limit_of field given = (if given = Some 0 then Inl (Invalid field) else Inr given)"

definition rotation_of :: "raw_interface \<Rightarrow> cfg_error + rotation" where
  "rotation_of ri =
     rbind (rotate_after_of (ri_rotate_after ri)) (\<lambda>after.
     rbind (rotate_jitter_of (ri_rotate_jitter ri) after) (\<lambda>jitter.
       if (case ri_rotate_ports ri of
             Some n \<Rightarrow> \<not> (MIN_ROTATE_PORTS \<le> n \<and> n \<le> MAX_ROTATE_PORTS) | None \<Rightarrow> False)
       then Inl (Invalid ''interface.rotate_ports'')
       else if (case ri_rotate_after_unanswered ri of Some n \<Rightarrow> n = 0 \<or> n > MAX_ROTATE_UNANSWERED | None \<Rightarrow> False)
       then Inl (Invalid ''interface.rotate_after_unanswered'')
       else
         rbind (limit_of ''interface.rotate_after_packets'' (ri_rotate_after_packets ri)) (\<lambda>packets.
         rbind (limit_of ''interface.rotate_after_bytes'' (ri_rotate_after_bytes ri)) (\<lambda>octs.
           if (case ri_rotate_after_silence ri of
                 Some ms \<Rightarrow> \<not> (MIN_ROTATE_SILENCE \<le> ms \<and> ms \<le> MAX_ROTATE_SILENCE) | None \<Rightarrow> False)
           then Inl (Invalid ''interface.rotate_after_silence'')
           else Inr \<lparr>ro_enabled = unwrap_or (ri_rotate ri) (ro_enabled rotation_default),
                     ro_after = after, ro_jitter = jitter,
                     ro_ports = unwrap_or (ri_rotate_ports ri) (ro_ports rotation_default),
                     ro_unanswered =
                       unwrap_or (ri_rotate_after_unanswered ri) (ro_unanswered rotation_default),
                     ro_packets = packets, ro_bytes = octs, ro_silence = ri_rotate_after_silence ri\<rparr>))))"

section \<open>The peer and the listener\<close>

text \<open>A key of the file; \<open>decode\<close> is the base64 engine.\<close>

definition key_at :: "string \<Rightarrow> (string \<Rightarrow> bytes option) \<Rightarrow> string \<Rightarrow> cfg_error + bytes" where
  "key_at field decode s = (case from_base64 decode str_trim s of Inl _ \<Rightarrow> Inl (Invalid field) | Inr k \<Rightarrow> Inr k)"

fun allowed_from :: "string list \<Rightarrow> cfg_error + (ipv4 \<times> u8) list \<times> (ipv6 \<times> u8) list" where
  "allowed_from [] = Inr ([], [])"
| "allowed_from (e # es) =
     (if e = ''any''
      then rbind (allowed_from es) (\<lambda>(v4, v6). Inr ((Ipv4 0 0 0 0, 0) # v4, (0, 0) # v6))
      else if CHR '':'' \<in> set e
      then rbind (ok_or (parse_cidr6 e) (Invalid ''peer.allowed_ips''))
             (\<lambda>r. rbind (allowed_from es) (\<lambda>(v4, v6). Inr (v4, r # v6)))
      else rbind (ok_or (parse_cidr e) (Invalid ''peer.allowed_ips''))
             (\<lambda>r. rbind (allowed_from es) (\<lambda>(v4, v6). Inr (r # v4, v6))))"

definition peer_of :: "(string \<Rightarrow> bytes option) \<Rightarrow> raw_peer \<Rightarrow> shape \<Rightarrow> bool \<Rightarrow> cfg_error + peer_cfg" where
  "peer_of decode rp sh ipv6_inside =
     rbind (key_at ''peer.public_key'' decode (rp_public_key rp)) (\<lambda>public.
     rbind (case rp_endpoint rp of
              None \<Rightarrow> Inr None
            | Some s \<Rightarrow> rbind (ok_or (parse_socket_v4 s) (Invalid ''peer.endpoint'')) (\<lambda>e. Inr (Some e)))
       (\<lambda>written.
       let endpoint = map_option (\<lambda>e. if shape_has_ports sh then e else (fst e, 0)) written in
     rbind (ok_or (parse_ipv4 (rp_tunnel_address rp)) (Invalid ''peer.tunnel_address'')) (\<lambda>inner.
     rbind (case rp_tunnel_address6 rp of
              None \<Rightarrow> Inr None
            | Some a \<Rightarrow> rbind (ok_or (parse_ipv6 a) (Invalid ''peer.tunnel_address6'')) (\<lambda>v. Inr (Some v)))
       (\<lambda>inner6.
       if ipv6_inside \<and> inner6 = None then Inl (Invalid ''peer.tunnel_address6'')
       else if \<not> ipv6_inside \<and> inner6 \<noteq> None then Inl (Invalid ''interface.address6'')
       else
         rbind (case rp_allowed_ips rp of
                  None \<Rightarrow> Inr ([(inner, 32)], case inner6 of None \<Rightarrow> [] | Some a \<Rightarrow> [(a, 128)])
                | Some entries \<Rightarrow> allowed_from entries)
           (\<lambda>(v4, v6).
             Inr \<lparr>pe_public_key = public, pe_endpoint = endpoint, pe_allowed_ips = v4, pe_allowed_ips6 = v6,
                  pe_tunnel_address = inner, pe_tunnel_address6 = inner6\<rparr>)))))"

definition socks5_of :: "raw_socks5 \<Rightarrow> cfg_error + socks5" where
  "socks5_of r =
     rbind (ok_or (parse_socket (r5_listen r)) (Invalid ''socks5.listen'')) (\<lambda>listen.
     rbind (case (r5_username r, r5_password r) of
              (None, None) \<Rightarrow> Inr None
            | (Some u, Some p) \<Rightarrow> Inr (Some (u, p))
            | _ \<Rightarrow> Inl (Invalid ''socks5'')) (\<lambda>credentials.
     rbind (case r5_dns r of
              None \<Rightarrow> Inr (Some (Ipv4 1 1 1 1, 53))
            | Some text \<Rightarrow>
                if text = ''system'' then Inr None
                else rbind (ok_or (parse_resolver text) (Invalid ''socks5.dns'')) (\<lambda>a. Inr (Some a))) (\<lambda>dns.
       let mark = unwrap_or (r5_mark r) 0x51 in
       if mark = 0 then Inl (Invalid ''socks5.mark'')
       else rbind (policy_table ''socks5.table'' (r5_table r) (Some mark)) (\<lambda>table.
         Inr \<lparr>s5_listen = listen, s5_mark = mark, s5_table = table, s5_credentials = credentials, s5_dns = dns\<rparr>))))"

section \<open>One tunnel\<close>

definition choose_datapath :: "string option \<Rightarrow> cfg_error + datapath" where
  "choose_datapath given =
     (let name = unwrap_or given ''simple'' in
      if name = ''batched'' then Inr Batched
      else if name = ''simple'' then Inr Simple
      else Inl (Invalid ''interface.datapath''))"

definition choose_transmit :: "string option \<Rightarrow> cfg_error + transmit_path" where
  "choose_transmit given =
     (let name = unwrap_or given ''raw'' in
      if name = ''raw'' then Inr RawSocket
      else if name = ''afpacket'' then Inr AfPacket
      else Inl (Invalid ''interface.transmit''))"

definition option_of :: "('a \<Rightarrow> cfg_error + 'b) \<Rightarrow> 'a option \<Rightarrow> cfg_error + 'b option" where
  "option_of f x = (case x of None \<Rightarrow> Inr None | Some v \<Rightarrow> rbind (f v) (\<lambda>r. Inr (Some r)))"

definition one ::
  "(string \<Rightarrow> bytes option) \<Rightarrow> string \<Rightarrow> raw_interface \<Rightarrow> raw_peer \<Rightarrow> raw_socks5 option \<Rightarrow> raw_lane list
     \<Rightarrow> cfg_error + tunnel_cfg" where
  "one decode name ri rp s5_raw lane_raw =
     rbind (key_at ''interface.private_key'' decode (ri_private_key ri)) (\<lambda>private.
     rbind (ok_or (parse_cidr (ri_address ri)) (Invalid ''interface.address'')) (\<lambda>(addr, prefix).
     rbind (option_of (\<lambda>a. ok_or (parse_cidr6 a) (Invalid ''interface.address6'')) (ri_address6 ri)) (\<lambda>addr6.
     rbind (outer_of ri (addr6 \<noteq> None)) (\<lambda>ou.
     rbind (choose_datapath (ri_datapath ri)) (\<lambda>dpath.
     rbind (choose_transmit (ri_transmit ri)) (\<lambda>transmit.
     rbind (peer_of decode rp (ou_shape ou) (addr6 \<noteq> None)) (\<lambda>peer.
     rbind (option_of socks5_of s5_raw) (\<lambda>s5.
       let port = unwrap_or (ri_listen_port ri) 0 in
       if pe_endpoint peer = None \<and> port = 0 \<and> shape_has_ports (ou_shape ou)
       then Inl (Invalid ''interface.listen_port'')
       else
     rbind (lanes lane_raw (ri_route_marked ri) s5) (\<lambda>ls.
       if ri_route_marked ri = Some 0 then Inl (Invalid ''interface.route_marked'')
       else
     rbind (policy_table ''interface.route_table'' (ri_route_table ri) (ri_route_marked ri)) (\<lambda>table.
       let device = unwrap_or (ri_device ri) ''paqetz0'' in
     rbind (interface_name ''interface.device'' device) (\<lambda>_.
     rbind (repeat_of ri) (\<lambda>rep.
     rbind (keepalive_of (ri_persistent_keepalive ri)) (\<lambda>persistent.
     rbind (rotation_of ri) (\<lambda>rotation.
     rbind (option_of (\<lambda>n. rbind (interface_name ''interface.egress'' n) (\<lambda>_. Inr n)) (ri_egress ri)) (\<lambda>egress.
       Inr \<lparr>tg_name = name,
            tg_interface = outer.extend ou
              \<lparr>if_private_key = private, if_address = addr, if_netmask = mask_from_prefix prefix,
               if_address6 = addr6, if_listen_port = port, if_device = device, if_datapath = dpath,
               if_transmit = transmit, if_repeat = rep,
               if_keepalive = unwrap_or (ri_keepalive ri) True,
               if_persistent_keepalive = persistent, if_rotation = rotation,
               if_gateway = unwrap_or (ri_gateway ri) False, if_route_all = unwrap_or (ri_route_all ri) False,
               if_route_marked = ri_route_marked ri, if_route_table = table, if_egress = egress,
               if_egress_table = unwrap_or (ri_egress_table ri) 51820\<rparr>,
            tg_socks5 = s5, tg_peer = peer, tg_lanes = ls\<rparr>)))))))))))))))"

section \<open>What a tunnel claims\<close>

definition cfg_is_initiator :: "peer_cfg \<Rightarrow> bool" where
  "cfg_is_initiator p \<longleftrightarrow> pe_endpoint p \<noteq> None"

text \<open>\<open>public_of\<close> derives the public key of a private one.\<close>

definition icmp_ids :: "crypto \<Rightarrow> (private_key \<Rightarrow> public_key) \<Rightarrow> tunnel_cfg \<Rightarrow> (u16 \<times> u16) option" where
  "icmp_ids C public_of t =
     (if shape_guarding (ou_shape (tg_interface t)) \<noteq> GuardIcmpIds then None
      else
        let own = public_of (if_private_key (tg_interface t));
            peer = pe_public_key (tg_peer t);
            (responder, init) = (if cfg_is_initiator (tg_peer t) then (peer, own) else (own, peer))
        in Some (icmp_id_base C responder init, ICMP_IDS))"

definition marked_routes :: "tunnel_cfg \<Rightarrow> (u32 \<times> u32) list" where
  "marked_routes t =
     (let i = tg_interface t;
          marks = (case if_route_marked i of None \<Rightarrow> [] | Some m \<Rightarrow> [m]) @ List.map_filter la_mark (tg_lanes t) in
      map (\<lambda>mark. (mark, if_route_table i)) marks
      @ (case tg_socks5 t of
           None \<Rightarrow> []
         | Some s \<Rightarrow> if if_route_marked i \<noteq> Some (s5_mark s) then [(s5_mark s, s5_table s)] else []))"

section \<open>Tunnels side by side\<close>

text \<open>The checks of \<open>distinct\<close> on one pair.\<close>

definition clash :: "crypto \<Rightarrow> (private_key \<Rightarrow> public_key) \<Rightarrow> tunnel_cfg \<Rightarrow> tunnel_cfg \<Rightarrow> cfg_error option" where
  "clash C public_of a b =
     (let i = tg_interface a; j = tg_interface b in
      if tg_name a = tg_name b then Some (Invalid ''tunnel.name'')
      else if if_device i = if_device j then Some (Invalid ''tunnel'')
      else if if_address i = if_address j then Some (Invalid ''tunnel'')
      else if (case (if_address6 i, if_address6 j) of (Some (x, _), Some (y, _)) \<Rightarrow> x = y | _ \<Rightarrow> False)
      then Some (Invalid ''tunnel'')
      else if list_ex (\<lambda>(m, _). list_ex (\<lambda>(n, _). n = m) (marked_routes b)) (marked_routes a)
      then Some (Invalid ''tunnel'')
      else if list_ex (\<lambda>(_, t). list_ex (\<lambda>(_, u). u = t) (marked_routes b)) (marked_routes a)
      then Some (Invalid ''tunnel'')
      else if pe_public_key (tg_peer a) = pe_public_key (tg_peer b) then Some (Invalid ''tunnel'')
      else if shape_guarding (ou_shape i) \<noteq> shape_guarding (ou_shape j) then Some (Invalid ''interface.carrier'')
      else if \<not> shape_rotates (ou_shape i) \<and>
        (case (pe_endpoint (tg_peer a), pe_endpoint (tg_peer b)) of
           (Some x, Some y) \<Rightarrow> fst x = fst y | _ \<Rightarrow> False)
      then Some (Invalid ''tunnel'')
      else if (case (icmp_ids C public_of a, icmp_ids C public_of b) of (Some x, Some y) \<Rightarrow> x = y | _ \<Rightarrow> False)
      then Some (Invalid ''tunnel'')
      else if shape_has_ports (ou_shape i) \<and> if_listen_port i \<noteq> 0 \<and> if_listen_port i = if_listen_port j
      then Some (Invalid ''tunnel'')
      else None)"

fun first_clash :: "crypto \<Rightarrow> (private_key \<Rightarrow> public_key) \<Rightarrow> tunnel_cfg \<Rightarrow> tunnel_cfg list \<Rightarrow> cfg_error option" where
  "first_clash C public_of a [] = None"
| "first_clash C public_of a (b # bs) =
     (case clash C public_of a b of Some e \<Rightarrow> Some e | None \<Rightarrow> first_clash C public_of a bs)"

fun tunnels_distinct :: "crypto \<Rightarrow> (private_key \<Rightarrow> public_key) \<Rightarrow> tunnel_cfg list \<Rightarrow> cfg_error + unit" where
  "tunnels_distinct C public_of [] = Inr ()"
| "tunnels_distinct C public_of (a # rest) =
     (case first_clash C public_of a rest of Some e \<Rightarrow> Inl e | None \<Rightarrow> tunnels_distinct C public_of rest)"

section \<open>The whole file\<close>

datatype level = Off | LError | Warn | Info | Debug

definition level_parse :: "string \<Rightarrow> level option" where
  "level_parse s =
     (if s = ''off'' then Some Off
      else if s = ''error'' then Some LError
      else if s = ''warn'' then Some Warn
      else if s = ''info'' then Some Info
      else if s = ''debug'' then Some Debug
      else None)"

record process_cfg =
  pc_log :: level
  pc_health_interval :: u64
  pc_manage_firewall :: bool
  pc_tunnels :: "tunnel_cfg list"

definition first_some :: "'a option \<Rightarrow> 'a option \<Rightarrow> 'a \<Rightarrow> 'a" where
  "first_some x y d = unwrap_or x (unwrap_or y d)"

definition named_tunnel :: "nat \<Rightarrow> string" where
  "named_tunnel i = ''tunnel'' @ show_nat i"

text \<open>The sections in order, the \<open>i\<close>-th next.\<close>

fun every_tunnel ::
  "(string \<Rightarrow> bytes option) \<Rightarrow> nat \<Rightarrow> raw_tunnel list \<Rightarrow> cfg_error + tunnel_cfg list" where
  "every_tunnel decode i [] = Inr []"
| "every_tunnel decode i (t # ts) =
     rbind (one decode (unwrap_or (rt_name t) (named_tunnel i)) (rt_interface t) (rt_peer t)
              (rt_socks5 t) (rt_lane t))
       (\<lambda>c. rbind (every_tunnel decode (Suc i) ts) (\<lambda>cs. Inr (c # cs)))"

definition config_parse ::
  "crypto \<Rightarrow> (private_key \<Rightarrow> public_key) \<Rightarrow> (string \<Rightarrow> bytes option) \<Rightarrow> file_config \<Rightarrow> cfg_error + process_cfg" where
  "config_parse C public_of decode raw =
     (let inherited = rc_interface raw;
          level_name = first_some (rc_log raw) (Option.bind inherited ri_log) ''info'' in
      rbind (ok_or (level_parse level_name) (Invalid ''log'')) (\<lambda>log.
        let health = first_some (rc_health_interval raw) (Option.bind inherited ri_health_interval) 60;
            manage = first_some (rc_manage_firewall raw) (Option.bind inherited ri_manage_firewall) True in
      rbind
        (case (rc_interface raw, rc_peer raw, rc_tunnel raw) of
           (Some ri, Some rp, None) \<Rightarrow>
             rbind (one decode (unwrap_or (ri_device ri) ''paqetz0'') ri rp (rc_socks5 raw) (rc_lane raw))
               (\<lambda>c. Inr [c])
         | (None, None, Some ts) \<Rightarrow>
             if ts \<noteq> [] then every_tunnel decode 0 ts else Inl (Invalid ''tunnel'')
         | _ \<Rightarrow> Inl (Invalid ''tunnel''))
        (\<lambda>ts. rbind (tunnels_distinct C public_of ts) (\<lambda>_.
          Inr \<lparr>pc_log = log, pc_health_interval = health, pc_manage_firewall = manage, pc_tunnels = ts\<rparr>))))"

definition into_only :: "process_cfg \<Rightarrow> tunnel_cfg option" where
  "into_only p = (case pc_tunnels p of [t] \<Rightarrow> Some t | _ \<Rightarrow> None)"

definition tunnel_named :: "process_cfg \<Rightarrow> string \<Rightarrow> tunnel_cfg option" where
  "tunnel_named p name = find (\<lambda>t. tg_name t = name) (pc_tunnels p)"

section \<open>What the firewall is told\<close>

text \<open>\<open>Guard\<close> of \<open>paqetz-fw\<close>, and how \<open>start\<close> chooses it: \<open>pools\<close> are the ports each started tunnel has
  bound, \<open>blocks\<close> its identifiers.\<close>

datatype guard = GPorts "u16 list" | GIcmpIds "(u16 \<times> u16) list" | GProtocol u8

definition icmp_block :: "u16 \<times> u16 \<Rightarrow> u16 \<times> u16" where
  "icmp_block ids = (fst ids, fst ids + saturating_sub (snd ids) 1)"

definition start_guard ::
  "crypto \<Rightarrow> (private_key \<Rightarrow> public_key) \<Rightarrow> tunnel_cfg list \<Rightarrow> u16 list list \<Rightarrow> guard" where
  "start_guard C public_of ts pools =
     (case ts of
        [] \<Rightarrow> GPorts (concat pools)
      | t # _ \<Rightarrow>
          (case shape_guarding (ou_shape (tg_interface t)) of
             GuardProtocol \<Rightarrow> GProtocol (shape_protocol (ou_shape (tg_interface t)))
           | GuardIcmpIds \<Rightarrow> GIcmpIds (map icmp_block (List.map_filter (icmp_ids C public_of) ts))
           | GuardPorts \<Rightarrow> GPorts (concat pools)))"

definition effective_port :: "tunnel_cfg list \<Rightarrow> u16 option" where
  "effective_port ts = find (\<lambda>p. p \<noteq> 0) (map (\<lambda>t. if_listen_port (tg_interface t)) ts)"

definition effective_guard :: "crypto \<Rightarrow> (private_key \<Rightarrow> public_key) \<Rightarrow> tunnel_cfg list \<Rightarrow> guard option" where
  "effective_guard C public_of ts =
     (case ts of
        t # _ \<Rightarrow>
          (let sh = ou_shape (tg_interface t) in
           if \<not> shape_has_ports sh
           then Some (if shape_guarding sh = GuardIcmpIds
                      then GIcmpIds (map icmp_block (List.map_filter (icmp_ids C public_of) ts))
                      else GProtocol (shape_protocol sh))
           else map_option (\<lambda>p. GPorts [p]) (effective_port ts))
      | [] \<Rightarrow> map_option (\<lambda>p. GPorts [p]) (effective_port ts))"

text \<open>Whether the rules of a guard name the outer packets of a tunnel that uses this port or identifier.\<close>

fun guard_names :: "guard \<Rightarrow> shape \<Rightarrow> u16 \<Rightarrow> bool" where
  "guard_names (GPorts ps) sh n = (shape_has_ports sh \<and> n \<in> set ps)"
| "guard_names (GIcmpIds bs) sh n = (sh = ShapeRaw Icmp \<and> list_ex (\<lambda>(first, final). first \<le> n \<and> n \<le> final) bs)"
| "guard_names (GProtocol p) sh n = (shape_guarding sh = GuardProtocol \<and> shape_protocol sh = p)"

end
