(* ===== verification/Hostrules.thy ===== *)
theory Hostrules
  imports Config "HOL-Library.Product_Lexorder"
begin

text \<open>
  The rules the program installs on its host: the \<^verbatim>\<open>iptables\<close> rules around the outer packets
  (\<^verbatim>\<open>paqetz-fw/src/rules.rs\<close> and \<^verbatim>\<open>lib.rs\<close>) and the policy routing that steers marked sockets into a tunnel
  (\<^verbatim>\<open>paqetz-net4/src/route.rs\<close>).  The tools themselves are given: \<open>run\<close> takes the arguments of a command and the
  state of the host, and says whether the command succeeded and how it left the host.
\<close>

type_synonym 'h tool = "string list \<Rightarrow> 'h \<Rightarrow> bool \<times> 'h"

section \<open>Rules around the outer packets\<close>

definition RULE_COMMENT :: string where "RULE_COMMENT = ''paqetz-tunnel''"

datatype fw_op = Append | Delete | Check

fun op_flag :: "fw_op \<Rightarrow> string" where
  "op_flag Append = ''-A''"
| "op_flag Delete = ''-D''"
| "op_flag Check = ''-C''"

type_synonym iptables_rule = "string list"

fun rule_args :: "iptables_rule \<Rightarrow> fw_op \<Rightarrow> string list" where
  "rule_args (dash_t # table # parts) op = [dash_t, table] @ [op_flag op] @ parts"
| "rule_args _ op = [op_flag op]"

definition rule_comment :: "string list" where
  "rule_comment = [''-m'', ''comment'', ''--comment'', RULE_COMMENT]"

definition rules_for :: "u16 \<Rightarrow> iptables_rule list" where
  "rules_for port =
     (let p = show_nat (unat port) in
      [[''-t'', ''raw'', ''PREROUTING'', ''-p'', ''tcp'', ''--dport'', p, ''-j'', ''NOTRACK''] @ rule_comment,
       [''-t'', ''raw'', ''OUTPUT'', ''-p'', ''tcp'', ''--sport'', p, ''-j'', ''NOTRACK''] @ rule_comment,
       [''-t'', ''mangle'', ''OUTPUT'', ''-p'', ''tcp'', ''--sport'', p, ''--tcp-flags'', ''RST'', ''RST'', ''-j'', ''DROP'']
         @ rule_comment])"

definition rules_for_echo :: "u16 \<times> u16 \<Rightarrow> iptables_rule list" where
  "rules_for_echo block =
     (let ident = ''0>>22&0x3C@4>>16='' @ show_nat (unat (fst block)) @ '':'' @ show_nat (unat (snd block)) in
      [[''-t'', ''raw'', ''PREROUTING'', ''-p'', ''icmp'', ''-m'', ''u32'', ''--u32'', ident, ''-j'', ''NOTRACK''] @ rule_comment,
       [''-t'', ''raw'', ''OUTPUT'', ''-p'', ''icmp'', ''-m'', ''u32'', ''--u32'', ident, ''-j'', ''NOTRACK''] @ rule_comment,
       [''-t'', ''mangle'', ''INPUT'', ''-p'', ''icmp'', ''--icmp-type'', ''echo-request'', ''-m'', ''u32'', ''--u32'', ident,
        ''-j'', ''DROP''] @ rule_comment])"

definition rules_for_protocol :: "u8 \<Rightarrow> iptables_rule list" where
  "rules_for_protocol proto =
     (let p = show_nat (unat proto) in
      [[''-t'', ''raw'', ''PREROUTING'', ''-p'', p, ''-j'', ''NOTRACK''] @ rule_comment,
       [''-t'', ''raw'', ''OUTPUT'', ''-p'', p, ''-j'', ''NOTRACK''] @ rule_comment,
       [''-t'', ''mangle'', ''OUTPUT'', ''-p'', ''icmp'', ''--icmp-type'', ''protocol-unreachable'', ''-j'', ''DROP'']
         @ rule_comment])"

definition distinct_blocks :: "(u16 \<times> u16) list \<Rightarrow> (u16 \<times> u16) list" where
  "distinct_blocks blocks = remdups_adj (sort blocks)"

fun iptables_rules :: "guard \<Rightarrow> iptables_rule list" where
  "iptables_rules (GPorts ports) = concat (map rules_for ports)"
| "iptables_rules (GIcmpIds blocks) = concat (map rules_for_echo (distinct_blocks blocks))"
| "iptables_rules (GProtocol proto) = rules_for_protocol proto"

fun fw_apply :: "'h tool \<Rightarrow> iptables_rule list \<Rightarrow> 'h \<Rightarrow> bool \<times> 'h" where
  "fw_apply run [] h = (True, h)"
| "fw_apply run (r # rs) h =
     (let (present, h1) = run (rule_args r Check) h in
      if present then fw_apply run rs h1
      else let (ok, h2) = run (rule_args r Append) h1 in
        if ok then fw_apply run rs h2 else (False, h2))"

text \<open>A command repeated for as long as it succeeds; \<open>None\<close> if that never ends.\<close>

partial_function (option) run_while :: "'h tool \<Rightarrow> string list \<Rightarrow> 'h \<Rightarrow> 'h option" where
  "run_while run args h = (case run args h of (ok, h') \<Rightarrow> if ok then run_while run args h' else Some h')"

fun fw_revert :: "'h tool \<Rightarrow> iptables_rule list \<Rightarrow> 'h \<Rightarrow> 'h option" where
  "fw_revert run [] h = Some h"
| "fw_revert run (r # rs) h = Option.bind (run_while run (rule_args r Delete) h) (fw_revert run rs)"

datatype fw_status = Installed | Absent | Partial

fun count_present :: "'h tool \<Rightarrow> iptables_rule list \<Rightarrow> 'h \<Rightarrow> nat \<times> 'h" where
  "count_present run [] h = (0, h)"
| "count_present run (r # rs) h =
     (let (present, h1) = run (rule_args r Check) h; (n, h2) = count_present run rs h1
      in ((if present then 1 else 0) + n, h2))"

definition fw_status_of :: "'h tool \<Rightarrow> iptables_rule list \<Rightarrow> 'h \<Rightarrow> fw_status" where
  "fw_status_of run rs h =
     (let present = fst (count_present run rs h) in
      if present = length rs then Installed else if present = 0 then Absent else Partial)"

section \<open>Policy routing\<close>

definition POLICY_PRIORITY :: u32 where "POLICY_PRIORITY = 9000"
definition DEVICE_METRIC :: u32 where "DEVICE_METRIC = 1"
definition BLACKHOLE_METRIC :: u32 where "BLACKHOLE_METRIC = 100"
definition FAMILIES :: "string list" where "FAMILIES = [''-4'', ''-6'']"

definition show_u32 :: "u32 \<Rightarrow> string" where
  "show_u32 n = show_nat (unat n)"

record policy =
  po_mark :: u32
  po_table :: u32
  po_ipv6 :: bool

definition policy_families :: "policy \<Rightarrow> string list" where
  "policy_families p = (if po_ipv6 p then FAMILIES else take 1 FAMILIES)"

definition add_rule_args :: "string \<Rightarrow> u32 \<Rightarrow> u32 \<Rightarrow> string list" where
  "add_rule_args family mark table =
     [family, ''rule'', ''add'', ''fwmark'', show_u32 mark, ''lookup'', show_u32 table, ''priority'', show_u32 POLICY_PRIORITY]"

definition del_rule_args :: "string \<Rightarrow> u32 \<Rightarrow> string list" where
  "del_rule_args family mark =
     [family, ''rule'', ''del'', ''fwmark'', show_u32 mark, ''priority'', show_u32 POLICY_PRIORITY]"

definition device_route_args :: "string \<Rightarrow> string \<Rightarrow> u32 \<Rightarrow> string list" where
  "device_route_args family device table =
     [family, ''route'', ''replace'', ''default'', ''dev'', device, ''table'', show_u32 table, ''metric'', show_u32 DEVICE_METRIC]"

definition blackhole_args :: "string \<Rightarrow> u32 \<Rightarrow> string list" where
  "blackhole_args family table =
     [family, ''route'', ''replace'', ''blackhole'', ''default'', ''table'', show_u32 table, ''metric'', show_u32 BLACKHOLE_METRIC]"

definition del_device_args :: "string \<Rightarrow> string \<Rightarrow> u32 \<Rightarrow> string list" where
  "del_device_args family device table =
     [family, ''route'', ''del'', ''default'', ''dev'', device, ''table'', show_u32 table]"

definition del_blackhole_args :: "string \<Rightarrow> u32 \<Rightarrow> string list" where
  "del_blackhole_args family table =
     [family, ''route'', ''del'', ''blackhole'', ''default'', ''table'', show_u32 table]"

fun revert_families :: "'h tool \<Rightarrow> policy \<Rightarrow> string \<Rightarrow> string list \<Rightarrow> 'h \<Rightarrow> 'h option" where
  "revert_families run p device [] h = Some h"
| "revert_families run p device (f # fs) h =
     Option.bind (run_while run (del_rule_args f (po_mark p)) h) (\<lambda>h1.
       let (_, h2) = run (del_device_args f device (po_table p)) h1;
           (_, h3) = run (del_blackhole_args f (po_table p)) h2
       in revert_families run p device fs h3)"

definition policy_revert :: "'h tool \<Rightarrow> policy \<Rightarrow> string \<Rightarrow> 'h \<Rightarrow> 'h option" where
  "policy_revert run p device h = revert_families run p device FAMILIES h"

fun apply_families :: "'h tool \<Rightarrow> policy \<Rightarrow> string \<Rightarrow> string list \<Rightarrow> 'h \<Rightarrow> bool \<times> 'h" where
  "apply_families run p device [] h = (True, h)"
| "apply_families run p device (f # fs) h =
     (let (ok1, h1) = run (add_rule_args f (po_mark p) (po_table p)) h in
      if \<not> ok1 then (False, h1)
      else let (ok2, h2) = run (device_route_args f device (po_table p)) h1 in
      if \<not> ok2 then (False, h2)
      else let (ok3, h3) = run (blackhole_args f (po_table p)) h2 in
      if \<not> ok3 then (False, h3)
      else apply_families run p device fs h3)"

definition policy_apply :: "'h tool \<Rightarrow> policy \<Rightarrow> string \<Rightarrow> 'h \<Rightarrow> (bool \<times> 'h) option" where
  "policy_apply run p device h =
     map_option (apply_families run p device (policy_families p)) (policy_revert run p device h)"

section \<open>A mark pointed at a table of someone else\<close>

definition LANE_RULE_PRIORITY :: u32 where "LANE_RULE_PRIORITY = 9000"

fun show_hex :: "nat \<Rightarrow> string" where
  "show_hex n =
     (let digit = (\<lambda>d. char_of (if d < 10 then 48 + d else 87 + d)) in
      if n < 16 then [digit n] else show_hex (n div 16) @ [digit (n mod 16)])"

declare show_hex.simps [simp del]

definition point_args :: "string \<Rightarrow> u32 \<Rightarrow> u32 \<Rightarrow> u32 \<Rightarrow> string list" where
  "point_args verb mark table priority =
     [''rule'', verb, ''fwmark'', ''0x'' @ show_hex (unat mark), ''lookup'', show_u32 table, ''priority'', show_u32 priority]"

definition point_mark_at :: "'h tool \<Rightarrow> u32 \<Rightarrow> u32 \<Rightarrow> u32 \<Rightarrow> 'h \<Rightarrow> (bool \<times> 'h) option" where
  "point_mark_at run mark table priority h =
     map_option (run (point_args ''add'' mark table priority)) (run_while run (point_args ''del'' mark table priority) h)"

definition unpoint_mark :: "'h tool \<Rightarrow> u32 \<Rightarrow> u32 \<Rightarrow> u32 \<Rightarrow> 'h \<Rightarrow> 'h option" where
  "unpoint_mark run mark table priority h = run_while run (point_args ''del'' mark table priority) h"

section \<open>What the tools are known to do\<close>

text \<open>\<open>copies h r\<close> is how often a rule is in its chain: \<^verbatim>\<open>-C\<close> tests for it, \<^verbatim>\<open>-A\<close> adds one copy or fails, \<^verbatim>\<open>-D\<close>
  takes one copy away and fails when there is none.\<close>

definition iptables_behaves :: "'h tool \<Rightarrow> ('h \<Rightarrow> iptables_rule \<Rightarrow> nat) \<Rightarrow> bool" where
  "iptables_behaves run copies \<longleftrightarrow>
     (\<forall>h r. 2 \<le> length r \<longrightarrow>
        run (rule_args r Check) h = (0 < copies h r, h) \<and>
        (case run (rule_args r Append) h of (ok, h') \<Rightarrow>
           copies h' = (if ok then (copies h)(r := Suc (copies h r)) else copies h)) \<and>
        (case run (rule_args r Delete) h of (ok, h') \<Rightarrow>
           ok = (0 < copies h r) \<and> copies h' = (copies h)(r := copies h r - 1)))"

lemma iptables_steps:
  assumes "iptables_behaves run copies" and "2 \<le> length r"
  shows "run (rule_args r Check) h = (0 < copies h r, h)"
    and "run (rule_args r Append) h = (ok, h') \<Longrightarrow> copies h' = (if ok then (copies h)(r := Suc (copies h r)) else copies h)"
    and "run (rule_args r Delete) h = (ok, h') \<Longrightarrow> ok = (0 < copies h r) \<and> copies h' = (copies h)(r := copies h r - 1)"
proof -
  have "run (rule_args r Check) h = (0 < copies h r, h) \<and>
      (case run (rule_args r Append) h of (ok, h') \<Rightarrow>
         copies h' = (if ok then (copies h)(r := Suc (copies h r)) else copies h)) \<and>
      (case run (rule_args r Delete) h of (ok, h') \<Rightarrow>
         ok = (0 < copies h r) \<and> copies h' = (copies h)(r := copies h r - 1))"
    using assms(1) [unfolded iptables_behaves_def, THEN spec, of h, THEN spec, of r] assms(2) by (rule mp)
  then show "run (rule_args r Check) h = (0 < copies h r, h)"
    and "run (rule_args r Append) h = (ok, h') \<Longrightarrow> copies h' = (if ok then (copies h)(r := Suc (copies h r)) else copies h)"
    and "run (rule_args r Delete) h = (ok, h') \<Longrightarrow> ok = (0 < copies h r) \<and> copies h' = (copies h)(r := copies h r - 1)"
    by auto
qed

lemma iptables_rules_long: "r \<in> set (iptables_rules g) \<Longrightarrow> 2 \<le> length r"
  by (cases g) (auto simp: rules_for_def rules_for_echo_def rules_for_protocol_def Let_def)

lemma fw_apply_effect:
  assumes "iptables_behaves run copies" and "\<forall>r\<in>set rs. 2 \<le> length r" and "fw_apply run rs h = (True, h')"
  shows "copies h' = (\<lambda>r. if r \<in> set rs then max 1 (copies h r) else copies h r)"
  using assms(2,3)
proof (induction rs arbitrary: h)
  case (Cons r rs)
  have chk: "run (rule_args r Check) h = (0 < copies h r, h)"
    using iptables_steps(1) [OF assms(1)] Cons.prems(1) by simp
  show ?case
  proof (cases "0 < copies h r")
    case True
    then have "fw_apply run rs h = (True, h')"
      using Cons.prems(2) chk by simp
    from Cons.IH [OF _ this] show ?thesis
      using Cons.prems(1) True by (auto simp: fun_eq_iff)
  next
    case False
    obtain ok h2 where app: "run (rule_args r Append) h = (ok, h2)"
      by fastforce
    then have ok: "ok" "fw_apply run rs h2 = (True, h')"
      using Cons.prems(2) chk False by (auto split: if_splits)
    then have "copies h2 = (copies h)(r := Suc (copies h r))"
      using iptables_steps(2) [OF assms(1) _ app] Cons.prems(1) by simp
    then show ?thesis
      using Cons.IH [OF _ ok(2)] Cons.prems(1) False by (auto simp: fun_eq_iff)
  qed
qed simp

lemma fw_apply_installed:
  assumes "iptables_behaves run copies" and "\<forall>r\<in>set rs. 2 \<le> length r \<and> 0 < copies h r"
  shows "fw_apply run rs h = (True, h)" and "count_present run rs h = (length rs, h)"
  using assms(2) by (induction rs) (auto simp: iptables_steps(1) [OF assms(1)])

lemma run_while_delete:
  assumes "iptables_behaves run copies" and "2 \<le> length r"
  shows "\<exists>h'. run_while run (rule_args r Delete) h = Some h' \<and> copies h' = (copies h)(r := 0)"
proof (induction "copies h r" arbitrary: h)
  case 0
  obtain ok h1 where del: "run (rule_args r Delete) h = (ok, h1)"
    by fastforce
  then have "\<not> ok" "copies h1 = copies h"
    using iptables_steps(3) [OF assms del] 0 by (simp_all add: fun_eq_iff)
  then show ?case
    using del 0 by (subst run_while.simps) auto
next
  case (Suc n)
  obtain ok h1 where del: "run (rule_args r Delete) h = (ok, h1)"
    by fastforce
  then have "ok" "copies h1 = (copies h)(r := n)"
    using iptables_steps(3) [OF assms del] Suc(2) [symmetric] by simp_all
  moreover obtain h' where "run_while run (rule_args r Delete) h1 = Some h'" "copies h' = (copies h1)(r := 0)"
    using Suc(1) [of h1] \<open>copies h1 = _\<close> by auto
  ultimately show ?case
    using del by (subst run_while.simps) auto
qed

lemma fw_revert_effect:
  assumes "iptables_behaves run copies" and "\<forall>r\<in>set rs. 2 \<le> length r"
  shows "\<exists>h'. fw_revert run rs h = Some h' \<and> copies h' = (\<lambda>r. if r \<in> set rs then 0 else copies h r)"
  using assms(2)
proof (induction rs arbitrary: h)
  case (Cons r rs)
  obtain h1 where h1: "run_while run (rule_args r Delete) h = Some h1" "copies h1 = (copies h)(r := 0)"
    using run_while_delete [OF assms(1), of r h] Cons.prems by auto
  obtain h2 where "fw_revert run rs h1 = Some h2" "copies h2 = (\<lambda>r. if r \<in> set rs then 0 else copies h1 r)"
    using Cons.IH [of h1] Cons.prems by auto
  then show ?case
    using h1 by (auto simp: fun_eq_iff)
qed simp

text \<open>C30. Applying the rules leaves every one of them installed, adding a copy only where there was none and
  touching no other rule; applying them again changes nothing, and the status says they are there.  Reverting
  ends, whatever copies earlier runs have left behind, and leaves none of these rules and every other as it
  was.\<close>
theorem firewall_applied_and_reverted:
  assumes "iptables_behaves run copies" and "fw_apply run (iptables_rules g) h = (True, h1)"
  shows "copies h1 = (\<lambda>r. if r \<in> set (iptables_rules g) then max 1 (copies h r) else copies h r) \<and>
    fw_apply run (iptables_rules g) h1 = (True, h1) \<and>
    fw_status_of run (iptables_rules g) h1 = Installed \<and>
    (\<exists>h2. fw_revert run (iptables_rules g) h1 = Some h2 \<and>
       copies h2 = (\<lambda>r. if r \<in> set (iptables_rules g) then 0 else copies h r))"
proof -
  have long: "\<forall>r\<in>set (iptables_rules g). 2 \<le> length r"
    using iptables_rules_long by blast
  have copies: "copies h1 = (\<lambda>r. if r \<in> set (iptables_rules g) then max 1 (copies h r) else copies h r)"
    by (rule fw_apply_effect [OF assms(1) long assms(2)])
  then have there: "\<forall>r\<in>set (iptables_rules g). 2 \<le> length r \<and> 0 < copies h1 r"
    using long by auto
  obtain h2 where "fw_revert run (iptables_rules g) h1 = Some h2"
      "copies h2 = (\<lambda>r. if r \<in> set (iptables_rules g) then 0 else copies h1 r)"
    using fw_revert_effect [OF assms(1) long, of h1] by blast
  then show ?thesis
    using copies fw_apply_installed [OF assms(1) there] by (auto simp: fw_status_of_def fun_eq_iff)
qed

definition toy_iptables :: "iptables_rule list tool" where
  "toy_iptables args rs =
     (case args of
        a # b # f # parts \<Rightarrow>
          (let r = a # b # parts in
           if f = ''-C'' then (r \<in> set rs, rs)
           else if f = ''-A'' then (True, r # rs)
           else (r \<in> set rs, remove1 r rs))
      | _ \<Rightarrow> (False, rs))"

lemma toy_iptables_behaves: "iptables_behaves toy_iptables count_list"
proof -
  have pos: "0 < count_list rs r \<longleftrightarrow> r \<in> set rs" for r :: iptables_rule and rs
    using count_list_0_iff [of rs r] by auto
  show ?thesis
    unfolding iptables_behaves_def
    by (auto simp: toy_iptables_def fun_eq_iff pos Let_def Suc_le_length_iff numeral_2_eq_2)
qed

theorem firewall_applied_and_reverted_witness:
  "\<exists>rs h1. fw_apply toy_iptables rs [] = (True, h1) \<and> length rs = 3 \<and> fw_revert toy_iptables rs h1 \<noteq> None \<and>
     fw_status_of toy_iptables rs h1 = Installed"
proof -
  obtain ok h1 where applied: "fw_apply toy_iptables (iptables_rules (GProtocol 47)) [] = (ok, h1)"
    by fastforce
  have "fst (fw_apply toy_iptables (iptables_rules (GProtocol 47)) [])"
    by code_simp
  then have ok: "fw_apply toy_iptables (iptables_rules (GProtocol 47)) [] = (True, h1)"
    using applied by simp
  have "length (iptables_rules (GProtocol 47)) = 3"
    by (simp add: rules_for_protocol_def Let_def)
  then show ?thesis
    using firewall_applied_and_reverted [OF toy_iptables_behaves ok] ok by blast
qed

section \<open>What \<^verbatim>\<open>ip\<close> is known to do\<close>

datatype route_target = Dev string | Blackhole

text \<open>\<open>rules h (f, m)\<close> are the tables that the rules for mark \<open>m\<close> of family \<open>f\<close> at the program's priority look up,
  \<open>routes h (f, t, n)\<close> the default route of metric \<open>n\<close> in a table.  Adding adds one rule, or fails; deleting by mark
  takes one rule of that mark away, deleting by mark and table one that looks up the table, and fails when there is
  none; replacing sets the route, or fails; deleting routes touches only the table named.\<close>

definition ip_behaves ::
  "'h tool \<Rightarrow> ('h \<Rightarrow> string \<times> u32 \<Rightarrow> u32 list) \<Rightarrow> ('h \<Rightarrow> string \<times> u32 \<times> u32 \<Rightarrow> route_target option) \<Rightarrow> bool" where
  "ip_behaves run rules routes \<longleftrightarrow>
     (\<forall>h. (\<forall>f m t. case run (add_rule_args f m t) h of (ok, h') \<Rightarrow>
             routes h' = routes h \<and> rules h' = (if ok then (rules h)((f, m) := t # rules h (f, m)) else rules h)) \<and>
          (\<forall>f m. case run (del_rule_args f m) h of (ok, h') \<Rightarrow>
             routes h' = routes h \<and> ok = (rules h (f, m) \<noteq> []) \<and>
             (if ok then \<exists>t \<in> set (rules h (f, m)). rules h' = (rules h)((f, m) := remove1 t (rules h (f, m)))
              else rules h' = rules h)) \<and>
          (\<forall>m t. case run (point_args ''add'' m t LANE_RULE_PRIORITY) h of (ok, h') \<Rightarrow>
             routes h' = routes h \<and>
             rules h' = (if ok then (rules h)((''-4'', m) := t # rules h (''-4'', m)) else rules h)) \<and>
          (\<forall>m t. case run (point_args ''del'' m t LANE_RULE_PRIORITY) h of (ok, h') \<Rightarrow>
             routes h' = routes h \<and> ok = (t \<in> set (rules h (''-4'', m))) \<and>
             rules h' = (rules h)((''-4'', m) := remove1 t (rules h (''-4'', m)))) \<and>
          (\<forall>f d t. case run (device_route_args f d t) h of (ok, h') \<Rightarrow>
             rules h' = rules h \<and>
             routes h' = (if ok then (routes h)((f, t, DEVICE_METRIC) := Some (Dev d)) else routes h)) \<and>
          (\<forall>f t. case run (blackhole_args f t) h of (ok, h') \<Rightarrow>
             rules h' = rules h \<and>
             routes h' = (if ok then (routes h)((f, t, BLACKHOLE_METRIC) := Some Blackhole) else routes h)) \<and>
          (\<forall>f d t. case run (del_device_args f d t) h of (ok, h') \<Rightarrow>
             rules h' = rules h \<and> (\<forall>g a n. a \<noteq> t \<longrightarrow> routes h' (g, a, n) = routes h (g, a, n))) \<and>
          (\<forall>f t. case run (del_blackhole_args f t) h of (ok, h') \<Rightarrow>
             rules h' = rules h \<and> (\<forall>g a n. a \<noteq> t \<longrightarrow> routes h' (g, a, n) = routes h (g, a, n))))"

section \<open>Installing a policy\<close>

lemma ip_steps:
  assumes "ip_behaves run rules routes"
  shows "run (add_rule_args f m t) h = (ok, h') \<Longrightarrow> routes h' = routes h \<and>
      rules h' = (if ok then (rules h)((f, m) := t # rules h (f, m)) else rules h)"
    and "run (del_rule_args f m) h = (ok, h') \<Longrightarrow> routes h' = routes h \<and> ok = (rules h (f, m) \<noteq> []) \<and>
      (if ok then \<exists>t \<in> set (rules h (f, m)). rules h' = (rules h)((f, m) := remove1 t (rules h (f, m)))
       else rules h' = rules h)"
    and "run (point_args ''add'' m t LANE_RULE_PRIORITY) h = (ok, h') \<Longrightarrow> routes h' = routes h \<and>
      rules h' = (if ok then (rules h)((''-4'', m) := t # rules h (''-4'', m)) else rules h)"
    and "run (point_args ''del'' m t LANE_RULE_PRIORITY) h = (ok, h') \<Longrightarrow> routes h' = routes h \<and>
      ok = (t \<in> set (rules h (''-4'', m))) \<and> rules h' = (rules h)((''-4'', m) := remove1 t (rules h (''-4'', m)))"
    and "run (device_route_args f d t) h = (ok, h') \<Longrightarrow> rules h' = rules h \<and>
      routes h' = (if ok then (routes h)((f, t, DEVICE_METRIC) := Some (Dev d)) else routes h)"
    and "run (blackhole_args f t) h = (ok, h') \<Longrightarrow> rules h' = rules h \<and>
      routes h' = (if ok then (routes h)((f, t, BLACKHOLE_METRIC) := Some Blackhole) else routes h)"
    and "run (del_device_args f d t) h = (ok, h') \<Longrightarrow> rules h' = rules h \<and>
      (\<forall>g a n. a \<noteq> t \<longrightarrow> routes h' (g, a, n) = routes h (g, a, n))"
    and "run (del_blackhole_args f t) h = (ok, h') \<Longrightarrow> rules h' = rules h \<and>
      (\<forall>g a n. a \<noteq> t \<longrightarrow> routes h' (g, a, n) = routes h (g, a, n))"
proof -
  note laws = assms [unfolded ip_behaves_def, THEN spec, of h]
  note add = laws [THEN conjunct1, THEN spec, of f, THEN spec, of m, THEN spec, of t]
  note laws = laws [THEN conjunct2]
  note del = laws [THEN conjunct1, THEN spec, of f, THEN spec, of m]
  note laws = laws [THEN conjunct2]
  note point = laws [THEN conjunct1, THEN spec, of m, THEN spec, of t]
  note laws = laws [THEN conjunct2]
  note unpoint = laws [THEN conjunct1, THEN spec, of m, THEN spec, of t]
  note laws = laws [THEN conjunct2]
  note device = laws [THEN conjunct1, THEN spec, of f, THEN spec, of d, THEN spec, of t]
  note laws = laws [THEN conjunct2]
  note blackhole = laws [THEN conjunct1, THEN spec, of f, THEN spec, of t]
  note laws = laws [THEN conjunct2]
  note undevice = laws [THEN conjunct1, THEN spec, of f, THEN spec, of d, THEN spec, of t]
  note unblackhole = laws [THEN conjunct2, THEN spec, of f, THEN spec, of t]
  show "run (add_rule_args f m t) h = (ok, h') \<Longrightarrow> routes h' = routes h \<and>
      rules h' = (if ok then (rules h)((f, m) := t # rules h (f, m)) else rules h)"
    using add by simp
  show "run (del_rule_args f m) h = (ok, h') \<Longrightarrow> routes h' = routes h \<and> ok = (rules h (f, m) \<noteq> []) \<and>
      (if ok then \<exists>t \<in> set (rules h (f, m)). rules h' = (rules h)((f, m) := remove1 t (rules h (f, m)))
       else rules h' = rules h)"
    using del by simp
  show "run (point_args ''add'' m t LANE_RULE_PRIORITY) h = (ok, h') \<Longrightarrow> routes h' = routes h \<and>
      rules h' = (if ok then (rules h)((''-4'', m) := t # rules h (''-4'', m)) else rules h)"
    using point by simp
  show "run (point_args ''del'' m t LANE_RULE_PRIORITY) h = (ok, h') \<Longrightarrow> routes h' = routes h \<and>
      ok = (t \<in> set (rules h (''-4'', m))) \<and> rules h' = (rules h)((''-4'', m) := remove1 t (rules h (''-4'', m)))"
    using unpoint by simp
  show "run (device_route_args f d t) h = (ok, h') \<Longrightarrow> rules h' = rules h \<and>
      routes h' = (if ok then (routes h)((f, t, DEVICE_METRIC) := Some (Dev d)) else routes h)"
    using device by simp
  show "run (blackhole_args f t) h = (ok, h') \<Longrightarrow> rules h' = rules h \<and>
      routes h' = (if ok then (routes h)((f, t, BLACKHOLE_METRIC) := Some Blackhole) else routes h)"
    using blackhole by simp
  show "run (del_device_args f d t) h = (ok, h') \<Longrightarrow> rules h' = rules h \<and>
      (\<forall>g a n. a \<noteq> t \<longrightarrow> routes h' (g, a, n) = routes h (g, a, n))"
    using undevice by simp
  show "run (del_blackhole_args f t) h = (ok, h') \<Longrightarrow> rules h' = rules h \<and>
      (\<forall>g a n. a \<noteq> t \<longrightarrow> routes h' (g, a, n) = routes h (g, a, n))"
    using unblackhole by simp
qed

lemma run_while_del_rule:
  assumes "ip_behaves run rules routes"
  shows "\<exists>h'. run_while run (del_rule_args f m) h = Some h' \<and> routes h' = routes h \<and> rules h' = (rules h)((f, m) := [])"
proof (induction "length (rules h (f, m))" arbitrary: h)
  case 0
  obtain ok h1 where del: "run (del_rule_args f m) h = (ok, h1)"
    by fastforce
  show ?case
    using ip_steps(2) [OF assms del] del 0 by (subst run_while.simps) (auto simp: fun_eq_iff)
next
  case (Suc n)
  obtain ok h1 where del: "run (del_rule_args f m) h = (ok, h1)"
    by fastforce
  then obtain t where t: "ok" "routes h1 = routes h" "t \<in> set (rules h (f, m))"
      "rules h1 = (rules h)((f, m) := remove1 t (rules h (f, m)))"
    using ip_steps(2) [OF assms del] Suc(2) by (auto split: if_splits)
  then have "n = length (rules h1 (f, m))"
    using Suc(2) by (simp add: length_remove1)
  then obtain h' where "run_while run (del_rule_args f m) h1 = Some h'" "routes h' = routes h1"
      "rules h' = (rules h1)((f, m) := [])"
    using Suc(1) [of h1] by auto
  then show ?case
    using del t by (subst run_while.simps) (auto simp: fun_eq_iff)
qed

lemma run_while_unpoint:
  assumes "ip_behaves run rules routes"
  shows "\<exists>h'. run_while run (point_args ''del'' m t LANE_RULE_PRIORITY) h = Some h' \<and> routes h' = routes h \<and>
    (\<forall>k. k \<noteq> (''-4'', m) \<longrightarrow> rules h' k = rules h k)"
proof (induction "length (rules h (''-4'', m))" arbitrary: h rule: less_induct)
  case less
  obtain ok h1 where del: "run (point_args ''del'' m t LANE_RULE_PRIORITY) h = (ok, h1)"
    by fastforce
  note step = ip_steps(4) [OF assms del]
  show ?case
  proof (cases ok)
    case True
    then have "length (rules h1 (''-4'', m)) < length (rules h (''-4'', m))"
      using step length_pos_if_in_set [of t "rules h (''-4'', m)"] by (auto simp: length_remove1)
    from less [OF this] show ?thesis
      using del True step by (subst run_while.simps) auto
  next
    case False
    then show ?thesis
      using del step by (subst run_while.simps) (auto simp: remove1_idem)
  qed
qed

lemma revert_families_effect:
  assumes "ip_behaves run rules routes"
  shows "\<exists>h'. revert_families run p device fs h = Some h' \<and>
    (\<forall>g m. rules h' (g, m) = (if m = po_mark p \<and> g \<in> set fs then [] else rules h (g, m))) \<and>
    (\<forall>g a n. a \<noteq> po_table p \<longrightarrow> routes h' (g, a, n) = routes h (g, a, n))"
proof (induction fs arbitrary: h)
  case (Cons f fs)
  obtain h1 where h1: "run_while run (del_rule_args f (po_mark p)) h = Some h1" "routes h1 = routes h"
      "rules h1 = (rules h)((f, po_mark p) := [])"
    using run_while_del_rule [OF assms] by blast
  obtain ok2 h2 where d2: "run (del_device_args f device (po_table p)) h1 = (ok2, h2)"
    by fastforce
  obtain ok3 h3 where d3: "run (del_blackhole_args f (po_table p)) h2 = (ok3, h3)"
    by fastforce
  note s2 = ip_steps(7) [OF assms d2] and s3 = ip_steps(8) [OF assms d3]
  obtain h' where h': "revert_families run p device fs h3 = Some h'"
      "\<forall>g m. rules h' (g, m) = (if m = po_mark p \<and> g \<in> set fs then [] else rules h3 (g, m))"
      "\<forall>g a n. a \<noteq> po_table p \<longrightarrow> routes h' (g, a, n) = routes h3 (g, a, n)"
    using Cons.IH [of h3] by blast
  then show ?case
    using h1 d2 d3 s2 s3 by auto
qed simp

definition steered ::
  "('h \<Rightarrow> string \<times> u32 \<Rightarrow> u32 list) \<Rightarrow> ('h \<Rightarrow> string \<times> u32 \<times> u32 \<Rightarrow> route_target option)
     \<Rightarrow> 'h \<Rightarrow> string \<Rightarrow> u32 \<Rightarrow> u32 \<Rightarrow> string \<Rightarrow> bool" where
  "steered rules routes h f m t d \<longleftrightarrow>
     rules h (f, m) = [t] \<and> routes h (f, t, DEVICE_METRIC) = Some (Dev d) \<and>
     routes h (f, t, BLACKHOLE_METRIC) = Some Blackhole"

lemma apply_families_effect:
  assumes "ip_behaves run rules routes" and "distinct fs" and "apply_families run p device fs h = (ok, h')"
  shows "(\<forall>g m. m \<noteq> po_mark p \<longrightarrow> rules h' (g, m) = rules h (g, m)) \<and>
    (\<forall>g a n. a \<noteq> po_table p \<or> g \<notin> set fs \<longrightarrow> routes h' (g, a, n) = routes h (g, a, n)) \<and>
    (\<forall>g. g \<notin> set fs \<longrightarrow> rules h' (g, po_mark p) = rules h (g, po_mark p)) \<and>
    (ok \<longrightarrow> (\<forall>g\<in>set fs. rules h' (g, po_mark p) = po_table p # rules h (g, po_mark p) \<and>
       routes h' (g, po_table p, DEVICE_METRIC) = Some (Dev device) \<and>
       routes h' (g, po_table p, BLACKHOLE_METRIC) = Some Blackhole))"
  using assms(2,3)
proof (induction fs arbitrary: h)
  case (Cons f fs)
  obtain ok1 h1 where d1: "run (add_rule_args f (po_mark p) (po_table p)) h = (ok1, h1)"
    by fastforce
  obtain ok2 h2 where d2: "run (device_route_args f device (po_table p)) h1 = (ok2, h2)"
    by fastforce
  obtain ok3 h3 where d3: "run (blackhole_args f (po_table p)) h2 = (ok3, h3)"
    by fastforce
  note s1 = ip_steps(1) [OF assms(1) d1] and s2 = ip_steps(5) [OF assms(1) d2] and s3 = ip_steps(6) [OF assms(1) d3]
  consider "\<not> ok1" | "ok1" "\<not> ok2" | "ok1" "ok2" "\<not> ok3" | "ok1" "ok2" "ok3"
    by blast
  then show ?case
  proof cases
    case 4
    then have "apply_families run p device fs h3 = (ok, h')"
      using Cons.prems d1 d2 d3 by simp
    from Cons.IH [OF _ this] show ?thesis
      using Cons.prems(1) s1 s2 s3 4 by (auto simp: DEVICE_METRIC_def BLACKHOLE_METRIC_def)
  qed (use Cons.prems d1 d2 d3 s1 s2 s3 in \<open>auto\<close>)
qed simp

lemma policy_families_sub: "set (policy_families p) \<subseteq> set FAMILIES \<and> distinct (policy_families p)"
  by (auto simp: policy_families_def FAMILIES_def)

lemma policy_apply_effect:
  assumes "ip_behaves run rules routes"
  shows "\<exists>ok h'. policy_apply run p device h = Some (ok, h') \<and>
    (\<forall>g m. m \<noteq> po_mark p \<longrightarrow> rules h' (g, m) = rules h (g, m)) \<and>
    (\<forall>g a n. a \<noteq> po_table p \<longrightarrow> routes h' (g, a, n) = routes h (g, a, n)) \<and>
    (ok \<longrightarrow> (\<forall>g\<in>set (policy_families p). steered rules routes h' g (po_mark p) (po_table p) device) \<and>
       (\<forall>g\<in>set FAMILIES - set (policy_families p). rules h' (g, po_mark p) = []))"
proof -
  obtain h1 where h1: "policy_revert run p device h = Some h1"
      "\<forall>g m. rules h1 (g, m) = (if m = po_mark p \<and> g \<in> set FAMILIES then [] else rules h (g, m))"
      "\<forall>g a n. a \<noteq> po_table p \<longrightarrow> routes h1 (g, a, n) = routes h (g, a, n)"
    using revert_families_effect [OF assms] unfolding policy_revert_def by blast
  obtain ok h' where h': "apply_families run p device (policy_families p) h1 = (ok, h')"
    by fastforce
  have subs: "set (policy_families p) \<subseteq> set FAMILIES" and dist: "distinct (policy_families p)"
    using policy_families_sub by blast+
  note effect = apply_families_effect [OF assms dist h']
  have "ok \<longrightarrow> (\<forall>g\<in>set (policy_families p). steered rules routes h' g (po_mark p) (po_table p) device) \<and>
       (\<forall>g\<in>set FAMILIES - set (policy_families p). rules h' (g, po_mark p) = [])"
    using effect h1(2) subs by (auto simp: steered_def)
  moreover have "\<forall>g m. m \<noteq> po_mark p \<longrightarrow> rules h' (g, m) = rules h (g, m)"
    using effect h1(2) by simp
  moreover have "\<forall>g a n. a \<noteq> po_table p \<longrightarrow> routes h' (g, a, n) = routes h (g, a, n)"
    using effect h1(3) by simp
  ultimately show ?thesis
    using h1(1) h' by (intro exI [of _ ok] exI [of _ h']) (simp add: policy_apply_def)
qed

text \<open>Installing a policy ends, whatever rules earlier runs have left behind.  When it succeeds there is one rule for
  the mark in each family it covers and none in the other, the rule looks up the table given, and the table holds
  the route through the device with the blackhole behind it, so that what is marked fails closed when the device
  goes away.  No rule of another mark and no route of another table is touched.  Removing the policy ends too and
  leaves no rule for the mark.\<close>
theorem policy_installed_and_removed:
  assumes "ip_behaves run rules routes"
  shows "\<exists>ok h1. policy_apply run p device h = Some (ok, h1) \<and>
    (if ok
     then list_all (\<lambda>f. rules h1 (f, po_mark p) = [po_table p] \<and>
            routes h1 (f, po_table p, DEVICE_METRIC) = Some (Dev device) \<and>
            routes h1 (f, po_table p, BLACKHOLE_METRIC) = Some Blackhole) (policy_families p) \<and>
          (\<exists>h2. policy_revert run p device h1 = Some h2 \<and> list_all (\<lambda>f. rules h2 (f, po_mark p) = []) FAMILIES)
     else True) \<and>
    (if m \<noteq> po_mark p then rules h1 (f, m) = rules h (f, m) else True) \<and>
    (if t \<noteq> po_table p then routes h1 (f, t, n) = routes h (f, t, n) else True)"
proof -
  obtain ok h1 where h1: "policy_apply run p device h = Some (ok, h1)"
      "\<forall>g m. m \<noteq> po_mark p \<longrightarrow> rules h1 (g, m) = rules h (g, m)"
      "\<forall>g a n. a \<noteq> po_table p \<longrightarrow> routes h1 (g, a, n) = routes h (g, a, n)"
      "ok \<longrightarrow> (\<forall>g\<in>set (policy_families p). steered rules routes h1 g (po_mark p) (po_table p) device)"
    using policy_apply_effect [OF assms, of p device h] by blast
  obtain h2 where "policy_revert run p device h1 = Some h2" "list_all (\<lambda>f. rules h2 (f, po_mark p) = []) FAMILIES"
    using revert_families_effect [OF assms, of p device FAMILIES h1] unfolding policy_revert_def list_all_iff by auto
  then show ?thesis
    using h1 by (auto simp: list_all_iff steered_def)
qed

definition toy_num :: "nat \<Rightarrow> string \<Rightarrow> nat" where
  "toy_num radix s = digits_value radix (map (\<lambda>c. unwrap_or (hex_digit c) 0) s)"

lemma toy_num_snoc: "toy_num radix (s @ [c]) = toy_num radix s * radix + unwrap_or (hex_digit c) 0"
  by (simp add: toy_num_def digits_value_def)

lemma toy_num_show_nat: "toy_num 10 (show_nat n) = n"
proof (induction n rule: show_nat.induct)
  case (1 n)
  have digit: "d < 10 \<Longrightarrow> unwrap_or (hex_digit (char_of (48 + d))) 0 = d" for d :: nat
    by (simp add: hex_digit_def unwrap_or_def)
  show ?case
    using 1 digit [of n] digit [of "n mod 10"]
    by (subst show_nat.simps) (auto simp: toy_num_snoc, auto simp: toy_num_def digits_value_def)
qed

lemma toy_num_show_hex: "toy_num 16 (show_hex n) = n"
proof (induction n rule: show_hex.induct)
  case (1 n)
  have digit: "d < 16 \<Longrightarrow> unwrap_or (hex_digit (char_of (if d < 10 then 48 + d else 87 + d))) 0 = d" for d :: nat
    by (simp add: hex_digit_def unwrap_or_def)
  show ?case
    using 1 digit [of n] digit [of "n mod 16"]
    by (subst show_hex.simps) (auto simp: toy_num_snoc Let_def, auto simp: toy_num_def digits_value_def)
qed

type_synonym toy_host = "(string \<times> u32 \<Rightarrow> u32 list) \<times> (string \<times> u32 \<times> u32 \<Rightarrow> route_target option)"

definition toy_ip :: "toy_host tool" where
  "toy_ip args h =
     (let (rs, ts) = h; n = length args; num = (\<lambda>i. of_nat (toy_num 10 (args ! i)) :: u32);
          hex = (\<lambda>i. of_nat (toy_num 16 (drop 2 (args ! i))) :: u32) in
      if args ! 1 = ''rule''
      then (if n = 9 then (True, rs((args ! 0, num 4) := num 6 # rs (args ! 0, num 4)), ts)
            else (rs (args ! 0, num 4) \<noteq> [], rs((args ! 0, num 4) := tl (rs (args ! 0, num 4))), ts))
      else if args ! 1 = ''route''
      then (if n = 10 then (True, rs, ts((args ! 0, num 7, num 9) := Some (Dev (args ! 5))))
            else if n = 9 then (True, rs, ts((args ! 0, num 6, num 8) := Some Blackhole))
            else if n = 8 then (True, rs, ts((args ! 0, num 7, DEVICE_METRIC) := None))
            else (True, rs, ts((args ! 0, num 6, BLACKHOLE_METRIC) := None)))
      else if args ! 1 = ''add'' then (True, rs((''-4'', hex 3) := num 5 # rs (''-4'', hex 3)), ts)
      else (num 5 \<in> set (rs (''-4'', hex 3)), rs((''-4'', hex 3) := remove1 (num 5) (rs (''-4'', hex 3))), ts))"

lemma toy_ip_behaves: "ip_behaves toy_ip fst snd"
  unfolding ip_behaves_def
  by (auto simp: toy_ip_def add_rule_args_def del_rule_args_def point_args_def device_route_args_def blackhole_args_def
      del_device_args_def del_blackhole_args_def show_u32_def toy_num_show_nat toy_num_show_hex Let_def
      neq_Nil_conv fun_eq_iff split: prod.splits) (metis neq_Nil_conv list.sel(2))

text \<open>A mark's policy with a stale rule for it left by an earlier run.\<close>
theorem policy_installed_and_removed_witness:
  "\<exists>ok h1. policy_apply toy_ip \<lparr>po_mark = 81, po_table = 51, po_ipv6 = False\<rparr> ''paqetz0''
      ((\<lambda>_. [])((''-4'', 81) := [7]), \<lambda>_. None) = Some (ok, h1) \<and>
    (if ok then fst h1 (''-4'', 81) = [51] else True) \<and> fst h1 (''-4'', 82) = []"
proof -
  from policy_installed_and_removed [OF toy_ip_behaves, of "\<lparr>po_mark = 81, po_table = 51, po_ipv6 = False\<rparr>" "''paqetz0''"
      "((\<lambda>_. [])((''-4'', 81) := [7]), \<lambda>_. None)" 82 "''-4''" 0 0]
  show ?thesis
    by (elim exE) (auto simp: policy_families_def FAMILIES_def split: if_splits)
qed

end
