(* ===== verification/Accepted.thy ===== *)
theory Accepted
  imports Config
begin

text \<open>
  What a configuration that was accepted guarantees (\<open>paqetz/src/config.rs\<close>, \<open>paqetz/src/main.rs\<close>): every
  setting of a tunnel is one its machinery can honour, the tunnels of one file do not take each other's
  traffic, and which of them the firewall rules name.
\<close>

section \<open>Sizes that fit\<close>

lemma shape_overhead_bounds: "20 \<le> shape_overhead sh recs \<and> shape_overhead sh recs \<le> 85"
proof -
  have "shell_len x \<le> 60" "shell_len x \<le> 65" for x
    by (cases x; simp add: GRE_LEN_def ICMP_LEN_def)+
  then show ?thesis
    by (cases sh) (auto simp: MAX_OVERHEAD_def IPV4_LEN_def TCP_LEN_def SYN_OPTS_MAX_def RECORD_HEADER_def
        shell_overhead_def Let_def trans_le_add1 add_le_mono)
qed

lemma unat_fragment_free_mtu:
  "unat (fragment_free_mtu sh recs) = FRAGMENT_FREE_OUTER - shape_overhead sh recs - OVERHEAD"
  by (simp add: fragment_free_mtu_def FRAGMENT_FREE_OUTER_def unat_of_nat)

lemma choose_mtu_fits:
  assumes "choose_mtu asked (fragment_free_mtu sh recs) frag v6 = Inr mtu"
  shows "576 \<le> unat mtu \<and> unat mtu \<le> 9000 \<and> (v6 \<longrightarrow> 1280 \<le> unat mtu) \<and>
    (frag = Path \<longrightarrow> unat mtu + shape_overhead sh recs + OVERHEAD \<le> FRAGMENT_FREE_OUTER)"
proof -
  have asked: "576 \<le> unat asked" "unat asked \<le> 9000"
    and mtu: "mtu = (if frag = Path \<and> asked > fragment_free_mtu sh recs then fragment_free_mtu sh recs else asked)"
    and v6: "v6 \<Longrightarrow> 1280 \<le> unat mtu"
    using assms unfolding choose_mtu_def
    by (auto simp: Let_def word_le_nat_alt word_less_nat_alt split: if_splits)
  have cap: "unat (fragment_free_mtu sh recs) + shape_overhead sh recs + OVERHEAD = FRAGMENT_FREE_OUTER"
    "576 \<le> unat (fragment_free_mtu sh recs)" "unat (fragment_free_mtu sh recs) \<le> 9000"
    using shape_overhead_bounds [of sh recs]
    by (auto simp: unat_fragment_free_mtu FRAGMENT_FREE_OUTER_def OVERHEAD_def HEADER_LEN_def TAG_LEN_def)
  show ?thesis
    using asked mtu v6 cap by (auto simp: word_less_nat_alt)
qed

lemma rbind_InrE:
  assumes "rbind r f = Inr y"
  obtains v where "r = Inr v" and "f v = Inr y"
  using assms by (cases r) auto

lemma ok_or_InrE:
  assumes "ok_or x e = Inr v"
  obtains "x = Some v"
  using assms by (cases x) auto

section \<open>The parts of an accepted tunnel\<close>

lemma by_name_known: "by_name n = Some p \<Longrightarrow> p \<in> set ALL_profiles"
  by (auto simp: by_name_def find_Some_iff)

lemma choose_shape_ok:
  assumes "choose_shape c p proto = Inr sh"
  shows "(if sh = ShapeTcp Handshake then p_timestamps p else True) \<and>
    (case sh of ShapeRaw (Bare n) \<Rightarrow> n \<notin> {0, 1, 6, 17, 47} | _ \<Rightarrow> True)"
  using assms
  by (auto simp: choose_shape_def carrier_protocol_def Let_def rbind_eq_Inr split: if_splits option.splits)

lemma spoof_sni_ok: "spoof_sni name sh = Inr (Some n) \<Longrightarrow> shape_has_ports sh \<and> 1 \<le> length n \<and> length n \<le> MAX_NAME"
  by (cases n) (auto simp: spoof_sni_def split: option.splits if_splits)

definition outer_sound :: "bool \<Rightarrow> 'a outer_scheme \<Rightarrow> bool" where
  "outer_sound ipv6_inside ou \<longleftrightarrow>
     ou_profile ou \<in> set ALL_profiles \<and>
     576 \<le> unat (ou_mtu ou) \<and> unat (ou_mtu ou) \<le> 9000 \<and> (ipv6_inside \<longrightarrow> 1280 \<le> unat (ou_mtu ou)) \<and>
     (ou_fragment ou = Path \<longrightarrow>
        unat (ou_mtu ou) + shape_overhead (ou_shape ou) (ou_spoof_records ou) + OVERHEAD \<le> FRAGMENT_FREE_OUTER) \<and>
     (ou_shape ou = ShapeTcp Handshake \<longrightarrow> p_timestamps (ou_profile ou)) \<and>
     (case ou_shape ou of ShapeRaw (Bare n) \<Rightarrow> n \<notin> {0, 1, 6, 17, 47} | _ \<Rightarrow> True) \<and>
     (ou_spoof_records ou \<longrightarrow> ou_spoof_sni ou \<noteq> None) \<and>
     (case ou_spoof_sni ou of
        None \<Rightarrow> True
      | Some n \<Rightarrow> shape_has_ports (ou_shape ou) \<and> ou_sequencing ou = Stream \<and> 1 \<le> length n \<and> length n \<le> MAX_NAME)"

lemma outer_of_sound:
  assumes "outer_of ri ipv6_inside = Inr ou"
  shows "outer_sound ipv6_inside ou"
  using assms unfolding outer_of_def Let_def
proof (elim rbind_InrE ok_or_InrE)
  fix profile sh frag and sni :: "string option" and seq0
  let ?records = "unwrap_or (ri_spoof_records ri) (sni \<noteq> None)"
  assume parts: "by_name (unwrap_or (ri_profile ri) ''linux-6'') = Some profile"
      "choose_shape (ri_carrier ri) profile (ri_carrier_protocol ri) = Inr sh"
      "spoof_sni (ri_spoof_sni ri) sh = Inr sni"
    and rest: "(if ?records \<and> sni = None then Inl (Invalid ''interface.spoof_records'')
       else rbind (choose_mtu (asked_mtu (ri_mtu ri) sh ?records frag) (fragment_free_mtu sh ?records) frag ipv6_inside)
         (\<lambda>mtu. Inr \<lparr>ou_profile = profile, ou_shape = sh, ou_fragment = frag, ou_spoof_sni = sni,
                ou_sequencing = (if sni \<noteq> None then Stream else seq0), ou_spoof_records = ?records,
                ou_acknowledge = unwrap_or (ri_acknowledge ri) (sni \<noteq> None),
                ou_coalesce = unwrap_or (ri_coalesce ri) False,
                ou_notes = outer_notes ri profile sh frag sni seq0, ou_mtu = mtu\<rparr>)) = Inr ou"
  obtain mtu where mtu: "choose_mtu (asked_mtu (ri_mtu ri) sh ?records frag) (fragment_free_mtu sh ?records) frag ipv6_inside = Inr mtu"
      and records: "?records \<longrightarrow> sni \<noteq> None"
      and ou: "ou_profile ou = profile" "ou_shape ou = sh" "ou_fragment ou = frag" "ou_spoof_sni ou = sni"
        "ou_spoof_records ou = ?records" "ou_mtu ou = mtu" "ou_sequencing ou = (if sni \<noteq> None then Stream else seq0)"
    using rest by (auto simp: rbind_eq_Inr split: if_splits)
  have "case sni of None \<Rightarrow> True | Some n \<Rightarrow> shape_has_ports sh \<and> 1 \<le> length n \<and> length n \<le> MAX_NAME"
    using spoof_sni_ok [of "ri_spoof_sni ri" sh] parts(3) by (cases sni) auto
  then show ?thesis
    using by_name_known [OF parts(1)] choose_shape_ok [OF parts(2)] choose_mtu_fits [OF mtu] records
    unfolding outer_sound_def ou by (cases sni) (simp_all split: if_splits)
qed

section \<open>Limits\<close>

definition repeat_sound :: "limits \<Rightarrow> bool" where
  "repeat_sound l \<longleftrightarrow> l_capacity l \<le> MAX_RETRANSMIT \<and> MIN_DEADLINE \<le> l_deadline l \<and> l_deadline l \<le> MAX_DEADLINE \<and>
     l_asks l \<noteq> 0 \<and> l_asks l \<le> MAX_ASKS \<and> MIN_REORDER \<le> l_reorder l \<and> l_reorder l \<le> MAX_REORDER"

definition rotation_sound :: "rotation \<Rightarrow> bool" where
  "rotation_sound r \<longleftrightarrow> MIN_ROTATE_AFTER * 1000 \<le> ro_after r \<and> ro_after r \<le> MAX_ROTATE_AFTER * 1000 \<and>
     ro_jitter r < ro_after r \<and> MIN_ROTATE_PORTS \<le> ro_ports r \<and> ro_ports r \<le> MAX_PORTS \<and>
     ro_unanswered r \<noteq> 0 \<and> ro_unanswered r \<le> MAX_ROTATE_UNANSWERED \<and>
     ro_packets r \<noteq> Some 0 \<and> ro_bytes r \<noteq> Some 0 \<and>
     (case ro_silence r of None \<Rightarrow> True | Some ms \<Rightarrow> MIN_ROTATE_SILENCE \<le> ms \<and> ms \<le> MAX_ROTATE_SILENCE)"

lemmas config_limits = MAX_RETRANSMIT_def MIN_DEADLINE_def MAX_DEADLINE_def MAX_ASKS_def MIN_REORDER_def
  MAX_REORDER_def DEFAULT_BUFFER_def MIN_ROTATE_AFTER_def MAX_ROTATE_AFTER_def MIN_ROTATE_PORTS_def
  MAX_ROTATE_PORTS_def MAX_PORTS_def MAX_ROTATE_UNANSWERED_def MIN_ROTATE_SILENCE_def MAX_ROTATE_SILENCE_def

lemma repeat_of_sound:
  assumes "repeat_of ri = Inr l"
  shows "repeat_sound l"
proof -
  have off: "MIN_DEADLINE \<le> l_deadline limits_off" "l_deadline limits_off \<le> MAX_DEADLINE" "l_asks limits_off \<noteq> 0"
    "l_asks limits_off \<le> MAX_ASKS" "MIN_REORDER \<le> l_reorder limits_off" "l_reorder limits_off \<le> MAX_REORDER"
    by (simp_all add: limits_off_def config_limits DEFAULT_DEADLINE_def DEFAULT_ASKS_def DEFAULT_REORDER_def)
  have capacity: "l_capacity l \<le> MAX_RETRANSMIT"
    using assms by (auto simp: repeat_of_def Let_def unwrap_or_def config_limits split: option.splits raw_retransmit.splits if_splits prod.splits)
  have deadline: "MIN_DEADLINE \<le> l_deadline l \<and> l_deadline l \<le> MAX_DEADLINE"
    using assms off by (auto simp: repeat_of_def Let_def unwrap_or_def split: option.splits if_splits prod.splits)
  have asks: "l_asks l \<noteq> 0 \<and> l_asks l \<le> MAX_ASKS"
    using assms off by (auto simp: repeat_of_def Let_def unwrap_or_def split: option.splits if_splits prod.splits)
  have reorder: "MIN_REORDER \<le> l_reorder l \<and> l_reorder l \<le> MAX_REORDER"
    using assms off by (auto simp: repeat_of_def Let_def unwrap_or_def split: option.splits if_splits prod.splits)
  show ?thesis
    using capacity deadline asks reorder by (simp add: repeat_sound_def)
qed

lemma rotate_after_of_ok:
  assumes "rotate_after_of given = Inr ms"
  shows "MIN_ROTATE_AFTER * 1000 \<le> ms \<and> ms \<le> MAX_ROTATE_AFTER * 1000"
  using assms
  by (auto simp: rotate_after_of_def rotation_default_def ROTATE_AFTER_def config_limits split: option.splits if_splits)

lemma rotate_jitter_of_ok:
  assumes "rotate_jitter_of given after = Inr j" and "after > 0"
  shows "j < after"
proof -
  have "unat (after div 3) < unat after"
    using assms(2) by (simp add: unat_div word_less_nat_alt)
  then show ?thesis
    using assms(1) by (auto simp: rotate_jitter_of_def word_less_nat_alt word_le_nat_alt split: option.splits if_splits)
qed

lemma rotation_of_sound:
  assumes "rotation_of ri = Inr r"
  shows "rotation_sound r"
proof -
  obtain after jitter where parts: "rotate_after_of (ri_rotate_after ri) = Inr after"
      "rotate_jitter_of (ri_rotate_jitter ri) after = Inr jitter" "ro_after r = after" "ro_jitter r = jitter"
    and ports: "MIN_ROTATE_PORTS \<le> ro_ports r \<and> ro_ports r \<le> MAX_PORTS"
    and unanswered: "ro_unanswered r \<noteq> 0 \<and> ro_unanswered r \<le> MAX_ROTATE_UNANSWERED"
    and spent: "ro_packets r \<noteq> Some 0" "ro_bytes r \<noteq> Some 0"
    and silence: "case ro_silence r of None \<Rightarrow> True | Some ms \<Rightarrow> MIN_ROTATE_SILENCE \<le> ms \<and> ms \<le> MAX_ROTATE_SILENCE"
    using assms unfolding rotation_of_def
    by (auto simp: rbind_eq_Inr limit_of_def unwrap_or_def rotation_default_def MAX_ROTATE_PORTS_def
        PORT_POOL_def MIN_ROTATE_PORTS_def MAX_PORTS_def MAX_ROTATE_UNANSWERED_def ROTATE_AFTER_UNANSWERED_def split: option.splits if_splits)
  have after: "MIN_ROTATE_AFTER * 1000 \<le> after \<and> after \<le> MAX_ROTATE_AFTER * 1000"
    by (rule rotate_after_of_ok [OF parts(1)])
  then have "after > 0"
    by (auto simp: MIN_ROTATE_AFTER_def word_less_nat_alt word_le_nat_alt)
  from rotate_jitter_of_ok [OF parts(2) this] show ?thesis
    using after parts(3,4) ports unanswered spent silence by (simp add: rotation_sound_def)
qed

section \<open>Lanes and marked routes\<close>

definition lanes_sound :: "u32 option \<Rightarrow> socks5 option \<Rightarrow> lane list \<Rightarrow> bool" where
  "lanes_sound route_marked s5 ls \<longleftrightarrow>
     distinct (map la_class ls) \<and> list_all (\<lambda>l. LANE_CLASSES (la_class l)) ls \<and>
     distinct (List.map_filter la_mark ls) \<and>
     list_all (\<lambda>m. m \<noteq> 0 \<and> route_marked \<noteq> Some m \<and> map_option s5_mark s5 \<noteq> Some m) (List.map_filter la_mark ls)"

lemma map_filter_append: "List.map_filter f (xs @ ys) = List.map_filter f xs @ List.map_filter f ys"
  by (simp add: map_filter_def)

lemma map_filter_single: "List.map_filter f [x] = (case f x of None \<Rightarrow> [] | Some y \<Rightarrow> [y])"
  by (simp add: map_filter_def split: option.split)

lemma set_map_filter: "y \<in> set (List.map_filter f xs) \<longleftrightarrow> (\<exists>x\<in>set xs. f x = Some y)"
  by (auto simp: map_filter_def image_iff intro!: bexI)

lemma check_lane_sound:
  assumes "lanes_sound route_marked s5 before" and "check_lane route_marked s5 before entry = Inr l"
  shows "lanes_sound route_marked s5 (before @ [l])"
proof -
  have l: "l = lane_of entry" and cls: "LANE_CLASSES (rl_class entry)" "rl_class entry \<notin> la_class ` set before"
    and mark: "case rl_mark entry of None \<Rightarrow> True | Some m \<Rightarrow> m \<noteq> 0 \<and> route_marked \<noteq> Some m \<and>
      map_option s5_mark s5 \<noteq> Some m \<and> m \<notin> set (List.map_filter la_mark before)"
    using assms(2)
    by (auto simp: check_lane_def list_ex_iff set_map_filter split: if_splits option.splits)
  show ?thesis
    using assms(1) cls mark
    by (auto simp: lanes_sound_def l lane_of_def map_filter_append map_filter_single split: option.splits)
qed

lemma lanes_of_sound:
  assumes "lanes raw route_marked s5 = Inr ls"
  shows "lanes_sound route_marked s5 ls"
proof -
  have "lanes_sound route_marked s5 before \<Longrightarrow> lanes_from route_marked s5 before raw = Inr ls \<Longrightarrow>
      lanes_sound route_marked s5 ls" for before
    by (induction raw arbitrary: before) (auto simp: rbind_eq_Inr dest: check_lane_sound)
  moreover have "lanes_sound route_marked s5 []"
    by (simp add: lanes_sound_def map_filter_def)
  ultimately show ?thesis
    using assms unfolding lanes_def by blast
qed

lemma policy_table_sound: "policy_table field written mark = Inr t \<Longrightarrow> t \<notin> {0, 253, 254, 255}"
  by (auto simp: policy_table_def Let_def split: if_splits)

definition routes_sound :: "(u32 \<times> u32) list \<Rightarrow> bool" where
  "routes_sound rs \<longleftrightarrow> distinct (map fst rs) \<and> list_all (\<lambda>(m, t). m \<noteq> 0 \<and> t \<notin> {0, 253, 254, 255}) rs"

lemma marked_routes_sound:
  assumes "lanes_sound (if_route_marked (tg_interface t)) (tg_socks5 t) (tg_lanes t)"
    and "if_route_marked (tg_interface t) \<noteq> Some 0" and "if_route_table (tg_interface t) \<notin> {0, 253, 254, 255}"
    and "case tg_socks5 t of None \<Rightarrow> True | Some s \<Rightarrow> s5_mark s \<noteq> 0 \<and> s5_table s \<notin> {0, 253, 254, 255}"
  shows "routes_sound (marked_routes t)"
  using assms
  by (auto simp: routes_sound_def marked_routes_def lanes_sound_def list_all_iff Let_def comp_def
      split: option.splits)

section \<open>An accepted tunnel\<close>

lemma one_parts:
  assumes "one decode name ri rp s5_raw lane_raw = Inr t"
  shows "tg_name t = name"
    and "key_at ''interface.private_key'' decode (ri_private_key ri) = Inr (if_private_key (tg_interface t))"
    and "outer_of ri (if_address6 (tg_interface t) \<noteq> None) = Inr (outer.truncate (tg_interface t))"
    and "peer_of decode rp (ou_shape (tg_interface t)) (if_address6 (tg_interface t) \<noteq> None) = Inr (tg_peer t)"
    and "option_of socks5_of s5_raw = Inr (tg_socks5 t)"
    and "\<not> (pe_endpoint (tg_peer t) = None \<and> if_listen_port (tg_interface t) = 0 \<and> shape_has_ports (ou_shape (tg_interface t)))"
    and "lanes lane_raw (if_route_marked (tg_interface t)) (tg_socks5 t) = Inr (tg_lanes t)"
    and "if_route_marked (tg_interface t) \<noteq> Some 0"
    and "policy_table ''interface.route_table'' (ri_route_table ri) (if_route_marked (tg_interface t)) = Inr (if_route_table (tg_interface t))"
    and "interface_name ''interface.device'' (if_device (tg_interface t)) = Inr ()"
    and "repeat_of ri = Inr (if_repeat (tg_interface t))"
    and "keepalive_of (ri_persistent_keepalive ri) = Inr (if_persistent_keepalive (tg_interface t))"
    and "rotation_of ri = Inr (if_rotation (tg_interface t))"
  by (insert assms, unfold one_def Let_def,
      (auto simp: rbind_eq_Inr outer.defs split: if_splits prod.splits)+)

lemma outer_sound_truncate: "outer_sound v6 (outer.truncate i) = outer_sound v6 i"
  by (cases "ou_spoof_sni i") (simp_all add: outer_sound_def outer.defs)

lemma key_at_ok: "key_at field decode s = Inr k \<Longrightarrow> key_ok k"
  by (auto simp: key_at_def from_base64_def rbind_eq_Inr key_ok_def split: sum.splits if_splits)

lemma peer_of_ok:
  assumes "peer_of decode rp sh ipv6_inside = Inr p"
  shows "key_ok (pe_public_key p)" and "(pe_tunnel_address6 p \<noteq> None) = ipv6_inside"
    and "case pe_endpoint p of None \<Rightarrow> True | Some e \<Rightarrow> shape_has_ports sh \<or> snd e = 0"
  using assms
  by (auto simp: peer_of_def Let_def rbind_eq_Inr split: if_splits option.split dest: key_at_ok)

lemma socks5_of_ok:
  assumes "option_of socks5_of raw = Inr s"
  shows "case s of None \<Rightarrow> True | Some s \<Rightarrow> s5_mark s \<noteq> 0 \<and> s5_table s \<notin> {0, 253, 254, 255}"
  using assms
  by (cases raw) (auto simp: option_of_def socks5_of_def Let_def rbind_eq_Inr split: if_splits dest: policy_table_sound)

definition device_name :: "string \<Rightarrow> bool" where
  "device_name n \<longleftrightarrow> 1 \<le> length n \<and> length n \<le> 15 \<and> n \<notin> {''.'', ''..''} \<and>
     list_all (\<lambda>c. is_ascii_alphanumeric c \<or> c \<in> {CHR ''_'', CHR ''-'', CHR ''.''}) n"

lemma interface_name_ok: "interface_name field n = Inr () \<longleftrightarrow> device_name n"
  by (cases n) (auto simp: interface_name_def device_name_def IFNAME_MAX_def list_ex_iff list_all_iff)

text \<open>C18. What the reader of the file accepts can be run.  A profile that exists; an MTU in range, at least
  1280 when IPv6 travels inside, and with Don't Fragment cleared small enough that the outer packet fits in
  1280 bytes; a carrier that opens with a SYN only under a profile with timestamps; a bare protocol number
  nothing else on the host handles; record framing only with a decoy, a decoy only on a numbered stream; a
  port to be found at for the end that waits; a device name the kernel takes; keys of the right length; and
  every mark and table it routes by usable, no mark twice.\<close>
theorem accepted_tunnel_sound:
  assumes "one decode name ri rp s5_raw lane_raw = Inr t"
  shows "outer_sound (if_address6 (tg_interface t) \<noteq> None) (tg_interface t) \<and>
    (pe_tunnel_address6 (tg_peer t) \<noteq> None) = (if_address6 (tg_interface t) \<noteq> None) \<and>
    key_ok (if_private_key (tg_interface t)) \<and> key_ok (pe_public_key (tg_peer t)) \<and>
    device_name (if_device (tg_interface t)) \<and>
    (case pe_endpoint (tg_peer t) of
       None \<Rightarrow> \<not> (shape_has_ports (ou_shape (tg_interface t)) \<and> if_listen_port (tg_interface t) = 0)
     | Some e \<Rightarrow> \<not> (\<not> shape_has_ports (ou_shape (tg_interface t)) \<and> snd e \<noteq> 0)) \<and>
    lanes_sound (if_route_marked (tg_interface t)) (tg_socks5 t) (tg_lanes t) \<and> routes_sound (marked_routes t)"
proof -
  note parts = one_parts [OF assms]
  have lanes: "lanes_sound (if_route_marked (tg_interface t)) (tg_socks5 t) (tg_lanes t)"
    by (rule lanes_of_sound [OF parts(7)])
  have routes: "routes_sound (marked_routes t)"
    by (rule marked_routes_sound [OF lanes parts(8) policy_table_sound [OF parts(9)] socks5_of_ok [OF parts(5)]])
  have waits: "case pe_endpoint (tg_peer t) of
       None \<Rightarrow> \<not> (shape_has_ports (ou_shape (tg_interface t)) \<and> if_listen_port (tg_interface t) = 0)
     | Some e \<Rightarrow> \<not> (\<not> shape_has_ports (ou_shape (tg_interface t)) \<and> snd e \<noteq> 0)"
    using parts(6) peer_of_ok(3) [OF parts(4)] by (cases "pe_endpoint (tg_peer t)") auto
  show ?thesis
    using outer_of_sound [OF parts(3)] peer_of_ok(1,2) [OF parts(4)] key_at_ok [OF parts(2)] parts(10) lanes routes waits
    by (simp add: outer_sound_truncate interface_name_ok del: One_nat_def)
qed

text \<open>Every limit of an accepted tunnel is one its machinery can honour: a rotation interval between a
  second and a day with jitter below it, a pool that has somewhere to move to and that the capture filter can
  name, thresholds that are not zero, and for repeats a bounded buffer, deadline, number of attempts and
  tolerance of reordering; a persistent keepalive is between five and six hundred seconds.\<close>
theorem accepted_limits_usable:
  assumes "one decode name ri rp s5_raw lane_raw = Inr t"
  shows "rotation_sound (if_rotation (tg_interface t)) \<and> repeat_sound (if_repeat (tg_interface t)) \<and>
    (case if_persistent_keepalive (tg_interface t) of
       None \<Rightarrow> True | Some ms \<Rightarrow> 5000 \<le> unat ms \<and> unat ms \<le> 600000)"
proof -
  note parts = one_parts [OF assms]
  have keepalive: "keepalive_of given = Inr (Some ms) \<Longrightarrow> 5000 \<le> unat ms \<and> unat ms \<le> 600000" for given ms
    by (auto simp: keepalive_of_def word_le_nat_alt unat_word_ariths split: option.splits if_splits)
  show ?thesis
    using rotation_of_sound [OF parts(13)] repeat_of_sound [OF parts(11)] keepalive parts(12)
    by (auto split: option.split)
qed

text \<open>The advertised maximum segment size is the one the carrier fills: what the largest data segment holds,
  with its options added back, and the profile's own figure where that is smaller.  The floor of 536 is never
  reached, since no accepted MTU is that small.\<close>
theorem advertised_mss_is_filled:
  assumes "one decode name ri rp s5_raw lane_raw = Inr t"
  shows "unat (carrier_mss (ou_mtu (tg_interface t)) (ou_spoof_records (tg_interface t)) (ou_profile (tg_interface t))) =
    min (unat (p_mss (ou_profile (tg_interface t))))
      (unat (ou_mtu (tg_interface t)) + OVERHEAD + (if ou_spoof_records (tg_interface t) then RECORD_HEADER else 0)
        + option_len Data (ou_profile (tg_interface t)))"
proof -
  define i where "i = tg_interface t"
  have sound: "outer_sound (if_address6 i \<noteq> None) i"
    using outer_of_sound [OF one_parts(3) [OF assms]] unfolding i_def outer_sound_truncate .
  then have profile: "ou_profile i \<in> set ALL_profiles" and mtu: "576 \<le> unat (ou_mtu i)" "unat (ou_mtu i) \<le> 9000"
    by (simp_all add: outer_sound_def)
  have "list_all (\<lambda>p. p_mss p = 1460 \<and> option_len Data p \<le> 12) ALL_profiles"
    by code_simp
  with profile have p: "p_mss (ou_profile i) = 1460" "option_len Data (ou_profile i) \<le> 12"
    by (simp_all add: list_all_iff)
  define extra :: nat where "extra = (if ou_spoof_records i then RECORD_HEADER else 0)"
  have extra: "(if ou_spoof_records i then of_nat RECORD_HEADER else 0) = (of_nat extra :: u32)" "extra \<le> 5"
    by (simp_all add: extra_def RECORD_HEADER_def)
  have payload: "unat (ou_mtu i + of_nat OVERHEAD + of_nat extra) = unat (ou_mtu i) + OVERHEAD + extra"
    using mtu extra(2) by (simp add: unat_word_ariths unat_of_nat OVERHEAD_def HEADER_LEN_def TAG_LEN_def)
  have options: "unat (of_nat (option_len Data (ou_profile i)) :: u32) = option_len Data (ou_profile i)"
    using p(2) by (simp add: unat_of_nat)
  have total: "unat (ou_mtu i + of_nat OVERHEAD + of_nat extra + of_nat (option_len Data (ou_profile i)))
      = unat (ou_mtu i) + OVERHEAD + extra + option_len Data (ou_profile i)"
    using payload options mtu extra(2) p(2)
    by (simp add: unat_word_ariths OVERHEAD_def HEADER_LEN_def TAG_LEN_def)
  show ?thesis
    using payload options total mtu extra(2) p
    by (simp add: carrier_mss_def i_def [symmetric] Let_def extra(1) extra_def [symmetric] MSS_FLOOR_def word_less_nat_alt
        unsigned_ucast_eq unsigned_take_bit_eq take_bit_nat_eq_self OVERHEAD_def HEADER_LEN_def TAG_LEN_def min_def)
qed

section \<open>Tunnels of one file\<close>

lemma first_clash_None: "first_clash C f a bs = None \<longleftrightarrow> list_all (\<lambda>b. clash C f a b = None) bs"
  by (induction bs) (auto split: option.split)

lemma tunnels_distinct_pairs:
  "tunnels_distinct C f ts = Inr () \<longleftrightarrow> sorted_wrt (\<lambda>a b. clash C f a b = None) ts"
proof (induction ts)
  case (Cons a ts)
  then show ?case
    using first_clash_None [of C f a ts] by (cases "first_clash C f a ts") (auto simp: list_all_iff)
qed simp

definition accepted :: "(string \<Rightarrow> bytes option) \<Rightarrow> tunnel_cfg \<Rightarrow> bool" where
  "accepted decode t \<longleftrightarrow> (\<exists>name ri rp s5 ls. one decode name ri rp s5 ls = Inr t)"

lemma acceptedI: "one decode name ri rp s5 ls = Inr t \<Longrightarrow> accepted decode t"
  unfolding accepted_def by (intro exI)

lemma every_tunnel_accepted:
  "every_tunnel decode i ts = Inr cs \<Longrightarrow> c \<in> set cs \<Longrightarrow> accepted decode c"
  by (induction ts arbitrary: i cs) (auto simp: rbind_eq_Inr intro: acceptedI)

lemma config_parse_parts:
  assumes "config_parse C f decode raw = Inr p"
  shows "tunnels_distinct C f (pc_tunnels p) = Inr ()"
    and "t \<in> set (pc_tunnels p) \<Longrightarrow> accepted decode t"
  using assms
  by (auto simp: config_parse_def Let_def rbind_eq_Inr split: option.splits if_splits
      dest: every_tunnel_accepted intro: acceptedI)

definition apart :: "tunnel_cfg \<Rightarrow> tunnel_cfg \<Rightarrow> bool" where
  "apart a b \<longleftrightarrow> tg_name a \<noteq> tg_name b \<and>
     if_device (tg_interface a) \<noteq> if_device (tg_interface b) \<and>
     if_address (tg_interface a) \<noteq> if_address (tg_interface b) \<and>
     fst ` set (marked_routes a) \<inter> fst ` set (marked_routes b) = {} \<and>
     snd ` set (marked_routes a) \<inter> snd ` set (marked_routes b) = {} \<and>
     pe_public_key (tg_peer a) \<noteq> pe_public_key (tg_peer b) \<and>
     shape_guarding (ou_shape (tg_interface a)) = shape_guarding (ou_shape (tg_interface b))"

lemma clash_None_apart: "clash C f a b = None \<Longrightarrow> apart a b"
  by (auto simp: clash_def Let_def apart_def list_ex_iff split: if_splits) (force+)

lemma apart_sym: "apart a b \<Longrightarrow> apart b a"
  by (auto simp: apart_def)

lemma accepted_apart:
  assumes "config_parse C f decode raw = Inr p" and "t \<in> set (pc_tunnels p)" and "u \<in> set (pc_tunnels p)" and "t \<noteq> u"
  shows "apart t u"
proof -
  have pairs: "sorted_wrt (\<lambda>a b. clash C f a b = None) (pc_tunnels p)"
    using config_parse_parts(1) [OF assms(1)] by (simp add: tunnels_distinct_pairs)
  obtain i j where ij: "i < length (pc_tunnels p)" "j < length (pc_tunnels p)" "pc_tunnels p ! i = t" "pc_tunnels p ! j = u"
    using assms(2,3) by (auto simp: in_set_conv_nth)
  then consider "i < j" | "j < i"
    using assms(4) by (metis linorder_neqE_nat)
  then show ?thesis
    using pairs ij by cases (auto simp: sorted_wrt_iff_nth_less intro: clash_None_apart apart_sym [OF clash_None_apart])
qed

lemma accepted_routes_sound:
  assumes "config_parse C f decode raw = Inr p" and "t \<in> set (pc_tunnels p)"
  shows "routes_sound (marked_routes t)"
proof -
  obtain name ri rp s5 ls where "one decode name ri rp s5 ls = Inr t"
    using config_parse_parts(2) [OF assms] unfolding accepted_def by blast
  note parts = one_parts [OF this]
  show ?thesis
    by (rule marked_routes_sound [OF lanes_of_sound [OF parts(7)] parts(8) policy_table_sound [OF parts(9)]
          socks5_of_ok [OF parts(5)]])
qed

lemma routes_sound_functional: "routes_sound rs \<Longrightarrow> (m, a) \<in> set rs \<Longrightarrow> (m, b) \<in> set rs \<Longrightarrow> a = b"
  by (auto simp: routes_sound_def dest: eq_key_imp_eq_value)

text \<open>Tunnels of one file do not take each other's traffic.  Every mark steered into a tunnel and the table it
  consults are usable; a mark is steered by one rule only; and two tunnels share no mark, no table, no device,
  no inner address and no peer key, so that the route a table holds is its own tunnel's whatever the order
  they start in.\<close>
theorem marked_traffic_stays_apart:
  assumes "config_parse C public_of decode raw = Inr p"
    and "t \<in> set (pc_tunnels p)" and "u \<in> set (pc_tunnels p)"
    and "(m, a) \<in> set (marked_routes t)" and "(n, b) \<in> set (marked_routes u)"
  shows "m \<noteq> 0 \<and> a \<notin> {0, 253, 254, 255} \<and>
    (if t = u then (if m = n then a = b else True)
     else m \<noteq> n \<and> a \<noteq> b \<and> if_device (tg_interface t) \<noteq> if_device (tg_interface u) \<and>
       if_address (tg_interface t) \<noteq> if_address (tg_interface u) \<and>
       pe_public_key (tg_peer t) \<noteq> pe_public_key (tg_peer u))"
proof -
  have t: "routes_sound (marked_routes t)"
    by (rule accepted_routes_sound [OF assms(1,2)])
  then have usable: "m \<noteq> 0 \<and> a \<notin> {0, 253, 254, 255}"
    using assms(4) by (auto simp: routes_sound_def list_all_iff)
  show ?thesis
  proof (cases "t = u")
    case True
    then show ?thesis
      using usable routes_sound_functional [OF t, of m a b] assms(4,5) by auto
  next
    case False
    have "fst (m, a) \<noteq> fst (n, b) \<and> snd (m, a) \<noteq> snd (n, b)"
      using accepted_apart [OF assms(1-3) False] assms(4,5) unfolding apart_def
      by (metis (no_types, lifting) disjoint_iff imageI)
    then show ?thesis
      using usable False accepted_apart [OF assms(1-3) False] by (auto simp: apart_def)
  qed
qed

section \<open>What the rules name\<close>

lemma in_icmp_block:
  assumes "unat (icmp_id_base C r i) \<le> unat n" and "unat n < unat (icmp_id_base C r i) + unat ICMP_IDS"
  shows "fst (icmp_block (icmp_id_base C r i, ICMP_IDS)) \<le> n \<and> n \<le> snd (icmp_block (icmp_id_base C r i, ICMP_IDS))"
proof -
  have "unat (icmp_id_base C r i) + 255 \<le> 60999"
    using icmp_block_in_ephemeral_range [of C r i] by simp
  then have "unat (icmp_id_base C r i + 255) = unat (icmp_id_base C r i) + 255"
    by (simp add: unat_word_ariths)
  then show ?thesis
    using assms by (simp add: icmp_block_def ICMP_IDS_def saturating_sub_def word_le_nat_alt)
qed

lemma accepted_same_guarding:
  assumes "config_parse C f decode raw = Inr p" and "t \<in> set (pc_tunnels p)" and "u \<in> set (pc_tunnels p)"
  shows "shape_guarding (ou_shape (tg_interface t)) = shape_guarding (ou_shape (tg_interface u))"
  using accepted_apart [OF assms] by (cases "t = u") (auto simp: apart_def)

text \<open>C28. The rules \<open>start\<close> installs name the packets of every tunnel it runs, whatever port or identifier of its
  own a tunnel is using, with one exception: among tunnels told apart by protocol number, only those of the
  first tunnel's number are named.\<close>
theorem rules_name_every_tunnel:
  assumes "config_parse C public_of decode raw = Inr p"
    and "k < length (pc_tunnels p)" and "length pools = length (pc_tunnels p)"
    and "case shape_guarding (ou_shape (tg_interface (pc_tunnels p ! k))) of
           GuardPorts \<Rightarrow> n \<in> set (pools ! k)
         | GuardIcmpIds \<Rightarrow>
             (case icmp_ids C public_of (pc_tunnels p ! k) of
                None \<Rightarrow> False
              | Some (base, width) \<Rightarrow> unat base \<le> unat n \<and> unat n < unat base + unat width)
         | GuardProtocol \<Rightarrow> True"
  shows "guard_names (start_guard C public_of (pc_tunnels p) pools) (ou_shape (tg_interface (pc_tunnels p ! k))) n \<longleftrightarrow>
    shape_guarding (ou_shape (tg_interface (pc_tunnels p ! k))) \<noteq> GuardProtocol \<or>
    shape_protocol (ou_shape (tg_interface (pc_tunnels p ! k))) = shape_protocol (ou_shape (tg_interface (pc_tunnels p ! 0)))"
proof -
  define t where "t = pc_tunnels p ! k"
  define sh where "sh = ou_shape (tg_interface t)"
  obtain t0 ts where ts: "pc_tunnels p = t0 # ts"
    using assms(2) by (cases "pc_tunnels p") auto
  have mem: "t \<in> set (pc_tunnels p)" "t0 \<in> set (pc_tunnels p)"
    using nth_mem [OF assms(2)] by (simp_all add: t_def) (simp add: ts)
  have same: "shape_guarding (ou_shape (tg_interface t0)) = shape_guarding sh"
    using accepted_same_guarding [OF assms(1) mem] by (simp add: sh_def)
  show ?thesis
  proof (cases "shape_guarding sh")
    case GuardPorts
    then have "shape_has_ports sh"
      by (cases sh) (auto split: if_splits)
    moreover have "n \<in> set (concat pools)"
      using assms(2-4) GuardPorts by (auto simp: t_def sh_def intro!: bexI [of _ "pools ! k"])
    ultimately show ?thesis
      using GuardPorts same by (simp add: start_guard_def ts [symmetric] t_def sh_def) (simp add: ts start_guard_def)
  next
    case GuardIcmpIds
    then have raw: "sh = ShapeRaw Icmp"
      by (cases sh) (auto split: if_splits)
    obtain r i where ids: "icmp_ids C public_of t = Some (icmp_id_base C r i, ICMP_IDS)"
      using GuardIcmpIds
      by (cases "cfg_is_initiator (tg_peer t)") (auto simp: icmp_ids_def Let_def sh_def)
    then have "fst (icmp_block (icmp_id_base C r i, ICMP_IDS)) \<le> n \<and> n \<le> snd (icmp_block (icmp_id_base C r i, ICMP_IDS))"
      using assms(4) GuardIcmpIds by (intro in_icmp_block) (auto simp: t_def sh_def)
    moreover have "icmp_block (icmp_id_base C r i, ICMP_IDS) \<in>
        set (map icmp_block (List.map_filter (icmp_ids C public_of) (pc_tunnels p)))"
      using ids mem(1) by (auto simp: set_map_filter intro!: imageI)
    ultimately have "list_ex (\<lambda>(first, final). first \<le> n \<and> n \<le> final)
        (map icmp_block (List.map_filter (icmp_ids C public_of) (pc_tunnels p)))"
      unfolding list_ex_iff by (intro bexI) (auto simp: case_prod_unfold)
    then show ?thesis
      using GuardIcmpIds same raw by (simp add: start_guard_def ts t_def sh_def)
  next
    case GuardProtocol
    then show ?thesis
      using same by (auto simp: start_guard_def ts t_def sh_def)
  qed
qed

section \<open>A sample file\<close>

definition sample_interface :: "string \<Rightarrow> string \<Rightarrow> u8 \<Rightarrow> u32 \<Rightarrow> raw_interface" where
  "sample_interface device addr proto mark =
     \<lparr>ri_private_key = ''k'', ri_address = addr, ri_address6 = None, ri_mtu = None, ri_listen_port = None,
      ri_device = Some device, ri_profile = None, ri_carrier = Some ''rawip'', ri_sequencing = None,
      ri_spoof_sni = None, ri_spoof_records = None, ri_acknowledge = None, ri_coalesce = None,
      ri_manage_firewall = None, ri_datapath = None, ri_transmit = None, ri_keepalive = None,
      ri_persistent_keepalive = Some 25, ri_retransmit = Some (On True), ri_retransmit_buffer = None,
      ri_retransmit_deadline = None, ri_retransmit_asks = None, ri_retransmit_reorder = None,
      ri_carrier_protocol = Some proto, ri_fragment = None, ri_rotate = None, ri_rotate_after = Some (Whole_s 30),
      ri_rotate_jitter = None, ri_rotate_ports = None, ri_rotate_after_unanswered = None,
      ri_rotate_after_packets = None, ri_rotate_after_bytes = None, ri_rotate_after_silence = None,
      ri_log = None, ri_health_interval = None, ri_gateway = None, ri_route_all = None,
      ri_route_marked = Some mark, ri_route_table = None, ri_egress = None, ri_egress_table = None\<rparr>"

definition sample_peer :: "string \<Rightarrow> string \<Rightarrow> raw_peer" where
  "sample_peer key addr =
     \<lparr>rp_public_key = key, rp_tunnel_address = ''10.7.0.2'', rp_tunnel_address6 = None, rp_endpoint = Some addr,
      rp_allowed_ips = None\<rparr>"

definition sample_decode :: "string \<Rightarrow> bytes option" where
  "sample_decode s = Some (replicate 32 (of_nat (length s)))"

definition sample_raw :: file_config where
  "sample_raw =
     \<lparr>rc_log = None, rc_health_interval = None, rc_manage_firewall = None, rc_interface = None, rc_peer = None,
      rc_socks5 = None, rc_lane = [],
      rc_tunnel = Some
        [\<lparr>rt_name = None, rt_interface = sample_interface ''paqetz0'' ''10.7.0.1/24'' 253 81,
          rt_peer = sample_peer ''a'' ''192.0.2.1:443'', rt_socks5 = None, rt_lane = []\<rparr>,
         \<lparr>rt_name = None, rt_interface = sample_interface ''paqetz1'' ''10.8.0.1/24'' 254 82,
          rt_peer = sample_peer ''bb'' ''192.0.2.2:443'', rt_socks5 = None, rt_lane = []\<rparr>]\<rparr>"

lemma sample_repeat: "repeat_of (sample_interface d a proto m) = Inr (limits_off\<lparr>l_capacity := 1024\<rparr>)"
  by (simp add: repeat_of_def sample_interface_def DEFAULT_BUFFER_def unwrap_or_def limits_off_def)

lemma sample_rotation:
  "rotation_of (sample_interface d a proto m) = Inr (rotation_default\<lparr>ro_after := 30000, ro_jitter := 10000\<rparr>)"
  by (simp add: rotation_of_def rotate_after_of_def rotate_jitter_of_def limit_of_def sample_interface_def
      config_limits unwrap_or_def rotation_default_def)

lemma sample_outer:
  assumes "proto \<notin> {0, 1, 6, 17, 47}"
  shows "\<exists>ou. outer_of (sample_interface d a proto m) False = Inr ou \<and> ou_shape ou = ShapeRaw (Bare proto)"
  using assms
  by (simp add: outer_of_def sample_interface_def unwrap_or_def by_name_def ALL_profiles_def LINUX_6_def
      choose_shape_def carrier_protocol_def choose_fragment_def wants_fragment_def spoof_sni_def
      choose_sequencing_def choose_mtu_def asked_mtu_def default_mtu_def DEFAULT_MTU_def
      MAX_OVERHEAD_def shell_overhead_def IPV4_LEN_def TCP_LEN_def SYN_OPTS_MAX_def Let_def)

lemma sample_keys: "key_at field sample_decode s = Inr (replicate 32 (of_nat (length (str_trim s))))"
  by (simp add: key_at_def from_base64_def sample_decode_def KEY_LEN_def)

lemma sample_peer_of:
  assumes "parse_socket_v4 e = Some s"
  shows "\<exists>q. peer_of sample_decode (sample_peer key e) (ShapeRaw (Bare proto)) False = Inr q \<and>
    pe_endpoint q = Some (fst s, 0) \<and> pe_public_key q = replicate 32 (of_nat (length (str_trim key)))"
proof -
  have "parse_ipv4 ''10.7.0.2'' = Some (Ipv4 10 7 0 2)"
    by code_simp
  then show ?thesis
    using assms by (simp add: peer_of_def sample_peer_def sample_keys)
qed

lemma sample_one:
  assumes "parse_cidr a = Some (ip, prefix)" and "parse_socket_v4 e = Some s"
    and "interface_name ''interface.device'' d = Inr ()" and "proto \<notin> {0, 1, 6, 17, 47}"
    and "m \<notin> {0, 253, 254, 255}"
  shows "\<exists>t. one sample_decode name (sample_interface d a proto m) (sample_peer key e) None [] = Inr t \<and>
    tg_name t = name \<and> if_device (tg_interface t) = d \<and> if_address (tg_interface t) = ip \<and>
    if_address6 (tg_interface t) = None \<and> ou_shape (tg_interface t) = ShapeRaw (Bare proto) \<and>
    marked_routes t = [(m, m)] \<and> pe_endpoint (tg_peer t) = Some (fst s, 0) \<and>
    pe_public_key (tg_peer t) = replicate 32 (of_nat (length (str_trim key)))"
proof -
  obtain ou where ou: "outer_of (sample_interface d a proto m) False = Inr ou" "ou_shape ou = ShapeRaw (Bare proto)"
    using sample_outer [OF assms(4)] by blast
  obtain q where q: "peer_of sample_decode (sample_peer key e) (ShapeRaw (Bare proto)) False = Inr q"
      "pe_endpoint q = Some (fst s, 0)" "pe_public_key q = replicate 32 (of_nat (length (str_trim key)))"
    using sample_peer_of [OF assms(2)] by blast
  have fields: "ri_private_key (sample_interface d a proto m) = ''k''" "ri_address (sample_interface d a proto m) = a"
    "ri_address6 (sample_interface d a proto m) = None" "ri_datapath (sample_interface d a proto m) = None"
    "ri_transmit (sample_interface d a proto m) = None" "ri_listen_port (sample_interface d a proto m) = None"
    "ri_route_marked (sample_interface d a proto m) = Some m" "ri_route_table (sample_interface d a proto m) = None"
    "ri_device (sample_interface d a proto m) = Some d" "ri_egress (sample_interface d a proto m) = None"
    "ri_persistent_keepalive (sample_interface d a proto m) = Some 25"
    by (simp_all add: sample_interface_def)
  show ?thesis
    using assms ou q
    by (simp add: one_def fields sample_keys option_of_def choose_datapath_def choose_transmit_def unwrap_or_def
        lanes_def policy_table_def sample_repeat sample_rotation keepalive_of_def Let_def marked_routes_def
        map_filter_def outer.defs)
qed

lemma sample_port: "read_port '':443'' = Some (443, [])"
  by (simp add: read_port_def read_given_def read_number_def digit_of_def hex_digit_def digits_value_def)

lemma sample_first:
  "\<exists>t. one sample_decode ''tunnel0'' (sample_interface ''paqetz0'' ''10.7.0.1/24'' 253 81)
      (sample_peer ''a'' ''192.0.2.1:443'') None [] = Inr t \<and>
    tg_name t = ''tunnel0'' \<and> if_device (tg_interface t) = ''paqetz0'' \<and> if_address (tg_interface t) = Ipv4 10 7 0 1 \<and>
    if_address6 (tg_interface t) = None \<and> ou_shape (tg_interface t) = ShapeRaw (Bare 253) \<and>
    marked_routes t = [(81, 81)] \<and> pe_endpoint (tg_peer t) = Some (Ipv4 192 0 2 1, 0) \<and>
    pe_public_key (tg_peer t) = replicate 32 1"
proof -
  have "parse_cidr ''10.7.0.1/24'' = Some (Ipv4 10 7 0 1, 24)"
    "read_ipv4 ''192.0.2.1:443'' = Some (Ipv4 192 0 2 1, '':443'')"
    "interface_name ''interface.device'' ''paqetz0'' = Inr ()" "length (str_trim ''a'') = 1"
    by code_simp+
  then show ?thesis
    using sample_one [of "''10.7.0.1/24''" "Ipv4 10 7 0 1" 24 "''192.0.2.1:443''" "(Ipv4 192 0 2 1, 443)" "''paqetz0''"
        253 81 "''tunnel0''" "''a''"]
    by (simp add: parse_socket_v4_def read_socket_v4_def sample_port whole_def)
qed

lemma sample_second:
  "\<exists>t. one sample_decode ''tunnel1'' (sample_interface ''paqetz1'' ''10.8.0.1/24'' 254 82)
      (sample_peer ''bb'' ''192.0.2.2:443'') None [] = Inr t \<and>
    tg_name t = ''tunnel1'' \<and> if_device (tg_interface t) = ''paqetz1'' \<and> if_address (tg_interface t) = Ipv4 10 8 0 1 \<and>
    if_address6 (tg_interface t) = None \<and> ou_shape (tg_interface t) = ShapeRaw (Bare 254) \<and>
    marked_routes t = [(82, 82)] \<and> pe_endpoint (tg_peer t) = Some (Ipv4 192 0 2 2, 0) \<and>
    pe_public_key (tg_peer t) = replicate 32 2"
proof -
  have "parse_cidr ''10.8.0.1/24'' = Some (Ipv4 10 8 0 1, 24)"
    "read_ipv4 ''192.0.2.2:443'' = Some (Ipv4 192 0 2 2, '':443'')"
    "interface_name ''interface.device'' ''paqetz1'' = Inr ()" "length (str_trim ''bb'') = 2"
    by code_simp+
  then show ?thesis
    using sample_one [of "''10.8.0.1/24''" "Ipv4 10 8 0 1" 24 "''192.0.2.2:443''" "(Ipv4 192 0 2 2, 443)" "''paqetz1''"
        254 82 "''tunnel1''" "''bb''"]
    by (simp add: parse_socket_v4_def read_socket_v4_def sample_port whole_def)
qed

lemma one_no_lanes: "one decode name ri rp s5 [] = Inr t \<Longrightarrow> tg_lanes t = []"
  using one_parts(7) by (fastforce simp: lanes_def)

lemma sample_accepted:
  "\<exists>p t u. config_parse toy_crypto id sample_decode sample_raw = Inr p \<and> pc_tunnels p = [t, u] \<and>
     ou_shape (tg_interface t) = ShapeRaw (Bare 253) \<and> ou_shape (tg_interface u) = ShapeRaw (Bare 254) \<and>
     marked_routes t = [(81, 81)] \<and> marked_routes u = [(82, 82)] \<and> t \<noteq> u \<and>
     tg_lanes t = [] \<and> tg_lanes u = [] \<and> if_device (tg_interface t) = ''paqetz0'' \<and> tg_socks5 u = None"
proof -
  obtain t u where t: "one sample_decode ''tunnel0'' (sample_interface ''paqetz0'' ''10.7.0.1/24'' 253 81)
        (sample_peer ''a'' ''192.0.2.1:443'') None [] = Inr t" "tg_name t = ''tunnel0''" "if_device (tg_interface t) = ''paqetz0''"
      "if_address (tg_interface t) = Ipv4 10 7 0 1" "if_address6 (tg_interface t) = None"
      "ou_shape (tg_interface t) = ShapeRaw (Bare 253)" "marked_routes t = [(81, 81)]"
      "pe_endpoint (tg_peer t) = Some (Ipv4 192 0 2 1, 0)" "pe_public_key (tg_peer t) = replicate 32 1"
    and u: "one sample_decode ''tunnel1'' (sample_interface ''paqetz1'' ''10.8.0.1/24'' 254 82)
        (sample_peer ''bb'' ''192.0.2.2:443'') None [] = Inr u" "tg_name u = ''tunnel1''" "if_device (tg_interface u) = ''paqetz1''"
      "if_address (tg_interface u) = Ipv4 10 8 0 1" "if_address6 (tg_interface u) = None"
      "ou_shape (tg_interface u) = ShapeRaw (Bare 254)" "marked_routes u = [(82, 82)]"
      "pe_endpoint (tg_peer u) = Some (Ipv4 192 0 2 2, 0)" "pe_public_key (tg_peer u) = replicate 32 2"
    using sample_first sample_second by blast
  have names: "named_tunnel 0 = ''tunnel0''" "named_tunnel (Suc 0) = ''tunnel1''"
    by code_simp+
  have no_clash: "clash toy_crypto id t u = None"
    by (simp add: clash_def t u Let_def icmp_ids_def numeral_eq_Suc)
  have "every_tunnel sample_decode 0 (the (rc_tunnel sample_raw)) = Inr [t, u]"
    by (simp add: sample_raw_def unwrap_or_def names t(1) u(1))
  then have "config_parse toy_crypto id sample_decode sample_raw =
      Inr \<lparr>pc_log = Info, pc_health_interval = 60, pc_manage_firewall = True, pc_tunnels = [t, u]\<rparr>"
    using no_clash by (simp add: config_parse_def sample_raw_def Let_def first_some_def unwrap_or_def level_parse_def)
  moreover have "tg_socks5 u = None"
    using one_parts(5) [OF u(1)] by (simp add: option_of_def)
  ultimately show ?thesis
    using t u one_no_lanes [OF t(1)] one_no_lanes [OF u(1)] by auto
qed

theorem accepted_tunnel_sound_witness:
  "\<exists>t. outer_sound False (tg_interface t) \<and> ou_shape (tg_interface t) = ShapeRaw (Bare 253) \<and>
     routes_sound (marked_routes t) \<and> marked_routes t = [(81, 81)]"
proof -
  obtain t where t: "one sample_decode ''tunnel0'' (sample_interface ''paqetz0'' ''10.7.0.1/24'' 253 81)
        (sample_peer ''a'' ''192.0.2.1:443'') None [] = Inr t" "if_address6 (tg_interface t) = None"
      "ou_shape (tg_interface t) = ShapeRaw (Bare 253)" "marked_routes t = [(81, 81)]"
    using sample_first by blast
  show ?thesis
    using accepted_tunnel_sound [OF t(1)] t(2-4) by (intro exI [of _ t]) simp
qed

theorem accepted_limits_usable_witness:
  "\<exists>t. one sample_decode ''tunnel0'' (sample_interface ''paqetz0'' ''10.7.0.1/24'' 253 81)
        (sample_peer ''a'' ''192.0.2.1:443'') None [] = Inr t \<and>
     rotation_sound (if_rotation (tg_interface t)) \<and> repeat_sound (if_repeat (tg_interface t))"
  using sample_first accepted_limits_usable by blast

theorem advertised_mss_is_filled_witness:
  "\<exists>t. one sample_decode ''tunnel0'' (sample_interface ''paqetz0'' ''10.7.0.1/24'' 253 81)
        (sample_peer ''a'' ''192.0.2.1:443'') None [] = Inr t \<and>
     unat (carrier_mss (ou_mtu (tg_interface t)) (ou_spoof_records (tg_interface t)) (ou_profile (tg_interface t))) \<le>
       unat (p_mss (ou_profile (tg_interface t)))"
proof -
  obtain t where t: "one sample_decode ''tunnel0'' (sample_interface ''paqetz0'' ''10.7.0.1/24'' 253 81)
        (sample_peer ''a'' ''192.0.2.1:443'') None [] = Inr t"
    using sample_first by blast
  show ?thesis
    using advertised_mss_is_filled [OF t] t by auto
qed

theorem marked_traffic_stays_apart_witness:
  "\<exists>p t u. config_parse toy_crypto id sample_decode sample_raw = Inr p \<and> pc_tunnels p = [t, u] \<and>
     if_device (tg_interface t) \<noteq> if_device (tg_interface u)"
proof -
  obtain p t u where p: "config_parse toy_crypto id sample_decode sample_raw = Inr p" "pc_tunnels p = [t, u]"
      "marked_routes t = [(81, 81)]" "marked_routes u = [(82, 82)]" "t \<noteq> u"
    using sample_accepted by blast
  show ?thesis
    using marked_traffic_stays_apart [OF p(1), of t u 81 81 82 82] p by auto
qed

theorem rules_name_every_tunnel_witness:
  "\<exists>p t u. config_parse toy_crypto id sample_decode sample_raw = Inr p \<and> pc_tunnels p = [t, u] \<and>
     \<not> guard_names (start_guard toy_crypto id (pc_tunnels p) [[], []]) (ou_shape (tg_interface u)) 0"
proof -
  obtain p t u where p: "config_parse toy_crypto id sample_decode sample_raw = Inr p" "pc_tunnels p = [t, u]"
      "ou_shape (tg_interface t) = ShapeRaw (Bare 253)" "ou_shape (tg_interface u) = ShapeRaw (Bare 254)"
    using sample_accepted by blast
  show ?thesis
    using rules_name_every_tunnel [OF p(1), of 1 "[[], []]" 0] p by auto
qed

end
