(* ===== verification/Attach.thy ===== *)
theory Attach
  imports Hostrules Accepted
begin

text \<open>
  What a tunnel arranges for its marks when it starts and takes back when it stops (\<open>lane_plans\<close>, \<open>attach\<close>,
  \<open>Attached::revert\<close>, \<open>tear_down\<close> and the part of \<open>start\<close> that calls them, in \<^verbatim>\<open>paqetz/src/main.rs\<close>), up to the
  gateway, the routes of a whole host and the listener's thread; and that the tunnels of an accepted file do not
  undo each other's arrangements.
\<close>

section \<open>Attaching a tunnel\<close>

record lane_plan =
  lp_class :: u8
  lp_mark :: "u32 option"
  lp_egress :: "string option"
  lp_route_mark :: u32
  lp_egress_table :: "u32 option"

text \<open>\<open>table_for\<close> finds the table that holds an interface's default route.\<close>

fun plan_lanes :: "(string \<Rightarrow> u32 option) \<Rightarrow> u32 \<Rightarrow> lane list \<Rightarrow> lane_plan list option" where
  "plan_lanes table_for slot [] = Some []"
| "plan_lanes table_for slot (l # ls) = do {
     table \<leftarrow> (case (la_egress l, la_table l) of
                  (None, _) \<Rightarrow> Some None
                | (Some _, Some written) \<Rightarrow> Some (Some written)
                | (Some interface, None) \<Rightarrow> map_option Some (table_for interface));
     rest \<leftarrow> plan_lanes table_for slot ls;
     Some (\<lparr>lp_class = la_class l, lp_mark = la_mark l, lp_egress = la_egress l,
            lp_route_mark = lane_mark slot (la_class l), lp_egress_table = table\<rparr> # rest)
   }"

definition lane_plans :: "(string \<Rightarrow> u32 option) \<Rightarrow> tunnel_cfg \<Rightarrow> u32 \<Rightarrow> lane_plan list option" where
  "lane_plans table_for t slot = plan_lanes table_for slot (tg_lanes t)"

text \<open>What attaching a tunnel leaves on the host, as far as its marks are concerned.\<close>

record attached_marks =
  at_device :: string
  at_marked :: "policy option"
  at_listener :: "policy option"
  at_lanes :: "lane_plan list"
  at_lane_marks :: "policy list"

definition attach_lane :: "'h tool \<Rightarrow> string \<Rightarrow> u32 \<Rightarrow> bool \<Rightarrow> lane_plan \<Rightarrow> 'h \<Rightarrow> (policy list \<times> 'h) option" where
  "attach_lane run device table v6 pl h = do {
     (marks, h1) \<leftarrow> (case lp_mark pl of
          None \<Rightarrow> Some ([], h)
        | Some m \<Rightarrow>
            (let p = \<lparr>po_mark = m, po_table = table, po_ipv6 = v6\<rparr> in
             map_option (\<lambda>(ok, h1). (if ok then [p] else [], h1)) (policy_apply run p device h)));
     h2 \<leftarrow> (case (lp_egress_table pl, lp_egress pl) of
          (Some t, Some _) \<Rightarrow> map_option snd (point_mark_at run (lp_route_mark pl) t LANE_RULE_PRIORITY h1)
        | _ \<Rightarrow> Some h1);
     Some (marks, h2)
   }"

fun attach_lanes ::
  "'h tool \<Rightarrow> string \<Rightarrow> u32 \<Rightarrow> bool \<Rightarrow> lane_plan list \<Rightarrow> 'h \<Rightarrow> (policy list \<times> 'h) option" where
  "attach_lanes run device table v6 [] h = Some ([], h)"
| "attach_lanes run device table v6 (pl # pls) h = do {
     (marks, h1) \<leftarrow> attach_lane run device table v6 pl h;
     (rest, h2) \<leftarrow> attach_lanes run device table v6 pls h1;
     Some (marks @ rest, h2)
   }"

definition attach_marked :: "'h tool \<Rightarrow> interface \<Rightarrow> bool \<Rightarrow> 'h \<Rightarrow> (policy option \<times> 'h) option" where
  "attach_marked run i v6 h =
     (case if_route_marked i of
        None \<Rightarrow> Some (None, h)
      | Some m \<Rightarrow>
          (let p = \<lparr>po_mark = m, po_table = if_route_table i, po_ipv6 = v6\<rparr> in
           map_option (\<lambda>(ok, h1). (if ok then Some p else None, h1)) (policy_apply run p (if_device i) h)))"

text \<open>A listener that shares the interface's mark takes its table, and its policy is not installed twice.  An error
  of this step is an error of \<open>attach\<close>.\<close>

definition attach_listener ::
  "'h tool \<Rightarrow> interface \<Rightarrow> bool \<Rightarrow> policy option \<Rightarrow> socks5 option \<Rightarrow> 'h \<Rightarrow> (policy option option \<times> 'h) option" where
  "attach_listener run i v6 marked s5 h =
     (case s5 of
        None \<Rightarrow> Some (Some None, h)
      | Some s \<Rightarrow>
          (let table = (if if_route_marked i = Some (s5_mark s) then if_route_table i else s5_table s);
               p = \<lparr>po_mark = s5_mark s, po_table = table, po_ipv6 = v6\<rparr>
           in if marked = Some p then Some (Some (Some p), h)
              else map_option (\<lambda>(ok, h1). (if ok then Some (Some p) else None, h1)) (policy_apply run p (if_device i) h)))"

definition attach_marks :: "'h tool \<Rightarrow> tunnel_cfg \<Rightarrow> lane_plan list \<Rightarrow> 'h \<Rightarrow> (attached_marks option \<times> 'h) option" where
  "attach_marks run t plans h =
     (let i = tg_interface t; device = if_device i; v6 = (if_address6 i \<noteq> None) in do {
      (lane_marks, h1) \<leftarrow> attach_lanes run device (if_route_table i) v6 plans h;
      (marked, h2) \<leftarrow> attach_marked run i v6 h1;
      (listener, h3) \<leftarrow> attach_listener run i v6 marked (tg_socks5 t) h2;
      Some (map_option (\<lambda>l. \<lparr>at_device = device, at_marked = marked, at_listener = l, at_lanes = plans,
                             at_lane_marks = lane_marks\<rparr>) listener, h3)
    })"

definition unpoint_lane :: "'h tool \<Rightarrow> lane_plan \<Rightarrow> 'h \<Rightarrow> 'h option" where
  "unpoint_lane run pl h =
     (case (lp_egress_table pl, lp_egress pl) of
        (Some t, Some _) \<Rightarrow> unpoint_mark run (lp_route_mark pl) t LANE_RULE_PRIORITY h
      | _ \<Rightarrow> Some h)"

fun in_turn :: "('a \<Rightarrow> 'h \<Rightarrow> 'h option) \<Rightarrow> 'a list \<Rightarrow> 'h \<Rightarrow> 'h option" where
  "in_turn f [] h = Some h"
| "in_turn f (x # xs) h = Option.bind (f x h) (in_turn f xs)"

definition revert_marks :: "'h tool \<Rightarrow> attached_marks \<Rightarrow> 'h \<Rightarrow> 'h option" where
  "revert_marks run a h = do {
     h1 \<leftarrow> in_turn (unpoint_lane run) (at_lanes a) h;
     h2 \<leftarrow> in_turn (\<lambda>p. policy_revert run p (at_device a)) (at_lane_marks a) h1;
     h3 \<leftarrow> (case at_listener a of None \<Rightarrow> Some h2 | Some p \<Rightarrow> policy_revert run p (at_device a) h2);
     (case at_marked a of None \<Rightarrow> Some h3 | Some p \<Rightarrow> policy_revert run p (at_device a) h3)
   }"

definition tear_down_marks :: "'h tool \<Rightarrow> attached_marks list \<Rightarrow> 'h \<Rightarrow> 'h option" where
  "tear_down_marks run = in_turn (revert_marks run)"

definition all_plans :: "(string \<Rightarrow> u32 option) \<Rightarrow> tunnel_cfg list \<Rightarrow> lane_plan list list" where
  "all_plans table_for ts = map (\<lambda>(slot, t). unwrap_or (lane_plans table_for t (of_nat slot)) []) (enumerate 0 ts)"

text \<open>The tunnels one after the other; the first that cannot be attached undoes those before it.\<close>

fun attach_all_marks ::
  "'h tool \<Rightarrow> (tunnel_cfg \<times> lane_plan list) list \<Rightarrow> attached_marks list \<Rightarrow> 'h \<Rightarrow> (attached_marks list option \<times> 'h) option" where
  "attach_all_marks run [] before h = Some (Some before, h)"
| "attach_all_marks run ((t, plans) # rest) before h = do {
     (a, h1) \<leftarrow> attach_marks run t plans h;
     (case a of
        None \<Rightarrow> map_option (\<lambda>h2. (None, h2)) (tear_down_marks run before h1)
      | Some a' \<Rightarrow> attach_all_marks run rest (before @ [a']) h1)
   }"

definition start_marks ::
  "'h tool \<Rightarrow> (string \<Rightarrow> u32 option) \<Rightarrow> tunnel_cfg list \<Rightarrow> 'h \<Rightarrow> (attached_marks list option \<times> 'h) option" where
  "start_marks run table_for ts h = attach_all_marks run (zip ts (all_plans table_for ts)) [] h"

section \<open>Every tunnel's marks, attached and undone\<close>

text \<open>A tool that refuses nothing it is asked to install, a second rule for a mark apart.\<close>

definition ip_grants_mark :: "'h tool \<Rightarrow> ('h \<Rightarrow> string \<times> u32 \<Rightarrow> u32 list) \<Rightarrow> u32 \<Rightarrow> bool" where
  "ip_grants_mark run rules m \<longleftrightarrow>
     (\<forall>h f t d. (rules h (f, m) = [] \<longrightarrow> fst (run (add_rule_args f m t) h)) \<and>
        fst (run (device_route_args f d t) h) \<and> fst (run (blackhole_args f t) h))"

definition ip_grants :: "'h tool \<Rightarrow> ('h \<Rightarrow> string \<times> u32 \<Rightarrow> u32 list) \<Rightarrow> bool" where
  "ip_grants run rules \<longleftrightarrow> (\<forall>m. ip_grants_mark run rules m)"

lemma apply_families_granted:
  assumes "ip_behaves run rules routes" and "ip_grants_mark run rules (po_mark p)"
  shows "distinct fs \<Longrightarrow> \<forall>f\<in>set fs. rules h (f, po_mark p) = [] \<Longrightarrow> fst (apply_families run p device fs h)"
proof (induction fs arbitrary: h)
  case (Cons f fs)
  obtain ok1 h1 where d1: "run (add_rule_args f (po_mark p) (po_table p)) h = (ok1, h1)"
    by fastforce
  obtain ok2 h2 where d2: "run (device_route_args f device (po_table p)) h1 = (ok2, h2)"
    by fastforce
  obtain ok3 h3 where d3: "run (blackhole_args f (po_table p)) h2 = (ok3, h3)"
    by fastforce
  have oks: ok1 ok2 ok3
    using assms(2) Cons.prems(2) d1 d2 d3 unfolding ip_grants_mark_def by (metis fst_conv list.set_intros(1))+
  note s1 = ip_steps(1) [OF assms(1) d1] and s2 = ip_steps(5) [OF assms(1) d2] and s3 = ip_steps(6) [OF assms(1) d3]
  have "\<forall>g\<in>set fs. rules h3 (g, po_mark p) = []"
    using Cons.prems s1 s2 s3 by auto
  then show ?case
    using Cons.IH [of h3] Cons.prems(1) d1 d2 d3 oks by simp
qed simp

lemma policy_apply_granted:
  assumes "ip_behaves run rules routes" and "ip_grants_mark run rules (po_mark p)"
  shows "\<exists>h'. policy_apply run p device h = Some (True, h') \<and>
    (\<forall>g m. m \<noteq> po_mark p \<longrightarrow> rules h' (g, m) = rules h (g, m)) \<and>
    (\<forall>g a n. a \<noteq> po_table p \<longrightarrow> routes h' (g, a, n) = routes h (g, a, n)) \<and>
    (\<forall>g\<in>set (policy_families p). steered rules routes h' g (po_mark p) (po_table p) device)"
proof -
  obtain h1 where h1: "policy_revert run p device h = Some h1"
      "\<forall>g m. rules h1 (g, m) = (if m = po_mark p \<and> g \<in> set FAMILIES then [] else rules h (g, m))"
    using revert_families_effect [OF assms(1)] unfolding policy_revert_def by blast
  have "fst (apply_families run p device (policy_families p) h1)"
    by (rule apply_families_granted [OF assms]) (use policy_families_sub h1(2) in \<open>auto simp: subset_iff\<close>)
  then show ?thesis
    using policy_apply_effect [OF assms(1), of p device h] h1(1) by (auto simp: policy_apply_def)
qed

text \<open>What each mark is to be steered by: its table, the device behind it, and whether both families are.\<close>

type_synonym steering = "u32 \<times> u32 \<times> string \<times> bool"

definition mark_policy :: "u32 \<Rightarrow> u32 \<Rightarrow> bool \<Rightarrow> policy" where
  "mark_policy m a v = \<lparr>po_mark = m, po_table = a, po_ipv6 = v\<rparr>"

lemma mark_policy_sel [simp]:
  "po_mark (mark_policy m a v) = m" "po_table (mark_policy m a v) = a" "po_ipv6 (mark_policy m a v) = v"
  by (simp_all add: mark_policy_def)

definition coherent :: "steering set \<Rightarrow> bool" where
  "coherent G \<longleftrightarrow> (\<forall>m a d v n b e w. (m, a, d, v) \<in> G \<longrightarrow> (n, b, e, w) \<in> G \<longrightarrow>
     (m = n \<longrightarrow> a = b) \<and> (a = b \<longrightarrow> d = e \<and> v = w))"

definition all_steered ::
  "('h \<Rightarrow> string \<times> u32 \<Rightarrow> u32 list) \<Rightarrow> ('h \<Rightarrow> string \<times> u32 \<times> u32 \<Rightarrow> route_target option)
     \<Rightarrow> 'h \<Rightarrow> steering set \<Rightarrow> bool" where
  "all_steered rules routes h S \<longleftrightarrow> (\<forall>m a d v f. (m, a, d, v) \<in> S \<longrightarrow> f \<in> set (policy_families (mark_policy m a v)) \<longrightarrow>
     steered rules routes h f m a d)"

lemma policy_apply_steers:
  assumes "ip_behaves run rules routes" and "\<forall>m\<in>fst ` G. ip_grants_mark run rules m" and "coherent G" and "(m, a, d, v) \<in> G" and "S \<subseteq> G"
    and "all_steered rules routes h S"
  shows "\<exists>h'. policy_apply run (mark_policy m a v) d h = Some (True, h') \<and> all_steered rules routes h' (insert (m, a, d, v) S)"
proof -
  obtain h' where h': "policy_apply run (mark_policy m a v) d h = Some (True, h')"
      "\<forall>g n. n \<noteq> m \<longrightarrow> rules h' (g, n) = rules h (g, n)"
      "\<forall>g b n. b \<noteq> a \<longrightarrow> routes h' (g, b, n) = routes h (g, b, n)"
      "\<forall>g\<in>set (policy_families (mark_policy m a v)). steered rules routes h' g m a d"
    using policy_apply_granted [OF assms(1), of "mark_policy m a v" d h] assms(2,4) by force
  have "steered rules routes h' f n b e" if "(n, b, e, w) \<in> S" "f \<in> set (policy_families (mark_policy n b w))" for n b e w f
  proof -
    have same: "(m = n \<longrightarrow> a = b) \<and> (a = b \<longrightarrow> d = e \<and> v = w)"
      using assms(3-5) that(1) unfolding coherent_def by blast
    have before: "steered rules routes h f n b e"
      using assms(6) that unfolding all_steered_def by blast
    have here: "steered rules routes h' f m a d" if "a = b"
      using h'(4) same \<open>f \<in> _\<close> that by (simp add: policy_families_def)
    show ?thesis
      using before here same h'(2,3) unfolding steered_def by (cases "m = n"; cases "a = b") auto
  qed
  then show ?thesis
    using h'(1,4) unfolding all_steered_def by auto
qed

lemma point_mark_steers:
  assumes "ip_behaves run rules routes" and "all_steered rules routes h S" and "m \<notin> fst ` S"
  shows "\<exists>ok h'. point_mark_at run m t LANE_RULE_PRIORITY h = Some (ok, h') \<and> all_steered rules routes h' S"
proof -
  obtain h1 where h1: "run_while run (point_args ''del'' m t LANE_RULE_PRIORITY) h = Some h1" "routes h1 = routes h"
      "\<forall>k. k \<noteq> (''-4'', m) \<longrightarrow> rules h1 k = rules h k"
    using run_while_unpoint [OF assms(1)] by blast
  obtain ok h' where h': "run (point_args ''add'' m t LANE_RULE_PRIORITY) h1 = (ok, h')"
    by fastforce
  have "rules h' (f, n) = rules h (f, n)" if "(n, b) \<in> S" for f n b
    using ip_steps(3) [OF assms(1) h'] h1(3) assms(3) that by (cases "n = m") (auto simp: image_iff)
  moreover have "routes h' = routes h"
    using ip_steps(3) [OF assms(1) h'] h1(2) by simp
  ultimately show ?thesis
    using assms(2) h1(1) h' by (auto simp: point_mark_at_def all_steered_def steered_def)
qed

definition plan_points :: "lane_plan \<Rightarrow> u32 set" where
  "plan_points pl = (if lp_egress_table pl \<noteq> None \<and> lp_egress pl \<noteq> None then {lp_route_mark pl} else {})"

definition tunnel_steering :: "tunnel_cfg \<Rightarrow> steering set" where
  "tunnel_steering t =
     (\<lambda>(m, a). (m, a, if_device (tg_interface t), if_address6 (tg_interface t) \<noteq> None)) ` set (marked_routes t)"

lemma attach_lane_steers:
  assumes tool: "ip_behaves run rules routes" "\<forall>m\<in>fst ` G. ip_grants_mark run rules m" and G: "coherent G" "S \<subseteq> G"
    and marks: "\<forall>m. lp_mark pl = Some m \<longrightarrow> (m, table, device, v) \<in> G" and points: "plan_points pl \<inter> fst ` G = {}"
    and h: "all_steered rules routes h S"
  shows "\<exists>h'. attach_lane run device table v pl h = Some (case lp_mark pl of None \<Rightarrow> [] | Some m \<Rightarrow> [mark_policy m table v], h') \<and>
    all_steered rules routes h' (S \<union> (\<lambda>m. (m, table, device, v)) ` set_option (lp_mark pl))"
proof -
  let ?S = "S \<union> (\<lambda>m. (m, table, device, v)) ` set_option (lp_mark pl)"
  have sub: "?S \<subseteq> G"
    using G(2) marks by auto
  have "\<exists>h1. (case lp_mark pl of None \<Rightarrow> Some ([], h)
        | Some m \<Rightarrow> map_option (\<lambda>(ok, h1). (if ok then [mark_policy m table v] else [], h1)) (policy_apply run (mark_policy m table v) device h))
      = Some (case lp_mark pl of None \<Rightarrow> [] | Some m \<Rightarrow> [mark_policy m table v], h1) \<and> all_steered rules routes h1 ?S"
  proof (cases "lp_mark pl")
    case (Some m)
    then show ?thesis
      using policy_apply_steers [OF tool G(1) _ G(2) h, of m table device v] marks by force
  qed (use h in simp)
  then obtain h1 where h1: "(case lp_mark pl of None \<Rightarrow> Some ([], h)
        | Some m \<Rightarrow> map_option (\<lambda>(ok, h1). (if ok then [mark_policy m table v] else [], h1)) (policy_apply run (mark_policy m table v) device h))
      = Some (case lp_mark pl of None \<Rightarrow> [] | Some m \<Rightarrow> [mark_policy m table v], h1)" "all_steered rules routes h1 ?S"
    by blast
  have "\<exists>h2. (case (lp_egress_table pl, lp_egress pl) of
          (Some t, Some _) \<Rightarrow> map_option snd (point_mark_at run (lp_route_mark pl) t LANE_RULE_PRIORITY h1)
        | _ \<Rightarrow> Some h1) = Some h2 \<and> all_steered rules routes h2 ?S"
  proof (cases "lp_egress_table pl = None \<or> lp_egress pl = None")
    case True
    then show ?thesis
      using h1(2) by (auto split: option.splits)
  next
    case False
    then obtain t e where te: "lp_egress_table pl = Some t" "lp_egress pl = Some e"
      by auto
    then have "lp_route_mark pl \<notin> fst ` ?S"
      using points sub by (force simp: plan_points_def)
    from point_mark_steers [OF tool(1) h1(2) this, of t] te show ?thesis
      by auto
  qed
  then show ?thesis
    using h1(1) unfolding attach_lane_def mark_policy_def Let_def by (auto simp: bind_eq_Some_conv)
qed

lemma attach_lanes_steers:
  assumes tool: "ip_behaves run rules routes" "\<forall>m\<in>fst ` G. ip_grants_mark run rules m" and G: "coherent G"
  shows "S \<subseteq> G \<Longrightarrow> \<forall>pl\<in>set pls. \<forall>m. lp_mark pl = Some m \<longrightarrow> (m, table, device, v) \<in> G \<Longrightarrow>
    \<forall>pl\<in>set pls. plan_points pl \<inter> fst ` G = {} \<Longrightarrow> all_steered rules routes h S \<Longrightarrow>
    \<exists>h'. attach_lanes run device table v pls h = Some (map (\<lambda>m. mark_policy m table v) (List.map_filter lp_mark pls), h') \<and>
      all_steered rules routes h' (S \<union> (\<lambda>m. (m, table, device, v)) ` set (List.map_filter lp_mark pls))"
proof (induction pls arbitrary: S h)
  case (Cons pl pls)
  let ?S = "S \<union> (\<lambda>m. (m, table, device, v)) ` set_option (lp_mark pl)"
  obtain h1 where h1: "attach_lane run device table v pl h =
        Some (case lp_mark pl of None \<Rightarrow> [] | Some m \<Rightarrow> [mark_policy m table v], h1)" "all_steered rules routes h1 ?S"
    using attach_lane_steers [OF tool G Cons.prems(1) _ _ Cons.prems(4)] Cons.prems(2,3) by (meson list.set_intros(1))
  have "?S \<subseteq> G"
    using Cons.prems(1,2) by auto
  from Cons.IH [OF this _ _ h1(2)] obtain h2 where
    "attach_lanes run device table v pls h1 = Some (map (\<lambda>m. mark_policy m table v) (List.map_filter lp_mark pls), h2)"
    "all_steered rules routes h2 (?S \<union> (\<lambda>m. (m, table, device, v)) ` set (List.map_filter lp_mark pls))"
    using Cons.prems(2,3) by auto
  then show ?case
    using h1(1) by (cases "lp_mark pl") (auto simp: map_filter_simps)
qed (simp add: map_filter_simps)

definition policy_pair :: "policy \<Rightarrow> u32 \<times> u32" where
  "policy_pair p = (po_mark p, po_table p)"

lemma policy_pair_mark [simp]: "policy_pair (mark_policy m a v) = (m, a)"
  by (simp add: policy_pair_def)

definition recorded :: "attached_marks \<Rightarrow> (u32 \<times> u32) set" where
  "recorded a = policy_pair ` (set (at_lane_marks a) \<union> set_option (at_marked a) \<union> set_option (at_listener a))"

definition steered_pair :: "steering \<Rightarrow> u32 \<times> u32" where
  "steered_pair x = (fst x, fst (snd x))"

lemma steered_pair_of [simp]: "steered_pair (m, a, d, v) = (m, a)"
  by (simp add: steered_pair_def)

lemma tunnel_steering_pairs [simp]: "steered_pair ` tunnel_steering t = set (marked_routes t)"
  by (auto simp: tunnel_steering_def image_image case_prod_unfold)

definition fits_plans :: "tunnel_cfg \<Rightarrow> lane_plan list \<Rightarrow> bool" where
  "fits_plans t plans \<longleftrightarrow> List.map_filter lp_mark plans = List.map_filter la_mark (tg_lanes t)"

lemma attach_marked_steers:
  assumes "ip_behaves run rules routes" "\<forall>m\<in>fst ` G. ip_grants_mark run rules m" and "coherent G" "S \<subseteq> G"
    and "\<forall>m. if_route_marked i = Some m \<longrightarrow> (m, if_route_table i, if_device i, v) \<in> G" and "all_steered rules routes h S"
  shows "\<exists>h'. attach_marked run i v h = Some (map_option (\<lambda>m. mark_policy m (if_route_table i) v) (if_route_marked i), h') \<and>
    all_steered rules routes h' (S \<union> (\<lambda>m. (m, if_route_table i, if_device i, v)) ` set_option (if_route_marked i))"
proof (cases "if_route_marked i")
  case (Some m)
  then obtain h' where h': "policy_apply run (mark_policy m (if_route_table i) v) (if_device i) h = Some (True, h')"
      "all_steered rules routes h' (insert (m, if_route_table i, if_device i, v) S)"
    using policy_apply_steers [OF assms(1-3) _ assms(4,6)] assms(5) by blast
  then show ?thesis
    using Some by (auto simp: attach_marked_def mark_policy_def [symmetric] Let_def)
qed (use assms(6) in \<open>simp add: attach_marked_def\<close>)

definition listener_steering :: "interface \<Rightarrow> bool \<Rightarrow> socks5 option \<Rightarrow> steering set" where
  "listener_steering i v s5 =
     (case s5 of None \<Rightarrow> {}
      | Some s \<Rightarrow> {(s5_mark s, if if_route_marked i = Some (s5_mark s) then if_route_table i else s5_table s, if_device i, v)})"

lemma attach_listener_steers:
  assumes "ip_behaves run rules routes" "\<forall>m\<in>fst ` G. ip_grants_mark run rules m" and "coherent G" "S \<subseteq> G"
    and "listener_steering i v s5 \<subseteq> G" and "all_steered rules routes h S"
    and "marked = map_option (\<lambda>m. mark_policy m (if_route_table i) v) (if_route_marked i)"
    and "\<forall>m. if_route_marked i = Some m \<longrightarrow> (m, if_route_table i, if_device i, v) \<in> S"
  shows "\<exists>l h'. attach_listener run i v marked s5 h = Some (Some l, h') \<and>
    policy_pair ` set_option l = steered_pair ` listener_steering i v s5 \<and>
    all_steered rules routes h' (S \<union> listener_steering i v s5)"
proof (cases s5)
  case (Some s)
  let ?a = "if if_route_marked i = Some (s5_mark s) then if_route_table i else s5_table s"
  show ?thesis
  proof (cases "marked = Some (mark_policy (s5_mark s) ?a v)")
    case True
    then have same: "if_route_marked i = Some (s5_mark s)"
      using assms(7) by (auto simp: mark_policy_def)
    then have "S \<union> listener_steering i v s5 = S"
      using assms(8) Some by (auto simp: listener_steering_def)
    then show ?thesis
      using Some True same assms(6) by (simp add: attach_listener_def Let_def mark_policy_def listener_steering_def policy_pair_def)
  next
    case False
    have "(s5_mark s, ?a, if_device i, v) \<in> G"
      using assms(5) Some by (simp add: listener_steering_def)
    then obtain h' where "policy_apply run (mark_policy (s5_mark s) ?a v) (if_device i) h = Some (True, h')"
        "all_steered rules routes h' (insert (s5_mark s, ?a, if_device i, v) S)"
      using policy_apply_steers [OF assms(1-3) _ assms(4,6)] by blast
    then show ?thesis
      using Some False by (auto simp: attach_listener_def Let_def mark_policy_def listener_steering_def policy_pair_def)
  qed
qed (use assms(6) in \<open>simp add: attach_listener_def listener_steering_def\<close>)

text \<open>What the interface and the lanes steer, the listener apart.\<close>

definition own_steering :: "tunnel_cfg \<Rightarrow> steering set" where
  "own_steering t =
     (let i = tg_interface t in (\<lambda>m. (m, if_route_table i, if_device i, if_address6 i \<noteq> None)) `
        (set (List.map_filter la_mark (tg_lanes t)) \<union> set_option (if_route_marked i)))"

lemma tunnel_steering_parts:
  "tunnel_steering t = own_steering t \<union> listener_steering (tg_interface t) (if_address6 (tg_interface t) \<noteq> None) (tg_socks5 t)"
  by (auto simp: tunnel_steering_def own_steering_def marked_routes_def listener_steering_def Let_def image_iff split: option.splits)

lemma attach_own_steers:
  assumes tool: "ip_behaves run rules routes" "\<forall>m\<in>fst ` G. ip_grants_mark run rules m"
    and G: "coherent G" "S \<subseteq> G" "own_steering t \<subseteq> G"
    and plans: "fits_plans t plans" "\<forall>pl\<in>set plans. plan_points pl \<inter> fst ` G = {}" and h: "all_steered rules routes h S"
    and i: "i = tg_interface t" "v \<longleftrightarrow> if_address6 i \<noteq> None"
  shows "\<exists>h1 h2. attach_lanes run (if_device i) (if_route_table i) v plans h =
        Some (map (\<lambda>m. mark_policy m (if_route_table i) v) (List.map_filter la_mark (tg_lanes t)), h1) \<and>
    attach_marked run i v h1 = Some (map_option (\<lambda>m. mark_policy m (if_route_table i) v) (if_route_marked i), h2) \<and>
    all_steered rules routes h2 (S \<union> own_steering t)"
proof -
  define one where "one m = (m, if_route_table i, if_device i, v)" for m :: u32
  define L where "L = one ` set (List.map_filter la_mark (tg_lanes t))"
  define M where "M = one ` set_option (if_route_marked i)"
  have all: "own_steering t = L \<union> M"
    unfolding own_steering_def Let_def L_def M_def one_def i by (simp add: image_Un)
  have lanes: "List.map_filter lp_mark plans = List.map_filter la_mark (tg_lanes t)"
    using plans(1) by (simp add: fits_plans_def)
  have "\<forall>pl\<in>set plans. \<forall>m. lp_mark pl = Some m \<longrightarrow> one m \<in> L"
    unfolding L_def lanes [symmetric] by (force simp: set_map_filter)
  then have inG: "\<forall>pl\<in>set plans. \<forall>m. lp_mark pl = Some m \<longrightarrow> (m, if_route_table i, if_device i, v) \<in> G"
    using G(3) all unfolding one_def by blast
  obtain h1 where h1: "attach_lanes run (if_device i) (if_route_table i) v plans h =
        Some (map (\<lambda>m. mark_policy m (if_route_table i) v) (List.map_filter lp_mark plans), h1)"
      "all_steered rules routes h1 (S \<union> L)"
    using attach_lanes_steers [OF tool G(1,2) inG plans(2) h] unfolding L_def one_def lanes by blast
  have subs: "S \<union> L \<subseteq> G" "M \<subseteq> G"
    using G(2,3) all by auto
  then have "\<forall>m. if_route_marked i = Some m \<longrightarrow> (m, if_route_table i, if_device i, v) \<in> G"
    by (auto simp: M_def one_def)
  from attach_marked_steers [OF tool G(1) subs(1) this h1(2)] show ?thesis
    using h1(1) unfolding lanes all M_def [symmetric] one_def [symmetric] Un_assoc [symmetric] by blast
qed

lemma attach_steers:
  assumes tool: "ip_behaves run rules routes" "\<forall>m\<in>fst ` G. ip_grants_mark run rules m"
    and G: "coherent G" "S \<subseteq> G" "tunnel_steering t \<subseteq> G"
    and plans: "fits_plans t plans" "\<forall>pl\<in>set plans. plan_points pl \<inter> fst ` G = {}" and h: "all_steered rules routes h S"
  shows "\<exists>a h'. attach_marks run t plans h = Some (Some a, h') \<and> all_steered rules routes h' (S \<union> tunnel_steering t) \<and>
    recorded a = set (marked_routes t) \<and> at_lanes a = plans"
proof -
  define i where "i = tg_interface t"
  define v where "v \<longleftrightarrow> if_address6 i \<noteq> None"
  have all: "tunnel_steering t = own_steering t \<union> listener_steering i v (tg_socks5 t)"
    unfolding tunnel_steering_parts i_def v_def ..
  then have subs: "own_steering t \<subseteq> G" "S \<union> own_steering t \<subseteq> G" "listener_steering i v (tg_socks5 t) \<subseteq> G"
    using G(2,3) by auto
  obtain h1 h2 where h2: "attach_lanes run (if_device i) (if_route_table i) v plans h =
        Some (map (\<lambda>m. mark_policy m (if_route_table i) v) (List.map_filter la_mark (tg_lanes t)), h1)"
      "attach_marked run i v h1 = Some (map_option (\<lambda>m. mark_policy m (if_route_table i) v) (if_route_marked i), h2)"
      "all_steered rules routes h2 (S \<union> own_steering t)"
    using attach_own_steers [OF tool G(1,2) subs(1) plans h i_def v_def] by (elim exE conjE) (rule that)
  have mine: "\<forall>m. if_route_marked i = Some m \<longrightarrow> (m, if_route_table i, if_device i, v) \<in> S \<union> own_steering t"
    by (auto simp: own_steering_def i_def v_def Let_def)
  obtain l h3 where h3: "attach_listener run i v (map_option (\<lambda>m. mark_policy m (if_route_table i) v) (if_route_marked i))
        (tg_socks5 t) h2 = Some (Some l, h3)" "policy_pair ` set_option l = steered_pair ` listener_steering i v (tg_socks5 t)"
      "all_steered rules routes h3 (S \<union> own_steering t \<union> listener_steering i v (tg_socks5 t))"
    using attach_listener_steers [OF tool G(1) subs(2,3) h2(3) refl mine] by (elim exE conjE) (rule that)
  define a where "a = \<lparr>at_device = if_device i, at_marked = map_option (\<lambda>m. mark_policy m (if_route_table i) v) (if_route_marked i),
     at_listener = l, at_lanes = plans,
     at_lane_marks = map (\<lambda>m. mark_policy m (if_route_table i) v) (List.map_filter la_mark (tg_lanes t))\<rparr>"
  have "attach_marks run t plans h = Some (Some a, h3)"
    using h2(1,2) h3(1) unfolding attach_marks_def Let_def i_def [symmetric] v_def [symmetric] a_def by simp
  moreover have "recorded a = set (marked_routes t)"
    unfolding tunnel_steering_pairs [symmetric] all image_Un recorded_def h3(2) [symmetric]
    by (auto simp: a_def own_steering_def Let_def i_def image_image image_Un)
  ultimately show ?thesis
    using h3(3) unfolding all by (auto simp: Un_assoc a_def)
qed

lemma attach_all_steers:
  assumes tool: "ip_behaves run rules routes" "\<forall>m\<in>fst ` G. ip_grants_mark run rules m" and G: "coherent G"
  shows "S \<subseteq> G \<Longrightarrow> \<forall>(t, plans)\<in>set tps. tunnel_steering t \<subseteq> G \<and> fits_plans t plans \<and> (\<forall>pl\<in>set plans. plan_points pl \<inter> fst ` G = {}) \<Longrightarrow>
    all_steered rules routes h S \<Longrightarrow>
    \<exists>as h'. attach_all_marks run tps before h = Some (Some (before @ as), h') \<and>
      all_steered rules routes h' (S \<union> \<Union>(tunnel_steering ` fst ` set tps)) \<and>
      \<Union>(recorded ` set as) = (\<Union>t\<in>fst ` set tps. set (marked_routes t)) \<and>
      \<Union>(set ` at_lanes ` set as) \<subseteq> \<Union>(set ` snd ` set tps)"
proof (induction tps arbitrary: S h before)
  case (Cons x tps)
  obtain t plans where x: "x = (t, plans)"
    by fastforce
  have facts: "tunnel_steering t \<subseteq> G" "fits_plans t plans" "\<forall>pl\<in>set plans. plan_points pl \<inter> fst ` G = {}"
    using Cons.prems(2) x by auto
  obtain a h1 where h1: "attach_marks run t plans h = Some (Some a, h1)" "all_steered rules routes h1 (S \<union> tunnel_steering t)"
      "recorded a = set (marked_routes t)" "at_lanes a = plans"
    using attach_steers [OF tool G Cons.prems(1) facts Cons.prems(3)] by blast
  obtain as h' where "attach_all_marks run tps (before @ [a]) h1 = Some (Some ((before @ [a]) @ as), h')"
      "all_steered rules routes h' ((S \<union> tunnel_steering t) \<union> \<Union>(tunnel_steering ` fst ` set tps))"
      "\<Union>(recorded ` set as) = (\<Union>t\<in>fst ` set tps. set (marked_routes t))"
      "\<Union>(set ` at_lanes ` set as) \<subseteq> \<Union>(set ` snd ` set tps)"
    using Cons.IH [OF _ _ h1(2), of "before @ [a]"] Cons.prems(1,2) facts(1) by auto
  then show ?case
    using h1 x by (intro exI [of _ "a # as"] exI [of _ h']) (auto simp: Un_assoc)
qed simp

text \<open>After the rules and tables \<open>R\<close> are taken back: no rule is left for their marks, and nothing else has changed,
  the rules of the marks in \<open>P\<close> apart.\<close>

definition emptied ::
  "('h \<Rightarrow> string \<times> u32 \<Rightarrow> u32 list) \<Rightarrow> ('h \<Rightarrow> string \<times> u32 \<times> u32 \<Rightarrow> route_target option)
     \<Rightarrow> u32 set \<Rightarrow> (u32 \<times> u32) set \<Rightarrow> 'h \<Rightarrow> 'h \<Rightarrow> bool" where
  "emptied rules routes P R h h' \<longleftrightarrow>
     (\<forall>f\<in>set FAMILIES. \<forall>m. m \<notin> P \<longrightarrow> m \<in> fst ` R \<or> rules h (f, m) = [] \<longrightarrow> rules h' (f, m) = []) \<and>
     (\<forall>f m. m \<notin> P \<longrightarrow> m \<notin> fst ` R \<longrightarrow> rules h' (f, m) = rules h (f, m)) \<and>
     (\<forall>f a n. a \<notin> snd ` R \<longrightarrow> routes h' (f, a, n) = routes h (f, a, n))"

lemma emptied_trans:
  "emptied rules routes P R h h1 \<Longrightarrow> emptied rules routes P Q h1 h2 \<Longrightarrow> emptied rules routes P (R \<union> Q) h h2"
  unfolding emptied_def by (simp add: image_Un)

lemma emptied_refl: "emptied rules routes P {} h h"
  unfolding emptied_def by simp

lemma emptied_marks:
  assumes "emptied rules routes P R h h'" and "m \<notin> P"
  shows "m \<in> fst ` R \<Longrightarrow> f \<in> set FAMILIES \<Longrightarrow> rules h' (f, m) = []" and "m \<notin> fst ` R \<Longrightarrow> rules h' (f, m) = rules h (f, m)"
  using assms unfolding emptied_def by simp_all

lemma emptied_spares:
  assumes "emptied rules routes P R h h'" and "steered rules routes h f m a d"
    and "m \<notin> P" "m \<notin> fst ` R" "a \<notin> snd ` R"
  shows "steered rules routes h' f m a d"
  using assms unfolding emptied_def steered_def by simp

lemma in_turn_empties:
  assumes "\<forall>x\<in>set xs. \<forall>h. \<exists>h'. f x h = Some h' \<and> emptied rules routes P (M x) h h'"
  shows "\<exists>h'. in_turn f xs h = Some h' \<and> emptied rules routes P (\<Union>(M ` set xs)) h h'"
  using assms
proof (induction xs arbitrary: h)
  case (Cons x xs)
  obtain h1 where h1: "f x h = Some h1" "emptied rules routes P (M x) h h1"
    using Cons.prems by (metis list.set_intros(1))
  obtain h2 where "in_turn f xs h1 = Some h2" "emptied rules routes P (\<Union>(M ` set xs)) h1 h2"
    using Cons.IH [of h1] Cons.prems by auto
  then show ?case
    using h1 emptied_trans by fastforce
qed (simp add: emptied_refl)

lemma unpoint_lane_empties:
  assumes "ip_behaves run rules routes" and "plan_points pl \<subseteq> P"
  shows "\<exists>h'. unpoint_lane run pl h = Some h' \<and> emptied rules routes P {} h h'"
proof (cases "lp_egress_table pl = None \<or> lp_egress pl = None")
  case True
  then show ?thesis
    by (auto simp: unpoint_lane_def emptied_refl split: option.splits)
next
  case False
  then obtain t e where te: "lp_egress_table pl = Some t" "lp_egress pl = Some e"
    by auto
  then have "lp_route_mark pl \<in> P"
    using assms(2) by (simp add: plan_points_def)
  then have "m \<notin> P \<Longrightarrow> (f, m) \<noteq> (''-4'', lp_route_mark pl)" for f m
    by blast
  then show ?thesis
    using run_while_unpoint [OF assms(1), of "lp_route_mark pl" t h] te
    unfolding unpoint_lane_def unpoint_mark_def emptied_def by force
qed

lemma policy_revert_empties:
  assumes "ip_behaves run rules routes"
  shows "\<exists>h'. policy_revert run p d h = Some h' \<and> emptied rules routes P {policy_pair p} h h'"
  using revert_families_effect [OF assms, of p d FAMILIES h] unfolding policy_revert_def emptied_def policy_pair_def by auto

lemma attached_revert_empties:
  assumes "ip_behaves run rules routes" and "\<forall>pl\<in>set (at_lanes a). plan_points pl \<subseteq> P"
  shows "\<exists>h'. revert_marks run a h = Some h' \<and> emptied rules routes P (recorded a) h h'"
proof -
  obtain h1 where h1: "in_turn (unpoint_lane run) (at_lanes a) h = Some h1" "emptied rules routes P {} h h1"
    using in_turn_empties [of "at_lanes a" "unpoint_lane run" rules routes P "\<lambda>_. {}" h] unpoint_lane_empties [OF assms(1)] assms(2)
    by auto
  obtain h2 where h2: "in_turn (\<lambda>p. policy_revert run p (at_device a)) (at_lane_marks a) h1 = Some h2"
      "emptied rules routes P (\<Union>((\<lambda>p. {policy_pair p}) ` set (at_lane_marks a))) h1 h2"
    using in_turn_empties [of "at_lane_marks a" "\<lambda>p. policy_revert run p (at_device a)" rules routes P "\<lambda>p. {policy_pair p}" h1]
      policy_revert_empties [OF assms(1)] by auto
  have option: "\<exists>h'. (case x of None \<Rightarrow> Some g | Some p \<Rightarrow> policy_revert run p (at_device a) g) = Some h' \<and>
      emptied rules routes P (policy_pair ` set_option x) g h'" for x g
    using policy_revert_empties [OF assms(1)] emptied_refl by (cases x) auto
  obtain h3 where h3: "(case at_listener a of None \<Rightarrow> Some h2 | Some p \<Rightarrow> policy_revert run p (at_device a) h2) = Some h3"
      "emptied rules routes P (policy_pair ` set_option (at_listener a)) h2 h3"
    using option by blast
  obtain h4 where h4: "(case at_marked a of None \<Rightarrow> Some h3 | Some p \<Rightarrow> policy_revert run p (at_device a) h3) = Some h4"
      "emptied rules routes P (policy_pair ` set_option (at_marked a)) h3 h4"
    using option by blast
  have "emptied rules routes P (recorded a) h h4"
    using emptied_trans [OF emptied_trans [OF emptied_trans [OF h1(2) h2(2)] h3(2)] h4(2)]
    by (simp add: recorded_def image_Un UNION_singleton_eq_range Un_ac)
  then show ?thesis
    using h1(1) h2(1) h3(1) h4(1) by (simp add: revert_marks_def)
qed

lemma tear_down_empties:
  assumes "ip_behaves run rules routes" and "\<forall>a\<in>set as. \<forall>pl\<in>set (at_lanes a). plan_points pl \<subseteq> P"
  shows "\<exists>h'. tear_down_marks run as h = Some h' \<and> emptied rules routes P (\<Union>(recorded ` set as)) h h'"
  unfolding tear_down_marks_def
  by (rule in_turn_empties) (use attached_revert_empties [OF assms(1)] assms(2) in blast)

lemma accepted_coherent:
  assumes "config_parse C public_of decode raw = Inr p"
  shows "coherent (\<Union>(tunnel_steering ` set (pc_tunnels p)))"
  unfolding coherent_def
proof (intro allI impI)
  fix m a d v n b e w
  assume "(m, a, d, v) \<in> \<Union>(tunnel_steering ` set (pc_tunnels p))"
    and "(n, b, e, w) \<in> \<Union>(tunnel_steering ` set (pc_tunnels p))"
  then obtain t u where t: "t \<in> set (pc_tunnels p)" "(m, a) \<in> set (marked_routes t)" "d = if_device (tg_interface t)"
      "v = (if_address6 (tg_interface t) \<noteq> None)"
    and u: "u \<in> set (pc_tunnels p)" "(n, b) \<in> set (marked_routes u)" "e = if_device (tg_interface u)"
      "w = (if_address6 (tg_interface u) \<noteq> None)"
    by (auto simp: tunnel_steering_def)
  show "(m = n \<longrightarrow> a = b) \<and> (a = b \<longrightarrow> d = e \<and> v = w)"
  proof (cases "t = u")
    case True
    then show ?thesis
      using t u routes_sound_functional [OF accepted_routes_sound [OF assms t(1)], of m a b] by auto
  next
    case False
    have "fst (m, a) \<noteq> fst (n, b) \<and> snd (m, a) \<noteq> snd (n, b)"
      using accepted_apart [OF assms t(1) u(1) False] t(2) u(2) unfolding apart_def
      by (metis (no_types, lifting) disjoint_iff imageI)
    then show ?thesis
      by simp
  qed
qed

text \<open>Every lane that names a way out has a table for it, and the mark its class is given in routing is not one the
  file steers into a tunnel.\<close>

definition lanes_usable :: "(string \<Rightarrow> u32 option) \<Rightarrow> tunnel_cfg list \<Rightarrow> bool" where
  "lanes_usable table_for ts \<longleftrightarrow>
     list_all (\<lambda>(slot, t). list_all (\<lambda>l.
       case la_egress l of
         None \<Rightarrow> True
       | Some e \<Rightarrow> (la_table l \<noteq> None \<or> table_for e \<noteq> None) \<and>
           list_all (\<lambda>u. lane_mark (of_nat slot) (la_class l) \<notin> fst ` set (marked_routes u)) ts) (tg_lanes t)) (enumerate 0 ts)"

lemma plan_lanes_usable:
  assumes "\<forall>l\<in>set ls. case la_egress l of None \<Rightarrow> True
      | Some e \<Rightarrow> (la_table l \<noteq> None \<or> table_for e \<noteq> None) \<and> lane_mark slot (la_class l) \<notin> M"
  shows "\<exists>pls. plan_lanes table_for slot ls = Some pls \<and> List.map_filter lp_mark pls = List.map_filter la_mark ls \<and>
    (\<forall>pl\<in>set pls. plan_points pl \<inter> M = {})"
  using assms
proof (induction ls)
  case (Cons l ls)
  then obtain pls where "plan_lanes table_for slot ls = Some pls" "List.map_filter lp_mark pls = List.map_filter la_mark ls"
      "\<forall>pl\<in>set pls. plan_points pl \<inter> M = {}"
    by auto
  then show ?case
    using Cons.prems by (cases "la_egress l"; cases "la_table l") (auto simp: map_filter_simps plan_points_def split: option.splits)
qed (simp add: map_filter_simps)

lemma all_plans_usable:
  assumes "lanes_usable table_for ts" and "(t, plans) \<in> set (zip ts (all_plans table_for ts))"
  shows "t \<in> set ts \<and> fits_plans t plans \<and> (\<forall>pl\<in>set plans. plan_points pl \<inter> fst ` \<Union>(tunnel_steering ` set ts) = {})"
proof -
  obtain k where k: "k < length ts" "t = ts ! k" "plans = unwrap_or (lane_plans table_for t (of_nat k)) []"
    using assms(2) by (auto simp: in_set_zip all_plans_def nth_enumerate_eq)
  then have "(k, t) \<in> set (enumerate 0 ts)"
    by (metis add.left_neutral in_set_enumerate_eq nth_enumerate_eq nth_mem length_enumerate)
  then have "list_all (\<lambda>l.
       case la_egress l of
         None \<Rightarrow> True
       | Some e \<Rightarrow> (la_table l \<noteq> None \<or> table_for e \<noteq> None) \<and>
           list_all (\<lambda>u. lane_mark (of_nat k) (la_class l) \<notin> fst ` set (marked_routes u)) ts) (tg_lanes t)"
    using assms(1) unfolding lanes_usable_def list_all_iff by fastforce
  then have "\<forall>l\<in>set (tg_lanes t). case la_egress l of None \<Rightarrow> True
      | Some e \<Rightarrow> (la_table l \<noteq> None \<or> table_for e \<noteq> None) \<and>
          lane_mark (of_nat k) (la_class l) \<notin> fst ` \<Union>(tunnel_steering ` set ts)"
    by (force simp: list_all_iff tunnel_steering_def split: option.splits)
  from plan_lanes_usable [OF this] obtain pls where "lane_plans table_for t (of_nat k) = Some pls" "fits_plans t pls"
      "\<forall>pl\<in>set pls. plan_points pl \<inter> fst ` \<Union>(tunnel_steering ` set ts) = {}"
    unfolding lane_plans_def fits_plans_def by blast
  then show ?thesis
    using k by (simp add: unwrap_or_def)
qed

lemma attached_points_apart:
  assumes "lanes_usable table_for ts" and "\<Union>(set ` at_lanes ` set as) \<subseteq> \<Union>(set ` snd ` set (zip ts (all_plans table_for ts)))"
  shows "\<forall>x\<in>set as. \<forall>pl\<in>set (at_lanes x). plan_points pl \<subseteq> - fst ` \<Union>(tunnel_steering ` set ts)"
proof (intro ballI)
  fix x pl
  assume "x \<in> set as" "pl \<in> set (at_lanes x)"
  then have "pl \<in> \<Union>(set ` snd ` set (zip ts (all_plans table_for ts)))"
    using assms(2) by blast
  then obtain y pls where "(y, pls) \<in> set (zip ts (all_plans table_for ts))" "pl \<in> set pls"
    by auto
  then have "plan_points pl \<inter> fst ` \<Union>(tunnel_steering ` set ts) = {}"
    using all_plans_usable [OF assms(1)] by blast
  then show "plan_points pl \<subseteq> - fst ` \<Union>(tunnel_steering ` set ts)"
    by blast
qed

text \<open>C19. When the lanes of an accepted file are usable (each way out has a table, and no class's mark in routing is one
  the file steers; the reader checks neither) and \<open>ip\<close> refuses nothing, attaching all its tunnels ends, and leaves every
  mark the file steers with one rule, in each family its tunnel carries; the rule looks up the mark's table, and the table
  holds the route through the mark's own tunnel with the blackhole behind it.  What the tunnels attached later do undoes
  none of it, whatever the host held before.  Tearing the tunnels down ends too and leaves no rule for the mark.\<close>
theorem configured_marks_steered_and_undone:
  assumes "ip_behaves run rules routes" and "ip_grants run rules"
    and "config_parse C public_of decode raw = Inr p" and "lanes_usable table_for (pc_tunnels p)"
    and "t \<in> set (pc_tunnels p)" and "(m, a) \<in> set (marked_routes t)"
    and "f \<in> set (if if_address6 (tg_interface t) = None then [''-4''] else [''-4'', ''-6''])"
  shows "\<exists>as h1 h2. start_marks run table_for (pc_tunnels p) h = Some (Some as, h1) \<and>
    rules h1 (f, m) = [a] \<and> routes h1 (f, a, DEVICE_METRIC) = Some (Dev (if_device (tg_interface t))) \<and>
    routes h1 (f, a, BLACKHOLE_METRIC) = Some Blackhole \<and>
    tear_down_marks run as h1 = Some h2 \<and> rules h2 (f, m) = []"
proof -
  let ?ts = "pc_tunnels p"
  let ?tps = "zip ?ts (all_plans table_for ?ts)" and ?G = "\<Union>(tunnel_steering ` set ?ts)"
  have plans: "\<forall>(t, plans)\<in>set ?tps. tunnel_steering t \<subseteq> ?G \<and> fits_plans t plans \<and> (\<forall>pl\<in>set plans. plan_points pl \<inter> fst ` ?G = {})"
    using all_plans_usable [OF assms(4)] by blast
  have len: "length (all_plans table_for ?ts) = length ?ts"
    by (simp add: all_plans_def)
  have firsts: "fst ` set ?tps = set ?ts"
    using map_fst_zip [OF len [symmetric]] by (metis list.set_map)
  have none: "all_steered rules routes h {}"
    by (simp add: all_steered_def)
  have grants: "\<forall>m\<in>fst ` ?G. ip_grants_mark run rules m"
    using assms(2) by (simp add: ip_grants_def)
  obtain as h1 where h1: "attach_all_marks run ?tps [] h = Some (Some ([] @ as), h1)" "all_steered rules routes h1 ({} \<union> ?G)"
      "\<Union>(recorded ` set as) = (\<Union>t\<in>set ?ts. set (marked_routes t))" "\<Union>(set ` at_lanes ` set as) \<subseteq> \<Union>(set ` snd ` set ?tps)"
    using attach_all_steers [OF assms(1) grants accepted_coherent [OF assms(3)] empty_subsetI plans none, of "[]"]
    unfolding firsts by (elim exE conjE) (rule that)
  have mine: "(m, a, if_device (tg_interface t), if_address6 (tg_interface t) \<noteq> None) \<in> ?G"
    using assms(5,6) by (force simp: tunnel_steering_def)
  have family: "f \<in> set (policy_families (mark_policy m a (if_address6 (tg_interface t) \<noteq> None)))" "f \<in> set FAMILIES"
    using assms(7) by (auto simp: policy_families_def FAMILIES_def split: if_splits)
  have steers: "steered rules routes h1 f m a (if_device (tg_interface t))"
    using h1(2) mine family(1) unfolding all_steered_def by blast
  have points: "\<forall>x\<in>set as. \<forall>pl\<in>set (at_lanes x). plan_points pl \<subseteq> - fst ` ?G"
    by (rule attached_points_apart [OF assms(4) h1(4)])
  obtain h2 where h2: "tear_down_marks run as h1 = Some h2" "emptied rules routes (- fst ` ?G) (\<Union>(recorded ` set as)) h1 h2"
    using tear_down_empties [OF assms(1) points] by blast
  have "m \<notin> - fst ` ?G"
    using mine by force
  moreover have "m \<in> fst ` \<Union>(recorded ` set as)"
    unfolding h1(3) using assms(5,6) by force
  ultimately have "rules h2 (f, m) = []"
    by (rule emptied_marks(1) [OF h2(2) _ _ family(2)])
  then show ?thesis
    using h1(1) h2(1) steers unfolding start_marks_def steered_def append_Nil by blast
qed

lemma toy_ip_grants: "ip_grants toy_ip fst"
  unfolding ip_grants_def ip_grants_mark_def
  by (auto simp: toy_ip_def add_rule_args_def device_route_args_def blackhole_args_def Let_def split: prod.splits)

text \<open>The two tunnels of the sample file on a host where a rule for the second one's mark was left behind.\<close>
theorem configured_marks_steered_and_undone_witness:
  "\<exists>p t u as h1 h2. config_parse toy_crypto id sample_decode sample_raw = Inr p \<and> pc_tunnels p = [t, u] \<and>
     start_marks toy_ip (\<lambda>_. None) (pc_tunnels p) ((\<lambda>_. [])((''-4'', 82) := [7]), \<lambda>_. None) = Some (Some as, h1) \<and>
     fst h1 (''-4'', 81) = [81] \<and> snd h1 (''-4'', 81, DEVICE_METRIC) = Some (Dev ''paqetz0'') \<and>
     tear_down_marks toy_ip as h1 = Some h2 \<and> fst h2 (''-4'', 81) = []"
proof -
  obtain p t u where p: "config_parse toy_crypto id sample_decode sample_raw = Inr p" "pc_tunnels p = [t, u]"
      "marked_routes t = [(81, 81)]" "tg_lanes t = []" "tg_lanes u = []" "if_device (tg_interface t) = ''paqetz0''"
    using sample_accepted by blast
  have lanes: "lanes_usable (\<lambda>_. None) (pc_tunnels p)"
    using p(2,4,5) by (simp add: lanes_usable_def)
  have mine: "t \<in> set (pc_tunnels p)" "(81, 81) \<in> set (marked_routes t)"
      "''-4'' \<in> set (if if_address6 (tg_interface t) = None then [''-4''] else [''-4'', ''-6''])"
    using p(2,3) by simp_all
  define h :: toy_host where "h = ((\<lambda>_. [])((''-4'', 82) := [7]), \<lambda>_. None)"
  obtain as h1 h2 where run:
    "start_marks toy_ip (\<lambda>_. None) (pc_tunnels p) h = Some (Some as, h1)" "fst h1 (''-4'', 81) = [81]"
    "snd h1 (''-4'', 81, DEVICE_METRIC) = Some (Dev (if_device (tg_interface t)))"
    "tear_down_marks toy_ip as h1 = Some h2" "fst h2 (''-4'', 81) = []"
    using configured_marks_steered_and_undone [OF toy_ip_behaves toy_ip_grants p(1) lanes mine, of h]
    by (elim exE conjE) (rule that)
  show ?thesis
    by (intro exI [of _ p] exI [of _ t] exI [of _ u] exI [of _ as] exI [of _ h1] exI [of _ h2] conjI p(1,2)
        run [unfolded p(6) h_def])
qed

section \<open>Where the arrangements fall short\<close>

lemma coherent_subset: "coherent G \<Longrightarrow> S \<subseteq> G \<Longrightarrow> coherent S"
  unfolding coherent_def subset_iff by blast

lemma zip_splits_at:
  assumes "length ys = length (us @ t # rest)"
  shows "\<exists>ps y qs. zip (us @ t # rest) ys = ps @ (t, y) # qs \<and> map fst ps = us"
proof -
  have "map fst (zip (us @ t # rest) ys) = us @ t # rest"
    using assms by simp
  then obtain ps qs where "zip (us @ t # rest) ys = ps @ qs" "us = map fst ps" "t # rest = map fst qs"
    unfolding map_eq_append_conv by (elim exE conjE) (rule that)
  then show ?thesis
    by (cases qs) (auto intro!: exI [of _ ps])
qed

lemma attach_all_append:
  "attach_all_marks run ps before h = Some (Some bs, h1) \<Longrightarrow>
    attach_all_marks run (ps @ qs) before h = attach_all_marks run qs bs h1"
proof (induction ps arbitrary: before h)
  case (Cons x ps)
  obtain t plans where x: "x = (t, plans)"
    by (cases x)
  from Cons.prems obtain a h2 where a: "attach_marks run t plans h = Some (Some a, h2)"
      "attach_all_marks run ps (before @ [a]) h2 = Some (Some bs, h1)"
    unfolding x by (auto simp: bind_eq_Some_conv split: option.splits prod.splits)
  show ?case
    using a(1) Cons.IH [OF a(2)] by (simp add: x)
qed simp

lemma policy_apply_refused:
  assumes "ip_behaves run rules routes" and "\<forall>g f a. \<not> fst (run (add_rule_args f (po_mark p) a) g)"
  shows "\<exists>h'. policy_apply run p d h = Some (False, h')"
proof -
  obtain h1 where h1: "policy_revert run p d h = Some h1"
    using revert_families_effect [OF assms(1)] unfolding policy_revert_def by blast
  have "\<not> fst (apply_families run p d (policy_families p) h1)"
    using assms(2) by (simp add: policy_families_def FAMILIES_def case_prod_unfold Let_def)
  then show ?thesis
    using h1 by (cases "apply_families run p d (policy_families p) h1") (simp add: policy_apply_def)
qed

text \<open>A list of tunnels with usable lanes, taken apart at one of them, with the plans of the tunnels before it and its own.\<close>

lemma plans_split:
  assumes "lanes_usable table_for (us @ t # rest)"
  shows "\<exists>ps plans qs. zip (us @ t # rest) (all_plans table_for (us @ t # rest)) = ps @ (t, plans) # qs \<and> fst ` set ps = set us \<and>
    (\<forall>(u, pls)\<in>set ps. tunnel_steering u \<subseteq> \<Union>(tunnel_steering ` set us) \<and> fits_plans u pls \<and>
       (\<forall>pl\<in>set pls. plan_points pl \<inter> fst ` \<Union>(tunnel_steering ` set us) = {})) \<and>
    fits_plans t plans \<and> (\<forall>pl\<in>set plans. plan_points pl \<inter> fst ` tunnel_steering t = {})"
proof -
  let ?ts = "us @ t # rest"
  obtain ps plans qs where zip: "zip ?ts (all_plans table_for ?ts) = ps @ (t, plans) # qs" "map fst ps = us"
    using zip_splits_at [of "all_plans table_for ?ts" us t rest] by (auto simp: all_plans_def)
  have usable: "fits_plans y pls \<and> (\<forall>pl\<in>set pls. plan_points pl \<inter> fst ` \<Union>(tunnel_steering ` set ?ts) = {})"
    if "(y, pls) \<in> set (ps @ (t, plans) # qs)" for y pls
    using all_plans_usable [OF assms] that unfolding zip(1) by blast
  have firsts: "fst ` set ps = set us"
    using zip(2) by (metis list.set_map)
  have each: "tunnel_steering y \<subseteq> \<Union>(tunnel_steering ` set us) \<and> fits_plans y pls \<and>
      (\<forall>pl\<in>set pls. plan_points pl \<inter> fst ` \<Union>(tunnel_steering ` set us) = {})" if y: "(y, pls) \<in> set ps" for y pls
  proof -
    have "y \<in> set us" "(y, pls) \<in> set (ps @ (t, plans) # qs)"
      using firsts y by (force, simp)
    then show ?thesis
      using usable [of y pls] by (auto simp: image_Un Int_Un_distrib)
  qed
  have "\<forall>(u, pls)\<in>set ps. tunnel_steering u \<subseteq> \<Union>(tunnel_steering ` set us) \<and> fits_plans u pls \<and>
       (\<forall>pl\<in>set pls. plan_points pl \<inter> fst ` \<Union>(tunnel_steering ` set us) = {})"
    by (intro ballI case_prodI2) (rule each, simp)
  moreover have "fits_plans t plans" "\<forall>pl\<in>set plans. plan_points pl \<inter> fst ` tunnel_steering t = {}"
    using usable [of t plans] by (simp_all add: image_Un Int_Un_distrib)
  ultimately show ?thesis
    by (intro exI [of _ ps] exI [of _ plans] exI [of _ qs] conjI zip(1) firsts)
qed

text \<open>A tunnel whose listener is refused: \<open>attach\<close> fails, with the marks of the interface and of the lanes steered.\<close>

lemma attach_refused:
  assumes tool: "ip_behaves run rules routes" "\<forall>g f a. \<not> fst (run (add_rule_args f (s5_mark s) a) g)"
      "\<forall>n. n \<noteq> s5_mark s \<longrightarrow> ip_grants_mark run rules n"
    and s: "tg_socks5 t = Some s" "if_route_marked (tg_interface t) \<noteq> Some (s5_mark s)"
      "s5_table s \<noteq> if_route_table (tg_interface t)"
    and G: "coherent (tunnel_steering t)"
    and plans: "fits_plans t plans" "\<forall>pl\<in>set plans. plan_points pl \<inter> fst ` tunnel_steering t = {}"
  shows "\<exists>h'. attach_marks run t plans h = Some (None, h') \<and> all_steered rules routes h' (own_steering t)"
proof -
  define i where "i = tg_interface t"
  define v where "v \<longleftrightarrow> if_address6 i \<noteq> None"
  have all: "tunnel_steering t = insert (s5_mark s, s5_table s, if_device i, v) (own_steering t)"
    using s(1,2) unfolding tunnel_steering_parts i_def v_def by (simp add: listener_steering_def)
  have apart: "n \<noteq> s5_mark s \<and> a \<noteq> s5_table s" if "(n, a, d, w) \<in> own_steering t" for n a d w
  proof -
    have "a = if_route_table i"
      using that by (auto simp: own_steering_def Let_def i_def)
    moreover have "n = s5_mark s \<longrightarrow> a = s5_table s"
      using G that unfolding coherent_def all by blast
    ultimately show ?thesis
      using s(3) i_def by auto
  qed
  have own: "coherent (own_steering t)"
    by (rule coherent_subset [OF G]) (simp add: all subset_insertI)
  have points: "\<forall>pl\<in>set plans. plan_points pl \<inter> fst ` own_steering t = {}"
    using plans(2) unfolding all by auto
  have grants: "\<forall>n\<in>fst ` own_steering t. ip_grants_mark run rules n"
    using tool(3) apart by fastforce
  have none: "all_steered rules routes h {}"
    by (simp add: all_steered_def)
  obtain h1 h2 where h2: "attach_lanes run (if_device i) (if_route_table i) v plans h =
        Some (map (\<lambda>m. mark_policy m (if_route_table i) v) (List.map_filter la_mark (tg_lanes t)), h1)"
      "attach_marked run i v h1 = Some (map_option (\<lambda>m. mark_policy m (if_route_table i) v) (if_route_marked i), h2)"
      "all_steered rules routes h2 ({} \<union> own_steering t)"
    using attach_own_steers [OF tool(1) grants own empty_subsetI subset_refl plans(1) points none i_def v_def]
    by (elim exE conjE) (rule that)
  let ?p = "mark_policy (s5_mark s) (s5_table s) v"
  obtain h3 where h3: "policy_apply run ?p (if_device i) h2 = Some (False, h3)"
    using policy_apply_refused [OF tool(1), of ?p "if_device i" h2] tool(2) by auto
  then have same: "\<forall>g m. m \<noteq> s5_mark s \<longrightarrow> rules h3 (g, m) = rules h2 (g, m)"
      "\<forall>g a n. a \<noteq> s5_table s \<longrightarrow> routes h3 (g, a, n) = routes h2 (g, a, n)"
    using policy_apply_effect [OF tool(1), of ?p "if_device i" h2] by auto
  have "all_steered rules routes h3 (own_steering t)"
    using h2(3) same apart unfolding all_steered_def steered_def by simp
  moreover have "attach_listener run i v (map_option (\<lambda>m. mark_policy m (if_route_table i) v) (if_route_marked i)) (tg_socks5 t) h2 =
      Some (None, h3)"
    using s h3 by (auto simp: attach_listener_def Let_def mark_policy_def i_def)
  then have "attach_marks run t plans h = Some (None, h3)"
    using h2(1,2) unfolding attach_marks_def Let_def i_def [symmetric] v_def [symmetric] by simp
  ultimately show ?thesis
    by blast
qed

text \<open>C37. When the \<open>ip\<close> tool refuses the rule of a tunnel's listener, the start fails, and undoes the tunnels attached
  before: for each of their marks no rule is left.  What the failing tunnel has installed itself stays: every mark of its
  interface and its lanes keeps its rule, and the table its routes through the device.  This is for tunnels whose marks and
  tables are kept apart, as those of an accepted file are, with usable lanes, a listener with a mark and a table of its own,
  and a tool that refuses nothing else.\<close>
theorem failed_start_keeps_mark_rule:
  assumes "ip_behaves run rules routes" and "\<forall>g f a. \<not> fst (run (add_rule_args f (s5_mark s) a) g)"
    and "\<forall>n. n \<noteq> s5_mark s \<longrightarrow> ip_grants_mark run rules n"
    and "coherent (\<Union>(tunnel_steering ` set (us @ [t])))" and "\<forall>u\<in>set us. apart u t"
    and "lanes_usable table_for (us @ t # rest)"
    and "tg_socks5 t = Some s" and "if_route_marked (tg_interface t) \<noteq> Some (s5_mark s)"
    and "s5_table s \<noteq> if_route_table (tg_interface t)"
    and "(m, if_route_table (tg_interface t)) \<in> set (marked_routes t)"
    and "f \<in> set (if if_address6 (tg_interface t) = None then [''-4''] else [''-4'', ''-6''])"
  shows "\<exists>h'. start_marks run table_for (us @ t # rest) h = Some (None, h') \<and>
    (\<forall>u\<in>set us. \<forall>(n, b)\<in>set (marked_routes u). rules h' (''-4'', n) = [] \<and> rules h' (''-6'', n) = []) \<and>
    rules h' (f, m) = [if_route_table (tg_interface t)] \<and>
    routes h' (f, if_route_table (tg_interface t), DEVICE_METRIC) = Some (Dev (if_device (tg_interface t))) \<and>
    routes h' (f, if_route_table (tg_interface t), BLACKHOLE_METRIC) = Some Blackhole"
proof -
  let ?ts = "us @ t # rest" and ?a = "if_route_table (tg_interface t)"
  let ?all = "\<Union>(tunnel_steering ` set ?ts)" and ?G = "\<Union>(tunnel_steering ` set us)"
  obtain ps plans qs where zip: "zip ?ts (all_plans table_for ?ts) = ps @ (t, plans) # qs" "fst ` set ps = set us"
      "\<forall>(u, pls)\<in>set ps. tunnel_steering u \<subseteq> ?G \<and> fits_plans u pls \<and> (\<forall>pl\<in>set pls. plan_points pl \<inter> fst ` ?G = {})"
      "fits_plans t plans" "\<forall>pl\<in>set plans. plan_points pl \<inter> fst ` tunnel_steering t = {}"
    using plans_split [OF assms(6)] by (elim exE conjE) (rule that)
  have mark: "s5_mark s \<in> fst ` set (marked_routes t)"
    using assms(7,8) by (auto simp: marked_routes_def Let_def image_Un)
  have coh: "coherent ?G" "coherent (tunnel_steering t)"
    by (rule coherent_subset [OF assms(4)], force)+
  have grants: "\<forall>n\<in>fst ` ?G. ip_grants_mark run rules n"
  proof
    fix n
    assume "n \<in> fst ` ?G"
    then obtain u where u: "u \<in> set us" "n \<in> fst ` set (marked_routes u)"
      by (force simp: tunnel_steering_def)
    have "fst ` set (marked_routes u) \<inter> fst ` set (marked_routes t) = {}"
      using assms(5) u(1) unfolding apart_def by blast
    then have "n \<noteq> s5_mark s"
      using mark u(2) by blast
    then show "ip_grants_mark run rules n"
      using assms(3) by blast
  qed
  have none: "all_steered rules routes h {}"
    by (simp add: all_steered_def)
  obtain as h1 where h1: "attach_all_marks run ps [] h = Some (Some ([] @ as), h1)"
      "\<Union>(recorded ` set as) = (\<Union>t\<in>set us. set (marked_routes t))" "\<Union>(set ` at_lanes ` set as) \<subseteq> \<Union>(set ` snd ` set ps)"
    using attach_all_steers [OF assms(1) grants coh(1) empty_subsetI zip(3) none, of "[]"]
    unfolding zip(2) by (elim exE conjE) (rule that)
  obtain h2 where h2: "attach_marks run t plans h1 = Some (None, h2)" "all_steered rules routes h2 (own_steering t)"
    using attach_refused [OF assms(1-3,7-9) coh(2) zip(4,5)] by blast
  have points: "\<forall>x\<in>set as. \<forall>pl\<in>set (at_lanes x). plan_points pl \<subseteq> - fst ` ?all"
    by (rule attached_points_apart [OF assms(6)]) (use h1(3) zip(1) in auto)
  obtain h' where h': "tear_down_marks run as h2 = Some h'" "emptied rules routes (- fst ` ?all) (\<Union>(recorded ` set as)) h2 h'"
    using tear_down_empties [OF assms(1) points] by blast
  have "start_marks run table_for ?ts h = Some (None, h')"
    using attach_all_append [OF h1(1)] h2(1) h'(1) unfolding start_marks_def zip(1) by simp
  moreover have "rules h' (g, n) = []" if "u \<in> set us" "(n, b) \<in> set (marked_routes u)" "g \<in> set FAMILIES" for u n b g
  proof (rule emptied_marks(1) [OF h'(2) _ _ that(3)])
    show "n \<notin> - fst ` ?all"
      using that(1,2) unfolding tunnel_steering_pairs [symmetric] by force
    show "n \<in> fst ` \<Union>(recorded ` set as)"
      unfolding h1(2) using that(1,2) by force
  qed
  moreover have "steered rules routes h' f m ?a (if_device (tg_interface t))"
  proof (rule emptied_spares [OF h'(2)])
    have "(m, ?a, if_device (tg_interface t), if_address6 (tg_interface t) \<noteq> None) \<in> own_steering t"
      using assms(7-10) by (auto simp: marked_routes_def own_steering_def Let_def split: option.splits)
    then show "steered rules routes h2 f m ?a (if_device (tg_interface t))"
      using h2(2) assms(11) unfolding all_steered_def
      by (auto simp: policy_families_def FAMILIES_def split: if_splits)
    show "m \<notin> - fst ` ?all"
      using assms(10) unfolding tunnel_steering_pairs [symmetric] by force
    show "m \<notin> fst ` \<Union>(recorded ` set as)" "?a \<notin> snd ` \<Union>(recorded ` set as)"
      unfolding h1(2) using assms(5,10) unfolding apart_def by force+
  qed
  ultimately show ?thesis
    unfolding steered_def FAMILIES_def by fastforce
qed

text \<open>C40. The mark a lane's class is given in routing is not compared with the marks of the file.  When the interface
  steers that very mark, installing the mark route takes the lane's rule away: what the lane should let out by its
  own interface goes back into the tunnel.\<close>
theorem lane_rule_taken_by_mark_route:
  assumes "ip_behaves run rules routes" and "ip_grants run rules"
    and "tg_lanes t = [l]" and "la_mark l = None" and "la_egress l = Some e" and "la_table l = Some a"
    and "tg_socks5 t = None" and "if_route_marked (tg_interface t) = Some (lane_mark 0 (la_class l))"
  shows "\<exists>as h1. start_marks run table_for [t] h = Some (Some as, h1) \<and>
    rules h1 (''-4'', lane_mark 0 (la_class l)) = [if_route_table (tg_interface t)]"
proof -
  let ?i = "tg_interface t" and ?m = "lane_mark 0 (la_class l)"
  let ?p = "\<lparr>po_mark = ?m, po_table = if_route_table ?i, po_ipv6 = if_address6 ?i \<noteq> None\<rparr>"
  have "point_mark_at run ?m a LANE_RULE_PRIORITY h \<noteq> None"
    using run_while_unpoint [OF assms(1), of ?m a h] by (auto simp: point_mark_at_def)
  then obtain ok1 h1 where h1: "point_mark_at run ?m a LANE_RULE_PRIORITY h = Some (ok1, h1)"
    by auto
  obtain h2 where h2: "policy_apply run ?p (if_device ?i) h1 = Some (True, h2)"
      "\<forall>g\<in>set (policy_families ?p). steered rules routes h2 g ?m (if_route_table ?i) (if_device ?i)"
    using policy_apply_granted [OF assms(1), of ?p "if_device ?i" h1] assms(2) by (auto simp: ip_grants_def)
  then have "rules h2 (''-4'', ?m) = [if_route_table ?i]"
    by (simp add: policy_families_def FAMILIES_def steered_def)
  then show ?thesis
    using h1 h2(1) assms(3-8)
    by (simp add: start_marks_def all_plans_def lane_plans_def unwrap_or_def attach_marks_def attach_lane_def
        attach_marked_def attach_listener_def Let_def)
qed

lemma one_with_lanes:
  assumes "one decode name ri rp s5 [] = Inr t" and "lanes raw (ri_route_marked ri) (tg_socks5 t) = Inr ls"
  shows "one decode name ri rp s5 raw = Inr (t\<lparr>tg_lanes := ls\<rparr>)" and "if_route_marked (tg_interface t) = ri_route_marked ri"
  by (insert assms, unfold one_def Let_def,
      (auto simp: rbind_eq_Inr outer.defs lanes_def split: if_splits prod.splits)+)

text \<open>A listener whose table the tool refuses.\<close>

definition refusing_ip :: "u32 \<Rightarrow> toy_host tool" where
  "refusing_ip mark args h = (if args ! 3 = ''fwmark'' \<and> args ! 4 = show_u32 mark \<and> args ! 2 = ''add'' then (False, h) else toy_ip args h)"

definition sample_lane :: raw_lane where
  "sample_lane = \<lparr>rl_class = 10, rl_mark = None, rl_egress = Some ''wg0'', rl_table = Some 7\<rparr>"

lemma sample_marked:
  "\<exists>t. one sample_decode ''tunnel0'' (sample_interface ''paqetz0'' ''10.7.0.1/24'' 253 266)
      (sample_peer ''a'' ''192.0.2.1:443'') None [] = Inr t \<and> if_route_marked (tg_interface t) = Some 266 \<and>
    tg_socks5 t = None"
proof -
  have "parse_cidr ''10.7.0.1/24'' = Some (Ipv4 10 7 0 1, 24)"
    "read_ipv4 ''192.0.2.1:443'' = Some (Ipv4 192 0 2 1, '':443'')"
    "interface_name ''interface.device'' ''paqetz0'' = Inr ()"
    by code_simp+
  then obtain t where t: "one sample_decode ''tunnel0'' (sample_interface ''paqetz0'' ''10.7.0.1/24'' 253 266)
      (sample_peer ''a'' ''192.0.2.1:443'') None [] = Inr t"
    using sample_one [of "''10.7.0.1/24''" "Ipv4 10 7 0 1" 24 "''192.0.2.1:443''" "(Ipv4 192 0 2 1, 443)" "''paqetz0''"
        253 266 "''tunnel0''" "''a''"]
    by (auto simp: parse_socket_v4_def read_socket_v4_def sample_port whole_def)
  have s5: "tg_socks5 t = None"
    using one_parts(5) [OF t] by (simp add: option_of_def)
  have "if_route_marked (tg_interface t) = Some 266"
    using one_with_lanes(2) [OF t, of "[]" "[]"] by (simp add: lanes_def sample_interface_def)
  then show ?thesis
    using t s5 by blast
qed

text \<open>The reader accepts such a file: mark 266 is that of class 10 in the first tunnel.\<close>
theorem lane_rule_taken_by_mark_route_witness:
  "\<exists>t as h1. one sample_decode ''tunnel0'' (sample_interface ''paqetz0'' ''10.7.0.1/24'' 253 266)
      (sample_peer ''a'' ''192.0.2.1:443'') None [sample_lane] = Inr t \<and>
    start_marks toy_ip (\<lambda>_. None) [t] (\<lambda>_. [], \<lambda>_. None) = Some (Some as, h1) \<and>
    fst h1 (''-4'', 266) = [if_route_table (tg_interface t)]"
proof -
  obtain t where t: "one sample_decode ''tunnel0'' (sample_interface ''paqetz0'' ''10.7.0.1/24'' 253 266)
      (sample_peer ''a'' ''192.0.2.1:443'') None [] = Inr t" "if_route_marked (tg_interface t) = Some 266" "tg_socks5 t = None"
    using sample_marked by blast
  define l where "l = \<lparr>la_class = 10, la_mark = None, la_egress = Some ''wg0'', la_table = Some 7\<rparr>"
  have "lanes [sample_lane] (ri_route_marked (sample_interface ''paqetz0'' ''10.7.0.1/24'' 253 266)) (tg_socks5 t) = Inr [l]"
    by (simp add: lanes_def check_lane_def sample_lane_def LANE_CLASSES_def lane_of_def l_def)
  note accepted = one_with_lanes(1) [OF t(1) this]
  have mark: "lane_mark 0 (la_class l) = 266"
    by (simp add: lane_mark_def l_def LANE_MARK_BASE_def)
  have fields: "tg_lanes (t\<lparr>tg_lanes := [l]\<rparr>) = [l]" "la_mark l = None" "la_egress l = Some ''wg0''" "la_table l = Some 7"
      "tg_socks5 (t\<lparr>tg_lanes := [l]\<rparr>) = None"
      "if_route_marked (tg_interface (t\<lparr>tg_lanes := [l]\<rparr>)) = Some (lane_mark 0 (la_class l))"
    using t(2,3) mark by (simp_all add: l_def)
  obtain as h1 where run: "start_marks toy_ip (\<lambda>_. None) [t\<lparr>tg_lanes := [l]\<rparr>] (\<lambda>_. [], \<lambda>_. None) = Some (Some as, h1)"
      "fst h1 (''-4'', 266) = [if_route_table (tg_interface (t\<lparr>tg_lanes := [l]\<rparr>))]"
    using lane_rule_taken_by_mark_route [OF toy_ip_behaves toy_ip_grants fields, of "\<lambda>_. None" "(\<lambda>_. [], \<lambda>_. None)", unfolded mark]
    by (elim exE conjE) (rule that)
  show ?thesis
    by (rule exI [of _ "t\<lparr>tg_lanes := [l]\<rparr>"], rule exI [of _ as], rule exI [of _ h1], intro conjI accepted run)
qed

lemma refusing_ip_behaves: "ip_behaves (refusing_ip mark) fst snd"
proof -
  have refused: "refusing_ip mark args h = (False, h) \<or> refusing_ip mark args h = toy_ip args h" for args h
    by (simp add: refusing_ip_def)
  have same: "refusing_ip mark (del_rule_args f m) h = toy_ip (del_rule_args f m) h"
    "refusing_ip mark (point_args ''del'' m t pr) h = toy_ip (point_args ''del'' m t pr) h"
    "refusing_ip mark (device_route_args f d t) h = toy_ip (device_route_args f d t) h"
    "refusing_ip mark (blackhole_args f t) h = toy_ip (blackhole_args f t) h"
    "refusing_ip mark (del_device_args f d t) h = toy_ip (del_device_args f d t) h"
    "refusing_ip mark (del_blackhole_args f t) h = toy_ip (del_blackhole_args f t) h"
    "refusing_ip mark (point_args ''add'' m t pr) h = toy_ip (point_args ''add'' m t pr) h" for f d t m pr h
    by (simp_all add: refusing_ip_def del_rule_args_def point_args_def device_route_args_def blackhole_args_def
        del_device_args_def del_blackhole_args_def)
  have add: "case refusing_ip mark (add_rule_args f m t) h of (ok, h') \<Rightarrow> snd h' = snd h \<and>
      fst h' = (if ok then (fst h)((f, m) := t # fst h (f, m)) else fst h)" for f m t h
  proof -
    obtain ok h' where toy: "toy_ip (add_rule_args f m t) h = (ok, h')"
      by (cases "toy_ip (add_rule_args f m t) h")
    show ?thesis
      using ip_steps(1) [OF toy_ip_behaves toy] toy refused [of "add_rule_args f m t" h] by auto
  qed
  show ?thesis
    unfolding ip_behaves_def same
    by (intro allI, rule conjI [OF _ toy_ip_behaves [unfolded ip_behaves_def, THEN spec, THEN conjunct2]], intro allI add)
qed

lemma refusing_ip_refuses: "\<forall>h f a. \<not> fst (refusing_ip mark (add_rule_args f mark a) h)"
  by (simp add: refusing_ip_def add_rule_args_def)

lemma refusing_ip_grants:
  assumes "m \<noteq> mark"
  shows "ip_grants_mark (refusing_ip mark) fst m"
proof -
  have "show_u32 m \<noteq> show_u32 mark"
    using assms toy_num_show_nat unfolding show_u32_def by (metis unsigned_word_eqI)
  then show ?thesis
    unfolding ip_grants_mark_def
    by (auto simp: refusing_ip_def toy_ip_def add_rule_args_def device_route_args_def blackhole_args_def Let_def split: prod.splits)
qed

text \<open>A listener with a mark and a table of its own.\<close>

definition sample_listener :: socks5 where
  "sample_listener = \<lparr>s5_listen = Listen4 (Ipv4 127 0 0 1, 1080), s5_mark = 99, s5_table = 99, s5_credentials = None, s5_dns = None\<rparr>"

text \<open>The two tunnels of the sample file, the second one with such a listener: the rule of the first is gone, that of the
  second is left.\<close>
theorem failed_start_keeps_mark_rule_witness:
  "\<exists>p t u h'. config_parse toy_crypto id sample_decode sample_raw = Inr p \<and> pc_tunnels p = [t, u] \<and>
    start_marks (refusing_ip 99) (\<lambda>_. None) [t, u\<lparr>tg_socks5 := Some sample_listener\<rparr>] (\<lambda>_. [], \<lambda>_. None) = Some (None, h') \<and>
    marked_routes t = [(81, 81)] \<and> fst h' (''-4'', 81) = [] \<and> fst h' (''-4'', 82) = [82]"
proof -
  obtain p t u where p: "config_parse toy_crypto id sample_decode sample_raw = Inr p" "pc_tunnels p = [t, u]"
      "marked_routes t = [(81, 81)]" "marked_routes u = [(82, 82)]" "t \<noteq> u" "tg_lanes t = []" "tg_lanes u = []" "tg_socks5 u = None"
    using sample_accepted by (elim exE conjE) (rule that)
  define x where "x = u\<lparr>tg_socks5 := Some sample_listener\<rparr>"
  have same: "tg_interface x = tg_interface u" "tg_peer x = tg_peer u" "tg_name x = tg_name u" "tg_lanes x = []"
      "tg_socks5 x = Some sample_listener"
    using p(7) by (simp_all add: x_def)
  have marked: "if_route_marked (tg_interface u) = Some 82" "if_route_table (tg_interface u) = 82"
    using p(4,7,8) by (auto simp: marked_routes_def map_filter_simps Let_def split: option.splits)
  have routes: "marked_routes x = [(82, 82), (99, 99)]"
    using marked by (simp add: marked_routes_def same map_filter_simps sample_listener_def)
  have "apart t u"
    using accepted_apart [OF p(1), of t u] p(2,5) by simp
  then have apart: "\<forall>y\<in>set [t]. apart y x"
    using p(3) routes by (simp add: apart_def same)
  have coherent: "coherent (\<Union>(tunnel_steering ` set ([t] @ [x])))"
    using p(3) routes by (auto simp: coherent_def tunnel_steering_def)
  have lanes: "lanes_usable (\<lambda>_. None) ([t] @ x # [])"
    using p(6) same(4) by (simp add: lanes_usable_def)
  have refuses: "\<forall>h f a. \<not> fst (refusing_ip 99 (add_rule_args f (s5_mark sample_listener) a) h)"
    using refusing_ip_refuses [of 99] by (simp add: sample_listener_def)
  have grants: "\<forall>n. n \<noteq> s5_mark sample_listener \<longrightarrow> ip_grants_mark (refusing_ip 99) fst n"
    using refusing_ip_grants by (simp add: sample_listener_def)
  have own: "if_route_marked (tg_interface x) \<noteq> Some (s5_mark sample_listener)"
      "s5_table sample_listener \<noteq> if_route_table (tg_interface x)" "(82, if_route_table (tg_interface x)) \<in> set (marked_routes x)"
      "''-4'' \<in> set (if if_address6 (tg_interface x) = None then [''-4''] else [''-4'', ''-6''])"
    using marked routes by (simp_all add: same sample_listener_def)
  obtain h' where h': "start_marks (refusing_ip 99) (\<lambda>_. None) ([t] @ x # []) (\<lambda>_. [], \<lambda>_. None) = Some (None, h')"
      "\<forall>y\<in>set [t]. \<forall>(n, b)\<in>set (marked_routes y). fst h' (''-4'', n) = [] \<and> fst h' (''-6'', n) = []"
      "fst h' (''-4'', 82) = [if_route_table (tg_interface x)]"
    using failed_start_keeps_mark_rule [OF refusing_ip_behaves refuses grants coherent apart lanes same(5) own,
        of "(\<lambda>_. [], \<lambda>_. None)"] by (elim exE conjE) (rule that)
  have "fst h' (''-4'', 81) = []"
    using h'(2) p(3) by simp
  moreover have "fst h' (''-4'', 82) = [82]"
    using h'(3) marked(2) same(1) by simp
  moreover have "start_marks (refusing_ip 99) (\<lambda>_. None) [t, u\<lparr>tg_socks5 := Some sample_listener\<rparr>] (\<lambda>_. [], \<lambda>_. None) = Some (None, h')"
    using h'(1) unfolding x_def by simp
  ultimately show ?thesis
    using p(1-3) by (intro exI [of _ p] exI [of _ t] exI [of _ u] exI [of _ h'] conjI)
qed

end
