(* ===== verification/Spec2Isabelle.thy ===== *)
theory Spec2Isabelle
  imports Idle Socks Attach
begin

text \<open>
  \<^bold>\<open>paqetz\<close> is a point-to-point layer-3 tunnel written in Rust.  Packets read from a TUN device are sealed
  by a Noise session, framed, and sent inside packets that look like something else: segments of a TCP
  connection no kernel knows of, GRE, pings, or bare IPv4.  The peer captures them from the wire below its
  own stack, opens them and writes the inner packets to its device.  This development models the core of that
  program and proves what makes it correct.

  \<^bold>\<open>The program and the theories.\<close>  All paths are under \<^verbatim>\<open>src/crates/\<close>.

  \<^item> Shared vocabulary: \<open>Prelude\<close> (words for the machine integers, checked slice access, results as
    sums, byte encodings).

  \<^item> Cryptographic core (\<^verbatim>\<open>paqetz-core\<close>): \<open>Replay\<close> is \<^verbatim>\<open>replay.rs\<close>, the sliding window; \<open>Framing\<close> is
    \<^verbatim>\<open>framing.rs\<close>, \<^verbatim>\<open>keys.rs\<close> and the errors of \<^verbatim>\<open>lib.rs\<close>; \<open>Noise\<close> is \<^verbatim>\<open>noise.rs\<close>, the handshake, the
    sessions and the numbers derived from keys.

  \<^item> The outer packets (\<^verbatim>\<open>paqetz-tcpwire\<close>): \<open>Checksum\<close>, \<open>Profile\<close>, \<open>Segment\<close>, \<open>Cover\<close>, \<open>Endpoint\<close>,
    \<open>Rawip\<close> and \<open>Toobig\<close> are the files of the same names; \<open>Conversation\<close> holds what two endpoints do
    over time; \<open>Carrier\<close> is the contract that every shape of outer packet fulfils.

  \<^item> The data path (\<^verbatim>\<open>paqetz-dp\<close>): \<open>Bpf\<close> is \<^verbatim>\<open>bpf.rs\<close> with an interpreter for its programs, \<open>Gso\<close> is
    \<^verbatim>\<open>gso.rs\<close>, \<open>Neigh\<close> is \<^verbatim>\<open>neigh.rs\<close>.

  \<^item> The tunnel (\<^verbatim>\<open>paqetz/src\<close>): \<open>Repeat\<close> is \<^verbatim>\<open>repeat.rs\<close>.  \<^verbatim>\<open>tunnel.rs\<close> is spread over \<open>Wire\<close> (the
    carriers behind one interface), \<open>Peer\<close> (\<^verbatim>\<open>PeerState\<close>, rotation, the ledger of answered SYNs),
    \<open>Tunnel\<close> (the state, the checks on inner packets, sealing, sending, writing to the device), \<open>Timers\<close>
    (everything the timer thread does), \<open>Inbound\<close> (every handler of a captured frame) and \<open>Outbound\<close> (the
    loops that read the device).  \<open>Reach\<close> and \<open>Runs\<close> are the runs of a whole tunnel and their invariants;
    \<open>Delivery\<close> puts two tunnels together, \<open>Idle\<close> follows one between its handshakes.

  \<^item> The configuration (\<^verbatim>\<open>paqetz/src/config.rs\<close>): \<open>Addrtext\<close> reads addresses, \<open>Config\<close> is every check
    from the deserialized file to the settings and the choice of firewall guard of \<^verbatim>\<open>main.rs\<close>, \<open>Accepted\<close>
    what an accepted file guarantees.

  \<^item> What is arranged on the host: \<open>Hostrules\<close> is the \<^verbatim>\<open>iptables\<close> side of \<^verbatim>\<open>paqetz-fw\<close> (\<^verbatim>\<open>rules.rs\<close>,
    \<^verbatim>\<open>lib.rs\<close>), the pointing of a mark at a table (\<^verbatim>\<open>gateway.rs\<close>) and the policy routing of
    \<^verbatim>\<open>paqetz-net4/src/route.rs\<close>; \<open>Attach\<close> is what \<^verbatim>\<open>main.rs\<close> does with them for the marks of every tunnel.

  \<^item> The SOCKS5 front end (\<^verbatim>\<open>paqetz-net4\<close>): \<open>Dns\<close> is \<^verbatim>\<open>dns.rs\<close>; \<open>Socks\<close> is \<^verbatim>\<open>protocol.rs\<close>, the choice of
    targets of \<^verbatim>\<open>dial.rs\<close> and one client of \<^verbatim>\<open>server.rs\<close>.

  \<^bold>\<open>How code became definitions.\<close>  A struct is a \<open>record\<close>, an enum a \<open>datatype\<close>, a method a function
  that takes the state and returns it updated with the result; an error is \<open>Inl\<close> of a sum or \<open>None\<close>.  Integers
  keep their width as words wherever they wrap or saturate; lengths and offsets of slices are \<open>nat\<close>, since a
  slice never reaches \<open>isize::MAX\<close>.  A method of \<open>Tunnel\<close> is a function on the whole tunnel: frames handed to
  the network and writes handed to the device are appended to logs, in order.  The mutex around \<open>PeerState\<close>
  makes each handler, timer and send one step; the step relation of \<open>Reach\<close> is any interleaving of such steps.
  Where the source releases the lock and takes it again within one of them (a keepalive, a move, the handling of a
  transport packet), what other threads may do in between is not modelled.

  \<^bold>\<open>What is a parameter.\<close>  BLAKE2s and ChaCha8 (\<open>crypto\<close>), the \<^verbatim>\<open>snow\<close> crate's handshake and transport
  states (\<open>snow\<close> with \<open>'hs\<close> and \<open>'tr\<close>), the base64 engine and the derivation of public keys are arguments, with
  what is relied on as hypotheses: lengths of outputs, that a matching pair of Noise states opens what the other
  sealed, and nothing about secrecy.  The clock, random numbers and the outcome of every system call come from
  \<open>environment\<close>; a method reads the clock once.  For the front end, \<open>dns_net\<close> and \<open>dialer\<close> are records of
  what the network answers; \<^verbatim>\<open>iptables\<close> and \<^verbatim>\<open>ip\<close> are functions on an abstract host, \<open>iptables_behaves\<close> and
  \<open>ip_behaves\<close> say what adding, deleting and replacing do to it.  Every theorem with such a hypothesis has a witness that instantiates it.

  \<^bold>\<open>Interfaces.\<close>  \<open>replay_filter\<close> (a filter that refines a set of accepted counters; interpreted as \<open>rw\<close> on
  the window), \<open>carrier\<close> (what is sent is received; interpreted as \<open>raw\<close> on the shells and as \<open>wire\<close> on the
  tunnel's carriers), \<open>repeat_store\<close> (what was recorded is found while it is young; \<open>ob\<close> on the outbox) and
  \<open>tunnel_invariant\<close> (what every operation of a tunnel preserves; interpreted as \<open>shape\<close>, \<open>pool\<close> and \<open>route\<close>
  in \<open>Runs\<close>) each state their laws once; the clients' lemmas are proved inside them.

  \<^bold>\<open>What the theorems show.\<close>
  \<^item> Packets: a packet handed to one tunnel is written to the device of the other, for every carrier shape
    and way of opening (\<open>Delivery\<close>, under conditions it lists); a burst is accounted as the kernel
    took it; the record headers of a burst announce what follows them; grouping device writes changes nothing the device emits; lost packets are asked for
    lawfully, as long as the session does not change, and repaired.
  \<^item> Safety: in every run only permitted sources reach the device, the carrier keeps its configured shape and
    the ports stay in the pool the capture filter accepts; no counter is accepted twice and no nonce used twice;
    what does not authenticate changes nothing; an idle tunnel falls silent between its handshakes and moves.
  \<^item> The wire: emitted packets parse back and their checksums verify; the capture program accepts exactly its
    frames; decoy flights are recognised exactly; the TCP opening leaves both ends numbered alike, and
    data keeps them so unless a record header is in front.
  \<^item> The host: an accepted configuration can be run, its tunnels do not take each other's traffic, and which of
    them the firewall rules name; the rules around the outer packets and the policy routes of all marks are
    installed whatever was left behind, and taken back, when the lanes are usable and the tools refuse nothing;
    where a failed start or a lane's mark breaks this is shown too; the next hop is the longest prefix; the front end dials nothing for a client
    without credentials, serves one client per association, and believes only its own resolver.

  \<^bold>\<open>Bounds and fuel.\<close>  Recursion is structural or has a measure (the checksum fold, the option walk, decoy
  records, compressed names, UTF-8).  The one fuel argument is that of \<open>send_flight\<close>, which sends a flight in
  segments: it is the length of the flight, enough because a segment takes at least one byte; only for a segment
  size of zero, where the loop of the source would not end, does the model stop instead.  A command that is repeated
  for as long as it succeeds (\<open>run_while\<close>) is a \<open>partial_function\<close>, and that it ends is proved.  No theorem is
  conditional on fuel.

  \<^bold>\<open>Not modelled.\<close>  Threads, sockets, signals, the TUN device and the other system calls (\<^verbatim>\<open>rx.rs\<close>, \<^verbatim>\<open>tx.rs\<close>,
  \<^verbatim>\<open>tx_afpacket.rs\<close>, \<^verbatim>\<open>tun.rs\<close>, \<^verbatim>\<open>sys.rs\<close>, starting, reloading and stopping a tunnel, the SOCKS5 accept and relay
  loops): they are I/O around the functions modelled here.  TOML deserialization and the texts of messages.  The
  scripts for \<^verbatim>\<open>nft\<close>, the forwarding and address translation of \<^verbatim>\<open>gateway.rs\<close>, the routes of a whole host, and
  what drives \<^verbatim>\<open>systemctl\<close> and \<^verbatim>\<open>wg\<close> (\<^verbatim>\<open>warp.rs\<close>, \<^verbatim>\<open>service.rs\<close>, \<^verbatim>\<open>networkd.rs\<close>, \<^verbatim>\<open>update.rs\<close>, \<^verbatim>\<open>xray.rs\<close>): text
  for other programs to interpret.  The
  interactive set-up and diagnosis (\<^verbatim>\<open>setup.rs\<close>, \<^verbatim>\<open>doctor.rs\<close>, \<^verbatim>\<open>probe.rs\<close>, \<^verbatim>\<open>migrate.rs\<close>), logging and the
  health line.  Key generation, zeroization and the strength of the cryptography.
\<close>

end
